(* ===== verification/Prelude.thy ===== *)
theory Prelude
  imports Main "HOL-Library.Word"
begin

text \<open>
  Shared vocabulary of the development: the machine types the sources use, the
  error numbers of the kernel interface, the named collections of rewrite and
  introduction rules the component theories fill, and the generic lemmas on
  words, circular indices and bounded searches that more than one component
  needs.
\<close>

unbundle bit_operations_syntax

section \<open>Machine types\<close>

type_synonym u8 = "8 word"
type_synonym u16 = "16 word"
type_synonym u32 = "32 word"
type_synonym u64 = "64 word"

text \<open>
  The negative \<^verbatim>\<open>errno\<close> results of the file operations are the left summand of
  their result type.
\<close>

datatype errno = EPERM | EINTR | EIO | ENXIO | EAGAIN | EFAULT | EBUSY | EINVAL

fun errno_code :: "errno \<Rightarrow> int" where
  "errno_code EPERM = 1"
| "errno_code EINTR = 4"
| "errno_code EIO = 5"
| "errno_code ENXIO = 6"
| "errno_code EAGAIN = 11"
| "errno_code EFAULT = 14"
| "errno_code EBUSY = 16"
| "errno_code EINVAL = 22"

text \<open>The pages of the SPARC reference MMU have 4096 bytes.\<close>

definition PAGE_SHIFT :: nat where "PAGE_SHIFT = 12"
definition PAGE_SIZE :: u32 where "PAGE_SIZE = 0x1000"
definition PAGE_MASK :: u32 where "PAGE_MASK = 0xfffff000"

section \<open>Named collections\<close>

named_theorems layout_simps \<open>definitions of the bit and byte layouts\<close>

section \<open>Strings\<close>

text \<open>The string a character buffer holds: everything before its first NUL.\<close>

definition cstr :: "string \<Rightarrow> string" where
  "cstr b = takeWhile (\<lambda>c. c \<noteq> CHR 0x00) b"

section \<open>Circular indices\<close>

text \<open>
  An index into an array of \<open>n\<close> slots that wraps around. \<open>cdist n t h\<close> is the number
  of slots from \<open>t\<close> forward to \<open>h\<close>.
\<close>

definition cdist :: "nat \<Rightarrow> nat \<Rightarrow> nat \<Rightarrow> nat" where
  "cdist n t h = (if t \<le> h then h - t else n - t + h)"

lemma cdist_less: "t < n \<Longrightarrow> h < n \<Longrightarrow> cdist n t h < n"
  by (auto simp: cdist_def)

lemma cdist_0_iff: "t < n \<Longrightarrow> h < n \<Longrightarrow> cdist n t h = 0 \<longleftrightarrow> t = h"
  by (auto simp: cdist_def)

lemma cdist_end: "t < n \<Longrightarrow> h < n \<Longrightarrow> (t + cdist n t h) mod n = h"
  by (auto simp: cdist_def)

lemma Suc_mod_if: "i < n \<Longrightarrow> Suc i mod n = (if Suc i = n then 0 else Suc i)"
  by auto

lemma cdist_Suc_head:
  assumes "t < n" "h < n" "Suc h mod n \<noteq> t"
  shows "cdist n t (Suc h mod n) = Suc (cdist n t h)"
  using assms by (auto simp: cdist_def Suc_mod_if split: if_splits)

lemma cdist_Suc_tail:
  assumes "t < n" "h < n" "t \<noteq> h"
  shows "cdist n t h = Suc (cdist n (Suc t mod n) h)"
  using assms by (auto simp: cdist_def Suc_mod_if split: if_splits)

lemma cdist_offset_neq:
  assumes "t < n" "h < n" "i < cdist n t h"
  shows "(t + i) mod n \<noteq> h"
proof
  assume eq: "(t + i) mod n = h"
  show False
  proof (cases "t + i < n")
    case True
    with eq assms show ?thesis by (auto simp: cdist_def split: if_splits)
  next
    case False
    with assms have "i < n" using cdist_less [of t n h] by simp
    with False assms(1) have "(t + i) mod n = t + i - n"
      by (simp add: mod_if)
    with eq False assms \<open>i < n\<close> show ?thesis by (auto simp: cdist_def split: if_splits)
  qed
qed

section \<open>Words\<close>

text \<open>Narrowing a word that was widened gives it back.\<close>

lemma ucast_ucast_id:
  "LENGTH('a::len) \<le> LENGTH('b::len) \<Longrightarrow> (ucast (ucast (w :: 'a word) :: 'b word) :: 'a word) = w"
  by (rule bit_word_eqI) (simp add: bit_simps)

text \<open>A word has no bit at or beyond its width.\<close>

lemma not_bit_beyond: "LENGTH('a::len) \<le> n \<Longrightarrow> \<not> bit (w :: 'a word) n"
  using bit_imp_le_length [of w n] by auto

lemma Suc_Suc_minus_2: "2 \<le> n \<Longrightarrow> Suc (Suc (n - 2)) = n"
  by simp

end
