(* ===== verification/Ring.thy ===== *)
theory Ring
  imports Prelude
begin

text \<open>
  The ring buffers of \<^verbatim>\<open>kernel/include/asm-sparc/meiko/can.h\<close>: the two struct types
  (one of packets, one of characters, here one polymorphic record), the
  \<^verbatim>\<open>RING_*\<close> macros, and the four access functions built from them in
  \<^verbatim>\<open>can_main.c\<close> and \<^verbatim>\<open>can_console.c\<close>. The interface the rest of the driver relies on, a
  FIFO of bounded capacity, is the locale \<open>bounded_fifo\<close>; the access functions
  are its interpretations.

  The array is a function on indices, of which the code uses those below
  \<^verbatim>\<open>MAXRING\<close> only (\<open>ring_wf\<close> keeps both indices there). The spinlock fields
  themselves are the kernel's; their \<^verbatim>\<open>use_\<close> flags are kept.
\<close>

section \<open>The struct and its macros\<close>

definition MAXRING :: nat where "MAXRING = 1024"

record 'a ringbuf =
  buf :: "nat \<Rightarrow> 'a"
  head :: nat
  tail :: nat
  use_inlock :: bool
  use_outlock :: bool

definition RING_NEXT :: "nat \<Rightarrow> nat" where
  "RING_NEXT n = (n + 1) mod MAXRING"

definition RING_FULL :: "'a ringbuf \<Rightarrow> bool" where
  "RING_FULL rb \<longleftrightarrow> RING_NEXT (head rb) = tail rb"

definition RING_EMPTY :: "'a ringbuf \<Rightarrow> bool" where
  "RING_EMPTY rb \<longleftrightarrow> head rb = tail rb"

definition RING_ROOM :: "'a ringbuf \<Rightarrow> int" where
  "RING_ROOM rb =
     (if int (tail rb) - int (head rb) \<le> 0
      then int MAXRING - int (head rb) + int (tail rb) - 1
      else int (tail rb) - int (head rb) - 1)"

definition RING_INIT :: "'a ringbuf \<Rightarrow> 'a ringbuf" where
  "RING_INIT rb = rb\<lparr>head := 0, tail := 0, use_inlock := False, use_outlock := False\<rparr>"

definition RING_CLEAR :: "'a ringbuf \<Rightarrow> 'a ringbuf" where
  "RING_CLEAR rb = rb\<lparr>head := 0, tail := 0\<rparr>"

definition RING_INIT_INLOCK :: "'a ringbuf \<Rightarrow> 'a ringbuf" where
  "RING_INIT_INLOCK rb = rb\<lparr>use_inlock := True\<rparr>"

definition RING_HEADPP :: "'a ringbuf \<Rightarrow> 'a ringbuf" where
  "RING_HEADPP rb = rb\<lparr>head := RING_NEXT (head rb)\<rparr>"

definition RING_TAILPP :: "'a ringbuf \<Rightarrow> 'a ringbuf" where
  "RING_TAILPP rb = rb\<lparr>tail := RING_NEXT (tail rb)\<rparr>"

definition RING_IN :: "'a ringbuf \<Rightarrow> 'a \<Rightarrow> 'a ringbuf" where
  "RING_IN rb x = RING_HEADPP (rb\<lparr>buf := (buf rb)(head rb := x)\<rparr>)"

definition RING_OUT :: "'a ringbuf \<Rightarrow> 'a \<times> 'a ringbuf" where
  "RING_OUT rb = (buf rb (tail rb), RING_TAILPP rb)"

definition RING_SIZE :: "'a ringbuf \<Rightarrow> int" where
  "RING_SIZE rb =
     (if int (head rb) - int (tail rb) \<ge> 0 then int (head rb) - int (tail rb)
      else int MAXRING - int (tail rb) + int (head rb))"

lemmas ring_defs = RING_FULL_def RING_EMPTY_def RING_IN_def RING_OUT_def RING_HEADPP_def
  RING_TAILPP_def RING_NEXT_def

section \<open>The access functions\<close>

text \<open>
  \<^verbatim>\<open>pkt_to_ring\<close> and \<^verbatim>\<open>char_to_ring\<close> return 0 when the buffer is full; \<^verbatim>\<open>ring_to_pkt\<close> and
  \<^verbatim>\<open>ring_to_char\<close> return 0, and leave their output argument alone, when it is
  empty.
\<close>

definition pkt_to_ring :: "'a \<Rightarrow> 'a ringbuf \<Rightarrow> bool \<times> 'a ringbuf" where
  "pkt_to_ring pkt r = (if RING_FULL r then (False, r) else (True, RING_IN r pkt))"

definition ring_to_pkt :: "'a ringbuf \<Rightarrow> ('a \<times> 'a ringbuf) option" where
  "ring_to_pkt r = (if RING_EMPTY r then None else Some (RING_OUT r))"

definition char_to_ring :: "u8 \<Rightarrow> u8 ringbuf \<Rightarrow> bool \<times> u8 ringbuf" where
  "char_to_ring c r = (if RING_FULL r then (False, r) else (True, RING_IN r c))"

definition ring_to_char :: "u8 ringbuf \<Rightarrow> (u8 \<times> u8 ringbuf) option" where
  "ring_to_char r = (if RING_EMPTY r then None else Some (RING_OUT r))"

definition clear_ring :: "u8 ringbuf \<Rightarrow> u8 ringbuf" where
  "clear_ring r = RING_CLEAR r"

text \<open>
  Two loops recur in the driver: take elements off a queue until it is empty or
  \<open>n\<close> have been taken, and put the elements of a list on a queue, ignoring refusals.
\<close>

fun deq_upto :: "('q \<Rightarrow> ('a \<times> 'q) option) \<Rightarrow> nat \<Rightarrow> 'q \<Rightarrow> 'a list \<times> 'q" where
  "deq_upto deq 0 q = ([], q)"
| "deq_upto deq (Suc n) q =
     (case deq q of
        None \<Rightarrow> ([], q)
      | Some (x, q') \<Rightarrow> (case deq_upto deq n q' of (xs, q'') \<Rightarrow> (x # xs, q'')))"

fun enq_list :: "('a \<Rightarrow> 'q \<Rightarrow> bool \<times> 'q) \<Rightarrow> 'a list \<Rightarrow> 'q \<Rightarrow> 'q" where
  "enq_list enq [] q = q"
| "enq_list enq (x # xs) q = enq_list enq xs (snd (enq x q))"

section \<open>The interface: a FIFO of bounded capacity\<close>

locale bounded_fifo =
  fixes enq :: "'a \<Rightarrow> 'q \<Rightarrow> bool \<times> 'q"
    and deq :: "'q \<Rightarrow> ('a \<times> 'q) option"
    and contents :: "'q \<Rightarrow> 'a list"
    and wf :: "'q \<Rightarrow> bool"
    and cap :: nat
  assumes contents_le: "wf q \<Longrightarrow> length (contents q) \<le> cap"
    and enq_room: "wf q \<Longrightarrow> length (contents q) < cap \<Longrightarrow>
      \<exists>q'. enq x q = (True, q') \<and> wf q' \<and> contents q' = contents q @ [x]"
    and enq_full: "wf q \<Longrightarrow> length (contents q) = cap \<Longrightarrow> enq x q = (False, q)"
    and deq_empty: "wf q \<Longrightarrow> contents q = [] \<Longrightarrow> deq q = None"
    and deq_first: "wf q \<Longrightarrow> contents q = x # xs \<Longrightarrow>
      \<exists>q'. deq q = Some (x, q') \<and> wf q' \<and> contents q' = xs"
begin

lemma enq_cases:
  assumes "wf q"
  obtains (room) q' where "length (contents q) < cap" "enq x q = (True, q')" "wf q'"
      "contents q' = contents q @ [x]"
  | (full) "length (contents q) = cap" "enq x q = (False, q)"
  using assms enq_room [of q x] enq_full [of q x] contents_le [of q] by fastforce

lemma deq_cases:
  assumes "wf q"
  obtains (none) "contents q = []" "deq q = None"
  | (some) x q' where "deq q = Some (x, q')" "wf q'" "contents q = x # contents q'"
  using assms deq_empty [of q] deq_first [of q] by (cases "contents q") auto

lemma wf_enq: "wf q \<Longrightarrow> wf (snd (enq x q))"
  by (rule enq_cases [of q x]) auto

lemma fst_enq_iff: "wf q \<Longrightarrow> fst (enq x q) \<longleftrightarrow> length (contents q) < cap"
  by (erule enq_cases [of q x]) auto

lemma contents_enq:
  "wf q \<Longrightarrow> contents (snd (enq x q)) = contents q @ (if fst (enq x q) then [x] else [])"
  by (erule enq_cases [of q x]) auto

lemma deq_Some_iff:
  "wf q \<Longrightarrow> deq q = Some (x, q') \<Longrightarrow> wf q' \<and> contents q = x # contents q'"
  by (erule deq_cases) auto

lemma deq_None_iff: "wf q \<Longrightarrow> deq q = None \<longleftrightarrow> contents q = []"
  by (erule deq_cases) auto

lemma deq_upto_spec:
  assumes "wf q"
  shows "fst (deq_upto deq n q) = take n (contents q)
    \<and> contents (snd (deq_upto deq n q)) = drop n (contents q)
    \<and> wf (snd (deq_upto deq n q))"
  using assms
proof (induction n arbitrary: q)
  case 0
  then show ?case by simp
next
  case (Suc n)
  from Suc.prems show ?case
  proof (cases rule: deq_cases)
    case none
    with Suc.prems show ?thesis by simp
  next
    case (some x q')
    with Suc.IH [of q'] show ?thesis by (auto split: prod.splits)
  qed
qed

lemma enq_list_spec:
  assumes "wf q"
  shows "contents (enq_list enq xs q) = contents q @ take (cap - length (contents q)) xs
    \<and> wf (enq_list enq xs q)"
  using assms
proof (induction xs arbitrary: q)
  case Nil
  then show ?case by simp
next
  case (Cons x xs)
  from Cons.prems show ?case
  proof (cases rule: enq_cases [of q x])
    case (room q')
    then have "cap - length (contents q) = Suc (cap - length (contents q'))" by simp
    with room Cons.IH [of q'] show ?thesis by simp
  next
    case full
    with Cons.IH [of q] Cons.prems show ?thesis by simp
  qed
qed

end

section \<open>The ring implements the interface\<close>

definition ring_wf :: "'a ringbuf \<Rightarrow> bool" where
  "ring_wf r \<longleftrightarrow> head r < MAXRING \<and> tail r < MAXRING"

definition ring_list :: "'a ringbuf \<Rightarrow> 'a list" where
  "ring_list r =
     map (\<lambda>i. buf r ((tail r + i) mod MAXRING)) [0..<cdist MAXRING (tail r) (head r)]"

lemma length_ring_list [simp]: "length (ring_list r) = cdist MAXRING (tail r) (head r)"
  by (simp add: ring_list_def)

lemma ring_empty_iff: "ring_wf r \<Longrightarrow> RING_EMPTY r \<longleftrightarrow> ring_list r = []"
  by (auto simp: ring_wf_def RING_EMPTY_def ring_list_def cdist_0_iff)

lemma ring_full_iff:
  assumes "ring_wf r"
  shows "RING_FULL r \<longleftrightarrow> length (ring_list r) = MAXRING - 1"
  using assms by (auto simp: ring_wf_def ring_defs cdist_def MAXRING_def Suc_mod_if split: if_splits)

lemma ring_in_list:
  assumes wf: "ring_wf r" and room: "\<not> RING_FULL r"
  shows "ring_list (RING_IN r x) = ring_list r @ [x]" and "ring_wf (RING_IN r x)"
proof -
  let ?d = "cdist MAXRING (tail r) (head r)"
  have "cdist MAXRING (tail r) (RING_NEXT (head r)) = Suc ?d"
    using wf room by (simp add: ring_wf_def ring_defs cdist_Suc_head)
  moreover have "((tail r + i) mod MAXRING \<noteq> head r)" if "i < ?d" for i
    using wf that by (simp add: ring_wf_def cdist_offset_neq)
  ultimately show "ring_list (RING_IN r x) = ring_list r @ [x]"
    using wf by (simp add: ring_list_def RING_IN_def RING_HEADPP_def ring_wf_def cdist_end)
  show "ring_wf (RING_IN r x)"
    using wf by (simp add: ring_wf_def ring_defs MAXRING_def)
qed

lemma ring_out_list:
  assumes wf: "ring_wf r" and ne: "\<not> RING_EMPTY r"
  shows "ring_list r = fst (RING_OUT r) # ring_list (snd (RING_OUT r))"
    and "ring_wf (snd (RING_OUT r))"
proof -
  have t: "tail r < MAXRING" using wf by (simp add: ring_wf_def)
  have d: "cdist MAXRING (tail r) (head r) = Suc (cdist MAXRING (RING_NEXT (tail r)) (head r))"
    using wf ne by (simp add: ring_wf_def ring_defs cdist_Suc_tail)
  show "ring_list r = fst (RING_OUT r) # ring_list (snd (RING_OUT r))"
    using t unfolding ring_list_def d
    by (simp add: RING_OUT_def RING_TAILPP_def RING_NEXT_def upt_conv_Cons map_Suc_upt [symmetric]
        comp_def mod_simps del: upt_Suc)
  show "ring_wf (snd (RING_OUT r))"
    using wf by (simp add: ring_wf_def ring_defs MAXRING_def)
qed

lemma ring_bounded_fifo:
  "bounded_fifo (\<lambda>x r. if RING_FULL r then (False, r) else (True, RING_IN r x))
     (\<lambda>r. if RING_EMPTY r then None else Some (RING_OUT r)) ring_list ring_wf (MAXRING - 1)"
proof
  fix q :: "'a ringbuf" assume "ring_wf q"
  then show "length (ring_list q) \<le> MAXRING - 1"
    using cdist_less [of "tail q" MAXRING "head q"] by (simp add: ring_wf_def)
next
  fix q :: "'a ringbuf" and x
  assume "ring_wf q" "length (ring_list q) < MAXRING - 1"
  then show "\<exists>q'. (if RING_FULL q then (False, q) else (True, RING_IN q x)) = (True, q')
      \<and> ring_wf q' \<and> ring_list q' = ring_list q @ [x]"
    using ring_in_list [of q x] by (simp add: ring_full_iff)
next
  fix q :: "'a ringbuf" and x xs
  assume "ring_wf q" "ring_list q = x # xs"
  then show "\<exists>q'. (if RING_EMPTY q then None else Some (RING_OUT q)) = Some (x, q')
      \<and> ring_wf q' \<and> ring_list q' = xs"
    using ring_out_list [of q] by (cases "RING_OUT q") (auto simp: ring_empty_iff)
qed (auto simp: ring_full_iff ring_empty_iff)

interpretation pktq: bounded_fifo pkt_to_ring ring_to_pkt ring_list ring_wf "MAXRING - 1"
  using ring_bounded_fifo by (simp add: pkt_to_ring_def [abs_def] ring_to_pkt_def [abs_def])

interpretation charq: bounded_fifo char_to_ring ring_to_char ring_list ring_wf "MAXRING - 1"
  using ring_bounded_fifo by (simp add: char_to_ring_def [abs_def] ring_to_char_def [abs_def])

lemma ring_wf_init [simp]: "ring_wf (RING_INIT r)" "ring_wf (RING_CLEAR r)"
  by (simp_all add: ring_wf_def RING_INIT_def RING_CLEAR_def MAXRING_def)

lemma ring_list_init [simp]: "ring_list (RING_INIT r) = []" "ring_list (RING_CLEAR r) = []"
  by (simp_all add: ring_list_def RING_INIT_def RING_CLEAR_def cdist_def)

lemma ring_inlock [simp]:
  "ring_wf (RING_INIT_INLOCK r) = ring_wf r" "ring_list (RING_INIT_INLOCK r) = ring_list r"
  by (simp_all add: ring_wf_def ring_list_def RING_INIT_INLOCK_def)

lemma clear_ring_simps [simp]: "ring_wf (clear_ring r)" "ring_list (clear_ring r) = []"
  by (simp_all add: clear_ring_def)

lemma ring_size_length: "ring_wf r \<Longrightarrow> RING_SIZE r = int (length (ring_list r))"
  by (auto simp: ring_wf_def RING_SIZE_def cdist_def MAXRING_def)

lemma ring_room_length: "ring_wf r \<Longrightarrow> RING_ROOM r = int MAXRING - 1 - int (length (ring_list r))"
  by (auto simp: ring_wf_def RING_ROOM_def cdist_def MAXRING_def)

declare length_ring_list [simp del]

section \<open>Refinement of a list\<close>

text \<open>
  A client's sequence of calls, run on the ring and on the list it stands for. A put
  returns its success flag, a get the element or nothing.
\<close>

datatype 'a qop = Put 'a | Get

datatype 'a qres = PutRes bool | GetRes "'a option"

fun run_ring :: "'a qop list \<Rightarrow> 'a ringbuf \<Rightarrow> 'a qres list" where
  "run_ring [] r = []"
| "run_ring (Put x # ops) r = (case pkt_to_ring x r of (ok, r') \<Rightarrow> PutRes ok # run_ring ops r')"
| "run_ring (Get # ops) r =
     (case ring_to_pkt r of
        None \<Rightarrow> GetRes None # run_ring ops r
      | Some (x, r') \<Rightarrow> GetRes (Some x) # run_ring ops r')"

fun run_list :: "'a qop list \<Rightarrow> 'a list \<Rightarrow> 'a qres list" where
  "run_list [] xs = []"
| "run_list (Put x # ops) xs =
     (if length xs < MAXRING - 1 then PutRes True # run_list ops (xs @ [x])
      else PutRes False # run_list ops xs)"
| "run_list (Get # ops) [] = GetRes None # run_list ops []"
| "run_list (Get # ops) (x # xs) = GetRes (Some x) # run_list ops xs"

lemma run_ring_list: "ring_wf r \<Longrightarrow> run_ring ops r = run_list ops (ring_list r)"
proof (induction ops arbitrary: r)
  case (Cons op ops)
  show ?case
  proof (cases op)
    case (Put x)
    from Cons.prems show ?thesis
      by (cases rule: pktq.enq_cases [where x = x])
        (simp_all add: Put Cons.IH Cons.prems)
  next
    case Get
    from Cons.prems show ?thesis
      by (cases rule: pktq.deq_cases) (simp_all add: Get Cons.IH Cons.prems)
  qed
qed simp

text \<open>
  C2 (ring_refines_list): the ring buffer refines a first-in first-out list of at most
  1023 elements. After \<^verbatim>\<open>RING_INIT\<close>, every sequence of \<^verbatim>\<open>pkt_to_ring\<close> and \<^verbatim>\<open>ring_to_pkt\<close>
  calls returns what the list returns, whatever the buffer held before.
\<close>

theorem ring_refines_list: "run_ring ops (RING_INIT r) = run_list ops []"
  by (simp add: run_ring_list)

end
