(* ===== verification/RingConc.thy ===== *)
theory RingConc
  imports Ring
begin

text \<open>
  The concurrency note at the head of \<^verbatim>\<open>can_main.c\<close>: \<^verbatim>\<open>pkt_to_ring\<close> and \<^verbatim>\<open>ring_to_pkt\<close> are
  safe against each other but not against themselves. The access functions are
  split into their memory accesses (test the indices, store or load the slot,
  advance the index), and the steps of any number of producers and of one consumer
  interleave freely. The locks that the note announces are compiled out
  (\<^verbatim>\<open>#if 0\<close>), so no step takes one.
\<close>

section \<open>The interleaving\<close>

datatype 'a ppc = PIdle | PChecked 'a | PStored 'a

datatype 'a cpc = CIdle | CChecked | CLoaded 'a

record 'a conc =
  rb :: "'a ringbuf"
  ppcs :: "nat \<Rightarrow> 'a ppc"
  cpc :: "'a cpc"
  sent :: "'a list"
  rcvd :: "'a list"

text \<open>
  \<open>sent\<close> and \<open>rcvd\<close> record the packets whose \<^verbatim>\<open>pkt_to_ring\<close>, or \<^verbatim>\<open>ring_to_pkt\<close>, call has
  completed with result 1, in the order of completion.
\<close>

inductive conc_step :: "nat set \<Rightarrow> 'a conc \<Rightarrow> 'a conc \<Rightarrow> bool" for P where
  p_check: "i \<in> P \<Longrightarrow> ppcs s i = PIdle \<Longrightarrow> \<not> RING_FULL (rb s) \<Longrightarrow>
     conc_step P s (s\<lparr>ppcs := (ppcs s)(i := PChecked x)\<rparr>)"
| p_store: "i \<in> P \<Longrightarrow> ppcs s i = PChecked x \<Longrightarrow>
     conc_step P s (s\<lparr>rb := (rb s)\<lparr>buf := (buf (rb s))(head (rb s) := x)\<rparr>,
                      ppcs := (ppcs s)(i := PStored x)\<rparr>)"
| p_advance: "i \<in> P \<Longrightarrow> ppcs s i = PStored x \<Longrightarrow>
     conc_step P s (s\<lparr>rb := RING_HEADPP (rb s), ppcs := (ppcs s)(i := PIdle),
                      sent := sent s @ [x]\<rparr>)"
| c_check: "cpc s = CIdle \<Longrightarrow> \<not> RING_EMPTY (rb s) \<Longrightarrow> conc_step P s (s\<lparr>cpc := CChecked\<rparr>)"
| c_load: "cpc s = CChecked \<Longrightarrow>
     conc_step P s (s\<lparr>cpc := CLoaded (buf (rb s) (tail (rb s)))\<rparr>)"
| c_advance: "cpc s = CLoaded y \<Longrightarrow>
     conc_step P s (s\<lparr>rb := RING_TAILPP (rb s), cpc := CIdle, rcvd := rcvd s @ [y]\<rparr>)"

definition conc_init :: "'a ringbuf \<Rightarrow> 'a conc" where
  "conc_init r = \<lparr>rb = RING_INIT r, ppcs = (\<lambda>_. PIdle), cpc = CIdle, sent = [], rcvd = []\<rparr>"

inductive conc_reach :: "nat set \<Rightarrow> 'a ringbuf \<Rightarrow> 'a conc \<Rightarrow> bool" for P r where
  start: "conc_reach P r (conc_init r)"
| step: "conc_reach P r s \<Longrightarrow> conc_step P s t \<Longrightarrow> conc_reach P r t"

section \<open>One producer and one consumer\<close>

definition spsc_inv :: "nat \<Rightarrow> 'a conc \<Rightarrow> bool" where
  "spsc_inv i s \<longleftrightarrow>
     ring_wf (rb s) \<and> sent s = rcvd s @ ring_list (rb s) \<and>
     (\<forall>j. j \<noteq> i \<longrightarrow> ppcs s j = PIdle) \<and>
     (ppcs s i \<noteq> PIdle \<longrightarrow> \<not> RING_FULL (rb s)) \<and>
     (\<forall>x. ppcs s i = PStored x \<longrightarrow> buf (rb s) (head (rb s)) = x) \<and>
     (cpc s \<noteq> CIdle \<longrightarrow> \<not> RING_EMPTY (rb s)) \<and>
     (\<forall>y. cpc s = CLoaded y \<longrightarrow> buf (rb s) (tail (rb s)) = y)"

lemma ring_list_store:
  "ring_wf r \<Longrightarrow> ring_list (r\<lparr>buf := (buf r)(head r := x)\<rparr>) = ring_list r"
  using cdist_offset_neq [of "tail r" MAXRING "head r"]
  by (simp add: ring_list_def ring_wf_def)

lemma ring_list_headpp:
  assumes "ring_wf r" "\<not> RING_FULL r"
  shows "ring_list (RING_HEADPP r) = ring_list r @ [buf r (head r)]" "ring_wf (RING_HEADPP r)"
  using ring_in_list [OF assms, of "buf r (head r)"] by (simp_all add: RING_IN_def)

lemma ring_list_tailpp:
  assumes "ring_wf r" "\<not> RING_EMPTY r"
  shows "ring_list r = buf r (tail r) # ring_list (RING_TAILPP r)" "ring_wf (RING_TAILPP r)"
  using ring_out_list [OF assms] by (simp_all add: RING_OUT_def)

lemma headpp_not_empty: "ring_wf r \<Longrightarrow> \<not> RING_FULL r \<Longrightarrow> \<not> RING_EMPTY (RING_HEADPP r)"
  by (simp add: ring_empty_iff ring_list_headpp)

lemma tailpp_not_full:
  assumes "ring_wf r" "\<not> RING_EMPTY r"
  shows "\<not> RING_FULL (RING_TAILPP r)"
proof -
  have "length (ring_list r) = Suc (length (ring_list (RING_TAILPP r)))"
    by (simp only: ring_list_tailpp(1) [OF assms]) simp
  moreover have "length (ring_list r) \<le> MAXRING - 1"
    using assms(1) by (rule pktq.contents_le)
  ultimately show ?thesis
    by (simp add: ring_full_iff ring_list_tailpp(2) [OF assms])
qed

lemma RING_store_simps [simp]:
  "RING_FULL (r\<lparr>buf := f\<rparr>) = RING_FULL r" "RING_EMPTY (r\<lparr>buf := f\<rparr>) = RING_EMPTY r"
  "ring_wf (r\<lparr>buf := f\<rparr>) = ring_wf r"
  by (simp_all add: ring_defs ring_wf_def)

lemma RING_pp_simps [simp]:
  "buf (RING_HEADPP r) = buf r" "tail (RING_HEADPP r) = tail r"
  "buf (RING_TAILPP r) = buf r" "head (RING_TAILPP r) = head r"
  by (simp_all add: RING_HEADPP_def RING_TAILPP_def)

lemma spsc_step_inv:
  assumes "conc_step {i} s t" "spsc_inv i s"
  shows "spsc_inv i t"
  using assms
proof (induction rule: conc_step.induct)
  case (p_store j s x)
  then have "tail (rb s) \<noteq> head (rb s)" if "cpc s \<noteq> CIdle"
    using that by (auto simp: spsc_inv_def RING_EMPTY_def)
  with p_store show ?case
    by (auto simp: spsc_inv_def ring_list_store)
next
  case (p_advance j s x)
  then show ?case
    by (auto simp: spsc_inv_def ring_list_headpp headpp_not_empty)
next
  case (c_advance s y)
  then have "\<not> RING_EMPTY (rb s)" "ring_wf (rb s)" by (auto simp: spsc_inv_def)
  with c_advance show ?case
    using ring_list_tailpp [of "rb s"] tailpp_not_full [of "rb s"]
    by (auto simp: spsc_inv_def)
qed (auto simp: spsc_inv_def)

lemma spsc_reach_inv: "conc_reach {i} r s \<Longrightarrow> spsc_inv i s"
proof (induction rule: conc_reach.induct)
  case start
  show ?case by (simp add: conc_init_def spsc_inv_def)
next
  case (step s t)
  then show ?case by (blast intro: spsc_step_inv)
qed

section \<open>Two producers\<close>

text \<open>
  Both producers test the same head, both store into the same slot, both advance:
  two calls return success and one packet is overwritten, while a slot nobody
  stored into becomes part of the queue.
\<close>

definition race_state :: "'a ringbuf \<Rightarrow> 'a \<Rightarrow> 'a \<Rightarrow> 'a conc" where
  "race_state r x y =
     \<lparr>rb = (RING_INIT r)\<lparr>buf := (buf r)(0 := y), head := 2\<rparr>,
      ppcs = (\<lambda>_. PIdle), cpc = CIdle, sent = [x, y], rcvd = []\<rparr>"

lemma race_reach: "conc_reach {0, 1} r (race_state r x y)"
proof -
  let ?r0 = "RING_INIT r"
  let ?s0 = "conc_init r"
  let ?s1 = "?s0\<lparr>ppcs := (ppcs ?s0)(0 := PChecked x)\<rparr>"
  let ?s2 = "?s1\<lparr>ppcs := (ppcs ?s1)(1 := PChecked y)\<rparr>"
  let ?s3 = "?s2\<lparr>rb := ?r0\<lparr>buf := (buf r)(0 := x)\<rparr>, ppcs := (ppcs ?s2)(0 := PStored x)\<rparr>"
  let ?s4 = "?s3\<lparr>rb := ?r0\<lparr>buf := (buf r)(0 := y)\<rparr>, ppcs := (ppcs ?s3)(1 := PStored y)\<rparr>"
  let ?s5 = "?s4\<lparr>rb := RING_HEADPP (rb ?s4), ppcs := (ppcs ?s4)(0 := PIdle), sent := [x]\<rparr>"
  let ?s6 = "?s5\<lparr>rb := RING_HEADPP (rb ?s5), ppcs := (ppcs ?s5)(1 := PIdle), sent := [x, y]\<rparr>"
  note ini = conc_init_def RING_INIT_def ring_defs MAXRING_def
  have 1: "conc_step {0, 1} ?s0 ?s1" by (rule p_check) (simp_all add: ini)
  have 2: "conc_step {0, 1} ?s1 ?s2" by (rule p_check) (simp_all add: ini)
  have 3: "conc_step {0, 1} ?s2 ?s3"
    using p_store [of 0 "{0, 1}" ?s2 x] by (simp add: ini)
  have 4: "conc_step {0, 1} ?s3 ?s4"
    using p_store [of 1 "{0, 1}" ?s3 y] by (simp add: ini)
  have 5: "conc_step {0, 1} ?s4 ?s5"
    using p_advance [of 0 "{0, 1}" ?s4 x] by (simp add: ini)
  have 6: "conc_step {0, 1} ?s5 ?s6"
    using p_advance [of 1 "{0, 1}" ?s5 y] by (simp add: ini)
  have "conc_reach {0, 1} r ?s6"
    using conc_reach.start 1 2 3 4 5 6 by (meson conc_reach.step)
  moreover have "?s6 = race_state r x y"
    by (simp add: race_state_def ini fun_eq_iff)
  ultimately show ?thesis by simp
qed

lemma race_ring_list: "ring_list (rb (race_state r x y)) = [y, buf r 1]"
  by (simp add: race_state_def ring_list_def RING_INIT_def cdist_def MAXRING_def upt_rec)

section \<open>What this means for the packets\<close>

lemma one_put_reach:
  "\<exists>s. conc_reach {0} r s \<and> sent s = [x]"
proof -
  let ?s0 = "conc_init r"
  let ?s1 = "?s0\<lparr>ppcs := (ppcs ?s0)(0 := PChecked x)\<rparr>"
  let ?s2 = "?s1\<lparr>rb := (rb ?s1)\<lparr>buf := (buf (rb ?s1))(head (rb ?s1) := x)\<rparr>,
                 ppcs := (ppcs ?s1)(0 := PStored x)\<rparr>"
  let ?s3 = "?s2\<lparr>rb := RING_HEADPP (rb ?s2), ppcs := (ppcs ?s2)(0 := PIdle), sent := sent ?s2 @ [x]\<rparr>"
  note ini = conc_init_def RING_INIT_def ring_defs MAXRING_def
  have "conc_step {0} ?s0 ?s1" by (rule p_check) (simp_all add: ini)
  moreover have "conc_step {0} ?s1 ?s2" by (rule p_store) simp_all
  moreover have "conc_step {0} ?s2 ?s3" by (rule p_advance) simp_all
  ultimately have "conc_reach {0} r ?s3" using conc_reach.start by (meson conc_reach.step)
  then show ?thesis by (intro exI [of _ ?s3]) (simp add: conc_init_def)
qed

definition zero_ring :: "nat ringbuf" where
  "zero_ring = \<lparr>buf = (\<lambda>_. 0), head = 0, tail = 0, use_inlock = False, use_outlock = False\<rparr>"

text \<open>
  C27 (single_producer_fifo): with one producer and one consumer no lock is needed. In
  every interleaving of their memory accesses the packets sent are the packets
  received followed by those in the ring, so none is lost, duplicated, reordered
  or invented, and at most 1023 are in the ring.
\<close>

theorem single_producer_fifo:
  assumes "conc_reach {i} r s"
  shows "sent s = rcvd s @ ring_list (rb s) \<and> length (ring_list (rb s)) \<le> MAXRING - 1"
  using spsc_reach_inv [OF assms] pktq.contents_le [of "rb s"] by (simp add: spsc_inv_def)

theorem single_producer_fifo_witness:
  "\<exists>s. conc_reach {0} zero_ring s \<and> sent s = [7]
     \<and> (sent s = rcvd s @ ring_list (rb s) \<and> length (ring_list (rb s)) \<le> MAXRING - 1)"
proof -
  obtain s where s: "conc_reach {0} zero_ring s" "sent s = [7]"
    using one_put_reach [of zero_ring 7] by blast
  then show ?thesis using single_producer_fifo [OF s(1)] by (intro exI [of _ s] conjI) simp_all
qed

text \<open>
  With two producers, which the note says occur on both the
  inbound and the outbound queue, the missing locks matter. There is an
  interleaving after which both \<^verbatim>\<open>pkt_to_ring\<close> calls have returned success, for \<open>x\<close> and
  then for \<open>y\<close>, nothing has been received, and the ring holds \<open>y\<close> and whatever was in
  the slot behind it: \<open>x\<close> is lost and a packet nobody sent is in the queue.
\<close>

theorem two_producers_lose:
  "\<exists>s. conc_reach {0, 1} r s \<and> (\<forall>i. ppcs s i = PIdle) \<and> cpc s = CIdle \<and> rcvd s = []
     \<and> sent s = [x, y] \<and> ring_list (rb s) = [y, buf r 1]"
  by (intro exI [of _ "race_state r x y"] conjI race_reach race_ring_list) (simp_all add: race_state_def)

end
