(* ===== verification/Packet.thy ===== *)
theory Packet
  imports Prelude
begin

text \<open>
  The packet format of \<^verbatim>\<open>kernel/include/asm-sparc/meiko/can.h\<close>: the CAN header, the
  Meiko extended header, the payload union and \<^verbatim>\<open>struct can_packet\<close>, with the byte
  views the driver copies to and from the chip. Bit fields are words of exactly
  the declared width, so an assignment to a field truncates as it does in C. The
  unions are laid out as the SPARC compiler lays them out: big endian, bit fields
  allocated from the most significant bit.
\<close>

section \<open>Constants\<close>

definition HB_CAN_RUNNING :: u32 where "HB_CAN_RUNNING = 0x07"
definition HB_IAM_FACTOR :: u32 where "HB_IAM_FACTOR = 0x77"

definition CAN_MODULE_H8 :: u32 where "CAN_MODULE_H8 = 0x1d"
definition CAN_HIGH_PRIORITY :: "1 word" where "CAN_HIGH_PRIORITY = 0"

definition CANTYPE_RO :: "3 word" where "CANTYPE_RO = 0"
definition CANTYPE_WO :: "3 word" where "CANTYPE_WO = 1"
definition CANTYPE_WNA :: "3 word" where "CANTYPE_WNA = 2"
definition CANTYPE_DAT :: "3 word" where "CANTYPE_DAT = 3"
definition CANTYPE_ACK :: "3 word" where "CANTYPE_ACK = 4"
definition CANTYPE_NAK :: "3 word" where "CANTYPE_NAK = 6"
definition CANTYPE_SIG :: "3 word" where "CANTYPE_SIG = 7"

lemmas CANTYPE_defs = CANTYPE_RO_def CANTYPE_WO_def CANTYPE_WNA_def CANTYPE_DAT_def
  CANTYPE_ACK_def CANTYPE_NAK_def CANTYPE_SIG_def

definition CANOBJ_HEARTBEAT :: "10 word" where "CANOBJ_HEARTBEAT = 0x31"
definition CANOBJ_IAM :: "10 word" where "CANOBJ_IAM = 0x76"
definition CANOBJ_CONSMIN :: int where "CANOBJ_CONSMIN = 0x100"
definition CANOBJ_CONSMAX :: int where "CANOBJ_CONSMAX = 0x1ff"
definition CANOBJ_FORCE_DISCONN :: "10 word" where "CANOBJ_FORCE_DISCONN = 0x3ef"
definition CANOBJ_CONSOLE_CONNECT :: "10 word" where "CANOBJ_CONSOLE_CONNECT = 0x3f0"
definition CANOBJ_CONSOLE_DISCONN :: "10 word" where "CANOBJ_CONSOLE_DISCONN = 0x3f1"
definition CANOBJ_BREAK :: "10 word" where "CANOBJ_BREAK = 0x3f3"
definition CANOBJ_AUTOBOOT :: "10 word" where "CANOBJ_AUTOBOOT = 0x3e3"
definition CANOBJ_RESET_IO :: "10 word" where "CANOBJ_RESET_IO = 0x3f2"
definition CANOBJ_BOOT_DEV :: "10 word" where "CANOBJ_BOOT_DEV = 0x3f4"
definition CANOBJ_TESTRW :: "10 word" where "CANOBJ_TESTRW = 0x3ff"

lemmas CANOBJ_defs = CANOBJ_HEARTBEAT_def CANOBJ_IAM_def CANOBJ_FORCE_DISCONN_def
  CANOBJ_CONSOLE_CONNECT_def CANOBJ_CONSOLE_DISCONN_def CANOBJ_BREAK_def
  CANOBJ_AUTOBOOT_def CANOBJ_RESET_IO_def CANOBJ_BOOT_DEV_def CANOBJ_TESTRW_def

section \<open>Headers, payload and packet\<close>

record can_header_std =
  lpriority :: "1 word"
  dest :: "5 word"
  src :: "5 word"
  remote :: "1 word"
  clength :: "4 word"

record can_header_ext =
  xpriority :: "1 word"
  ctype :: "3 word"
  cluster :: "6 word"
  module :: "6 word"
  node :: "6 word"
  object :: "10 word"

text \<open>The payload union is kept as its 32-bit view \<^verbatim>\<open>dat\<close>; the other views are functions of it.\<close>

type_synonym can_dat = u32

record can_packet =
  timestamp :: u32
  can :: can_header_std
  ext :: can_header_ext
  dat :: can_dat

section \<open>The union views\<close>

text \<open>\<^verbatim>\<open>can_header.can_b\<close>: the two bytes of the standard header, and the header two bytes make.\<close>

definition can_b :: "can_header_std \<Rightarrow> u8 \<times> u8" where
  "can_b h =
     (push_bit 7 (ucast (lpriority h)) OR push_bit 2 (ucast (dest h)) OR
        drop_bit 3 (ucast (src h)),
      push_bit 5 (ucast (src h)) OR push_bit 4 (ucast (remote h)) OR ucast (clength h))"

definition of_can_b :: "u8 \<Rightarrow> u8 \<Rightarrow> can_header_std" where
  "of_can_b b0 b1 =
     \<lparr>lpriority = ucast (drop_bit 7 b0), dest = ucast (drop_bit 2 b0),
      src = push_bit 3 (ucast b0) OR ucast (drop_bit 5 b1),
      remote = ucast (drop_bit 4 b1), clength = ucast b1\<rparr>"

text \<open>\<^verbatim>\<open>can_header_ext.ext_dat\<close>: the extended header as one 32-bit word, and back.\<close>

definition ext_dat :: "can_header_ext \<Rightarrow> u32" where
  "ext_dat h =
     push_bit 31 (ucast (xpriority h)) OR push_bit 28 (ucast (ctype h)) OR
     push_bit 22 (ucast (cluster h)) OR push_bit 16 (ucast (module h)) OR
     push_bit 10 (ucast (node h)) OR ucast (object h)"

definition of_ext_dat :: "u32 \<Rightarrow> can_header_ext" where
  "of_ext_dat w =
     \<lparr>xpriority = ucast (drop_bit 31 w), ctype = ucast (drop_bit 28 w),
      cluster = ucast (drop_bit 22 w), module = ucast (drop_bit 16 w),
      node = ucast (drop_bit 10 w), object = ucast w\<rparr>"

text \<open>The byte views \<^verbatim>\<open>ext_b\<close> and \<^verbatim>\<open>dat_b\<close> of a 32-bit word, most significant byte first.\<close>

definition byte_of :: "u32 \<Rightarrow> nat \<Rightarrow> u8" where
  "byte_of w i = ucast (drop_bit (8 * (3 - i)) w)"

definition of_bytes :: "u8 \<Rightarrow> u8 \<Rightarrow> u8 \<Rightarrow> u8 \<Rightarrow> u32" where
  "of_bytes b0 b1 b2 b3 =
     push_bit 24 (ucast b0) OR push_bit 16 (ucast b1) OR push_bit 8 (ucast b2) OR ucast b3"

text \<open>Storing one byte of the payload view, as \<^verbatim>\<open>pkt.dat.dat_b[i] = c\<close> does.\<close>

definition set_dat_b :: "u32 \<Rightarrow> nat \<Rightarrow> u8 \<Rightarrow> u32" where
  "set_dat_b w i c =
     (w AND NOT (push_bit (8 * (3 - i)) (mask 8))) OR push_bit (8 * (3 - i)) (ucast c)"

abbreviation dat_ext :: "can_dat \<Rightarrow> can_header_ext" where
  "dat_ext w \<equiv> of_ext_dat w"

section \<open>Node addresses\<close>

definition UNPACK_NODE :: "u32 \<Rightarrow> u32" where
  "UNPACK_NODE i = i AND 0x1f"

definition UNPACK_MODULE :: "u32 \<Rightarrow> u32" where
  "UNPACK_MODULE i = drop_bit 6 i AND 0x1f"

definition UNPACK_CLUSTER :: "u32 \<Rightarrow> u32" where
  "UNPACK_CLUSTER i = drop_bit 12 i AND 0x1f"

definition CAN_GET_BOARD_H8 :: "u32 \<Rightarrow> u32" where
  "CAN_GET_BOARD_H8 n = drop_bit 2 n + 0x10"

definition CANCON_UNCONNECTED :: "can_header_ext \<Rightarrow> bool" where
  "CANCON_UNCONNECTED x \<longleftrightarrow> cluster x = 0x3f \<and> module x = 0x3f \<and> cluster x = 0x3f"

definition CAN_VALID_CONSOBJ :: "int \<Rightarrow> bool" where
  "CAN_VALID_CONSOBJ c \<longleftrightarrow> c \<ge> CANOBJ_CONSMIN \<and> c \<le> CANOBJ_CONSMAX"

section \<open>Layout check\<close>

text \<open>\<open>offset\<close> gives the offsets the compiler assigns to the fields of \<^verbatim>\<open>struct can_packet\<close>.\<close>

definition can_checkalign :: "(string \<Rightarrow> int) \<Rightarrow> int" where
  "can_checkalign offset =
     (if offset ''timestamp'' + 4 \<noteq> offset ''can'' then -1
      else if offset ''can'' + 4 \<noteq> offset ''ext'' then -1
      else if offset ''ext'' + 4 \<noteq> offset ''dat'' then -1 else 0)"

section \<open>The views are bijections\<close>

lemmas view_defs [layout_simps] = of_ext_dat_def ext_dat_def of_can_b_def can_b_def
  of_bytes_def byte_of_def set_dat_b_def

lemma of_ext_dat_ext_dat [simp]: "of_ext_dat (ext_dat h) = h"
  by (cases h) (auto simp: layout_simps bit_simps not_bit_beyond intro!: bit_word_eqI)

lemma ext_dat_of_ext_dat [simp]: "ext_dat (of_ext_dat w) = w"
proof (rule bit_word_eqI)
  fix n assume "n < LENGTH(32)"
  then consider "n < 10" | "10 \<le> n" "n < 16" | "16 \<le> n" "n < 22" | "22 \<le> n" "n < 28"
    | "28 \<le> n" "n < 31" | "n = 31"
    by fastforce
  then show "bit (ext_dat (of_ext_dat w)) n = bit w n"
    by cases (simp_all add: ext_dat_def of_ext_dat_def bit_simps, auto)
qed

lemma of_can_b_can_b [simp]: "of_can_b (fst (can_b h)) (snd (can_b h)) = h"
  by (cases h) (auto simp: of_can_b_def can_b_def bit_simps not_bit_beyond intro!: bit_word_eqI)

lemma can_b_of_can_b [simp]: "can_b (of_can_b a b) = (a, b)"
proof -
  have "bit (fst (can_b (of_can_b a b))) n = bit a n" if "n < 8" for n
  proof -
    from that consider "n < 2" | "2 \<le> n" "n < 7" | "n = 7" by linarith
    then show ?thesis
      by cases (auto simp: layout_simps bit_simps not_bit_beyond Suc_Suc_minus_2)
  qed
  moreover have "bit (snd (can_b (of_can_b a b))) n = bit b n" if "n < 8" for n
  proof -
    from that consider "n < 4" | "n = 4" | "5 \<le> n" by linarith
    then show ?thesis
      using that by cases (auto simp: layout_simps bit_simps not_bit_beyond)
  qed
  ultimately show ?thesis
    by (auto simp: prod_eq_iff intro!: bit_word_eqI)
qed

lemma of_bytes_byte_of [simp]:
  "of_bytes (byte_of w 0) (byte_of w (Suc 0)) (byte_of w 2) (byte_of w 3) = w"
proof (rule bit_word_eqI)
  fix n assume "n < LENGTH(32)"
  then consider "n < 8" | "8 \<le> n" "n < 16" | "16 \<le> n" "n < 24" | "24 \<le> n" "n < 32"
    by fastforce
  then show "bit (of_bytes (byte_of w 0) (byte_of w (Suc 0)) (byte_of w 2) (byte_of w 3)) n = bit w n"
    by cases (auto simp: layout_simps bit_simps not_bit_beyond)
qed

lemma byte_of_of_bytes [simp]:
  "byte_of (of_bytes a b c d) 0 = a" "byte_of (of_bytes a b c d) (Suc 0) = b"
  "byte_of (of_bytes a b c d) 2 = c" "byte_of (of_bytes a b c d) 3 = d"
  by (auto simp: layout_simps bit_simps not_bit_beyond intro!: bit_word_eqI)

lemma byte_of_set_same [simp]: "byte_of (set_dat_b w i c) i = c"
  by (auto simp: layout_simps bit_simps not_bit_beyond intro!: bit_word_eqI)

lemma byte_of_set_other:
  assumes "i < 4" "j < 4" "i \<noteq> j"
  shows "byte_of (set_dat_b w i c) j = byte_of w j"
proof (rule bit_word_eqI)
  fix n assume n: "n < LENGTH(8)"
  have "\<not> (8 * (3 - i) \<le> 8 * (3 - j) + n \<and> 8 * (3 - j) + n - 8 * (3 - i) < 8)"
    using assms n by (simp; arith)
  moreover have "8 * (3 - j) + n < 32" using n assms by simp
  ultimately show "bit (byte_of (set_dat_b w i c) j) n = bit (byte_of w j) n"
    using n by (auto simp: layout_simps bit_simps not_bit_beyond)
qed

text \<open>
  The views of the header and payload unions are mutually inverse, so
  copying a packet byte by byte loses nothing: the standard header and its two bytes,
  the extended header and its 32-bit word, and a 32-bit word and its four bytes.
\<close>

theorem packet_views:
  "of_can_b (fst (can_b h)) (snd (can_b h)) = h \<and> can_b (of_can_b b0 b1) = (b0, b1)
   \<and> of_ext_dat (ext_dat x) = x \<and> ext_dat (of_ext_dat w) = w
   \<and> of_bytes (byte_of w 0) (byte_of w 1) (byte_of w 2) (byte_of w 3) = w
   \<and> map (byte_of (of_bytes a b c d)) [0, 1, 2, 3] = [a, b, c, d]"
  by simp

end
