(* ===== verification/Obp.thy ===== *)
theory Obp
  imports Prelude
begin

text \<open>
  The OpenBoot PROM helpers of \<^verbatim>\<open>kernel/include/asm-sparc/meiko/obp.h\<close>: path lookup,
  property access by full path name, and the conversion between the PROM's option
  strings and the numbers the CAN objects carry. The PROM itself (the
  \<^verbatim>\<open>prom_*\<close> calls of the kernel's \<^verbatim>\<open>arch/sparc/prom\<close>) is a parameter, the record
  \<open>prom_ops\<close> over an arbitrary type of PROM contents.
\<close>

section \<open>The PROM calls\<close>

text \<open>
  \<open>prom_getproperty p node name size\<close> is the return value (the property's size, or
  -1) and the characters it stores at the start of the caller's buffer of \<open>size\<close>
  characters; \<open>prom_setprop\<close> is the return value and the new contents.
\<close>

record 'p prom_ops =
  prom_root_node :: int
  prom_getchild :: "'p \<Rightarrow> int \<Rightarrow> int"
  prom_searchsiblings :: "'p \<Rightarrow> int \<Rightarrow> string \<Rightarrow> int"
  prom_node_has_property :: "'p \<Rightarrow> int \<Rightarrow> string \<Rightarrow> bool"
  prom_getproperty :: "'p \<Rightarrow> int \<Rightarrow> string \<Rightarrow> nat \<Rightarrow> int \<times> string"
  prom_setprop :: "'p \<Rightarrow> int \<Rightarrow> string \<Rightarrow> string \<Rightarrow> int \<times> 'p"

section \<open>Paths and option tables\<close>

definition OBP_AUTO_BOOT :: string where "OBP_AUTO_BOOT = ''/options/auto-boot?''"
definition OBP_BOOT_DEVICE :: string where "OBP_BOOT_DEVICE = ''/options/boot-device''"
definition OBP_INPUT_DEVICE :: string where "OBP_INPUT_DEVICE = ''/options/input-device''"
definition OBP_OUTPUT_DEVICE :: string where "OBP_OUTPUT_DEVICE = ''/options/output-device''"
definition OBP_CANCON_HOST :: string where "OBP_CANCON_HOST = ''/options/cancon-host''"
definition OBP_CAN_NODEID :: string where "OBP_CAN_NODEID = ''/obio/can/can-nodeid''"
definition OBP_CAN_MEIKO_BOARD_TYPE :: string where
  "OBP_CAN_MEIKO_BOARD_TYPE = ''/obio/can/can-meiko-board-type''"

definition OBP_MAX_PATHLEN :: nat where "OBP_MAX_PATHLEN = 80"
definition OBP_MAXSTR :: nat where "OBP_MAXSTR = 80"

definition OBP_BOOT_DEVICE_VALUES :: "string list" where
  "OBP_BOOT_DEVICE_VALUES =
     ['''', ''elan'', ''disk'', ''net'', ''disk0'', ''disk1'',
      ''disk2'', ''disk3'', ''can'', ''eip'']"

definition OBP_INPUT_DEVICE_VALUES :: "string list" where
  "OBP_INPUT_DEVICE_VALUES = [''keyboard'', ''can'', ''ttya'', ''ttyb'']"

definition OBP_OUTPUT_DEVICE_VALUES :: "string list" where
  "OBP_OUTPUT_DEVICE_VALUES = [''screen'', ''can'', ''ttya'', ''ttyb'']"

definition OBP_BOOLEAN :: "string list" where
  "OBP_BOOLEAN = [''false'', ''true'']"

section \<open>Strings to numbers and back\<close>

text \<open>A NULL-terminated table of names is the list of its names.\<close>

fun obp_strtonum_loop :: "string \<Rightarrow> string list \<Rightarrow> int \<Rightarrow> int" where
  "obp_strtonum_loop str [] i = -1"
| "obp_strtonum_loop str (n # names) i =
     (if n = str then i else obp_strtonum_loop str names (i + 1))"

definition obp_strtonum :: "string \<Rightarrow> string list \<Rightarrow> int" where
  "obp_strtonum str names = obp_strtonum_loop str names 0"

definition obp_numtostr :: "int \<Rightarrow> string list \<Rightarrow> string option" where
  "obp_numtostr num names =
     (if num \<ge> 0 \<and> num < int (length names) then Some (names ! nat num) else None)"

section \<open>Lookup by path\<close>

definition strchr_slash :: "string \<Rightarrow> bool" where
  "strchr_slash path \<longleftrightarrow> CHR ''/'' \<in> set path"

lemma length_after_slash:
  assumes "strchr_slash path"
  shows "length (tl (dropWhile (\<lambda>c. c \<noteq> CHR ''/'') path)) < length path"
proof -
  have "dropWhile (\<lambda>c. c \<noteq> CHR ''/'') path \<noteq> []"
    using assms by (simp add: strchr_slash_def dropWhile_eq_Nil_conv)
  then show ?thesis
    using length_dropWhile_le [of "\<lambda>c. c \<noteq> CHR ''/''" path] by (cases "dropWhile (\<lambda>c. c \<noteq> CHR ''/'') path") auto
qed

function obp_lookup_from :: "'p prom_ops \<Rightarrow> 'p \<Rightarrow> int \<Rightarrow> string \<Rightarrow> int" where
  "obp_lookup_from P p nd path =
     (if \<not> strchr_slash path then
        (if prom_node_has_property P p nd path then nd else -1)
      else
        (let name = takeWhile (\<lambda>c. c \<noteq> CHR ''/'') path;
             path' = tl (dropWhile (\<lambda>c. c \<noteq> CHR ''/'') path);
             child = prom_getchild P p nd
         in if child = -1 then -1
            else (let nd' = prom_searchsiblings P p child name
                  in if nd' = 0 then -1 else obp_lookup_from P p nd' path')))"
  by pat_completeness auto
termination
  by (relation "measure (\<lambda>(P, p, nd, path). length path)")
    (use length_after_slash in \<open>auto simp del: length_tl\<close>)

declare obp_lookup_from.simps [simp del]

definition obp_lookup :: "'p prom_ops \<Rightarrow> 'p \<Rightarrow> string \<Rightarrow> int" where
  "obp_lookup P p path =
     (let path' = (if path \<noteq> [] \<and> hd path = CHR ''/'' then tl path else path);
          path_cpy = take (OBP_MAX_PATHLEN + 1) path'
      in obp_lookup_from P p (prom_root_node P) path_cpy)"

definition obp_basename :: "string \<Rightarrow> string" where
  "obp_basename path = rev (takeWhile (\<lambda>c. c \<noteq> CHR ''/'') (rev path))"

section \<open>Properties by path\<close>

text \<open>
  \<open>obp_getprop P p path b\<close> takes the caller's buffer \<open>b\<close> (its length is the \<^verbatim>\<open>size\<close>
  argument) and returns the result with the buffer afterwards.
\<close>

definition obp_getprop :: "'p prom_ops \<Rightarrow> 'p \<Rightarrow> string \<Rightarrow> string \<Rightarrow> int \<times> string" where
  "obp_getprop P p path b =
     (let nd = obp_lookup P p path
      in if nd = -1 then (-1, b)
         else (case prom_getproperty P p nd (obp_basename path) (length b) of
                 (n, cs) \<Rightarrow> (n, cs @ drop (length cs) b)))"

definition obp_setprop :: "'p prom_ops \<Rightarrow> 'p \<Rightarrow> string \<Rightarrow> string \<Rightarrow> int \<times> 'p" where
  "obp_setprop P p path cs =
     (let nd = obp_lookup P p path
      in if nd = -1 then (-1, p) else prom_setprop P p nd (obp_basename path) cs)"

text \<open>
  The CAN encodings. \<open>obp_getcan\<close> stores the converted number, -1 for a string that
  is not in the table, and returns 0; \<open>None\<close> is its return value -1. The buffer
  \<open>b\<close> is the function's uninitialised local \<^verbatim>\<open>str\<close>.
\<close>

definition obp_getcan :: "'p prom_ops \<Rightarrow> 'p \<Rightarrow> string \<Rightarrow> string list \<Rightarrow> string \<Rightarrow> u32 option" where
  "obp_getcan P p path table b =
     (case obp_getprop P p path (take OBP_MAXSTR b) of
        (r, str) \<Rightarrow> if r = -1 then None
                    else Some (word_of_int (obp_strtonum (cstr str) table)))"

definition obp_setcan ::
    "'p prom_ops \<Rightarrow> 'p \<Rightarrow> string \<Rightarrow> string list \<Rightarrow> int \<Rightarrow> int \<times> 'p" where
  "obp_setcan P p path table val =
     (case obp_numtostr val table of
        None \<Rightarrow> (-1, p)
      | Some str \<Rightarrow> obp_setprop P p path (str @ [CHR 0x00]))"

section \<open>What the code relies on from the PROM\<close>

text \<open>
  A PROM that stores what it is given: setting a property that the node has
  succeeds, changes no node, and a later read with a large enough buffer returns the
  stored characters, while other properties keep their values.
\<close>

definition prom_stores :: "'p prom_ops \<Rightarrow> bool" where
  "prom_stores P \<longleftrightarrow>
     (\<forall>p nd name cs. prom_node_has_property P p nd name \<longrightarrow>
        (case prom_setprop P p nd name cs of (r, p') \<Rightarrow>
           r \<ge> 0 \<and>
           (\<forall>sz. length cs \<le> sz \<longrightarrow> prom_getproperty P p' nd name sz = (int (length cs), cs)) \<and>
           (\<forall>nd' name' sz. (nd, name) \<noteq> (nd', name') \<longrightarrow>
              prom_getproperty P p' nd' name' sz = prom_getproperty P p nd' name' sz) \<and>
           prom_getchild P p' = prom_getchild P p \<and>
           prom_searchsiblings P p' = prom_searchsiblings P p \<and>
           prom_node_has_property P p' = prom_node_has_property P p))"

lemma prom_storesD:
  assumes "prom_stores P" "prom_node_has_property P p nd name"
  shows "fst (prom_setprop P p nd name cs) \<ge> 0"
    and "length cs \<le> sz \<Longrightarrow>
      prom_getproperty P (snd (prom_setprop P p nd name cs)) nd name sz = (int (length cs), cs)"
    and "(nd, name) \<noteq> (nd', name') \<Longrightarrow>
      prom_getproperty P (snd (prom_setprop P p nd name cs)) nd' name' sz' = prom_getproperty P p nd' name' sz'"
    and "prom_getchild P (snd (prom_setprop P p nd name cs)) = prom_getchild P p"
    and "prom_searchsiblings P (snd (prom_setprop P p nd name cs)) = prom_searchsiblings P p"
    and "prom_node_has_property P (snd (prom_setprop P p nd name cs)) = prom_node_has_property P p"
  using assms unfolding prom_stores_def by (auto simp: split_beta)

section \<open>Correctness\<close>

lemma obp_strtonum_loop_nth:
  "distinct names \<Longrightarrow> k < length names \<Longrightarrow>
   obp_strtonum_loop (names ! k) names i = i + int k"
proof (induction names arbitrary: k i)
  case Nil
  then show ?case by simp
next
  case (Cons n names)
  then show ?case by (cases k) auto
qed

lemma obp_strtonum_loop_absent: "str \<notin> set names \<Longrightarrow> obp_strtonum_loop str names i = -1"
  by (induction names arbitrary: i) auto

lemma obp_strtonum_loop_found:
  "str \<in> set names \<Longrightarrow> \<exists>k < length names. obp_strtonum_loop str names i = i + int k \<and> names ! k = str"
proof (induction names arbitrary: i)
  case Nil
  then show ?case by simp
next
  case (Cons n names)
  show ?case
  proof (cases "n = str")
    case True
    then show ?thesis by auto
  next
    case False
    with Cons.prems have "str \<in> set names" by simp
    from Cons.IH [OF this, of "i + 1"] obtain k
      where "k < length names" "obp_strtonum_loop str names (i + 1) = i + 1 + int k" "names ! k = str"
      by blast
    with False show ?thesis by (intro exI [of _ "Suc k"]) simp
  qed
qed

lemma obp_strtonum_numtostr:
  assumes "distinct names" "obp_numtostr num names = Some s"
  shows "obp_strtonum s names = num"
  using assms obp_strtonum_loop_nth [of names "nat num" 0]
  by (auto simp: obp_numtostr_def obp_strtonum_def split: if_splits)

lemma obp_numtostr_strtonum:
  assumes "s \<in> set names"
  shows "obp_numtostr (obp_strtonum s names) names = Some s"
  using obp_strtonum_loop_found [OF assms, of 0]
  by (auto simp: obp_numtostr_def obp_strtonum_def)

text \<open>A successful lookup ends at a node that has the property the path names.\<close>

lemma basename_no_slash: "\<not> strchr_slash path \<Longrightarrow> obp_basename path = path"
  unfolding obp_basename_def strchr_slash_def by (subst takeWhile_eq_all_conv [THEN iffD2]) auto

lemma basename_after_slash: "obp_basename (xs @ CHR ''/'' # ys) = obp_basename ys"
  by (simp add: obp_basename_def takeWhile_tail)

lemma split_slash:
  assumes "strchr_slash path"
  shows "path = takeWhile (\<lambda>c. c \<noteq> CHR ''/'') path @ CHR ''/'' # tl (dropWhile (\<lambda>c. c \<noteq> CHR ''/'') path)"
proof -
  have ne: "dropWhile (\<lambda>c. c \<noteq> CHR ''/'') path \<noteq> []"
    using assms by (simp add: strchr_slash_def dropWhile_eq_Nil_conv)
  then have "hd (dropWhile (\<lambda>c. c \<noteq> CHR ''/'') path) = CHR ''/''"
    using hd_dropWhile [OF ne] by simp
  then show ?thesis using ne by (metis list.collapse takeWhile_dropWhile_id)
qed

lemma lookup_from_has_property:
  "obp_lookup_from P p nd0 path \<noteq> -1 \<Longrightarrow>
   prom_node_has_property P p (obp_lookup_from P p nd0 path) (obp_basename path)"
proof (induction P p nd0 path rule: obp_lookup_from.induct)
  case (1 P p nd0 path)
  show ?case
  proof (cases "strchr_slash path")
    case False
    with "1.prems" show ?thesis
      by (auto simp: obp_lookup_from.simps [of P p nd0 path] basename_no_slash split: if_splits)
  next
    case True
    then have "obp_basename path = obp_basename (tl (dropWhile (\<lambda>c. c \<noteq> CHR ''/'') path))"
      using basename_after_slash split_slash [OF True] by metis
    with 1 True show ?thesis
      by (auto simp: obp_lookup_from.simps [of P p nd0 path] Let_def split: if_splits)
  qed
qed

lemma lookup_has_property:
  assumes "obp_lookup P p path \<noteq> -1" "length path \<le> OBP_MAX_PATHLEN"
  shows "prom_node_has_property P p (obp_lookup P p path) (obp_basename path)"
proof -
  let ?q = "if path \<noteq> [] \<and> hd path = CHR ''/'' then tl path else path"
  have "obp_basename ?q = obp_basename path"
    using basename_after_slash [of "[]" "tl path"] by (cases path) auto
  moreover have "take (OBP_MAX_PATHLEN + 1) ?q = ?q" using assms(2) by auto
  ultimately show ?thesis
    using assms(1) lookup_from_has_property [of P p "prom_root_node P" ?q] by (simp add: obp_lookup_def Let_def)
qed

lemma obp_lookup_from_setprop:
  assumes "prom_stores P" "prom_node_has_property P p nd name"
  shows "obp_lookup_from P (snd (prom_setprop P p nd name cs)) nd0 path = obp_lookup_from P p nd0 path"
  using assms
proof (induction P p nd0 path rule: obp_lookup_from.induct)
  case (1 P p nd0 path)
  let ?p = "snd (prom_setprop P p nd name cs)"
  note keep = prom_storesD(4-6) [OF "1.prems", of cs]
  with 1 show ?case
    by (simp add: obp_lookup_from.simps [of P ?p nd0 path] obp_lookup_from.simps [of P p nd0 path] Let_def)
qed

lemma obp_lookup_setprop:
  "prom_stores P \<Longrightarrow> prom_node_has_property P p nd name \<Longrightarrow>
   obp_lookup P (snd (prom_setprop P p nd name cs)) path = obp_lookup P p path"
  by (simp add: obp_lookup_def Let_def obp_lookup_from_setprop)

text \<open>Reading back a property that was just set, into a buffer that holds it.\<close>

lemma obp_getprop_setprop:
  assumes "prom_stores P" "obp_lookup P p path \<noteq> -1" "length path \<le> OBP_MAX_PATHLEN" "length cs \<le> length b"
  shows "obp_getprop P (snd (obp_setprop P p path cs)) path b
    = (int (length cs), cs @ drop (length cs) b)"
    and "fst (obp_setprop P p path cs) \<ge> 0"
  using assms prom_storesD [OF assms(1) lookup_has_property [OF assms(2,3)]]
    obp_lookup_setprop [OF assms(1) lookup_has_property [OF assms(2,3)]]
  by (simp_all add: obp_getprop_def obp_setprop_def Let_def)

text \<open>Setting one property keeps the others.\<close>

lemma obp_getprop_setprop_other:
  assumes "prom_stores P" "obp_lookup P p path \<noteq> -1" "length path \<le> OBP_MAX_PATHLEN"
    "obp_basename path \<noteq> obp_basename path'"
  shows "obp_getprop P (snd (obp_setprop P p path cs)) path' b = obp_getprop P p path' b"
    and "obp_lookup P (snd (obp_setprop P p path cs)) path' = obp_lookup P p path'"
  using assms prom_storesD [OF assms(1) lookup_has_property [OF assms(2,3)]]
    obp_lookup_setprop [OF assms(1) lookup_has_property [OF assms(2,3)]]
  by (simp_all add: obp_getprop_def obp_setprop_def Let_def)

lemma cstr_append_NUL: "CHR 0x00 \<notin> set s \<Longrightarrow> cstr (s @ CHR 0x00 # r) = s"
  unfolding cstr_def by (subst takeWhile_append2) auto

lemma obp_getcan_setcan:
  assumes P: "prom_stores P" and nd: "obp_lookup P p path \<noteq> -1" "length path \<le> OBP_MAX_PATHLEN"
    and tab: "distinct table" "0 \<le> val" "val < int (length table)"
    and nul: "\<forall>s \<in> set table. CHR 0x00 \<notin> set s \<and> length s < OBP_MAXSTR"
    and b: "length b = OBP_MAXSTR"
  shows "fst (obp_setcan P p path table val) \<ge> 0"
    and "obp_getcan P (snd (obp_setcan P p path table val)) path table b = Some (word_of_int val)"
proof -
  let ?s = "table ! nat val"
  have num: "obp_numtostr val table = Some ?s"
    using tab by (simp add: obp_numtostr_def)
  have s: "CHR 0x00 \<notin> set ?s" "length (?s @ [CHR 0x00]) \<le> length b"
    using nul tab b by (auto simp: Suc_le_eq)
  show "fst (obp_setcan P p path table val) \<ge> 0"
    using obp_getprop_setprop(2) [OF P nd s(2)] by (simp add: obp_setcan_def num)
  show "obp_getcan P (snd (obp_setcan P p path table val)) path table b = Some (word_of_int val)"
    using obp_getprop_setprop(1) [OF P nd s(2)] s(1) b obp_strtonum_numtostr [OF tab(1) num]
    by (simp add: obp_setcan_def num obp_getcan_def cstr_append_NUL)
qed

section \<open>A PROM in memory\<close>

text \<open>
  A concrete PROM with the four nodes and the properties the driver names, whose
  contents are a function; it stores what it is given.
\<close>

type_synonym ram = "int \<times> string \<Rightarrow> string"

definition ram_prom :: "ram prom_ops" where
  "ram_prom =
     \<lparr>prom_root_node = 1,
      prom_getchild = (\<lambda>p nd. 2),
      prom_searchsiblings = (\<lambda>p nd name. if name = ''options'' then 3 else if name = ''obio'' then 4
                                          else if name = ''can'' then 5 else 0),
      prom_node_has_property = (\<lambda>p nd name.
         (nd, name) \<in> {(3, ''auto-boot?''), (3, ''boot-device''), (3, ''input-device''),
           (3, ''output-device''), (3, ''cancon-host''), (5, ''can-nodeid''), (5, ''can-meiko-board-type'')}),
      prom_getproperty = (\<lambda>p nd name sz. (int (length (p (nd, name))), take sz (p (nd, name)))),
      prom_setprop = (\<lambda>p nd name cs. (int (length cs), p((nd, name) := cs)))\<rparr>"

lemma ram_prom_stores: "prom_stores ram_prom"
  by (simp add: prom_stores_def ram_prom_def)

lemma lookup_from_step:
  assumes "strchr_slash path"
  shows "obp_lookup_from P p nd path =
    (let child = prom_getchild P p nd; nd' = prom_searchsiblings P p child (takeWhile (\<lambda>c. c \<noteq> CHR ''/'') path)
     in if child = -1 \<or> nd' = 0 then -1
        else obp_lookup_from P p nd' (tl (dropWhile (\<lambda>c. c \<noteq> CHR ''/'') path)))"
  using assms by (simp add: obp_lookup_from.simps [of P p nd path] Let_def)

lemma lookup_from_last:
  "\<not> strchr_slash path \<Longrightarrow> obp_lookup_from P p nd path = (if prom_node_has_property P p nd path then nd else -1)"
  by (simp add: obp_lookup_from.simps [of P p nd path])

lemmas obp_paths = OBP_AUTO_BOOT_def OBP_BOOT_DEVICE_def OBP_INPUT_DEVICE_def OBP_OUTPUT_DEVICE_def
  OBP_CANCON_HOST_def OBP_CAN_NODEID_def OBP_CAN_MEIKO_BOARD_TYPE_def

lemma ram_prom_lookup [simp]:
  "obp_lookup ram_prom p OBP_AUTO_BOOT = 3" "obp_lookup ram_prom p OBP_BOOT_DEVICE = 3"
  "obp_lookup ram_prom p OBP_INPUT_DEVICE = 3" "obp_lookup ram_prom p OBP_OUTPUT_DEVICE = 3"
  "obp_lookup ram_prom p OBP_CANCON_HOST = 3" "obp_lookup ram_prom p OBP_CAN_NODEID = 5"
  "obp_lookup ram_prom p OBP_CAN_MEIKO_BOARD_TYPE = 5"
  by (simp_all add: obp_lookup_def obp_paths OBP_MAX_PATHLEN_def lookup_from_step lookup_from_last
      strchr_slash_def ram_prom_def)

section \<open>Options keep their numbers\<close>

text \<open>
  For every option path and option table of the header, the
  number that \<^verbatim>\<open>obp_setcan\<close> stores as a string is the number \<^verbatim>\<open>obp_getcan\<close> reads back,
  and the store reports success; a number outside the table is refused and changes
  nothing. The PROM is one that stores what it is given and has the path.
\<close>

theorem obp_option_roundtrip:
  assumes "prom_stores P" "obp_lookup P p path \<noteq> -1"
    and "path \<in> {OBP_AUTO_BOOT, OBP_BOOT_DEVICE, OBP_INPUT_DEVICE, OBP_OUTPUT_DEVICE}"
    and "table \<in> {OBP_BOOLEAN, OBP_BOOT_DEVICE_VALUES, OBP_INPUT_DEVICE_VALUES, OBP_OUTPUT_DEVICE_VALUES}"
    and "length b = OBP_MAXSTR"
  shows "if 0 \<le> val \<and> val < int (length table)
    then fst (obp_setcan P p path table val) \<ge> 0 \<and>
         obp_getcan P (snd (obp_setcan P p path table val)) path table b = Some (word_of_int val)
    else obp_setcan P p path table val = (-1, p)"
proof -
  have path: "length path \<le> OBP_MAX_PATHLEN" using assms(3) by (auto simp: obp_paths OBP_MAX_PATHLEN_def)
  have tab: "distinct table" "\<forall>s \<in> set table. CHR 0x00 \<notin> set s \<and> length s < OBP_MAXSTR"
    using assms(4) by (auto simp: OBP_BOOLEAN_def OBP_BOOT_DEVICE_VALUES_def OBP_INPUT_DEVICE_VALUES_def
        OBP_OUTPUT_DEVICE_VALUES_def OBP_MAXSTR_def)
  show ?thesis
    using obp_getcan_setcan [OF assms(1,2) path tab(1) _ _ tab(2) assms(5)]
    by (auto simp: obp_setcan_def obp_numtostr_def)
qed

theorem obp_option_roundtrip_witness:
  "fst (obp_setcan ram_prom (\<lambda>_. []) OBP_BOOT_DEVICE OBP_BOOT_DEVICE_VALUES 2) \<ge> 0 \<and>
   obp_getcan ram_prom (snd (obp_setcan ram_prom (\<lambda>_. []) OBP_BOOT_DEVICE OBP_BOOT_DEVICE_VALUES 2))
     OBP_BOOT_DEVICE OBP_BOOT_DEVICE_VALUES (replicate OBP_MAXSTR CHR ''x'') = Some (word_of_int 2)"
  using obp_option_roundtrip [OF ram_prom_stores, of "\<lambda>_. []" OBP_BOOT_DEVICE OBP_BOOT_DEVICE_VALUES
      "replicate OBP_MAXSTR CHR ''x''" 2]
  by (simp add: OBP_BOOT_DEVICE_VALUES_def)

end
