(* ===== verification/CanDev.thy ===== *)
theory CanDev
  imports Packet Ring Obp
begin

text \<open>
  The lower half of the CAN driver (\<^verbatim>\<open>kernel/drivers/meiko/can_main.c\<close>): the driver's
  state, the 82C200 controller's registers, and the path a packet takes from
  \<^verbatim>\<open>send_pkt\<close> to the queues and the chip. The console and object layers call into
  it; the file operations, the interrupt handler and the bottom half are in
  \<^verbatim>\<open>CanMain\<close>.

  The chip is a parameter: reading or writing a register is an operation on an
  arbitrary chip state (\<open>reg_read\<close>, \<open>reg_write\<close>), so nothing is assumed about what a
  volatile register does. Calls that leave the driver (\<^verbatim>\<open>printk\<close>, wake-ups, tty calls)
  are recorded in order in \<open>ktrace\<close>.
\<close>

section \<open>Chip registers\<close>

datatype creg =
    control | command | status | interrupt | accept_code | accept_mask
  | bus_timing0 | bus_timing1 | out_control | test | txdb1 | txdb2
  | tx0 | tx1 | tx2 | tx3 | tx4 | tx5 | tx6 | tx7 | rxdb1 | rxdb2
  | rx0 | rx1 | rx2 | rx3 | rx4 | rx5 | rx6 | rx7 | clock_div

definition CAN_CONTROL_RESET :: u8 where "CAN_CONTROL_RESET = 0x01"
definition CAN_CONTROL_RIE :: u8 where "CAN_CONTROL_RIE = 0x02"
definition CAN_CONTROL_TIE :: u8 where "CAN_CONTROL_TIE = 0x04"
definition CAN_CONTROL_EIE :: u8 where "CAN_CONTROL_EIE = 0x08"
definition CAN_CONTROL_OIE :: u8 where "CAN_CONTROL_OIE = 0x10"

definition CAN_COMMAND_TRANSMIT :: u8 where "CAN_COMMAND_TRANSMIT = 0x01"
definition CAN_COMMAND_CLR_RECV :: u8 where "CAN_COMMAND_CLR_RECV = 0x04"
definition CAN_COMMAND_CLR_OVERRUN :: u8 where "CAN_COMMAND_CLR_OVERRUN = 0x08"

definition CAN_STATUS_RECV_AVAIL :: u8 where "CAN_STATUS_RECV_AVAIL = 0x01"
definition CAN_STATUS_OVERRUN :: u8 where "CAN_STATUS_OVERRUN = 0x02"
definition CAN_STATUS_XMIT_AVAIL :: u8 where "CAN_STATUS_XMIT_AVAIL = 0x04"
definition CAN_STATUS_ERROR_STAT :: u8 where "CAN_STATUS_ERROR_STAT = 0x40"
definition CAN_STATUS_BUS_STAT :: u8 where "CAN_STATUS_BUS_STAT = 0x80"

section \<open>What surrounds the driver\<close>

text \<open>
  \<open>stack_pkt\<close>, \<open>stack_buf\<close> and \<open>stack_u32\<close> stand for the contents of local variables
  the code does not initialise, \<open>after_pkt\<close> for the bytes that follow a packet in memory; \<open>HZ\<close> and \<open>TTY_FLIPBUF_SIZE\<close> are the kernel's constants,
  \<open>request_irq\<close>, \<open>tty_register_driver\<close> and \<open>misc_register\<close> the results of those calls,
  \<open>map_82c200\<close> whether the registers could be mapped, and \<open>offset_of\<close> the offsets the
  compiler gives the fields of \<^verbatim>\<open>struct can_packet\<close>.
\<close>

record ('c, 'p) env =
  reg_read :: "creg \<Rightarrow> 'c \<Rightarrow> u8 \<times> 'c"
  reg_write :: "creg \<Rightarrow> u8 \<Rightarrow> 'c \<Rightarrow> 'c"
  prom_of :: "'p prom_ops"
  stack_pkt :: can_packet
  stack_buf :: string
  stack_u32 :: u32
  after_pkt :: "nat \<Rightarrow> u8"
  HZ :: u32
  TTY_FLIPBUF_SIZE :: nat
  request_irq :: int
  tty_register_driver :: int
  misc_register :: int
  map_82c200 :: bool
  offset_of :: "string \<Rightarrow> int"

datatype kevent =
    Printk string "int list"
  | WakeUpWriteq
  | WakeUpReadq nat
  | QueueBh
  | FreeIrq
  | TtyWriteWakeup bool
  | TtyHangup
  | TtyFlipPush
  | TtyUnregister
  | RegisterConsole
  | UnregisterConsole
  | MachineHalt
  | MiscDeregister
  | UnmapRegs

section \<open>State\<close>

definition CAN_MAX_USECOUNT :: nat where "CAN_MAX_USECOUNT = 256"

definition COSIZE :: nat where "COSIZE = nat (CANOBJ_CONSMAX - CANOBJ_CONSMIN + 1)"

record file_state =
  fs_inq :: "can_packet ringbuf"
  promiscuous :: bool
  snoopy :: bool
  consobj :: int

text \<open>
  The static variables of \<^verbatim>\<open>can_main.c\<close>. \<open>openfd\<close> holds addresses, 0 for NULL; \<open>fstates\<close>
  is the part of the kernel heap with the \<^verbatim>\<open>file_state\<close> objects, so that the pointer
  in \<^verbatim>\<open>openfd\<close> and the one in \<^verbatim>\<open>file->private_data\<close> name the same object. \<open>first_time\<close> is the
  static local of \<^verbatim>\<open>can_init_82c200\<close>, \<open>jiffies\<close> the kernel's clock.
\<close>

record 'c can_main =
  inq :: "can_packet ringbuf"
  outq :: "can_packet ringbuf"
  can_debug :: bool
  can_usecount :: int
  reg :: 'c
  promiscuous_usecount :: int
  openfd :: "nat \<Rightarrow> nat"
  fstates :: "nat \<Rightarrow> file_state option"
  consobj_reserved :: "nat \<Rightarrow> u8"
  can_nodeid :: u32
  first_time :: bool
  jiffies :: u32
  mod_usecount :: int
  ktrace :: "kevent list"

definition kcall :: "kevent \<Rightarrow> ('c, 'z) can_main_scheme \<Rightarrow> ('c, 'z) can_main_scheme" where
  "kcall e s = s\<lparr>ktrace := ktrace s @ [e]\<rparr>"

definition rd :: "('c, 'p) env \<Rightarrow> creg \<Rightarrow> ('c, 'z) can_main_scheme \<Rightarrow> u8 \<times> ('c, 'z) can_main_scheme" where
  "rd E r s = (case reg_read E r (reg s) of (v, c) \<Rightarrow> (v, s\<lparr>reg := c\<rparr>))"

definition wr :: "('c, 'p) env \<Rightarrow> creg \<Rightarrow> u8 \<Rightarrow> ('c, 'z) can_main_scheme \<Rightarrow> ('c, 'z) can_main_scheme" where
  "wr E r v s = s\<lparr>reg := reg_write E r v (reg s)\<rparr>"

section \<open>Queues\<close>

definition can_init_queues :: "('c, 'z) can_main_scheme \<Rightarrow> ('c, 'z) can_main_scheme" where
  "can_init_queues s = s\<lparr>inq := RING_INIT (inq s), outq := RING_INIT (outq s)\<rparr>"

definition outgoing_fixup :: "('c, 'z) can_main_scheme \<Rightarrow> can_packet \<Rightarrow> can_packet" where
  "outgoing_fixup s pkt =
     pkt\<lparr>can := (can pkt)\<lparr>src := ucast (UNPACK_NODE (can_nodeid s)), remote := 0\<rparr>\<rparr>"

definition incoming_fixup :: "('c, 'z) can_main_scheme \<Rightarrow> can_packet \<Rightarrow> can_packet" where
  "incoming_fixup s pkt = pkt\<lparr>timestamp := jiffies s\<rparr>"

definition IS_MYPACKET :: "('c, 'z) can_main_scheme \<Rightarrow> can_packet \<Rightarrow> bool" where
  "IS_MYPACKET s pkt \<longleftrightarrow> ucast (dest (can pkt)) = UNPACK_NODE (can_nodeid s)"

section \<open>Copying between packets and chip registers\<close>

definition can_copy_rx ::
    "('c, 'p) env \<Rightarrow> can_packet \<Rightarrow> ('c, 'z) can_main_scheme \<Rightarrow> can_packet \<times> ('c, 'z) can_main_scheme" where
  "can_copy_rx E pkt s =
     (let (c0, s) = rd E rxdb1 s; (c1, s) = rd E rxdb2 s;
          (e0, s) = rd E rx0 s; (e1, s) = rd E rx1 s; (e2, s) = rd E rx2 s; (e3, s) = rd E rx3 s;
          (d0, s) = rd E rx4 s; (d1, s) = rd E rx5 s; (d2, s) = rd E rx6 s; (d3, s) = rd E rx7 s
      in (pkt\<lparr>can := of_can_b c0 c1, ext := of_ext_dat (of_bytes e0 e1 e2 e3),
              dat := of_bytes d0 d1 d2 d3\<rparr>, s))"

definition can_copy_tx ::
    "('c, 'p) env \<Rightarrow> can_packet \<Rightarrow> ('c, 'z) can_main_scheme \<Rightarrow> ('c, 'z) can_main_scheme" where
  "can_copy_tx E pkt s =
     (let s = wr E txdb1 (fst (can_b (can pkt))) s; s = wr E txdb2 (snd (can_b (can pkt))) s;
          e = ext_dat (ext pkt); d = dat pkt;
          s = wr E tx0 (byte_of e 0) s; s = wr E tx1 (byte_of e 1) s;
          s = wr E tx2 (byte_of e 2) s; s = wr E tx3 (byte_of e 3) s;
          s = wr E tx4 (byte_of d 0) s; s = wr E tx5 (byte_of d 1) s;
          s = wr E tx6 (byte_of d 2) s; s = wr E tx7 (byte_of d 3) s
      in s)"

text \<open>
  The transmit loop. The queue is bounded, so \<^verbatim>\<open>MAXRING\<close> iterations always reach a
  false guard (\<open>try_xmit_loop_guard\<close>).
\<close>

fun try_xmit_loop ::
    "('c, 'p) env \<Rightarrow> nat \<Rightarrow> nat \<Rightarrow> ('c, 'z) can_main_scheme \<Rightarrow> nat \<times> ('c, 'z) can_main_scheme" where
  "try_xmit_loop E 0 i s = (i, s)"
| "try_xmit_loop E (Suc n) i s =
     (case rd E status s of (st, s1) \<Rightarrow>
        if st AND CAN_STATUS_XMIT_AVAIL = 0 then (i, s1)
        else (case ring_to_pkt (outq s1) of
                None \<Rightarrow> (i, s1)
              | Some (pkt, q) \<Rightarrow>
                  try_xmit_loop E n (Suc i)
                    (wr E command CAN_COMMAND_TRANSMIT (can_copy_tx E pkt (s1\<lparr>outq := q\<rparr>)))))"

definition try_xmit :: "('c, 'p) env \<Rightarrow> ('c, 'z) can_main_scheme \<Rightarrow> ('c, 'z) can_main_scheme" where
  "try_xmit E s =
     (case try_xmit_loop E MAXRING 0 s of (i, s1) \<Rightarrow> if i > 0 then kcall WakeUpWriteq s1 else s1)"

section \<open>Sending\<close>

text \<open>
  \<open>send_pkt\<close> changes the caller's packet (source, remote flag, time stamp), so it
  returns the packet beside the return value.
\<close>

definition send_pkt_no_out_fixup ::
    "('c, 'p) env \<Rightarrow> can_packet \<Rightarrow> ('c, 'z) can_main_scheme \<Rightarrow> bool \<times> can_packet \<times> ('c, 'z) can_main_scheme" where
  "send_pkt_no_out_fixup E pkt0 s =
     (let pkt = incoming_fixup s pkt0;
          (instat, outstat, s) =
            (if IS_MYPACKET s pkt then
               (case pkt_to_ring pkt (inq s) of (r, q) \<Rightarrow> (r, False, s\<lparr>inq := q\<rparr>))
             else
               (case pkt_to_ring pkt (outq s) of (r, q) \<Rightarrow>
                  (let s = s\<lparr>outq := q\<rparr>
                   in if r then (case pkt_to_ring pkt (inq s) of (r', q') \<Rightarrow> (r', True, s\<lparr>inq := q'\<rparr>))
                      else (False, False, s))));
          s = (if instat then kcall QueueBh s else s);
          s = (if outstat then try_xmit E s else s)
      in (instat \<or> outstat, pkt, s))"

definition send_pkt ::
    "('c, 'p) env \<Rightarrow> can_packet \<Rightarrow> ('c, 'z) can_main_scheme \<Rightarrow> bool \<times> can_packet \<times> ('c, 'z) can_main_scheme" where
  "send_pkt E pkt s = send_pkt_no_out_fixup E (outgoing_fixup s pkt) s"

section \<open>Console object numbers\<close>

text \<open>
  \<^verbatim>\<open>CAN_GET_CONSOBJ\<close> hands out a number between \<^verbatim>\<open>CANOBJ_CONSMIN\<close> and \<^verbatim>\<open>CANOBJ_CONSMAX\<close>,
  searching circularly from a slot chosen by the clock.
\<close>

definition can_init_consobj :: "('c, 'z) can_main_scheme \<Rightarrow> ('c, 'z) can_main_scheme" where
  "can_init_consobj s = s\<lparr>consobj_reserved := (\<lambda>i. if i < COSIZE then 0 else consobj_reserved s i)\<rparr>"

definition can_inuse_consobj :: "int \<Rightarrow> ('c, 'z) can_main_scheme \<Rightarrow> u8" where
  "can_inuse_consobj c s = consobj_reserved s (nat (c - CANOBJ_CONSMIN))"

function can_alloc_consobj_loop :: "(nat \<Rightarrow> u8) \<Rightarrow> nat \<Rightarrow> nat \<Rightarrow> nat \<times> nat" where
  "can_alloc_consobj_loop reserved try count =
     (if count < COSIZE \<and> reserved try = 1
      then can_alloc_consobj_loop reserved ((try + 1) mod COSIZE) (count + 1)
      else (try, count))"
  by pat_completeness auto
termination
  by (relation "measure (\<lambda>(reserved, try, count). COSIZE - count)") auto

declare can_alloc_consobj_loop.simps [simp del]

definition can_alloc_consobj ::
    "('c, 'z) can_main_scheme \<Rightarrow> int \<times> ('c, 'z) can_main_scheme" where
  "can_alloc_consobj s =
     (case can_alloc_consobj_loop (consobj_reserved s) (unat (jiffies s) mod COSIZE) 0 of
        (try, count) \<Rightarrow>
          if count < COSIZE
          then (int try + CANOBJ_CONSMIN, s\<lparr>consobj_reserved := (consobj_reserved s)(try := 1)\<rparr>)
          else (-1, s))"

definition can_free_consobj ::
    "int \<Rightarrow> ('c, 'z) can_main_scheme \<Rightarrow> ('c, 'z) can_main_scheme" where
  "can_free_consobj i s =
     (let i = i - CANOBJ_CONSMIN
      in if i \<ge> 0 \<and> i < int COSIZE
         then s\<lparr>consobj_reserved := (consobj_reserved s)(nat i := 0)\<rparr> else s)"

section \<open>What each operation touches\<close>

lemma rd_eq: "rd E r s = (fst (reg_read E r (reg s)), s\<lparr>reg := snd (reg_read E r (reg s))\<rparr>)"
  by (simp add: rd_def split: prod.splits)

lemma can_copy_tx_frame: "\<exists>c. can_copy_tx E pkt s = s\<lparr>reg := c\<rparr>"
  unfolding can_copy_tx_def wr_def Let_def by (simp, rule exI, rule refl)

lemma can_copy_rx_frame: "\<exists>c. snd (can_copy_rx E pkt s) = s\<lparr>reg := c\<rparr>"
  unfolding can_copy_rx_def rd_eq Let_def by (simp, rule exI, rule refl)

text \<open>One iteration of the transmit loop's body, after the guard.\<close>

lemma xmit_body_frame:
  "\<exists>c. wr E r v (can_copy_tx E pkt (s\<lparr>outq := q\<rparr>)) = s\<lparr>outq := q, reg := c\<rparr>"
proof -
  obtain c where "can_copy_tx E pkt (s\<lparr>outq := q\<rparr>) = s\<lparr>outq := q, reg := c\<rparr>"
    using can_copy_tx_frame [of E pkt "s\<lparr>outq := q\<rparr>"] by auto
  then show ?thesis by (intro exI [of _ "reg_write E r v c"]) (simp add: wr_def)
qed

lemma outq_xmit_body: "outq (wr E r v (can_copy_tx E pkt (s\<lparr>outq := q\<rparr>))) = q"
proof -
  obtain c where "wr E r v (can_copy_tx E pkt (s\<lparr>outq := q\<rparr>)) = s\<lparr>outq := q, reg := c\<rparr>"
    using xmit_body_frame [of E r v pkt q s] by blast
  then show ?thesis by simp
qed

lemma try_xmit_loop_frame:
  "\<exists>q c. snd (try_xmit_loop E n i s) = s\<lparr>outq := q, reg := c\<rparr>"
proof (induction n arbitrary: i s)
  case 0
  show ?case by (rule exI [of _ "outq s"], rule exI [of _ "reg s"]) simp
next
  case (Suc n)
  have id: "\<exists>q c'. s\<lparr>reg := c\<rparr> = s\<lparr>outq := q, reg := c'\<rparr>" for c
    by (rule exI [of _ "outq s"], rule exI [of _ c]) simp
  let ?s1 = "s\<lparr>reg := snd (reg_read E status (reg s))\<rparr>"
  have step: "\<exists>q c. snd (try_xmit_loop E n (Suc i) (wr E command v (can_copy_tx E pkt (?s1\<lparr>outq := q'\<rparr>))))
     = s\<lparr>outq := q, reg := c\<rparr>" for pkt q' v
  proof -
    obtain c where c: "wr E command v (can_copy_tx E pkt (?s1\<lparr>outq := q'\<rparr>)) = s\<lparr>outq := q', reg := c\<rparr>"
      using xmit_body_frame [of E command v pkt q' ?s1] by (auto simp del: try_xmit_loop.simps)
    show ?thesis unfolding c using Suc.IH [of "Suc i" "s\<lparr>outq := q', reg := c\<rparr>"] by simp
  qed
  from id step show ?case
    by (simp add: rd_eq split: option.split)
qed

lemma try_xmit_loop_spec:
  assumes "ring_wf (outq s)"
  shows "\<exists>k. k \<le> length (ring_list (outq s)) \<and> fst (try_xmit_loop E n i s) = i + k
    \<and> ring_wf (outq (snd (try_xmit_loop E n i s)))
    \<and> ring_list (outq (snd (try_xmit_loop E n i s))) = drop k (ring_list (outq s))"
  using assms
proof (induction n arbitrary: i s)
  case 0
  then show ?case by simp
next
  case (Suc n)
  let ?s1 = "s\<lparr>reg := snd (reg_read E status (reg s))\<rparr>"
  have step: ?case if *: "ring_to_pkt (outq s) = Some (pkt, q)"
      "try_xmit_loop E (Suc n) i s = 
       try_xmit_loop E n (Suc i) (wr E command CAN_COMMAND_TRANSMIT (can_copy_tx E pkt (?s1\<lparr>outq := q\<rparr>)))" for pkt q
  proof -
    let ?t = "wr E command CAN_COMMAND_TRANSMIT (can_copy_tx E pkt (?s1\<lparr>outq := q\<rparr>))"
    from * Suc.prems have q: "ring_wf q" "ring_list (outq s) = pkt # ring_list q"
      using pktq.deq_Some_iff [OF Suc.prems *(1)] by simp_all
    have t: "outq ?t = q" by (rule outq_xmit_body)
    have "ring_wf (outq ?t)" using t q by simp
    from Suc.IH [OF this, of "Suc i"] obtain k where "k \<le> length (ring_list q)"
      "fst (try_xmit_loop E (Suc n) i s) = Suc i + k" "ring_wf (outq (snd (try_xmit_loop E (Suc n) i s)))"
      "ring_list (outq (snd (try_xmit_loop E (Suc n) i s))) = drop k (ring_list q)"
      unfolding *(2) t by blast
    with q(2) show ?thesis by (intro exI [of _ "Suc k"]) simp
  qed
  show ?case
  proof (cases "fst (reg_read E status (reg s)) AND CAN_STATUS_XMIT_AVAIL = 0 \<or> ring_to_pkt (outq s) = None")
    case True
    with Suc.prems show ?thesis by (intro exI [of _ 0]) (auto simp: rd_eq split: option.split)
  next
    case False
    then obtain pkt q where "ring_to_pkt (outq s) = Some (pkt, q)" by fastforce
    with False show ?thesis by (intro step [of pkt q]) (simp_all add: rd_eq)
  qed
qed

lemma try_xmit_loop_guard:
  assumes "ring_wf (outq s)" "length (ring_list (outq s)) < n"
  shows "try_xmit_loop E (n + m) i s = try_xmit_loop E n i s"
  using assms
proof (induction n arbitrary: i s)
  case 0
  then show ?case by simp
next
  case (Suc n)
  let ?s1 = "s\<lparr>reg := snd (reg_read E status (reg s))\<rparr>"
  have "try_xmit_loop E (n + m) (Suc i) (wr E command v (can_copy_tx E pkt (?s1\<lparr>outq := q\<rparr>)))
    = try_xmit_loop E n (Suc i) (wr E command v (can_copy_tx E pkt (?s1\<lparr>outq := q\<rparr>)))"
    if "ring_to_pkt (outq s) = Some (pkt, q)" for v pkt q
  proof -
    have q: "ring_wf q \<and> ring_list (outq s) = pkt # ring_list q"
      by (rule pktq.deq_Some_iff [OF Suc.prems(1) that])
    have "outq (wr E command v (can_copy_tx E pkt (?s1\<lparr>outq := q\<rparr>))) = q"
      by (rule outq_xmit_body)
    with q Suc.prems(2) Suc.IH [of "wr E command v (can_copy_tx E pkt (?s1\<lparr>outq := q\<rparr>))" "Suc i"]
    show ?thesis by simp
  qed
  then show ?case by (simp add: rd_eq split: option.split)
qed

lemma try_xmit_frame: "\<exists>q c t. try_xmit E s = s\<lparr>outq := q, reg := c, ktrace := t\<rparr>"
proof -
  obtain q c where "snd (try_xmit_loop E MAXRING 0 s) = s\<lparr>outq := q, reg := c\<rparr>"
    using try_xmit_loop_frame [of E MAXRING 0 s] by blast
  then obtain i where l: "try_xmit_loop E MAXRING 0 s = (i, s\<lparr>outq := q, reg := c\<rparr>)"
    by (cases "try_xmit_loop E MAXRING 0 s") auto
  show ?thesis
  proof (cases "i > 0")
    case True
    with l show ?thesis
      by (intro exI [of _ q] exI [of _ c] exI [of _ "ktrace s @ [WakeUpWriteq]"])
        (simp add: try_xmit_def kcall_def)
  next
    case False
    with l show ?thesis
      by (intro exI [of _ q] exI [of _ c] exI [of _ "ktrace s"]) (simp add: try_xmit_def)
  qed
qed

lemma try_xmit_outq:
  assumes "ring_wf (outq s)"
  shows "ring_wf (outq (try_xmit E s))"
    and "\<exists>k. ring_list (outq (try_xmit E s)) = drop k (ring_list (outq s))"
proof -
  obtain k where
    "ring_wf (outq (snd (try_xmit_loop E MAXRING 0 s)))"
    "ring_list (outq (snd (try_xmit_loop E MAXRING 0 s))) = drop k (ring_list (outq s))"
    using try_xmit_loop_spec [OF assms, of E MAXRING 0] by blast
  moreover have "outq (try_xmit E s) = outq (snd (try_xmit_loop E MAXRING 0 s))"
    by (simp add: try_xmit_def kcall_def split: prod.split)
  ultimately show "ring_wf (outq (try_xmit E s))"
    and "\<exists>k. ring_list (outq (try_xmit E s)) = drop k (ring_list (outq s))"
    by auto
qed

lemma kcall_simps [simp]:
  "inq (kcall e s) = inq s" "outq (kcall e s) = outq s" "reg (kcall e s) = reg s"
  "can_nodeid (kcall e s) = can_nodeid s" "jiffies (kcall e s) = jiffies s"
  "ktrace (kcall e s) = ktrace s @ [e]"
  by (simp_all add: kcall_def)

section \<open>The send path\<close>

definition queues_wf :: "('c, 'z) can_main_scheme \<Rightarrow> bool" where
  "queues_wf s \<longleftrightarrow> ring_wf (inq s) \<and> ring_wf (outq s)"

lemma fixup_simps [simp]:
  "dest (can (incoming_fixup s p)) = dest (can p)" "ext (incoming_fixup s p) = ext p"
  "dat (incoming_fixup s p) = dat p" "can (incoming_fixup s p) = can p"
  "dest (can (outgoing_fixup s p)) = dest (can p)" "ext (outgoing_fixup s p) = ext p"
  "dat (outgoing_fixup s p) = dat p"
  "IS_MYPACKET s (incoming_fixup s' p) = IS_MYPACKET s p"
  "IS_MYPACKET s (outgoing_fixup s' p) = IS_MYPACKET s p"
  by (simp_all add: incoming_fixup_def outgoing_fixup_def IS_MYPACKET_def)

text \<open>The three outcomes of a send, with the state each leaves.\<close>

lemma send_nof_local:
  assumes "IS_MYPACKET s pkt"
  shows "send_pkt_no_out_fixup E pkt s =
    (let p = incoming_fixup s pkt; (r, q) = pkt_to_ring p (inq s)
     in (r, p, if r then kcall QueueBh (s\<lparr>inq := q\<rparr>) else s\<lparr>inq := q\<rparr>))"
  using assms by (simp add: send_pkt_no_out_fixup_def Let_def split: prod.split)

lemma send_nof_remote_full:
  assumes "\<not> IS_MYPACKET s pkt" "RING_FULL (outq s)"
  shows "send_pkt_no_out_fixup E pkt s = (False, incoming_fixup s pkt, s)"
  using assms by (simp add: send_pkt_no_out_fixup_def pkt_to_ring_def Let_def)

lemma send_nof_remote_room:
  assumes "\<not> IS_MYPACKET s pkt" "\<not> RING_FULL (outq s)"
  shows "send_pkt_no_out_fixup E pkt s =
    (let p = incoming_fixup s pkt;
         (r, q) = pkt_to_ring p (inq s);
         s1 = s\<lparr>outq := RING_IN (outq s) p, inq := q\<rparr>
     in (True, p, try_xmit E (if r then kcall QueueBh s1 else s1)))"
  using assms by (simp add: send_pkt_no_out_fixup_def pkt_to_ring_def Let_def)

lemma send_nof_frame:
  "\<exists>i q c t. snd (snd (send_pkt_no_out_fixup E pkt s)) = s\<lparr>inq := i, outq := q, reg := c, ktrace := t\<rparr>"
proof -
  consider "IS_MYPACKET s pkt" | "\<not> IS_MYPACKET s pkt" "RING_FULL (outq s)"
    | "\<not> IS_MYPACKET s pkt" "\<not> RING_FULL (outq s)" by blast
  then show ?thesis
  proof cases
    case 1
    obtain r q where rq: "pkt_to_ring (incoming_fixup s pkt) (inq s) = (r, q)" by fastforce
    show ?thesis
      by (intro exI [of _ q] exI [of _ "outq s"] exI [of _ "reg s"]
          exI [of _ "if r then ktrace s @ [QueueBh] else ktrace s"])
        (simp add: send_nof_local [OF 1] rq kcall_def Let_def)
  next
    case 2
    show ?thesis
      by (intro exI [of _ "inq s"] exI [of _ "outq s"] exI [of _ "reg s"] exI [of _ "ktrace s"])
        (simp add: send_nof_remote_full [OF 2])
  next
    case 3
    let ?p = "incoming_fixup s pkt"
    obtain r q where rq: "pkt_to_ring ?p (inq s) = (r, q)" by fastforce
    let ?s1 = "s\<lparr>outq := RING_IN (outq s) ?p, inq := q\<rparr>"
    let ?s2 = "if r then kcall QueueBh ?s1 else ?s1"
    obtain q' c t where x: "try_xmit E ?s2 = ?s2\<lparr>outq := q', reg := c, ktrace := t\<rparr>"
      using try_xmit_frame [of E ?s2] by blast
    show ?thesis
      by (intro exI [of _ q] exI [of _ q'] exI [of _ c] exI [of _ t])
        (simp add: send_nof_remote_room [OF 3] rq Let_def x kcall_def)
  qed
qed

lemma send_frame:
  "\<exists>i q c t. snd (snd (send_pkt E pkt s)) = s\<lparr>inq := i, outq := q, reg := c, ktrace := t\<rparr>"
  unfolding send_pkt_def by (rule send_nof_frame)

lemma inq_try_xmit [simp]: "inq (try_xmit E s) = inq s"
proof -
  obtain q c t where "try_xmit E s = s\<lparr>outq := q, reg := c, ktrace := t\<rparr>"
    using try_xmit_frame [of E s] by blast
  then show ?thesis by simp
qed

lemma ktrace_try_xmit: "\<exists>e. ktrace (try_xmit E s) = ktrace s @ e"
proof -
  have "ktrace (snd (try_xmit_loop E n i s)) = ktrace s" for n i using try_xmit_loop_frame [of E n i s] by auto
  then show ?thesis by (simp add: try_xmit_def split_beta)
qed

text \<open>
  A send adds at most the stamped packet to the inbound queue, and adds it exactly
  when there is room and, for a packet to another node, when the outbound queue
  took it. The result tells whether the packet was queued for its destination.
\<close>

lemma send_nof_queues:
  fixes s :: "('c, 'z) can_main_scheme" and pkt :: can_packet and E :: "('c, 'p) env"
  assumes wf: "queues_wf s"
  defines "p \<equiv> incoming_fixup s pkt"
  defines "res \<equiv> send_pkt_no_out_fixup E pkt s"
  shows "queues_wf (snd (snd res))" (is ?wf)
    and "fst res \<longleftrightarrow> \<not> RING_FULL (if IS_MYPACKET s pkt then inq s else outq s)" (is ?ret)
    and "ring_list (inq (snd (snd res))) =
           ring_list (inq s) @ (if fst res \<and> \<not> RING_FULL (inq s) then [p] else [])" (is ?inq)
    and "IS_MYPACKET s pkt \<Longrightarrow> outq (snd (snd res)) = outq s \<and> reg (snd (snd res)) = reg s"
    and "\<not> IS_MYPACKET s pkt \<Longrightarrow>
           \<exists>k. ring_list (outq (snd (snd res))) = drop k (ring_list (outq s) @ (if fst res then [p] else []))"
    and "fst (snd res) = p"
proof -
  have wf': "ring_wf (inq s)" "ring_wf (outq s)" using wf by (simp_all add: queues_wf_def)
  note inl = ring_in_list [of "inq s" p]
  note outl = ring_in_list [of "outq s" p]
  consider (loc) "IS_MYPACKET s pkt" | (full) "\<not> IS_MYPACKET s pkt" "RING_FULL (outq s)"
    | (room) "\<not> IS_MYPACKET s pkt" "\<not> RING_FULL (outq s)" by blast
  then have "?wf \<and> ?ret \<and> ?inq \<and> fst (snd res) = p
      \<and> (IS_MYPACKET s pkt \<longrightarrow> outq (snd (snd res)) = outq s \<and> reg (snd (snd res)) = reg s)
      \<and> (\<not> IS_MYPACKET s pkt \<longrightarrow>
           (\<exists>k. ring_list (outq (snd (snd res))) = drop k (ring_list (outq s) @ (if fst res then [p] else []))))"
  proof cases
    case loc
    with wf' inl show ?thesis
      by (simp add: res_def p_def send_nof_local pkt_to_ring_def queues_wf_def Let_def kcall_def)
  next
    case full
    have "\<exists>k. ring_list (outq s) = drop k (ring_list (outq s))" by (rule exI [of _ 0]) simp
    with full wf' show ?thesis
      by (simp add: res_def p_def send_nof_remote_full queues_wf_def)
  next
    case room
    define s1 where "s1 = s\<lparr>outq := RING_IN (outq s) p, inq := snd (pkt_to_ring p (inq s))\<rparr>"
    define s2 where "s2 = (if fst (pkt_to_ring p (inq s)) then kcall QueueBh s1 else s1)"
    have res: "res = (True, p, try_xmit E s2)"
      by (simp add: res_def send_nof_remote_room [OF room] Let_def s2_def s1_def
          split_beta p_def)
    have s2: "outq s2 = RING_IN (outq s) p" "inq s2 = snd (pkt_to_ring p (inq s))"
      by (simp_all add: s2_def s1_def)
    have w: "ring_wf (outq s2)" using wf' room outl(2) by (simp add: s2)
    obtain k where "ring_list (outq (try_xmit E s2)) = drop k (ring_list (outq s2))"
      using try_xmit_outq(2) [OF w] by blast
    then have "\<exists>k. ring_list (outq (try_xmit E s2)) = drop k (ring_list (outq s) @ [p])"
      using wf' room outl(1) by (auto simp: s2)
    with room wf' inl try_xmit_outq(1) [OF w] show ?thesis
      by (simp add: res queues_wf_def s2 pkt_to_ring_def)
  qed
  then show ?wf ?ret ?inq "fst (snd res) = p"
    "IS_MYPACKET s pkt \<Longrightarrow> outq (snd (snd res)) = outq s \<and> reg (snd (snd res)) = reg s"
    "\<not> IS_MYPACKET s pkt \<Longrightarrow>
       \<exists>k. ring_list (outq (snd (snd res))) = drop k (ring_list (outq s) @ (if fst res then [p] else []))"
    by blast+
qed

lemma send_queues:
  fixes s :: "('c, 'z) can_main_scheme" and E :: "('c, 'p) env" and pkt :: can_packet
  assumes wf: "queues_wf s"
  defines "p \<equiv> incoming_fixup s (outgoing_fixup s pkt)"
  shows "queues_wf (snd (snd (send_pkt E pkt s)))"
    and "fst (send_pkt E pkt s) \<longleftrightarrow> \<not> RING_FULL (if IS_MYPACKET s pkt then inq s else outq s)"
    and "ring_list (inq (snd (snd (send_pkt E pkt s)))) =
           ring_list (inq s) @ (if fst (send_pkt E pkt s) \<and> \<not> RING_FULL (inq s) then [p] else [])"
    and "IS_MYPACKET s pkt \<Longrightarrow> outq (snd (snd (send_pkt E pkt s))) = outq s \<and> reg (snd (snd (send_pkt E pkt s))) = reg s"
    and "\<not> IS_MYPACKET s pkt \<Longrightarrow> \<exists>k. ring_list (outq (snd (snd (send_pkt E pkt s)))) =
           drop k (ring_list (outq s) @ (if fst (send_pkt E pkt s) then [p] else []))"
    and "fst (snd (send_pkt E pkt s)) = p"
  using send_nof_queues [OF wf, where pkt = "outgoing_fixup s pkt" and E = E]
  unfolding p_def send_pkt_def by simp_all

section \<open>The interface of the send path\<close>

text \<open>
  A packet a node may put on the bus: it has the node's own address as its source, or it is
  the \<^verbatim>\<open>IAM\<close> packet that the node sends to the module's controller in the name of the board's.
\<close>

definition own_source :: "('c, 'z) can_main_scheme \<Rightarrow> can_packet \<Rightarrow> bool" where
  "own_source s p \<longleftrightarrow> src (can p) = ucast (UNPACK_NODE (can_nodeid s))"

definition iam_for_board :: "('c, 'z) can_main_scheme \<Rightarrow> can_packet \<Rightarrow> bool" where
  "iam_for_board s p \<longleftrightarrow> src (can p) = ucast (CAN_GET_BOARD_H8 (UNPACK_NODE (can_nodeid s)))
     \<and> dest (can p) = ucast CAN_MODULE_H8 \<and> ctype (ext p) = CANTYPE_WNA \<and> object (ext p) = CANOBJ_IAM"

definition authentic :: "('c, 'z) can_main_scheme \<Rightarrow> can_packet \<Rightarrow> bool" where
  "authentic s p \<longleftrightarrow> remote (can p) = 0 \<and> (own_source s p \<or> iam_for_board s p)"

lemma authentic_out [simp]: "authentic s (outgoing_fixup s p)"
  by (simp add: authentic_def own_source_def outgoing_fixup_def)

lemma authentic_stamped [simp]: "authentic s (incoming_fixup t p) = authentic s p"
  by (simp add: authentic_def own_source_def iam_for_board_def incoming_fixup_def)

text \<open>
  Packets announced to the bottom half: the trace grows, and an inbound queue with packets where there were none
  comes with a request for the bottom half.
\<close>

definition announced :: "('c, 'z) can_main_scheme \<Rightarrow> can_packet ringbuf \<Rightarrow> kevent list \<Rightarrow> bool" where
  "announced s i t \<longleftrightarrow> (\<exists>e. t = ktrace s @ e \<and> (ring_list i \<noteq> [] \<longrightarrow> ring_list (inq s) \<noteq> [] \<or> QueueBh \<in> set e))"

lemma announced_same [simp]: "announced s (inq s) (ktrace s)" "announced s (inq s) (ktrace s @ e)"
  by (auto simp: announced_def)

lemma send_announced: "announced s (inq (snd (snd (send_pkt_no_out_fixup E pkt s)))) (ktrace (snd (snd (send_pkt_no_out_fixup E pkt s))))"
proof -
  have x: "\<exists>e. ktrace (try_xmit E (kcall QueueBh u)) = ktrace u @ e \<and> QueueBh \<in> set e" for u :: "('a, 'b) can_main_scheme"
    using ktrace_try_xmit [of E "kcall QueueBh u"] by (auto simp: kcall_def)
  consider "IS_MYPACKET s pkt" | "\<not> IS_MYPACKET s pkt" "RING_FULL (outq s)"
    | "\<not> IS_MYPACKET s pkt" "\<not> RING_FULL (outq s)" by blast
  then show ?thesis
  proof cases
    case 1
    then show ?thesis by (auto simp: send_nof_local announced_def Let_def split_beta pkt_to_ring_def kcall_def)
  next
    case 2
    then show ?thesis by (simp add: send_nof_remote_full)
  next
    case 3
    let ?u = "s\<lparr>outq := RING_IN (outq s) (incoming_fixup s pkt), inq := snd (pkt_to_ring (incoming_fixup s pkt) (inq s))\<rparr>"
    show ?thesis using 3 x [of ?u] ktrace_try_xmit [of E ?u]
      by (auto simp: send_nof_remote_room announced_def Let_def split_beta pkt_to_ring_def)
  qed
qed

text \<open>
  What the layers above need of the send path: a property of the state that does
  not depend on the contents of the inbound queue, beyond that they are announced, on the chip or on the call trace, and that
  authentic packets in the outbound queue do not hurt, is kept by every send.
\<close>

locale send_closed =
  fixes I :: "('c, 'z) can_main_scheme \<Rightarrow> bool"
  assumes I_queues: "I s \<Longrightarrow> queues_wf s"
    and I_upd: "I s \<Longrightarrow> ring_wf i \<Longrightarrow> ring_wf q \<Longrightarrow> set (ring_list q) \<subseteq> set (ring_list (outq s)) \<union> Collect (authentic s) \<Longrightarrow>
      announced s i t \<Longrightarrow> I (s\<lparr>inq := i, outq := q, reg := c, ktrace := t\<rparr>)"
begin

lemma I_reg: assumes "I s" shows "I (s\<lparr>reg := c\<rparr>)"
  using I_upd [OF assms, where i = "inq s" and q = "outq s" and t = "ktrace s"] I_queues [OF assms]
  by (simp add: queues_wf_def)

lemma I_inq: assumes "I s" "ring_wf i" "ring_list (inq s) \<noteq> []" shows "I (s\<lparr>inq := i\<rparr>)"
  using I_upd [OF assms(1,2), where q = "outq s" and c = "reg s" and t = "ktrace s"] I_queues [OF assms(1)] assms(3)
  by (simp add: queues_wf_def announced_def)

lemma I_kcall: assumes "I s" shows "I (kcall e s)"
  using I_upd [OF assms, where i = "inq s" and q = "outq s" and c = "reg s" and t = "ktrace s @ [e]"] I_queues [OF assms]
  by (simp add: queues_wf_def kcall_def)

lemma I_rd: "I s \<Longrightarrow> I (snd (rd E r s))"
  by (simp add: rd_eq I_reg)

lemma I_wr: "I s \<Longrightarrow> I (wr E r v s)"
  by (simp add: wr_def I_reg)

lemma I_copy_rx: "I s \<Longrightarrow> I (snd (can_copy_rx E pkt s))"
  using can_copy_rx_frame [of E pkt s] by (auto simp: I_reg)

lemma I_try_xmit: assumes "I s" shows "I (try_xmit E s)"
proof -
  obtain q c t where x: "try_xmit E s = s\<lparr>outq := q, reg := c, ktrace := t\<rparr>"
    using try_xmit_frame [of E s] by blast
  have wf: "queues_wf s" using assms by (rule I_queues)
  then have q: "ring_wf (outq (try_xmit E s))" "\<exists>k. ring_list (outq (try_xmit E s)) = drop k (ring_list (outq s))"
    by (simp_all add: queues_wf_def try_xmit_outq)
  then have "set (ring_list q) \<subseteq> set (ring_list (outq s))" by (auto simp: x dest: in_set_dropD)
  moreover have "announced s (inq s) t" using ktrace_try_xmit [of E s] by (auto simp: x)
  ultimately show ?thesis
    using I_upd [OF assms, where i = "inq s" and q = q and c = c and t = t] wf q(1) by (auto simp: x queues_wf_def)
qed

lemma I_send_nof: assumes "I s" "authentic s pkt" shows "I (snd (snd (send_pkt_no_out_fixup E pkt s)))"
proof -
  obtain i q c t where x: "snd (snd (send_pkt_no_out_fixup E pkt s)) =
      s\<lparr>inq := i, outq := q, reg := c, ktrace := t\<rparr>"
    using send_nof_frame [of E pkt s] by blast
  note sq = send_nof_queues [OF I_queues [OF assms(1)], where E = E and pkt = pkt]
  have "set (ring_list q) \<subseteq> set (ring_list (outq s)) \<union> Collect (authentic s)"
  proof (cases "IS_MYPACKET s pkt")
    case True
    then show ?thesis using sq(4) by (simp add: x)
  next
    case False
    obtain k where "ring_list q = drop k (ring_list (outq s) @ (if fst (send_pkt_no_out_fixup E pkt s) then [incoming_fixup s pkt] else []))"
      using sq(5) [OF False] by (auto simp: x)
    then show ?thesis using assms(2) by (auto dest!: in_set_dropD split: if_splits)
  qed
  moreover have "announced s i t" using send_announced [of s E pkt] by (simp add: x)
  ultimately show ?thesis
    using I_upd [OF assms(1), where i = i and q = q and c = c and t = t] sq(1) by (simp add: x queues_wf_def)
qed

lemma I_send: "I s \<Longrightarrow> I (snd (snd (send_pkt E pkt s)))"
  by (simp add: send_pkt_def I_send_nof)

end

interpretation queues: send_closed queues_wf
  by unfold_locales (simp_all add: queues_wf_def)

end
