(* ===== verification/CanConsole.thy ===== *)
theory CanConsole
  imports CanDev
begin

text \<open>
  Console character I/O (\<^verbatim>\<open>kernel/drivers/meiko/can_console.c\<close>): the connection to at
  most one remote console program, the character buffers between the tty layer
  and the packets, and the stop-and-wait protocol of the outbound direction.
  Its state extends the driver state with the file's static variables.

  A timer is the pair of its expiry time and its data while it is queued, and
  \<open>None\<close> otherwise. Characters are bytes.
\<close>

section \<open>State\<close>

text \<open>
  The fields of the kernel's \<^verbatim>\<open>tty_struct\<close> that the driver uses; \<open>flip_chars\<close> are the
  characters stored through the flip buffer pointer.
\<close>

record tty =
  stopped :: bool
  flip_ptr_null :: bool
  flip_count :: nat
  flip_chars :: "u8 list"
  do_write_wakeup :: bool
  ldisc_write_wakeup :: bool

record 'c can_console = "'c can_main" +
  cancon_outbuf :: "u8 ringbuf"
  cancon_inbuf :: "u8 ringbuf"
  cancon_ack_pending :: bool
  cancon_rmt :: can_header_ext
  ttyp :: "tty option"
  cantty_myrefcount :: int
  cantty_registered :: bool
  ack_timer :: "(u32 \<times> u32) option"

type_synonym ('c, 'z) console_state = "('c, 'z) can_console_scheme"

definition CANCON_ACK_TIMEOUT :: "('c, 'p) env \<Rightarrow> u32" where
  "CANCON_ACK_TIMEOUT E = (500 * HZ E) div 1000"

section \<open>Connecting\<close>

definition cancon_setcon ::
    "can_packet option \<Rightarrow> ('c, 'z) console_state \<Rightarrow> ('c, 'z) console_state" where
  "cancon_setcon pkt s =
     (case pkt of
        None \<Rightarrow> s\<lparr>cancon_rmt := (cancon_rmt s)\<lparr>cluster := 0x3f, module := 0x3f, node := 0x3f,
                                               object := 0x3f\<rparr>\<rparr>
      | Some p \<Rightarrow> s\<lparr>cancon_rmt := dat_ext (dat p)\<rparr>)"

definition IS_LOCAL :: "('c, 'z) console_state \<Rightarrow> can_header_ext \<Rightarrow> bool" where
  "IS_LOCAL s x \<longleftrightarrow> ucast (cluster x) = UNPACK_CLUSTER (can_nodeid s)
     \<and> ucast (module x) = UNPACK_MODULE (can_nodeid s)"

section \<open>Output\<close>

text \<open>\<^verbatim>\<open>cantty_write_wakeup\<close>: its argument is a tty or NULL, which means the open one.\<close>

definition cantty_write_wakeup ::
    "tty option \<Rightarrow> ('c, 'z) console_state \<Rightarrow> ('c, 'z) console_state" where
  "cantty_write_wakeup t s =
     (case (case t of None \<Rightarrow> ttyp s | Some _ \<Rightarrow> t) of
        None \<Rightarrow> s
      | Some tt \<Rightarrow> kcall (TtyWriteWakeup (do_write_wakeup tt \<and> ldisc_write_wakeup tt)) s)"

fun fill_dat :: "u32 \<Rightarrow> nat \<Rightarrow> u8 list \<Rightarrow> u32" where
  "fill_dat w i [] = w"
| "fill_dat w i (c # cs) = fill_dat (set_dat_b w i c) (Suc i) cs"

definition cancon_pkt ::
    "('c, 'p) env \<Rightarrow> u8 list \<Rightarrow> ('c, 'z) console_state \<Rightarrow> can_packet" where
  "cancon_pkt E cs s =
     (let pkt = (stack_pkt E)\<lparr>dat := fill_dat (dat (stack_pkt E)) 0 cs\<rparr>;
          pkt = pkt\<lparr>can := (can pkt)\<lparr>clength := of_nat (4 + length cs)\<rparr>\<rparr>;
          pkt = pkt\<lparr>ext := cancon_rmt s\<rparr>;
          d = (if IS_LOCAL s (ext pkt) then ucast (node (ext pkt)) else ucast CAN_MODULE_H8);
          pkt = pkt\<lparr>can := (can pkt)\<lparr>dest := d\<rparr>\<rparr>
      in pkt\<lparr>ext := (ext pkt)\<lparr>ctype := CANTYPE_DAT\<rparr>\<rparr>)"

definition cancon_send_next ::
    "('c, 'p) env \<Rightarrow> ('c, 'z) console_state \<Rightarrow> ('c, 'z) console_state" where
  "cancon_send_next E s =
     (if CANCON_UNCONNECTED (cancon_rmt s) then s\<lparr>cancon_outbuf := clear_ring (cancon_outbuf s)\<rparr>
      else if cancon_ack_pending s then s
      else (case deq_upto ring_to_char 4 (cancon_outbuf s) of (cs, q) \<Rightarrow>
              (let s = s\<lparr>cancon_outbuf := q\<rparr>
               in if length cs = 0 then s
                  else (case send_pkt E (cancon_pkt E cs s) s of (ok, _, s) \<Rightarrow>
                          if \<not> ok then s
                          else (let s = s\<lparr>cancon_ack_pending := True\<rparr>;
                                    s = s\<lparr>ack_timer := Some (jiffies s + CANCON_ACK_TIMEOUT E, 1)\<rparr>
                                in cantty_write_wakeup None s)))))"

definition cancon_recv_ack ::
    "('c, 'p) env \<Rightarrow> u32 \<Rightarrow> ('c, 'z) console_state \<Rightarrow> ('c, 'z) console_state" where
  "cancon_recv_ack E timeout s =
     (let s = s\<lparr>ack_timer := None\<rparr>;
          unexpected = (\<not> cancon_ack_pending s);
          s = (if cancon_ack_pending s then s\<lparr>cancon_ack_pending := False\<rparr> else s);
          s = (if unexpected then
                 kcall (Printk (if timeout \<noteq> 0 then ''can: unexpected ACK timeout''
                                else ''can: unexpected ACK received'') []) s
               else if timeout \<noteq> 0 then kcall (Printk ''can: consobj ACK timed out'' []) s
               else s)
      in cancon_send_next E s)"

text \<open>Carriage returns are added before newlines; a full buffer drops characters.\<close>

fun printk_chars :: "u8 list \<Rightarrow> u8 ringbuf \<Rightarrow> u8 ringbuf" where
  "printk_chars [] q = q"
| "printk_chars (c # str) q =
     (let q = (if c = 0x0a then snd (char_to_ring 0x0d q) else q)
      in printk_chars str (snd (char_to_ring c q)))"

definition cancon_printk_write ::
    "('c, 'p) env \<Rightarrow> u8 list \<Rightarrow> ('c, 'z) console_state \<Rightarrow> ('c, 'z) console_state" where
  "cancon_printk_write E str s =
     (if CANCON_UNCONNECTED (cancon_rmt s) \<or> length str = 0 then s
      else cancon_send_next E (s\<lparr>cancon_outbuf := printk_chars str (cancon_outbuf s)\<rparr>))"

section \<open>Hangup and input\<close>

definition cantty_hangup :: "('c, 'z) console_state \<Rightarrow> ('c, 'z) console_state" where
  "cantty_hangup s =
     (let s = s\<lparr>cancon_outbuf := clear_ring (cancon_outbuf s),
                cancon_inbuf := clear_ring (cancon_inbuf s)\<rparr>
      in if ttyp s \<noteq> None then kcall TtyHangup s else s)"

definition cantty_recv_push ::
    "('c, 'p) env \<Rightarrow> ('c, 'z) console_state \<Rightarrow> ('c, 'z) console_state" where
  "cantty_recv_push E s =
     (case ttyp s of
        None \<Rightarrow> s
      | Some t \<Rightarrow>
          if flip_ptr_null t then s
          else (case deq_upto ring_to_char (TTY_FLIPBUF_SIZE E - flip_count t) (cancon_inbuf s) of
                  (cs, q) \<Rightarrow>
                    kcall TtyFlipPush
                      (s\<lparr>cancon_inbuf := q,
                         ttyp := Some (t\<lparr>flip_chars := flip_chars t @ cs,
                                         flip_count := flip_count t + length cs\<rparr>)\<rparr>)))"

text \<open>The characters start at \<open>p 0\<close>; a count that is not positive stores nothing.\<close>

definition cantty_recv_dat ::
    "('c, 'p) env \<Rightarrow> (nat \<Rightarrow> u8) \<Rightarrow> int \<Rightarrow> ('c, 'z) console_state \<Rightarrow> ('c, 'z) console_state" where
  "cantty_recv_dat E p count s =
     cantty_recv_push E
       (s\<lparr>cancon_inbuf := enq_list char_to_ring (map p [0..<nat count]) (cancon_inbuf s)\<rparr>)"

section \<open>The tty operations\<close>

definition cantty_open :: "tty \<Rightarrow> ('c, 'z) console_state \<Rightarrow> ('c, 'z) console_state" where
  "cantty_open t s =
     s\<lparr>ttyp := Some t, cantty_myrefcount := cantty_myrefcount s + 1,
       mod_usecount := mod_usecount s + 1\<rparr>"

definition cantty_close :: "('c, 'z) console_state \<Rightarrow> ('c, 'z) console_state" where
  "cantty_close s =
     (let s = s\<lparr>cantty_myrefcount := cantty_myrefcount s - 1\<rparr>;
          s = (if cantty_myrefcount s = 0 then s\<lparr>ttyp := None\<rparr> else s)
      in s\<lparr>mod_usecount := mod_usecount s - 1\<rparr>)"

text \<open>
  \<open>cantty_write\<close>: \<open>b i\<close> is the character at offset \<open>i\<close>, \<open>fault i\<close> whether reading it from
  user space fails; a NULL \<^verbatim>\<open>buf\<close> is \<open>None\<close>.
\<close>

fun cantty_write_loop ::
    "bool \<Rightarrow> (nat \<Rightarrow> u8) \<Rightarrow> (nat \<Rightarrow> bool) \<Rightarrow> nat \<Rightarrow> nat \<Rightarrow> u8 ringbuf \<Rightarrow> (errno + nat) \<times> u8 ringbuf" where
  "cantty_write_loop from_user b fault i 0 q = (Inr i, q)"
| "cantty_write_loop from_user b fault i (Suc n) q =
     (if from_user \<and> fault i then (Inl EFAULT, q)
      else (case char_to_ring (b i) q of
              (True, q') \<Rightarrow> cantty_write_loop from_user b fault (Suc i) n q'
            | (False, q') \<Rightarrow> (Inr i, q')))"

definition cantty_write ::
    "('c, 'p) env \<Rightarrow> tty \<Rightarrow> bool \<Rightarrow> (nat \<Rightarrow> u8) option \<Rightarrow> (nat \<Rightarrow> bool) \<Rightarrow> nat \<Rightarrow>
     ('c, 'z) console_state \<Rightarrow> (errno + nat) \<times> ('c, 'z) console_state" where
  "cantty_write E t from_user bf fault count s =
     (if CANCON_UNCONNECTED (cancon_rmt s) then (Inr count, s)
      else (case bf of
              None \<Rightarrow> (Inr 0, s)
            | Some b \<Rightarrow>
                if stopped t then (Inr 0, s)
                else (case cantty_write_loop from_user b fault 0 count (cancon_outbuf s) of
                        (r, q) \<Rightarrow>
                          (let s = s\<lparr>cancon_outbuf := q\<rparr>
                           in (r, case r of
                                    Inl _ \<Rightarrow> s
                                  | Inr i \<Rightarrow> if i > 0 then cancon_send_next E s else s)))))"

definition cantty_write_room :: "tty \<Rightarrow> ('c, 'z) console_state \<Rightarrow> int" where
  "cantty_write_room t s = (if stopped t then 0 else RING_ROOM (cancon_outbuf s))"

definition cantty_put_char ::
    "('c, 'p) env \<Rightarrow> u8 \<Rightarrow> ('c, 'z) console_state \<Rightarrow> ('c, 'z) console_state" where
  "cantty_put_char E ch s =
     cancon_send_next E (s\<lparr>cancon_outbuf := snd (char_to_ring ch (cancon_outbuf s))\<rparr>)"

definition cantty_flush_buffer :: "tty \<Rightarrow> ('c, 'z) console_state \<Rightarrow> ('c, 'z) console_state" where
  "cantty_flush_buffer t s =
     cantty_write_wakeup (Some t) (s\<lparr>cancon_outbuf := clear_ring (cancon_outbuf s)\<rparr>)"

definition cantty_chars_in_buffer :: "('c, 'z) console_state \<Rightarrow> int" where
  "cantty_chars_in_buffer s = RING_SIZE (cancon_outbuf s)"

section \<open>Start, stop and debugging output\<close>

definition cantty_init ::
    "('c, 'p) env \<Rightarrow> ('c, 'z) console_state \<Rightarrow> ('c, 'z) console_state" where
  "cantty_init E s =
     (if tty_register_driver E \<noteq> 0 then kcall (Printk ''can: tty_register_driver failed'' []) s
      else s\<lparr>cantty_registered := True\<rparr>)"

definition cantty_cleanup :: "('c, 'z) console_state \<Rightarrow> ('c, 'z) console_state" where
  "cantty_cleanup s = (if cantty_registered s then kcall TtyUnregister s else s)"

definition cancon_dump_debug :: "('c, 'z) console_state \<Rightarrow> ('c, 'z) console_state" where
  "cancon_dump_debug s =
     (let s = kcall (Printk ''can: cancon_inbuf contains %d chars'' [RING_SIZE (cancon_inbuf s)]) s;
          s = kcall (Printk ''can: cancon_outbuf contains %d chars'' [RING_SIZE (cancon_outbuf s)]) s
      in kcall (Printk ''can: cancon_ack_pending = %d'' [of_bool (cancon_ack_pending s)]) s)"

definition cancon_dump_info :: "('c, 'z) console_state \<Rightarrow> ('c, 'z) console_state" where
  "cancon_dump_info s =
     (if CANCON_UNCONNECTED (cancon_rmt s) then kcall (Printk ''can: console not connected'' []) s
      else kcall (Printk ''can: console is connected to %x,%x,%x''
             [uint (cluster (cancon_rmt s)), uint (module (cancon_rmt s)), uint (node (cancon_rmt s))]) s)"

definition cancon_init ::
    "('c, 'p) env \<Rightarrow> ('c, 'z) console_state \<Rightarrow> ('c, 'z) console_state" where
  "cancon_init E s =
     (let s = s\<lparr>cancon_outbuf := RING_INIT (cancon_outbuf s)\<rparr>;
          s = s\<lparr>cancon_outbuf := RING_INIT_INLOCK (cancon_outbuf s)\<rparr>;
          s = s\<lparr>cancon_inbuf := RING_INIT (cancon_inbuf s)\<rparr>
      in kcall RegisterConsole (cantty_init E s))"

definition cancon_cleanup :: "('c, 'z) console_state \<Rightarrow> ('c, 'z) console_state" where
  "cancon_cleanup s = cantty_cleanup (kcall UnregisterConsole s)"

section \<open>The console invariant\<close>

text \<open>
  Besides the queues: the acknowledgement timer is queued exactly while an
  acknowledgement is awaited, so \<^verbatim>\<open>add_timer\<close> is never called on a queued timer.
\<close>

definition console_wf :: "('c, 'z) console_state \<Rightarrow> bool" where
  "console_wf s \<longleftrightarrow> queues_wf s \<and> ring_wf (cancon_outbuf s) \<and> ring_wf (cancon_inbuf s)
     \<and> (cancon_ack_pending s \<longleftrightarrow> ack_timer s \<noteq> None)"

lemma wf_printk_chars: "ring_wf q \<Longrightarrow> ring_wf (printk_chars str q)"
  by (induction str arbitrary: q) (simp_all add: Let_def charq.wf_enq)

lemma wf_write_loop: "ring_wf q \<Longrightarrow> ring_wf (snd (cantty_write_loop u b f i n q))"
proof (induction n arbitrary: i q)
  case (Suc n)
  have "ring_wf (snd (char_to_ring (b i) q))" using Suc.prems by (rule charq.wf_enq)
  with Suc show ?case by (auto split: prod.split bool.split)
qed simp

text \<open>
  The contract of the console layer: a state property that implies the invariant and
  that buffer, acknowledgement and tty updates keep is kept by every operation of
  the console.
\<close>

locale console_closed = send_closed I for I :: "('c, 'z) console_state \<Rightarrow> bool" +
  assumes I_console: "I s \<Longrightarrow> console_wf s"
    and I_console_upd: "I s \<Longrightarrow> ring_wf a \<Longrightarrow> ring_wf b \<Longrightarrow> (p \<longleftrightarrow> t \<noteq> None) \<Longrightarrow>
      I (s\<lparr>cancon_outbuf := a, cancon_inbuf := b, cancon_ack_pending := p, ack_timer := t, ttyp := y\<rparr>)"
begin

lemma I_bufs: "I s \<Longrightarrow> ring_wf (cancon_outbuf s)" "I s \<Longrightarrow> ring_wf (cancon_inbuf s)"
  "I s \<Longrightarrow> cancon_ack_pending s \<longleftrightarrow> ack_timer s \<noteq> None"
  using I_console by (auto simp: console_wf_def)

lemma I_outbuf: assumes "I s" "ring_wf a" shows "I (s\<lparr>cancon_outbuf := a\<rparr>)"
  using I_console_upd [OF assms I_bufs(2,3) [OF assms(1)], of "ttyp s"] by simp

lemma I_inbuf: assumes "I s" "ring_wf b" shows "I (s\<lparr>cancon_inbuf := b, ttyp := y\<rparr>)"
  using I_console_upd [OF assms(1) I_bufs(1) [OF assms(1)] assms(2) I_bufs(3) [OF assms(1)], of y] by simp

lemma I_ack: assumes "I s" "p \<longleftrightarrow> t \<noteq> None" shows "I (s\<lparr>cancon_ack_pending := p, ack_timer := t\<rparr>)"
  using I_console_upd [OF assms(1), of "cancon_outbuf s" "cancon_inbuf s" p t "ttyp s"]
    I_bufs [OF assms(1)] assms(2) by simp

lemma I_write_wakeup: "I s \<Longrightarrow> I (cantty_write_wakeup t s)"
  by (auto simp: cantty_write_wakeup_def I_kcall split: option.split)

lemma I_send_next: assumes "I s" shows "I (cancon_send_next E s)"
proof -
  obtain cs q where d: "deq_upto ring_to_char 4 (cancon_outbuf s) = (cs, q)" by fastforce
  have q: "ring_wf q" using charq.deq_upto_spec [OF I_bufs(1) [OF assms], of 4] by (simp add: d)
  define s1 where "s1 = s\<lparr>cancon_outbuf := q\<rparr>"
  define s2 where "s2 = snd (snd (send_pkt E (cancon_pkt E cs s1) s1))"
  have s1: "I s1" using assms q by (simp add: s1_def I_outbuf)
  then have s2: "I s2" by (simp add: s2_def I_send)
  then have s3: "I (cantty_write_wakeup None (s2\<lparr>cancon_ack_pending := True, ack_timer := Some x\<rparr>))" for x
    by (simp add: I_write_wakeup I_ack)
  show ?thesis
    using assms s1 s2 s3
    by (simp add: cancon_send_next_def d Let_def s1_def [symmetric] s2_def I_outbuf split_beta)
qed

lemma I_recv_ack: assumes "I s" shows "I (cancon_recv_ack E timeout s)"
proof -
  have comm: "s\<lparr>ack_timer := None, cancon_ack_pending := False\<rparr> =
      s\<lparr>cancon_ack_pending := False, ack_timer := None\<rparr>" by simp
  have "I (s\<lparr>ack_timer := None, cancon_ack_pending := False\<rparr>)"
    unfolding comm by (rule I_ack [OF assms]) simp
  moreover have "I (s\<lparr>ack_timer := None\<rparr>)" if "\<not> cancon_ack_pending s"
  proof -
    have "s\<lparr>cancon_ack_pending := False\<rparr> = s" using that by (cases s) simp
    then show ?thesis using I_ack [OF assms, of False None] by simp
  qed
  ultimately show ?thesis
    by (auto simp: cancon_recv_ack_def Let_def intro!: I_send_next I_kcall)
qed

lemma I_printk_write: "I s \<Longrightarrow> I (cancon_printk_write E str s)"
  by (simp add: cancon_printk_write_def I_send_next I_outbuf wf_printk_chars I_bufs)

lemma I_hangup: assumes "I s" shows "I (cantty_hangup s)"
proof -
  have "I (s\<lparr>cancon_outbuf := clear_ring (cancon_outbuf s), cancon_inbuf := clear_ring (cancon_inbuf s)\<rparr>)"
    using I_inbuf [OF I_outbuf [OF assms], of "clear_ring (cancon_outbuf s)" "clear_ring (cancon_inbuf s)"
        "ttyp s"] by simp
  then show ?thesis by (simp add: cantty_hangup_def Let_def I_kcall)
qed

lemma I_recv_push: assumes "I s" shows "I (cantty_recv_push E s)"
proof -
  have "ring_wf (snd (deq_upto ring_to_char n (cancon_inbuf s)))" for n
    using charq.deq_upto_spec [OF I_bufs(2) [OF assms], of n] by simp
  then show ?thesis
    using assms by (auto simp: cantty_recv_push_def split_beta intro!: I_kcall I_inbuf split: option.split)
qed

lemma I_recv_dat: assumes "I s" shows "I (cantty_recv_dat E p n s)"
proof -
  have "I (s\<lparr>cancon_inbuf := b\<rparr>)" if "ring_wf b" for b
    using I_inbuf [OF assms that, of "ttyp s"] by simp
  then show ?thesis
    by (simp add: cantty_recv_dat_def I_recv_push charq.enq_list_spec I_bufs [OF assms])
qed

lemma I_write: assumes "I s" shows "I (snd (cantty_write E t u bf f n s))"
proof -
  have "ring_wf (snd (cantty_write_loop u b f 0 n (cancon_outbuf s)))" for b
    by (rule wf_write_loop) (rule I_bufs [OF assms])
  then have "I (s\<lparr>cancon_outbuf := snd (cantty_write_loop u b f 0 n (cancon_outbuf s))\<rparr>)" for b
    using assms by (simp add: I_outbuf)
  then show ?thesis
    using assms by (auto simp: cantty_write_def Let_def split_beta I_send_next split: option.split sum.split)
qed

lemma I_put_char: "I s \<Longrightarrow> I (cantty_put_char E ch s)"
  by (simp add: cantty_put_char_def I_send_next I_outbuf charq.wf_enq I_bufs)

lemma I_flush_buffer: "I s \<Longrightarrow> I (cantty_flush_buffer t s)"
  by (simp add: cantty_flush_buffer_def I_write_wakeup I_outbuf)

lemma I_dump: "I s \<Longrightarrow> I (cancon_dump_debug s)" "I s \<Longrightarrow> I (cancon_dump_info s)"
  by (simp_all add: cancon_dump_debug_def cancon_dump_info_def Let_def I_kcall)

end

interpretation console: console_closed console_wf
  by unfold_locales (simp_all add: console_wf_def queues_wf_def)

end
