(* ===== verification/CanObj.thy ===== *)
theory CanObj
  imports CanConsole
begin

text \<open>
  The CAN objects the kernel answers itself (\<^verbatim>\<open>kernel/drivers/meiko/can_obj.c\<close>): the
  handlers of the console, break, test, PROM option and heartbeat objects, their
  dispatcher, and the periodic heartbeat. Every handler returns whether it handled
  the packet, and the driver state; the state extends the console's with this
  file's static variables and the PROM's contents.
\<close>

section \<open>State\<close>

text \<open>\<open>testrw_val\<close> and \<open>hb_count\<close> are the static locals of \<^verbatim>\<open>canobj_testrw\<close> and \<^verbatim>\<open>canobj_send_heartbeat\<close>.\<close>

record ('c, 'p) can_obj = "'c can_console" +
  hb_timer :: "u32 option"
  can_boardtype :: u32
  can_hb_val :: u32
  hb_count :: u32
  testrw_val :: u32
  promdata :: 'p

type_synonym ('c, 'p) driver = "('c, 'p) can_obj"

definition HB_INTERVAL :: "('c, 'p) env \<Rightarrow> u32" where
  "HB_INTERVAL E = (250 * HZ E) div 1000"

definition canobj_sethbval :: "u32 \<Rightarrow> ('c, 'p) driver \<Rightarrow> ('c, 'p) driver" where
  "canobj_sethbval v s = s\<lparr>can_hb_val := v\<rparr>"

definition canobj_gethbval :: "('c, 'p) driver \<Rightarrow> u32" where
  "canobj_gethbval s = can_hb_val s"

section \<open>Responses\<close>

definition acknak_pkt :: "3 word \<Rightarrow> can_packet \<Rightarrow> u32 option \<Rightarrow> can_packet" where
  "acknak_pkt type inpkt data =
     (let pkt = inpkt\<lparr>can := (can inpkt)\<lparr>dest := src (can inpkt)\<rparr>\<rparr>;
          pkt = pkt\<lparr>ext := (ext pkt)\<lparr>ctype := type\<rparr>\<rparr>;
          pkt = pkt\<lparr>can := (can pkt)\<lparr>clength := 4\<rparr>\<rparr>
      in (case data of
            None \<Rightarrow> pkt
          | Some d \<Rightarrow> pkt\<lparr>dat := d, can := (can pkt)\<lparr>clength := clength (can pkt) + 4\<rparr>\<rparr>))"

definition canobj_acknak ::
    "('c, 'p) env \<Rightarrow> 3 word \<Rightarrow> can_packet \<Rightarrow> u32 option \<Rightarrow> ('c, 'p) driver \<Rightarrow> ('c, 'p) driver" where
  "canobj_acknak E type inpkt data s = snd (snd (send_pkt E (acknak_pkt type inpkt data) s))"

section \<open>The console host in the PROM\<close>

text \<open>Decimal printing and reading of an unsigned long, as \<^verbatim>\<open>sprintf("%lu")\<close> and \<^verbatim>\<open>simple_strtoul\<close> do.\<close>

fun sprintf_lu :: "nat \<Rightarrow> string" where
  "sprintf_lu n = (if n < 10 then [char_of (48 + n)] else sprintf_lu (n div 10) @ [char_of (48 + n mod 10)])"

declare sprintf_lu.simps [simp del]

fun simple_strtoul :: "string \<Rightarrow> u32 \<Rightarrow> u32" where
  "simple_strtoul [] r = r"
| "simple_strtoul (c # cs) r =
     (if 48 \<le> (of_char c :: nat) \<and> (of_char c :: nat) \<le> 57
      then simple_strtoul cs (r * 10 + of_nat (of_char c - 48)) else r)"

datatype getset = GET | SET

text \<open>
  The buffer \<^verbatim>\<open>tmpstr\<close> has 16 characters. Reading may fill it, which the length given to \<^verbatim>\<open>obp_getprop\<close> says; what \<^verbatim>\<open>sprintf\<close> writes into it has at most ten digits and the
  terminator, so that the list that stands for it never outgrows it (shown with \<open>connection_survives_reboot\<close> in \<open>CanObjects\<close>).
\<close>

definition canobj_cancon_host ::
    "('c, 'p) env \<Rightarrow> getset \<Rightarrow> ('c, 'p) driver \<Rightarrow> ('c, 'p) driver" where
  "canobj_cancon_host E getset s =
     (case getset of
        GET \<Rightarrow>
          (let tmpstr = snd (obp_getprop (prom_of E) (promdata s) OBP_CANCON_HOST (take 16 (stack_buf E)));
               tmplong = simple_strtoul (cstr tmpstr) 0
           in s\<lparr>cancon_rmt := of_ext_dat tmplong\<rparr>)
      | SET \<Rightarrow>
          (let tmplong = ext_dat (cancon_rmt s);
               tmpstr = sprintf_lu (unat tmplong)
           in s\<lparr>promdata := snd (obp_setprop (prom_of E) (promdata s) OBP_CANCON_HOST (tmpstr @ [CHR 0x00]))\<rparr>))"

section \<open>The handlers\<close>

definition canobj_connect ::
    "('c, 'p) env \<Rightarrow> can_packet \<Rightarrow> ('c, 'p) driver \<Rightarrow> bool \<times> ('c, 'p) driver" where
  "canobj_connect E pkt s =
     (if ctype (ext pkt) = CANTYPE_RO then
        (True, canobj_acknak E CANTYPE_ACK pkt (Some (ext_dat (cancon_rmt s))) s)
      else if ctype (ext pkt) = CANTYPE_WO then
        (True,
         if \<not> CANCON_UNCONNECTED (cancon_rmt s) then canobj_acknak E CANTYPE_NAK pkt None s
         else (let s = cancon_setcon (Some pkt) s;
                   s = canobj_cancon_host E SET s
               in canobj_acknak E CANTYPE_ACK pkt (Some (ext_dat (cancon_rmt s))) s))
      else (False, s))"

definition canobj_disconnect ::
    "('c, 'p) env \<Rightarrow> can_packet \<Rightarrow> ('c, 'p) driver \<Rightarrow> bool \<times> ('c, 'p) driver" where
  "canobj_disconnect E pkt s =
     (if ctype (ext pkt) = CANTYPE_WO then
        (True,
         if CANCON_UNCONNECTED (cancon_rmt s) then canobj_acknak E CANTYPE_NAK pkt None s
         else (let s = cancon_setcon None s;
                   s = canobj_cancon_host E SET s;
                   s = canobj_acknak E CANTYPE_ACK pkt None s
               in cantty_hangup s))
      else (False, s))"

text \<open>
  \<open>canobj_dat\<close> passes the address of the four payload bytes and a count taken from the
  header's 4-bit length, so a larger count reads the bytes behind the packet.
\<close>

definition dat_bytes :: "('c, 'p) env \<Rightarrow> can_packet \<Rightarrow> nat \<Rightarrow> u8" where
  "dat_bytes E pkt i = (if i < 4 then byte_of (dat pkt) i else after_pkt E (i - 4))"

definition canobj_dat ::
    "('c, 'p) env \<Rightarrow> can_packet \<Rightarrow> ('c, 'p) driver \<Rightarrow> bool \<times> ('c, 'p) driver" where
  "canobj_dat E pkt s =
     (if CANCON_UNCONNECTED (cancon_rmt s) then (False, s)
      else if ctype (ext pkt) = CANTYPE_DAT then
        (let length = uint (clength (can pkt)) - 4;
             s = canobj_acknak E CANTYPE_ACK pkt None s
         in (True, cantty_recv_dat E (dat_bytes E pkt) length s))
      else (False, s))"

definition canobj_consobj ::
    "('c, 'p) env \<Rightarrow> can_packet \<Rightarrow> ('c, 'p) driver \<Rightarrow> bool \<times> ('c, 'p) driver" where
  "canobj_consobj E pkt s =
     (if ctype (ext pkt) = CANTYPE_ACK then (True, cancon_recv_ack E 0 s)
      else if ctype (ext pkt) = CANTYPE_NAK then
        (True, kcall (Printk ''can: consobj NAK - shouldn't happen'' []) s)
      else (False, s))"

definition canobj_break ::
    "('c, 'p) env \<Rightarrow> can_packet \<Rightarrow> ('c, 'p) driver \<Rightarrow> bool \<times> ('c, 'p) driver" where
  "canobj_break E pkt s =
     (if ctype (ext pkt) = CANTYPE_WO then
        (let s = canobj_acknak E CANTYPE_ACK pkt None s;
             s = kcall (Printk ''can: received BREAK, restarting machine'' []) s
         in (True, kcall MachineHalt s))
      else (False, s))"

definition canobj_testrw ::
    "('c, 'p) env \<Rightarrow> can_packet \<Rightarrow> ('c, 'p) driver \<Rightarrow> bool \<times> ('c, 'p) driver" where
  "canobj_testrw E pkt s =
     (if ctype (ext pkt) = CANTYPE_WO then
        (let s = canobj_acknak E CANTYPE_ACK pkt (Some (testrw_val s)) s
         in (True, s\<lparr>testrw_val := dat pkt\<rparr>))
      else if ctype (ext pkt) = CANTYPE_RO then
        (True, canobj_acknak E CANTYPE_ACK pkt (Some (testrw_val s)) s)
      else (False, s))"

definition canobj_autoboot ::
    "('c, 'p) env \<Rightarrow> can_packet \<Rightarrow> ('c, 'p) driver \<Rightarrow> bool \<times> ('c, 'p) driver" where
  "canobj_autoboot E pkt s =
     (if ctype (ext pkt) = CANTYPE_RO then
        (True,
         case obp_getcan (prom_of E) (promdata s) OBP_AUTO_BOOT OBP_BOOLEAN (stack_buf E) of
           None \<Rightarrow> canobj_acknak E CANTYPE_NAK pkt (Some (stack_u32 E)) s
         | Some val \<Rightarrow> canobj_acknak E CANTYPE_ACK pkt (Some val) s)
      else (False, s))"

definition canobj_reset_io ::
    "('c, 'p) env \<Rightarrow> can_packet \<Rightarrow> ('c, 'p) driver \<Rightarrow> bool \<times> ('c, 'p) driver" where
  "canobj_reset_io E pkt s =
     (let P = prom_of E; table = OBP_INPUT_DEVICE_VALUES
      in if ctype (ext pkt) = CANTYPE_RO then
           (True,
            case obp_getcan P (promdata s) OBP_INPUT_DEVICE table (stack_buf E) of
              None \<Rightarrow> canobj_acknak E CANTYPE_NAK pkt (Some 0) s
            | Some oldval \<Rightarrow> canobj_acknak E CANTYPE_ACK pkt (Some oldval) s)
         else if ctype (ext pkt) = CANTYPE_WO then
           (True,
            case obp_getcan P (promdata s) OBP_INPUT_DEVICE table (stack_buf E) of
              None \<Rightarrow> canobj_acknak E CANTYPE_NAK pkt (Some 0) s
            | Some oldval \<Rightarrow>
                (case obp_setcan P (promdata s) OBP_INPUT_DEVICE table (sint (dat pkt)) of
                   (r1, p1) \<Rightarrow>
                     (let s = s\<lparr>promdata := p1\<rparr>
                      in if r1 < 0 then canobj_acknak E CANTYPE_NAK pkt (Some oldval) s
                         else (case obp_setcan P p1 OBP_OUTPUT_DEVICE table (sint (dat pkt)) of
                                 (r2, p2) \<Rightarrow>
                                   (let s = s\<lparr>promdata := p2\<rparr>
                                    in if r2 < 0 then
                                         (let s = canobj_acknak E CANTYPE_NAK pkt (Some oldval) s
                                          in s\<lparr>promdata := snd (obp_setcan P (promdata s) OBP_INPUT_DEVICE
                                                                  table (sint oldval))\<rparr>)
                                       else canobj_acknak E CANTYPE_ACK pkt (Some oldval) s)))))
         else (False, s))"

definition canobj_boot_dev ::
    "('c, 'p) env \<Rightarrow> can_packet \<Rightarrow> ('c, 'p) driver \<Rightarrow> bool \<times> ('c, 'p) driver" where
  "canobj_boot_dev E pkt s =
     (if ctype (ext pkt) = CANTYPE_RO then
        (True,
         case obp_getcan (prom_of E) (promdata s) OBP_BOOT_DEVICE OBP_BOOT_DEVICE_VALUES (stack_buf E) of
           None \<Rightarrow> canobj_acknak E CANTYPE_NAK pkt (Some (stack_u32 E)) s
         | Some val \<Rightarrow> canobj_acknak E CANTYPE_ACK pkt (Some val) s)
      else (False, s))"

definition canobj_heartbeat ::
    "('c, 'p) env \<Rightarrow> can_packet \<Rightarrow> ('c, 'p) driver \<Rightarrow> bool \<times> ('c, 'p) driver" where
  "canobj_heartbeat E pkt s =
     (if ctype (ext pkt) = CANTYPE_RO then
        (True, canobj_acknak E CANTYPE_ACK pkt (Some (can_hb_val s)) s)
      else (False, s))"

definition canobj_force_disconn ::
    "('c, 'p) env \<Rightarrow> can_packet \<Rightarrow> ('c, 'p) driver \<Rightarrow> bool \<times> ('c, 'p) driver" where
  "canobj_force_disconn E pkt s =
     (if ctype (ext pkt) = CANTYPE_WO then
        (let consobj = dat_ext (dat pkt)
         in if \<not> CAN_VALID_CONSOBJ (uint (object consobj)) then (False, s)
            else if can_inuse_consobj (uint (object consobj)) s \<noteq> 0 then (False, s)
            else (True, canobj_acknak E CANTYPE_ACK pkt None s))
      else (False, s))"

section \<open>Dispatch\<close>

definition canobj_switch ::
    "('c, 'p) env \<Rightarrow> can_packet \<Rightarrow> ('c, 'p) driver \<Rightarrow> bool \<times> ('c, 'p) driver" where
  "canobj_switch E pkt s =
     (let obj = object (ext pkt)
      in if obj = CANOBJ_CONSOLE_CONNECT then canobj_connect E pkt s
         else if obj = CANOBJ_CONSOLE_DISCONN then canobj_disconnect E pkt s
         else if obj = CANOBJ_BREAK then canobj_break E pkt s
         else if obj = CANOBJ_FORCE_DISCONN then canobj_force_disconn E pkt s
         else if obj = CANOBJ_TESTRW then canobj_testrw E pkt s
         else if obj = CANOBJ_HEARTBEAT then canobj_heartbeat E pkt s
         else if obj = CANOBJ_AUTOBOOT then canobj_autoboot E pkt s
         else if obj = CANOBJ_RESET_IO then canobj_reset_io E pkt s
         else if obj = CANOBJ_BOOT_DEV then canobj_boot_dev E pkt s
         else if obj = 0 then canobj_dat E pkt s
         else (False, s))"

definition canobj_packet ::
    "('c, 'p) env \<Rightarrow> can_packet \<Rightarrow> ('c, 'p) driver \<Rightarrow> bool \<times> ('c, 'p) driver" where
  "canobj_packet E pkt s =
     (case canobj_switch E pkt s of (handled, s) \<Rightarrow>
        if \<not> CANCON_UNCONNECTED (cancon_rmt s) \<and> object (ext pkt) = object (cancon_rmt s)
        then canobj_consobj E pkt s
        else (handled, s))"

section \<open>The heartbeat\<close>

definition canobj_send_heartbeat ::
    "('c, 'p) env \<Rightarrow> ('c, 'p) driver \<Rightarrow> ('c, 'p) driver" where
  "canobj_send_heartbeat E s =
     (let h8 = CAN_GET_BOARD_H8 (UNPACK_NODE (can_nodeid s));
          cl = ucast (UNPACK_CLUSTER (can_nodeid s));
          md = ucast (UNPACK_MODULE (can_nodeid s));
          pkt = stack_pkt E;
          pkt = pkt\<lparr>can := (can pkt)\<lparr>dest := ucast h8, clength := 8\<rparr>\<rparr>;
          pkt = pkt\<lparr>ext := (ext pkt)\<lparr>ctype := CANTYPE_WNA, object := CANOBJ_HEARTBEAT, cluster := cl,
                                     module := md, node := ucast (dest (can pkt))\<rparr>,
                    dat := can_hb_val s\<rparr>;
          (_, pkt, s) = send_pkt E pkt s;
          c = hb_count s;
          s = s\<lparr>hb_count := c + 1\<rparr>;
          s = (if c mod HB_IAM_FACTOR = 0 then
                 (let pkt = pkt\<lparr>can := (can pkt)\<lparr>src := ucast h8, dest := ucast CAN_MODULE_H8, clength := 8\<rparr>\<rparr>;
                      pkt = pkt\<lparr>ext := (ext pkt)\<lparr>ctype := CANTYPE_WNA, object := CANOBJ_IAM, cluster := cl,
                                                 module := md, node := ucast (dest (can pkt))\<rparr>,
                                dat := can_boardtype s\<rparr>
                  in snd (snd (send_pkt_no_out_fixup E pkt s)))
               else s)
      in s\<lparr>hb_timer := Some (jiffies s + HB_INTERVAL E)\<rparr>)"

section \<open>Start and stop\<close>

text \<open>The board type is read as four raw bytes into \<^verbatim>\<open>can_boardtype\<close>.\<close>

definition u32_of_chars :: "string \<Rightarrow> u32" where
  "u32_of_chars cs = of_bytes (of_char (cs ! 0)) (of_char (cs ! 1)) (of_char (cs ! 2)) (of_char (cs ! 3))"

definition chars_of_u32 :: "u32 \<Rightarrow> string" where
  "chars_of_u32 w = map (\<lambda>i. char_of (unat (byte_of w i))) [0..<4]"

definition canobj_init :: "('c, 'p) env \<Rightarrow> ('c, 'p) driver \<Rightarrow> ('c, 'p) driver" where
  "canobj_init E s =
     (let s = canobj_cancon_host E GET s;
          (r, b) = obp_getprop (prom_of E) (promdata s) OBP_CAN_MEIKO_BOARD_TYPE
                     (chars_of_u32 (can_boardtype s));
          s = s\<lparr>can_boardtype := u32_of_chars b\<rparr>;
          s = (if r < 0 then kcall (Printk ''can: obp_getprop failed: /obio/can/can-meiko-board-type'' []) s
               else s)
      in s\<lparr>hb_timer := Some (jiffies s + HB_INTERVAL E)\<rparr>)"

definition canobj_cleanup :: "('c, 'p) driver \<Rightarrow> ('c, 'p) driver" where
  "canobj_cleanup s = s\<lparr>hb_timer := None\<rparr>"

section \<open>The contract of the object layer\<close>

text \<open>
  A state property kept by the console's operations and by the fields this file
  writes is kept by every handler, by the dispatcher and by the heartbeat.
\<close>

locale obj_closed = console_closed I for I :: "('c, 'p) driver \<Rightarrow> bool" +
  assumes I_rmt: "I s \<Longrightarrow> I (s\<lparr>cancon_rmt := r\<rparr>)"
    and I_obj: "I s \<Longrightarrow> I (s\<lparr>hb_timer := h, hb_count := n, testrw_val := v, promdata := p\<rparr>)"
begin

lemma I_prom: "I s \<Longrightarrow> I (s\<lparr>promdata := p\<rparr>)"
  using I_obj [of s p "testrw_val s" "hb_count s" "hb_timer s"] by simp

lemma I_testrw_val: "I s \<Longrightarrow> I (s\<lparr>testrw_val := v\<rparr>)"
  using I_obj [of s "promdata s" v "hb_count s" "hb_timer s"] by simp

lemma I_hb_count: "I s \<Longrightarrow> I (s\<lparr>hb_count := n\<rparr>)"
  using I_obj [of s "promdata s" "testrw_val s" n "hb_timer s"] by simp

lemma I_hb_timer: "I s \<Longrightarrow> I (s\<lparr>hb_timer := h\<rparr>)"
  using I_obj [of s "promdata s" "testrw_val s" "hb_count s" h] by simp

lemma I_acknak: "I s \<Longrightarrow> I (canobj_acknak E type pkt data s)"
  by (simp add: canobj_acknak_def I_send)

lemma I_setcon: "I s \<Longrightarrow> I (cancon_setcon pkt s)"
  by (simp add: cancon_setcon_def I_rmt split: option.split)

lemma I_cancon_host: "I s \<Longrightarrow> I (canobj_cancon_host E gs s)"
  by (simp add: canobj_cancon_host_def Let_def I_rmt I_prom split: getset.split)

lemmas I_rules = I_acknak I_setcon I_cancon_host I_hangup I_recv_dat I_recv_ack I_kcall
  I_prom I_testrw_val

lemma I_reset_io: "I s \<Longrightarrow> I (snd (canobj_reset_io E pkt s))"
  by (simp add: canobj_reset_io_def Let_def split_beta I_rules split: option.split)

lemma I_handlers:
  assumes "I s"
  shows "I (snd (canobj_connect E pkt s))" "I (snd (canobj_disconnect E pkt s))"
    "I (snd (canobj_dat E pkt s))" "I (snd (canobj_consobj E pkt s))" "I (snd (canobj_break E pkt s))"
    "I (snd (canobj_testrw E pkt s))" "I (snd (canobj_autoboot E pkt s))"
    "I (snd (canobj_boot_dev E pkt s))" "I (snd (canobj_heartbeat E pkt s))"
    "I (snd (canobj_force_disconn E pkt s))"
  using assms
  by (simp_all add: canobj_connect_def canobj_disconnect_def canobj_dat_def canobj_consobj_def
      canobj_break_def canobj_testrw_def canobj_autoboot_def canobj_boot_dev_def
      canobj_heartbeat_def canobj_force_disconn_def Let_def I_rules split: option.split)

lemma I_packet: assumes "I s" shows "I (snd (canobj_packet E pkt s))"
proof -
  have "I (snd (canobj_switch E pkt s))"
    using assms by (simp add: canobj_switch_def Let_def I_handlers I_reset_io)
  then show ?thesis by (simp add: canobj_packet_def split_beta I_handlers)
qed

lemma I_heartbeat: assumes "I s" shows "I (canobj_send_heartbeat E s)"
proof -
  have n: "can_nodeid (snd (snd (send_pkt E pkt s))) = can_nodeid s" for pkt
    using send_frame [of E pkt s] by auto
  have r: "remote (can (fst (snd (send_pkt E pkt s)))) = 0" for pkt
    using send_queues(6) [OF I_queues [OF assms], where E = E and pkt = pkt] by (simp add: incoming_fixup_def outgoing_fixup_def)
  show ?thesis
    using assms
    by (auto simp: canobj_send_heartbeat_def Let_def split_beta authentic_def iam_for_board_def n r
        intro!: I_hb_timer I_hb_count I_send I_send_nof)
qed

end

interpretation objects: obj_closed console_wf
  by unfold_locales (simp_all add: console_wf_def queues_wf_def)

end
