(* ===== verification/CanMain.thy ===== *)
theory CanMain
  imports CanObj
begin

text \<open>
  The upper half of \<^verbatim>\<open>kernel/drivers/meiko/can_main.c\<close>: chip initialisation, the file
  operations of \<^verbatim>\<open>/dev/can\<close>, the interrupt handler, the bottom half that delivers
  received packets, and the module's start and stop.

  A result of type \<open>option\<close> is \<open>None\<close> where the code dereferences a pointer that is NULL or
  no longer allocated, or where the loop has not ended within the given number of
  iterations. A call that sleeps takes a list that says, for each sleep, what the
  rest of the system did to the state meanwhile and whether a signal is pending.
\<close>

section \<open>User space transfers\<close>

text \<open>\<open>user i\<close> is the \<open>i\<close>-th packet of the user's buffer, \<open>None\<close> where reading it faults.\<close>

fun user_to_outq_loop ::
    "('c, 'p) env \<Rightarrow> (nat \<Rightarrow> can_packet option) \<Rightarrow> nat \<Rightarrow> nat \<Rightarrow> ('c, 'p) driver \<Rightarrow>
     (errno + nat) \<times> ('c, 'p) driver" where
  "user_to_outq_loop E user i 0 s = (Inr i, s)"
| "user_to_outq_loop E user i (Suc n) s =
     (case user i of
        None \<Rightarrow> (Inl EFAULT, s)
      | Some pkt \<Rightarrow>
          (case send_pkt E pkt s of (ok, _, s') \<Rightarrow>
             if \<not> ok then (Inr i, s') else user_to_outq_loop E user (Suc i) n s'))"

definition user_to_outq ::
    "('c, 'p) env \<Rightarrow> (nat \<Rightarrow> can_packet option) \<Rightarrow> nat \<Rightarrow> ('c, 'p) driver \<Rightarrow>
     (errno + nat) \<times> ('c, 'p) driver" where
  "user_to_outq E user count s = user_to_outq_loop E user 0 count s"

text \<open>
  \<open>ring_to_user\<close> returns what it stored in the user's buffer as well; \<open>fault i\<close> says whether
  storing the \<open>i\<close>-th packet faults, which loses that packet.
\<close>

fun ring_to_user_loop ::
    "(nat \<Rightarrow> bool) \<Rightarrow> nat \<Rightarrow> nat \<Rightarrow> can_packet ringbuf \<Rightarrow>
     (errno + nat) \<times> can_packet list \<times> can_packet ringbuf" where
  "ring_to_user_loop fault i 0 r = (Inr i, [], r)"
| "ring_to_user_loop fault i (Suc n) r =
     (case ring_to_pkt r of
        None \<Rightarrow> (Inr i, [], r)
      | Some (pkt, r') \<Rightarrow>
          if fault i then (Inl EFAULT, [], r')
          else (case ring_to_user_loop fault (Suc i) n r' of
                  (res, out, r'') \<Rightarrow> (res, pkt # out, r'')))"

definition ring_to_user ::
    "(nat \<Rightarrow> bool) \<Rightarrow> nat \<Rightarrow> can_packet ringbuf \<Rightarrow> (errno + nat) \<times> can_packet list \<times> can_packet ringbuf" where
  "ring_to_user fault count r = ring_to_user_loop fault 0 count r"

section \<open>Chip initialisation\<close>

definition can_init_82c200 ::
    "('c, 'p) env \<Rightarrow> bool \<Rightarrow> ('c, 'z) can_main_scheme \<Rightarrow> int \<times> ('c, 'z) can_main_scheme" where
  "can_init_82c200 E promisc s =
     (let s = wr E control CAN_CONTROL_RESET s;
          s = wr E accept_mask (if promisc then 0xff else 0x83) s;
          s = wr E accept_code (ucast (push_bit 2 (UNPACK_NODE (can_nodeid s)))) s;
          s = wr E bus_timing0 0x40 s;
          s = wr E bus_timing1 0x16 s;
          s = wr E out_control 0xaa s;
          s = snd (rd E interrupt s)
      in if first_time s \<and> request_irq E \<noteq> 0 then (- errno_code EIO, s)
         else
           (let s = s\<lparr>first_time := False\<rparr>;
                s = wr E control (CAN_CONTROL_RIE OR CAN_CONTROL_EIE OR CAN_CONTROL_OIE
                                  OR CAN_CONTROL_TIE) s;
                (c, s) = rd E control s
            in if c AND CAN_CONTROL_RESET \<noteq> 0 then (- errno_code EIO, s)
               else (let (st, s) = rd E status s
                     in if st AND CAN_STATUS_BUS_STAT \<noteq> 0 then (- errno_code EIO, s) else (0, s))))"

definition can_fini_82c200 ::
    "('c, 'p) env \<Rightarrow> ('c, 'z) can_main_scheme \<Rightarrow> ('c, 'z) can_main_scheme" where
  "can_fini_82c200 E s =
     (let s = wr E control CAN_CONTROL_RESET s;
          s = snd (rd E interrupt s);
          s = wr E control 0 s
      in kcall FreeIrq s)"

section \<open>Open files\<close>

definition can_init_openfd :: "('c, 'z) can_main_scheme \<Rightarrow> ('c, 'z) can_main_scheme" where
  "can_init_openfd s = s\<lparr>openfd := (\<lambda>i. if i < CAN_MAX_USECOUNT then 0 else openfd s i)\<rparr>"

definition find_openfd :: "nat \<Rightarrow> ('c, 'z) can_main_scheme \<Rightarrow> nat option" where
  "find_openfd a s = find (\<lambda>i. openfd s i = a) [0..<CAN_MAX_USECOUNT]"

text \<open>
  \<open>can_alloc_openfd a g s\<close>: \<^verbatim>\<open>kmalloc\<close> returns the address \<open>a\<close>, 0 when it fails, of an
  object with contents \<open>g\<close>. The result is the address returned, 0 when the table is full.
\<close>

definition can_alloc_openfd ::
    "nat \<Rightarrow> file_state \<Rightarrow> ('c, 'z) can_main_scheme \<Rightarrow> (nat \<times> ('c, 'z) can_main_scheme) option" where
  "can_alloc_openfd a g s =
     (case find_openfd 0 s of
        None \<Rightarrow> Some (0, s)
      | Some i \<Rightarrow>
          (let s = s\<lparr>openfd := (openfd s)(i := a)\<rparr>
           in if a = 0 then None
              else Some (a, s\<lparr>fstates := (fstates s)(a \<mapsto>
                                g\<lparr>consobj := -1, promiscuous := False, snoopy := False,
                                  fs_inq := RING_INIT (fs_inq g)\<rparr>)\<rparr>)))"

definition can_release_openfd ::
    "('c, 'p) env \<Rightarrow> nat \<Rightarrow> ('c, 'z) can_main_scheme \<Rightarrow> ('c, 'z) can_main_scheme option" where
  "can_release_openfd E a s =
     (case find_openfd a s of
        None \<Rightarrow> Some (kcall (Printk ''can: can_release_openfd internal error'' []) s)
      | Some i \<Rightarrow>
          (case fstates s a of
             None \<Rightarrow> None
           | Some fs \<Rightarrow>
               (let s = (if consobj fs \<noteq> -1 then can_free_consobj (consobj fs) s else s);
                    s = (if promiscuous fs then
                           (let s = s\<lparr>promiscuous_usecount := promiscuous_usecount s - 1\<rparr>
                            in if promiscuous_usecount s = 0 then snd (can_init_82c200 E False s) else s)
                         else s)
                in Some (s\<lparr>fstates := (fstates s)(a := None), openfd := (openfd s)(i := 0)\<rparr>))))"

definition can_open ::
    "nat \<Rightarrow> file_state \<Rightarrow> ('c, 'p) driver \<Rightarrow> ((errno + nat) \<times> ('c, 'p) driver) option" where
  "can_open a g s =
     (case can_alloc_openfd a g s of
        None \<Rightarrow> None
      | Some (f, s) \<Rightarrow>
          if f = 0 then Some (Inl EBUSY, s)
          else Some (Inr f, s\<lparr>can_usecount := can_usecount s + 1, mod_usecount := mod_usecount s + 1\<rparr>))"

definition can_release ::
    "('c, 'p) env \<Rightarrow> nat \<Rightarrow> ('c, 'p) driver \<Rightarrow> ('c, 'p) driver option" where
  "can_release E f s =
     map_option (\<lambda>s. s\<lparr>can_usecount := can_usecount s - 1, mod_usecount := mod_usecount s - 1\<rparr>)
       (can_release_openfd E f s)"

section \<open>Ioctl\<close>

datatype ioctl_cmd =
    CAN_GET_CONSOBJ | CAN_GET_ADDR | CAN_SET_PROMISCUOUS | CAN_CLR_PROMISCUOUS
  | CAN_GET_HEARTBEAT | CAN_SET_HEARTBEAT | CAN_SET_RESET | CAN_SET_DEBUG | CAN_CLR_DEBUG
  | CAN_SET_SNOOPY | CAN_CLR_SNOOPY | CAN_OTHER_IOCTL

definition can_dump_info :: "('c, 'p) driver \<Rightarrow> ('c, 'p) driver" where
  "can_dump_info s =
     (if can_debug s then
        (let s = cancon_dump_info s;
             s = kcall (Printk ''can: debugging ON'' []) s;
             s = kcall (Printk ''can: inq contains %d packets'' [RING_SIZE (inq s)]) s;
             s = kcall (Printk ''can: outq contains %d packets'' [RING_SIZE (outq s)]) s;
             fdcount = length (filter (\<lambda>i. openfd s i \<noteq> 0) [0..<CAN_MAX_USECOUNT]);
             s = kcall (Printk ''can: there are %d fds open'' [int fdcount]) s
         in cancon_dump_debug s)
      else s)"

text \<open>
  \<open>arg_in\<close> is the word a \<^verbatim>\<open>SET\<close> command reads from user space, \<open>None\<close> on a fault; \<open>arg_ok\<close> says
  whether a \<^verbatim>\<open>GET\<close> command can store its result, which is returned.
\<close>

definition set_fs :: "nat \<Rightarrow> file_state \<Rightarrow> ('c, 'p) driver \<Rightarrow> ('c, 'p) driver" where
  "set_fs f fs s = s\<lparr>fstates := (fstates s)(f \<mapsto> fs)\<rparr>"

definition to_user :: "bool \<Rightarrow> int \<Rightarrow> errno + int option" where
  "to_user ok v = (if ok then Inr (Some v) else Inl EFAULT)"

definition can_ioctl ::
    "('c, 'p) env \<Rightarrow> ioctl_cmd \<Rightarrow> u32 option \<Rightarrow> bool \<Rightarrow> nat \<Rightarrow> ('c, 'p) driver \<Rightarrow>
     ((errno + int option) \<times> ('c, 'p) driver) option" where
  "can_ioctl E cmd arg_in arg_ok f s =
     (case cmd of
        CAN_SET_PROMISCUOUS \<Rightarrow>
          (case fstates s f of None \<Rightarrow> None | Some fs \<Rightarrow>
             (let s = set_fs f (fs\<lparr>promiscuous := True\<rparr>) s;
                  n = promiscuous_usecount s;
                  s = s\<lparr>promiscuous_usecount := n + 1\<rparr>
              in Some (Inr None, if n = 0 then snd (can_init_82c200 E True s) else s)))
      | CAN_CLR_PROMISCUOUS \<Rightarrow>
          (case fstates s f of None \<Rightarrow> None | Some fs \<Rightarrow>
             (let s = set_fs f (fs\<lparr>promiscuous := False\<rparr>) s;
                  s = s\<lparr>promiscuous_usecount := promiscuous_usecount s - 1\<rparr>
              in Some (Inr None,
                       if promiscuous_usecount s = 0 then snd (can_init_82c200 E False s) else s)))
      | CAN_SET_SNOOPY \<Rightarrow>
          (case fstates s f of None \<Rightarrow> None | Some fs \<Rightarrow> Some (Inr None, set_fs f (fs\<lparr>snoopy := True\<rparr>) s))
      | CAN_CLR_SNOOPY \<Rightarrow>
          (case fstates s f of None \<Rightarrow> None | Some fs \<Rightarrow> Some (Inr None, set_fs f (fs\<lparr>snoopy := False\<rparr>) s))
      | CAN_GET_HEARTBEAT \<Rightarrow> Some (to_user arg_ok (uint (canobj_gethbval s)), s)
      | CAN_SET_HEARTBEAT \<Rightarrow>
          (case arg_in of None \<Rightarrow> Some (Inl EFAULT, s)
                        | Some v \<Rightarrow> Some (Inr None, canobj_sethbval v s))
      | CAN_GET_ADDR \<Rightarrow> Some (to_user arg_ok (uint (can_nodeid s)), s)
      | CAN_GET_CONSOBJ \<Rightarrow>
          (case fstates s f of None \<Rightarrow> None | Some fs \<Rightarrow>
             (let s = (if consobj fs \<noteq> -1 then can_free_consobj (consobj fs) s else s);
                  (c, s) = can_alloc_consobj s;
                  s = set_fs f (fs\<lparr>consobj := c\<rparr>) s
              in Some (if c = -1 then Inl EBUSY else to_user arg_ok c, s)))
      | CAN_SET_RESET \<Rightarrow> Some (Inr None, snd (can_init_82c200 E False s))
      | CAN_SET_DEBUG \<Rightarrow> Some (Inr None, can_dump_info (s\<lparr>can_debug := True\<rparr>))
      | CAN_CLR_DEBUG \<Rightarrow>
          Some (Inr None, kcall (Printk ''can: debugging OFF'' []) (s\<lparr>can_debug := False\<rparr>))
      | CAN_OTHER_IOCTL \<Rightarrow> Some (Inl EINVAL, s))"

section \<open>Read and write\<close>

definition PKTSIZE :: nat where "PKTSIZE = 16"

type_synonym ('c, 'p) nap = "('c, 'p) driver \<Rightarrow> ('c, 'p) driver \<times> bool"

fun can_read_loop ::
    "bool \<Rightarrow> (nat \<Rightarrow> bool) \<Rightarrow> nat \<Rightarrow> ('c, 'p) nap list \<Rightarrow> nat \<Rightarrow> ('c, 'p) driver \<Rightarrow>
     ((errno + nat) \<times> can_packet list \<times> ('c, 'p) driver) option" where
  "can_read_loop nonblock fault n naps f s =
     (case fstates s f of
        None \<Rightarrow> None
      | Some fs \<Rightarrow>
          (case ring_to_user fault n (fs_inq fs) of (got, out, r) \<Rightarrow>
             (let s = set_fs f (fs\<lparr>fs_inq := r\<rparr>) s
              in case got of
                   Inl _ \<Rightarrow> Some (Inl EFAULT, out, s)
                 | Inr k \<Rightarrow>
                     if k > 0 then Some (Inr (k * PKTSIZE), out, s)
                     else if nonblock then Some (Inl EAGAIN, out, s)
                     else (case naps of
                             [] \<Rightarrow> None
                           | nap # naps' \<Rightarrow>
                               (case nap s of (s', sig) \<Rightarrow>
                                  if sig then Some (Inl EINTR, out, s')
                                  else can_read_loop nonblock fault n naps' f s')))))"

definition can_read ::
    "bool \<Rightarrow> (nat \<Rightarrow> bool) \<Rightarrow> nat \<Rightarrow> ('c, 'p) nap list \<Rightarrow> nat \<Rightarrow> ('c, 'p) driver \<Rightarrow>
     ((errno + nat) \<times> can_packet list \<times> ('c, 'p) driver) option" where
  "can_read nonblock fault count naps f s =
     (if count < PKTSIZE then Some (Inl EIO, [], s)
      else can_read_loop nonblock fault (count div PKTSIZE) naps f s)"

fun can_write_loop ::
    "('c, 'p) env \<Rightarrow> bool \<Rightarrow> (nat \<Rightarrow> can_packet option) \<Rightarrow> nat \<Rightarrow> ('c, 'p) nap list \<Rightarrow>
     ('c, 'p) driver \<Rightarrow> ((errno + nat) \<times> ('c, 'p) driver) option" where
  "can_write_loop E nonblock user n naps s =
     (case user_to_outq E user n s of
        (Inl _, s) \<Rightarrow> Some (Inl EFAULT, s)
      | (Inr i, s) \<Rightarrow>
          if i > 0 then Some (Inr (i * PKTSIZE), s)
          else if nonblock then Some (Inl EAGAIN, s)
          else (case naps of
                  [] \<Rightarrow> None
                | nap # naps' \<Rightarrow>
                    (case nap s of (s', sig) \<Rightarrow>
                       if sig then Some (Inl EINTR, s')
                       else can_write_loop E nonblock user n naps' s')))"

definition can_write ::
    "('c, 'p) env \<Rightarrow> bool \<Rightarrow> (nat \<Rightarrow> can_packet option) \<Rightarrow> nat \<Rightarrow> ('c, 'p) nap list \<Rightarrow>
     ('c, 'p) driver \<Rightarrow> ((errno + nat) \<times> ('c, 'p) driver) option" where
  "can_write E nonblock user count naps s =
     (if count mod PKTSIZE \<noteq> 0 then Some (Inl EIO, s)
      else can_write_loop E nonblock user (count div PKTSIZE) naps s)"

section \<open>Interrupt and bottom half\<close>

text \<open>
  Whether the receive loop ends depends on the chip, so it has a bound \<open>n\<close> on its
  iterations and \<open>None\<close> means that the bound was not enough.
\<close>

fun try_recv_loop ::
    "('c, 'p) env \<Rightarrow> nat \<Rightarrow> nat \<Rightarrow> ('c, 'p) driver \<Rightarrow> (nat \<times> ('c, 'p) driver) option" where
  "try_recv_loop E 0 i s = None"
| "try_recv_loop E (Suc n) i s =
     (case rd E status s of (st, s) \<Rightarrow>
        if st AND CAN_STATUS_RECV_AVAIL = 0 then Some (i, s)
        else (case can_copy_rx E (stack_pkt E) s of (pkt, s) \<Rightarrow>
                (let s = wr E command CAN_COMMAND_CLR_RECV s;
                     pkt = incoming_fixup s pkt;
                     s = s\<lparr>inq := snd (pkt_to_ring pkt (inq s))\<rparr>
                 in try_recv_loop E n (Suc i) s)))"

definition try_recv :: "('c, 'p) env \<Rightarrow> nat \<Rightarrow> ('c, 'p) driver \<Rightarrow> ('c, 'p) driver option" where
  "try_recv E n s =
     (case try_recv_loop E n 0 s of
        None \<Rightarrow> None
      | Some (i, s) \<Rightarrow> Some (if i > 0 then kcall QueueBh s else s))"

definition can_intr :: "('c, 'p) env \<Rightarrow> nat \<Rightarrow> ('c, 'p) driver \<Rightarrow> ('c, 'p) driver option" where
  "can_intr E n s =
     (let (st, s) = rd E status s;
          s = (if st AND CAN_STATUS_OVERRUN \<noteq> 0
               then kcall (Printk ''can: overrun cleared'' []) (wr E command CAN_COMMAND_CLR_OVERRUN s)
               else s);
          (st, s) = rd E status s;
          s = (if st AND CAN_STATUS_ERROR_STAT \<noteq> 0 then kcall (Printk ''can: error detected'' []) s else s);
          (c, s) = rd E control s;
          s = (if c AND CAN_CONTROL_RESET \<noteq> 0 then kcall (Printk ''can: reset is active'' []) s else s);
          (st, s) = rd E status s;
          s = (if st AND CAN_STATUS_BUS_STAT \<noteq> 0 then kcall (Printk ''can: bus stat'' []) s else s)
      in case try_recv E n s of
           None \<Rightarrow> None
         | Some s \<Rightarrow> Some (snd (rd E interrupt (try_xmit E s))))"

text \<open>
  Delivery of a packet to one slot of the table, to the slots in turn, and the whole
  of \<^verbatim>\<open>deliver_pkt\<close>: first the kernel's own objects, then the open files.
\<close>

definition deliver_fd :: "can_packet \<Rightarrow> nat \<Rightarrow> ('c, 'p) driver \<Rightarrow> ('c, 'p) driver option" where
  "deliver_fd pkt i s =
     (if openfd s i = 0 then Some s
      else (case fstates s (openfd s i) of
              None \<Rightarrow> None
            | Some fs \<Rightarrow>
                if \<not> IS_MYPACKET s pkt \<and> \<not> promiscuous fs \<and> \<not> snoopy fs then Some s
                else (case pkt_to_ring pkt (fs_inq fs) of (ok, r) \<Rightarrow>
                        (let s = set_fs (openfd s i) (fs\<lparr>fs_inq := r\<rparr>) s
                         in Some (if ok then kcall (WakeUpReadq (openfd s i)) s else s)))))"

fun deliver_fds :: "can_packet \<Rightarrow> nat list \<Rightarrow> ('c, 'p) driver \<Rightarrow> ('c, 'p) driver option" where
  "deliver_fds pkt [] s = Some s"
| "deliver_fds pkt (i # is) s =
     (case deliver_fd pkt i s of None \<Rightarrow> None | Some s' \<Rightarrow> deliver_fds pkt is s')"

definition deliver_pkt :: "('c, 'p) env \<Rightarrow> can_packet \<Rightarrow> ('c, 'p) driver \<Rightarrow> ('c, 'p) driver option" where
  "deliver_pkt E pkt s =
     (let s = (if IS_MYPACKET s pkt then snd (canobj_packet E pkt s) else s)
      in deliver_fds pkt [0..<CAN_MAX_USECOUNT] s)"

fun can_bh :: "('c, 'p) env \<Rightarrow> nat \<Rightarrow> ('c, 'p) driver \<Rightarrow> ('c, 'p) driver option" where
  "can_bh E 0 s = None"
| "can_bh E (Suc n) s =
     (case ring_to_pkt (inq s) of
        None \<Rightarrow> Some s
      | Some (pkt, q) \<Rightarrow>
          (case deliver_pkt E pkt (s\<lparr>inq := q\<rparr>) of None \<Rightarrow> None | Some s' \<Rightarrow> can_bh E n s'))"

section \<open>Module start and stop\<close>

definition can_unmap_82c200 :: "('c, 'p) driver \<Rightarrow> ('c, 'p) driver" where
  "can_unmap_82c200 s = kcall UnmapRegs s"

declare can_unmap_82c200_def [simp]

definition init_module :: "('c, 'p) env \<Rightarrow> ('c, 'p) driver \<Rightarrow> int \<times> ('c, 'p) driver" where
  "init_module E s =
     (if can_checkalign (offset_of E) < 0 then (-1, kcall (Printk ''can: struct align/padding problem'' []) s)
      else if \<not> map_82c200 E then (-1, s)
      else
        (case obp_getprop (prom_of E) (promdata s) OBP_CAN_NODEID (chars_of_u32 (can_nodeid s)) of
           (r, b) \<Rightarrow>
             (let s = s\<lparr>can_nodeid := u32_of_chars b\<rparr>
              in if r < 0 then
                   (-1, can_unmap_82c200 (kcall (Printk ''can: obp_getprop failed: /obio/can/can-nodeid'' []) s))
                 else if misc_register E \<noteq> 0 then
                   (misc_register E, can_unmap_82c200 (kcall (Printk ''can: misc_register failed'' []) s))
                 else
                   (let s = can_init_queues s;
                        (rc, s) = can_init_82c200 E False s
                    in if rc = -1 then
                         (-1, can_unmap_82c200 (kcall MiscDeregister
                                (kcall (Printk ''can: cant allocate can interrupt'' []) s)))
                       else
                         (let s = can_init_consobj s;
                              s = can_init_openfd s;
                              s = canobj_init E s;
                              s = cancon_init E s
                          in (0, s))))))"

definition cleanup_module :: "('c, 'p) env \<Rightarrow> ('c, 'p) driver \<Rightarrow> ('c, 'p) driver" where
  "cleanup_module E s =
     (let s = cancon_cleanup s;
          s = canobj_cleanup s;
          s = kcall MiscDeregister s;
          s = can_fini_82c200 E s
      in can_unmap_82c200 s)"

end
