(* ===== verification/CanInv.thy ===== *)
theory CanInv
  imports CanMain
begin

text \<open>
  The invariant of the whole CAN driver and its step relation. A step is one
  entry into the driver: a file operation on an open file, the interrupt, the
  bottom half, one of the two timers, a console operation called by the tty layer
  or by \<^verbatim>\<open>printk\<close>; between entries the clock advances, the chip changes its
  registers and the tty layer drains its flip buffer.
\<close>

section \<open>The invariant\<close>

text \<open>
  \<open>res_ok R H\<close>: the reservation table \<open>R\<close> marks exactly the console object numbers that
  some open file holds (\<open>H\<close> maps an open file's address to its number), held numbers are
  in range, and no two files hold the same one.
\<close>

definition held :: "(nat \<Rightarrow> int option) \<Rightarrow> nat \<Rightarrow> bool" where
  "held H i \<longleftrightarrow> (\<exists>a. H a = Some (int i + CANOBJ_CONSMIN))"

definition res_ok :: "(nat \<Rightarrow> u8) \<Rightarrow> (nat \<Rightarrow> int option) \<Rightarrow> bool" where
  "res_ok R H \<longleftrightarrow>
     (\<forall>i < COSIZE. R i = (if held H i then 1 else 0)) \<and>
     (\<forall>a c. H a = Some c \<longrightarrow> c = -1 \<or> CAN_VALID_CONSOBJ c) \<and>
     (\<forall>a b c. H a = Some c \<longrightarrow> H b = Some c \<longrightarrow> c \<noteq> -1 \<longrightarrow> a = b)"

definition holders :: "('c, 'z) can_main_scheme \<Rightarrow> nat \<Rightarrow> int option" where
  "holders s a = map_option consobj (fstates s a)"

definition used :: "(nat \<Rightarrow> nat) \<Rightarrow> nat set" where
  "used fd = {i. i < CAN_MAX_USECOUNT \<and> fd i \<noteq> 0}"

definition fd_wf :: "('c, 'z) can_main_scheme \<Rightarrow> bool" where
  "fd_wf s \<longleftrightarrow>
     inj_on (openfd s) (used (openfd s)) \<and>
     dom (fstates s) = openfd s ` used (openfd s) \<and>
     (\<forall>a fs. fstates s a = Some fs \<longrightarrow> ring_wf (fs_inq fs)) \<and>
     can_usecount s = int (card (dom (fstates s)))"

definition driver_inv :: "('c, 'p) driver \<Rightarrow> bool" where
  "driver_inv s \<longleftrightarrow> console_wf s \<and> fd_wf s \<and> res_ok (consobj_reserved s) (holders s)"

section \<open>Console object numbers\<close>

lemma COSIZE_eq: "COSIZE = 256"
  by (simp add: COSIZE_def CANOBJ_CONSMAX_def CANOBJ_CONSMIN_def)

lemma COSIZE_pos [simp]: "0 < COSIZE"
  by (simp add: COSIZE_eq)

lemma valid_consobj_iff: "CAN_VALID_CONSOBJ c \<longleftrightarrow> (\<exists>i < COSIZE. c = int i + CANOBJ_CONSMIN)"
proof
  assume "CAN_VALID_CONSOBJ c"
  then show "\<exists>i < COSIZE. c = int i + CANOBJ_CONSMIN"
    by (intro exI [of _ "nat (c - CANOBJ_CONSMIN)"])
      (auto simp: COSIZE_eq CAN_VALID_CONSOBJ_def CANOBJ_CONSMAX_def CANOBJ_CONSMIN_def)
qed (auto simp: COSIZE_eq CAN_VALID_CONSOBJ_def CANOBJ_CONSMAX_def CANOBJ_CONSMIN_def)

lemma consmin_minus1: "int i + CANOBJ_CONSMIN \<noteq> -1" "-1 \<noteq> int i + CANOBJ_CONSMIN"
  by (simp_all add: CANOBJ_CONSMIN_def)

text \<open>The three parts of the contract between table and holders, one at a time.\<close>

lemma res_okI:
  assumes "\<And>i. i < COSIZE \<Longrightarrow> R i = (if held H i then 1 else 0)"
    and "\<And>a c. H a = Some c \<Longrightarrow> c = -1 \<or> CAN_VALID_CONSOBJ c"
    and "\<And>a b c. H a = Some c \<Longrightarrow> H b = Some c \<Longrightarrow> c \<noteq> -1 \<Longrightarrow> a = b"
  shows "res_ok R H"
  unfolding res_ok_def using assms by blast

lemma res_okD:
  assumes "res_ok R H"
  shows "i < COSIZE \<Longrightarrow> R i = (if held H i then 1 else 0)"
    and "H a = Some c \<Longrightarrow> c = -1 \<or> CAN_VALID_CONSOBJ c"
    and "H a = Some c \<Longrightarrow> H b = Some c \<Longrightarrow> c \<noteq> -1 \<Longrightarrow> a = b"
  using assms unfolding res_ok_def by blast+

lemma held_upd:
  assumes "H a = None \<or> H a = Some (-1)"
  shows "held (H(a := x)) i \<longleftrightarrow> held H i \<or> x = Some (int i + CANOBJ_CONSMIN)"
  using assms consmin_minus1 [of i] unfolding held_def by (metis fun_upd_apply option.discI option.inject)

lemma res_ok_idle:
  assumes ok: "res_ok R H" and h: "H a = None \<or> H a = Some (-1)" and x: "x = None \<or> x = Some (-1)"
  shows "res_ok R (H(a := x))"
proof (rule res_okI)
  show "R i = (if held (H(a := x)) i then 1 else 0)" if "i < COSIZE" for i
    using res_okD(1) [OF ok that] x consmin_minus1 [of i] by (auto simp: held_upd [of H a x i, OF h])
  show "c = -1 \<or> CAN_VALID_CONSOBJ c" if "(H(a := x)) b = Some c" for b c
    using that x res_okD(2) [OF ok, of b c] by (auto split: if_splits)
  show "b = b'" if "(H(a := x)) b = Some c" "(H(a := x)) b' = Some c" "c \<noteq> -1" for b b' c
    using that x res_okD(3) [OF ok, of b c b'] by (auto split: if_splits)
qed

lemma res_ok_free:
  assumes ok: "res_ok R H" and h: "H a = Some (int i + CANOBJ_CONSMIN)"
  shows "res_ok (R(i := 0)) (H(a \<mapsto> -1))"
proof (rule res_okI)
  have uniq: "b = a" if "H b = Some (int i + CANOBJ_CONSMIN)" for b
    using res_okD(3) [OF ok that h] consmin_minus1 [of i] by blast
  have upd: "(H(a \<mapsto> -1)) b = Some (int j + CANOBJ_CONSMIN) \<longleftrightarrow> b \<noteq> a \<and> H b = Some (int j + CANOBJ_CONSMIN)"
    for b j using consmin_minus1 [of j] by auto
  have "held (H(a \<mapsto> -1)) j \<longleftrightarrow> j \<noteq> i \<and> held H j" for j
  proof (cases "j = i")
    case True
    then show ?thesis unfolding held_def upd using uniq by blast
  next
    case False
    with h have "H a \<noteq> Some (int j + CANOBJ_CONSMIN)" by simp
    with False show ?thesis unfolding held_def upd by metis
  qed
  then show "(R(i := 0)) j = (if held (H(a \<mapsto> -1)) j then 1 else 0)" if "j < COSIZE" for j
    using res_okD(1) [OF ok that] by auto
  show "c = -1 \<or> CAN_VALID_CONSOBJ c" if "(H(a \<mapsto> -1)) b = Some c" for b c
    using that res_okD(2) [OF ok, of b c] by (auto split: if_splits)
  show "b = b'" if "(H(a \<mapsto> -1)) b = Some c" "(H(a \<mapsto> -1)) b' = Some c" "c \<noteq> -1" for b b' c
    using that res_okD(3) [OF ok, of b c b'] by (auto split: if_splits)
qed

lemma res_ok_take:
  assumes ok: "res_ok R H" and h: "H a = Some (-1)" and i: "i < COSIZE" and free: "R i \<noteq> 1"
  shows "res_ok (R(i := 1)) (H(a \<mapsto> int i + CANOBJ_CONSMIN))"
proof (rule res_okI)
  have none: "H b \<noteq> Some (int i + CANOBJ_CONSMIN)" for b
    using res_okD(1) [OF ok i] free by (auto simp: held_def split: if_splits)
  show "(R(i := 1)) j = (if held (H(a \<mapsto> int i + CANOBJ_CONSMIN)) j then 1 else 0)" if "j < COSIZE" for j
    using res_okD(1) [OF ok that] h by (auto simp: held_upd)
  show "c = -1 \<or> CAN_VALID_CONSOBJ c" if "(H(a \<mapsto> int i + CANOBJ_CONSMIN)) b = Some c" for b c
    using that res_okD(2) [OF ok, of b c] i valid_consobj_iff [of c] by (auto split: if_splits)
  show "b = b'" if "(H(a \<mapsto> int i + CANOBJ_CONSMIN)) b = Some c"
      "(H(a \<mapsto> int i + CANOBJ_CONSMIN)) b' = Some c" "c \<noteq> -1" for b b' c
    using that none res_okD(3) [OF ok, of b c b'] by (auto split: if_splits)
qed

text \<open>The circular search finds a free slot whenever there is one.\<close>

lemma alloc_loop_spec:
  assumes "t0 < COSIZE" "count \<le> COSIZE" "slot = (t0 + count) mod COSIZE"
    and "\<forall>k < count. R ((t0 + k) mod COSIZE) = 1"
    and "can_alloc_consobj_loop R slot count = (t, c)"
  shows "t < COSIZE \<and> c \<le> COSIZE \<and> (c < COSIZE \<longrightarrow> R t \<noteq> 1) \<and> (c = COSIZE \<longrightarrow> (\<forall>i < COSIZE. R i = 1))"
  using assms(2,3,4,5)
proof (induction R slot count rule: can_alloc_consobj_loop.induct)
  case (1 R slot count)
  show ?case
  proof (cases "count < COSIZE \<and> R slot = 1")
    case True
    have "(slot + 1) mod COSIZE = (t0 + (count + 1)) mod COSIZE"
      using "1.prems"(2) by (simp add: mod_simps)
    moreover have "\<forall>k < count + 1. R ((t0 + k) mod COSIZE) = 1"
      using "1.prems"(2,3) True by (auto simp: less_Suc_eq)
    ultimately show ?thesis
      using "1.IH" [OF True] "1.prems"(4) True
      by (simp add: can_alloc_consobj_loop.simps [of R slot count])
  next
    case False
    then have tc: "t = slot" "c = count"
      using "1.prems"(4) by (auto simp: can_alloc_consobj_loop.simps [of R slot count])
    have "R i = 1" if "count = COSIZE" "i < COSIZE" for i
    proof -
      define k where "k = (if t0 \<le> i then i - t0 else i + COSIZE - t0)"
      have "k < COSIZE" "(t0 + k) mod COSIZE = i"
        using that(2) assms(1) by (auto simp: k_def)
      with "1.prems"(3) that(1) show ?thesis by metis
    qed
    with False "1.prems"(1,2) tc show ?thesis by auto
  qed
qed

lemma alloc_cases:
  obtains (full) "\<forall>i < COSIZE. consobj_reserved s i = 1" "can_alloc_consobj s = (-1, s)"
  | (got) i where "i < COSIZE" "consobj_reserved s i \<noteq> 1"
      "can_alloc_consobj s = (int i + CANOBJ_CONSMIN, s\<lparr>consobj_reserved := (consobj_reserved s)(i := 1)\<rparr>)"
proof -
  obtain t c where tc: "can_alloc_consobj_loop (consobj_reserved s) (unat (jiffies s) mod COSIZE) 0 = (t, c)"
    by fastforce
  have "t < COSIZE \<and> c \<le> COSIZE \<and> (c < COSIZE \<longrightarrow> consobj_reserved s t \<noteq> 1)
      \<and> (c = COSIZE \<longrightarrow> (\<forall>i < COSIZE. consobj_reserved s i = 1))"
    by (rule alloc_loop_spec [OF _ _ _ _ tc, of "unat (jiffies s) mod COSIZE"]) simp_all
  then show ?thesis
    using that by (cases "c < COSIZE") (auto simp: can_alloc_consobj_def tc)
qed

section \<open>Updates that keep the invariant\<close>

lemma inv_cong:
  assumes "driver_inv s" "console_wf t"
    "openfd t = openfd s" "fstates t = fstates s" "consobj_reserved t = consobj_reserved s"
    "can_usecount t = can_usecount s"
  shows "driver_inv t"
proof -
  have "holders t = holders s" using assms(4) by (simp add: holders_def fun_eq_iff)
  with assms show ?thesis by (simp add: driver_inv_def fd_wf_def)
qed

lemmas inv_defs = driver_inv_def fd_wf_def holders_def [abs_def] console_wf_def queues_wf_def

interpretation drv: obj_closed driver_inv
  by unfold_locales (simp_all add: inv_defs)

lemma inv_inq: "driver_inv s \<Longrightarrow> ring_wf i \<Longrightarrow> driver_inv (s\<lparr>inq := i\<rparr>)"
  by (simp add: inv_defs)

lemma inv_misc:
  assumes "driver_inv s"
  shows "driver_inv (s\<lparr>jiffies := j\<rparr>)" "driver_inv (s\<lparr>first_time := b\<rparr>)"
    "driver_inv (s\<lparr>mod_usecount := m\<rparr>)" "driver_inv (s\<lparr>can_debug := b\<rparr>)"
    "driver_inv (s\<lparr>promiscuous_usecount := m\<rparr>)" "driver_inv (s\<lparr>cantty_myrefcount := m\<rparr>)"
    "driver_inv (s\<lparr>can_hb_val := h\<rparr>)" "driver_inv (s\<lparr>ttyp := y\<rparr>)"
  using assms by (simp_all add: inv_defs)

lemma init_82c200_frame: "\<exists>c b. snd (can_init_82c200 E p s) = s\<lparr>reg := c, first_time := b\<rparr>"
proof -
  define s7 where "s7 = snd (rd E interrupt (wr E out_control 0xaa (wr E bus_timing1 0x16 (wr E bus_timing0 0x40
    (wr E accept_code (ucast (push_bit 2 (UNPACK_NODE (can_nodeid s))))
    (wr E accept_mask (if p then 0xff else 0x83) (wr E control CAN_CONTROL_RESET s)))))))"
  obtain c where s7: "s7 = s\<lparr>reg := c\<rparr>" by (simp add: s7_def wr_def rd_eq)
  define s8 where "s8 = wr E control (CAN_CONTROL_RIE OR CAN_CONTROL_EIE OR CAN_CONTROL_OIE
                                  OR CAN_CONTROL_TIE) (s7\<lparr>first_time := False\<rparr>)"
  have cases: "snd (can_init_82c200 E p s) \<in> {s7, snd (rd E control s8), snd (rd E status (snd (rd E control s8)))}"
    by (simp add: can_init_82c200_def Let_def split_beta s7_def s8_def wr_def rd_eq)
  have r7: "\<exists>c b. s7 = s\<lparr>reg := c, first_time := b\<rparr>"
    by (intro exI [of _ c] exI [of _ "first_time s"]) (simp add: s7)
  obtain c' where s8: "s8 = s\<lparr>first_time := False, reg := c'\<rparr>" by (simp add: s8_def s7 wr_def)
  have r8: "\<exists>c b. snd (rd E r s8) = s\<lparr>reg := c, first_time := b\<rparr>" for r
    by (intro exI [of _ "reg (snd (rd E r s8))"] exI [of _ False]) (simp add: s8 rd_eq)
  have r9: "\<exists>c b. snd (rd E r (snd (rd E r' s8))) = s\<lparr>reg := c, first_time := b\<rparr>" for r r'
    by (intro exI [of _ "reg (snd (rd E r (snd (rd E r' s8))))"] exI [of _ False]) (simp add: s8 rd_eq)
  from cases show ?thesis by (elim insertE emptyE; simp only: r7 r8 r9)
qed

lemma inv_init_82c200: assumes "driver_inv s" shows "driver_inv (snd (can_init_82c200 E p s))"
proof -
  obtain c b where "snd (can_init_82c200 E p s) = s\<lparr>reg := c, first_time := b\<rparr>"
    using init_82c200_frame [of E p s] by blast
  then show ?thesis by (simp add: inv_misc drv.I_reg assms)
qed

lemma inv_set_fs:
  assumes inv: "driver_inv s" and f: "fstates s f = Some fs"
    and fs: "consobj fs' = consobj fs" "ring_wf (fs_inq fs')"
  shows "driver_inv (set_fs f fs' s)"
proof -
  have "holders (set_fs f fs' s) = holders s"
    using f fs(1) by (auto simp: holders_def set_fs_def fun_eq_iff)
  moreover have "dom (fstates (set_fs f fs' s)) = dom (fstates s)"
    using f by (auto simp: set_fs_def)
  ultimately show ?thesis
    using inv fs(2) by (auto simp: driver_inv_def fd_wf_def set_fs_def console_wf_def queues_wf_def)
qed

lemma inv_fs_wf: "driver_inv s \<Longrightarrow> fstates s f = Some fs \<Longrightarrow> ring_wf (fs_inq fs)"
  by (auto simp: driver_inv_def fd_wf_def)

section \<open>Open and release\<close>

lemma find_openfd_Some:
  assumes "find_openfd a s = Some i" shows "i < CAN_MAX_USECOUNT" "openfd s i = a"
  using assms by (auto simp: find_openfd_def find_Some_iff)

lemma find_openfd_None: "find_openfd a s = None \<longleftrightarrow> (\<forall>i < CAN_MAX_USECOUNT. openfd s i \<noteq> a)"
  by (auto simp: find_openfd_def find_None_iff)

lemma used_insert: "i < CAN_MAX_USECOUNT \<Longrightarrow> a \<noteq> 0 \<Longrightarrow> used (fd(i := a)) = insert i (used fd)"
  by (auto simp: used_def)

lemma used_delete: "used (fd(i := 0)) = used fd - {i}"
  by (auto simp: used_def)

lemma finite_used [simp]: "finite (used fd)"
  by (simp add: used_def)

lemma fd_wf_insert:
  assumes wf: "fd_wf s" and i: "i < CAN_MAX_USECOUNT" "openfd s i = 0"
    and a: "a \<noteq> 0" "fstates s a = None" and fs: "ring_wf (fs_inq fs)"
  shows "fd_wf (s\<lparr>openfd := (openfd s)(i := a), fstates := (fstates s)(a \<mapsto> fs),
                  can_usecount := can_usecount s + 1\<rparr>)"
proof -
  have ni: "i \<notin> used (openfd s)" using i(2) by (simp add: used_def)
  have d: "dom (fstates s) = openfd s ` used (openfd s)" "inj_on (openfd s) (used (openfd s))"
    using wf by (auto simp: fd_wf_def)
  have na: "a \<notin> openfd s ` used (openfd s)" using a(2) d(1) by auto
  have im: "((openfd s)(i := a)) ` used (openfd s) = openfd s ` used (openfd s)"
    using ni by (intro image_cong) auto
  have "inj_on ((openfd s)(i := a)) (used (openfd s))"
    using d(2) ni by (subst inj_on_cong [of _ _ "openfd s"]) auto
  then have "inj_on ((openfd s)(i := a)) (insert i (used (openfd s)))"
    using na im ni by (simp add: inj_on_insert)
  moreover have "((openfd s)(i := a)) ` insert i (used (openfd s)) = insert a (dom (fstates s))"
    unfolding image_insert im d(1) by simp
  moreover have "finite (dom (fstates s))" "a \<notin> dom (fstates s)" using d(1) na by auto
  ultimately show ?thesis
    using wf fs unfolding fd_wf_def by (simp add: used_insert [OF i(1) a(1)] del: image_insert fun_upd_image)
qed

lemma fd_wf_delete:
  assumes wf: "fd_wf s" and i: "i < CAN_MAX_USECOUNT" "openfd s i = a" and a: "a \<noteq> 0"
  shows "fd_wf (s\<lparr>fstates := (fstates s)(a := None), openfd := (openfd s)(i := 0),
                  can_usecount := can_usecount s - 1\<rparr>)"
proof -
  let ?A = "used (openfd s)"
  have iA: "i \<in> ?A" using i a by (auto simp: used_def)
  have d: "dom (fstates s) = openfd s ` ?A" "inj_on (openfd s) ?A" using wf by (auto simp: fd_wf_def)
  have "((openfd s)(i := 0)) ` (?A - {i}) = openfd s ` (?A - {i})" by (intro image_cong) auto
  also have "\<dots> = dom (fstates s) - {a}"
    using d iA i by (simp add: inj_on_image_set_diff [where C = ?A])
  finally have im: "((openfd s)(i := 0)) ` (?A - {i}) = dom (fstates s) - {a}" .
  have inj: "inj_on ((openfd s)(i := 0)) (?A - {i})"
    using d(2) by (subst inj_on_cong [of _ _ "openfd s"]) (auto simp: inj_on_diff)
  have fin: "finite (dom (fstates s))" "a \<in> dom (fstates s)" using d(1) iA i by auto
  then have card: "int (card (dom (fstates s) - {a})) = int (card (dom (fstates s))) - 1"
    using card_Suc_Diff1 [of "dom (fstates s)" a] by simp
  have wfq: "ring_wf (fs_inq fs)" if "((fstates s)(a := None)) b = Some fs" for b fs
    using that wf by (auto simp: fd_wf_def split: if_splits)
  have "can_usecount s = int (card (dom (fstates s)))" using wf by (simp add: fd_wf_def)
  with im inj card wfq show ?thesis
    unfolding fd_wf_def by (simp add: used_delete del: fun_upd_image fun_upd_apply)
qed

text \<open>Opening a file at a fresh address, and closing an open one.\<close>

lemma holders_set: "holders (s\<lparr>fstates := (fstates s)(a := x)\<rparr>) = (holders s)(a := map_option consobj x)"
  by (auto simp: holders_def fun_eq_iff)

lemma can_open_cases:
  assumes "can_open a g s = Some (r, t)"
  obtains (busy) "find_openfd 0 s = None" "r = Inl EBUSY" "t = s"
  | (opened) i where "find_openfd 0 s = Some i" "a \<noteq> 0" "r = Inr a"
      "t = s\<lparr>openfd := (openfd s)(i := a),
             fstates := (fstates s)(a \<mapsto> g\<lparr>consobj := -1, promiscuous := False, snoopy := False,
                                         fs_inq := RING_INIT (fs_inq g)\<rparr>),
             can_usecount := can_usecount s + 1, mod_usecount := mod_usecount s + 1\<rparr>"
  using assms by (auto simp: can_open_def can_alloc_openfd_def Let_def split: option.splits if_splits)

lemma inv_open:
  assumes inv: "driver_inv s" and a: "fstates s a = None" and op: "can_open a g s = Some (r, t)"
  shows "driver_inv t"
  using op
proof (cases rule: can_open_cases)
  case busy
  with inv show ?thesis by simp
next
  case (opened i)
  define fs where "fs = g\<lparr>consobj := -1, promiscuous := False, snoopy := False, fs_inq := RING_INIT (fs_inq g)\<rparr>"
  note i = find_openfd_Some [OF opened(1)]
  have "fd_wf s" using inv by (simp add: driver_inv_def)
  from fd_wf_insert [OF this i opened(2) a, of fs]
  have "fd_wf t" unfolding opened(4) fs_def [symmetric] by (simp add: fd_wf_def fs_def)
  moreover have "holders t = (holders s)(a \<mapsto> -1)"
    by (auto simp: opened(4) holders_def fun_eq_iff)
  moreover have "res_ok (consobj_reserved s) (holders s)" using inv by (simp add: driver_inv_def)
  then have "res_ok (consobj_reserved s) ((holders s)(a \<mapsto> -1))"
    using a by (intro res_ok_idle) (simp_all add: holders_def)
  ultimately show ?thesis
    using inv by (simp add: driver_inv_def opened(4) console_wf_def queues_wf_def)
qed

text \<open>Giving back the number a file holds.\<close>

definition free_held :: "file_state \<Rightarrow> ('c, 'z) can_main_scheme \<Rightarrow> ('c, 'z) can_main_scheme" where
  "free_held fs s = (if consobj fs \<noteq> -1 then can_free_consobj (consobj fs) s else s)"

lemma free_held_frame: "\<exists>R. free_held fs s = s\<lparr>consobj_reserved := R\<rparr>"
proof (cases "consobj fs = -1")
  case True
  then show ?thesis by (intro exI [of _ "consobj_reserved s"]) (simp add: free_held_def)
next
  case False
  then show ?thesis
    by (intro exI [of _ "consobj_reserved (can_free_consobj (consobj fs) s)"])
      (simp add: free_held_def can_free_consobj_def Let_def)
qed

lemma free_held_res_ok:
  assumes ok: "res_ok (consobj_reserved s) (holders s)" and f: "fstates s f = Some fs"
  shows "res_ok (consobj_reserved (free_held fs s)) ((holders s)(f \<mapsto> -1))"
proof (cases "consobj fs = -1")
  case True
  then show ?thesis using ok f by (simp add: free_held_def res_ok_idle holders_def)
next
  case False
  have h: "holders s f = Some (consobj fs)" using f by (simp add: holders_def)
  from res_okD(2) [OF ok h] False obtain i where i: "i < COSIZE" "consobj fs = int i + CANOBJ_CONSMIN"
    using valid_consobj_iff by blast
  then have "consobj_reserved (free_held fs s) = (consobj_reserved s)(i := 0)"
    using False by (simp add: free_held_def can_free_consobj_def Let_def)
  with res_ok_free [OF ok, of f i] h i show ?thesis by simp
qed

text \<open>What a release leaves: the promiscuous count and the chip may change, the slot and the object go.\<close>

lemma can_release_cases:
  assumes "can_release E f s = Some t" "find_openfd f s = Some i" "fstates s f = Some fs"
  obtains c b n where
    "t = (free_held fs s)\<lparr>promiscuous_usecount := n, reg := c, first_time := b,
            fstates := (fstates s)(f := None), openfd := (openfd s)(i := 0),
            can_usecount := can_usecount s - 1, mod_usecount := mod_usecount s - 1\<rparr>"
proof -
  obtain R where R: "free_held fs s = s\<lparr>consobj_reserved := R\<rparr>" using free_held_frame by blast
  let ?u = "s\<lparr>consobj_reserved := R\<rparr>"
  let ?w = "?u\<lparr>promiscuous_usecount := promiscuous_usecount s - 1\<rparr>"
  obtain c b where cb: "snd (can_init_82c200 E False ?w) = ?w\<lparr>reg := c, first_time := b\<rparr>"
    using init_82c200_frame [of E False ?w] by blast
  show ?thesis
  proof (cases "promiscuous fs \<and> promiscuous_usecount s - 1 = 0")
    case True
    then show ?thesis
      using assms R cb that [of b c "promiscuous_usecount s - 1"]
      by (simp add: can_release_def can_release_openfd_def Let_def free_held_def [symmetric])
  next
    case False
    then show ?thesis
      using assms R that [of "first_time s" "reg s" "if promiscuous fs then promiscuous_usecount s - 1 else promiscuous_usecount s"]
      by (auto simp: can_release_def can_release_openfd_def Let_def free_held_def [symmetric] split: if_splits)
  qed
qed

lemma inv_slot:
  assumes "driver_inv s" "fstates s f = Some fs"
  obtains i where "find_openfd f s = Some i" "i < CAN_MAX_USECOUNT" "openfd s i = f" "f \<noteq> 0"
proof -
  from assms have "f \<in> openfd s ` used (openfd s)" by (auto simp: driver_inv_def fd_wf_def)
  then obtain j where "j < CAN_MAX_USECOUNT" "openfd s j = f" and f0: "f \<noteq> 0" by (auto simp: used_def)
  then obtain i where i: "find_openfd f s = Some i"
    using find_openfd_None [of f s] by (cases "find_openfd f s") auto
  with find_openfd_Some [OF i] f0 that show ?thesis by blast
qed

lemma inv_release:
  assumes inv: "driver_inv s" and f: "fstates s f = Some fs" and rel: "can_release E f s = Some t"
  shows "driver_inv t"
proof -
  obtain i where i: "find_openfd f s = Some i" "i < CAN_MAX_USECOUNT" "openfd s i = f" "f \<noteq> 0"
    using inv_slot [OF inv f] by blast
  obtain c b n where t: "t = (free_held fs s)\<lparr>promiscuous_usecount := n, reg := c, first_time := b,
            fstates := (fstates s)(f := None), openfd := (openfd s)(i := 0),
            can_usecount := can_usecount s - 1, mod_usecount := mod_usecount s - 1\<rparr>"
    using can_release_cases [OF rel i(1) f] by blast
  obtain R where R: "free_held fs s = s\<lparr>consobj_reserved := R\<rparr>" using free_held_frame by blast
  have "fd_wf s" and ok: "res_ok (consobj_reserved s) (holders s)" using inv by (simp_all add: driver_inv_def)
  from fd_wf_delete [OF this(1) i(2-4)] have "fd_wf t" by (simp add: fd_wf_def t R)
  moreover have "holders t = (holders s)(f := None)" by (auto simp: t R holders_def fun_eq_iff)
  moreover have "res_ok R ((holders s)(f := None))"
    using res_ok_idle [OF free_held_res_ok [OF ok f], of f None] by (simp add: R)
  ultimately show ?thesis
    using inv by (simp add: driver_inv_def t R console_wf_def queues_wf_def)
qed

section \<open>Ioctl, read and write\<close>

text \<open>
  \<^verbatim>\<open>CAN_GET_CONSOBJ\<close> gives back the number the file holds and searches again.
\<close>

lemma get_consobj_eq:
  assumes "fstates s f = Some fs"
  shows "can_ioctl E CAN_GET_CONSOBJ x ok f s =
    (case can_alloc_consobj (free_held fs s) of (c, t) \<Rightarrow>
       Some (if c = -1 then Inl EBUSY else to_user ok c, set_fs f (fs\<lparr>consobj := c\<rparr>) t))"
  using assms by (simp add: can_ioctl_def Let_def free_held_def split_beta)

lemma inv_get_consobj:
  assumes inv: "driver_inv s" and f: "fstates s f = Some fs"
    and io: "can_ioctl E CAN_GET_CONSOBJ x ok f s = Some (r, t)"
  shows "driver_inv t"
proof -
  obtain R where R: "free_held fs s = s\<lparr>consobj_reserved := R\<rparr>" using free_held_frame by blast
  have fd: "fd_wf s" and ok: "res_ok (consobj_reserved s) (holders s)" using inv by (simp_all add: driver_inv_def)
  have okR: "res_ok R ((holders s)(f \<mapsto> -1))" using free_held_res_ok [OF ok f] by (simp add: R)
  have fd': "fd_wf (set_fs f (fs\<lparr>consobj := c\<rparr>) (s\<lparr>consobj_reserved := R'\<rparr>))" for c R'
  proof -
    have "dom ((fstates s)(f \<mapsto> fs\<lparr>consobj := c\<rparr>)) = dom (fstates s)" using f by auto
    then show ?thesis using fd f by (auto simp: fd_wf_def set_fs_def)
  qed
  have h: "holders (set_fs f (fs\<lparr>consobj := c\<rparr>) (s\<lparr>consobj_reserved := R'\<rparr>)) = (holders s)(f \<mapsto> c)" for c R'
    by (auto simp: holders_def set_fs_def fun_eq_iff)
  have cw: "console_wf (set_fs f g (s\<lparr>consobj_reserved := R'\<rparr>))" for g R'
    using inv by (simp add: driver_inv_def console_wf_def queues_wf_def set_fs_def)
  have fin: "driver_inv (set_fs f (fs\<lparr>consobj := c\<rparr>) (s\<lparr>consobj_reserved := R'\<rparr>))"
    if "res_ok R' ((holders s)(f \<mapsto> c))" for c R'
    using fd' cw that unfolding driver_inv_def h by (simp add: set_fs_def)
  show ?thesis
  proof (cases rule: alloc_cases [of "s\<lparr>consobj_reserved := R\<rparr>"])
    case full
    then have "t = set_fs f (fs\<lparr>consobj := -1\<rparr>) (s\<lparr>consobj_reserved := R\<rparr>)"
      using io by (simp add: get_consobj_eq [OF f] R)
    with fin okR show ?thesis by simp
  next
    case (got i)
    then have "t = set_fs f (fs\<lparr>consobj := int i + CANOBJ_CONSMIN\<rparr>) (s\<lparr>consobj_reserved := R(i := 1)\<rparr>)"
      using io by (simp add: get_consobj_eq [OF f] R)
    moreover have "res_ok (R(i := 1)) ((holders s)(f \<mapsto> int i + CANOBJ_CONSMIN))"
      using res_ok_take [OF okR _ got(1), of f] got(2) by simp
    ultimately show ?thesis using fin by simp
  qed
qed

lemma inv_dump_info: "driver_inv s \<Longrightarrow> driver_inv (can_dump_info s)"
  by (simp add: can_dump_info_def Let_def drv.I_kcall drv.I_dump)

lemma inv_flags:
  assumes "driver_inv s" "fstates s f = Some fs"
  shows "driver_inv (set_fs f (fs\<lparr>promiscuous := p\<rparr>) s)" "driver_inv (set_fs f (fs\<lparr>snoopy := p\<rparr>) s)"
  using assms by (auto intro: inv_set_fs simp: inv_fs_wf)

lemma inv_ioctl:
  assumes inv: "driver_inv s" and f: "fstates s f = Some fs"
    and io: "can_ioctl E cmd x ok f s = Some (r, t)"
  shows "driver_inv t"
proof (cases "cmd = CAN_GET_CONSOBJ")
  case True
  with assms show ?thesis by (auto intro: inv_get_consobj)
next
  case False
  have "driver_inv (s\<lparr>can_hb_val := v\<rparr>)" for v using inv by (simp add: inv_misc)
  with False assms show ?thesis
    by (cases cmd)
      (auto simp: can_ioctl_def Let_def canobj_sethbval_def inv_misc inv_init_82c200 inv_flags
        inv_dump_info drv.I_kcall split: option.splits if_splits)
qed

lemma ring_to_user_wf:
  "ring_wf r \<Longrightarrow> ring_wf (snd (snd (ring_to_user_loop fault i n r)))"
proof (induction n arbitrary: i r)
  case (Suc n)
  from Suc.prems show ?case
    by (cases rule: pktq.deq_cases) (simp_all add: Suc split_beta)
qed simp

lemma ring_to_user_spec:
  assumes "ring_wf r" "\<forall>j < n. \<not> fault (i + j)"
  shows "ring_to_user_loop fault i n r =
    (Inr (i + min n (length (ring_list r))), take n (ring_list r), snd (snd (ring_to_user_loop fault i n r)))
    \<and> ring_list (snd (snd (ring_to_user_loop fault i n r))) = drop n (ring_list r)"
  using assms
proof (induction n arbitrary: i r)
  case 0
  then show ?case by simp
next
  case (Suc n)
  have nf: "\<forall>j < n. \<not> fault (Suc i + j)" "\<not> fault i"
    using Suc.prems(2) by (auto dest: spec [of _ 0]) 
  from Suc.prems(1) show ?case
  proof (cases rule: pktq.deq_cases)
    case none
    then show ?thesis by simp
  next
    case (some x r')
    with Suc.IH [OF some(2) nf(1)] nf(2) show ?thesis
      by (simp add: split_beta prod_eq_iff)
  qed
qed

lemma inv_read:
  assumes inv: "driver_inv s" and rd: "can_read True fault count [] f s = Some (r, out, t)"
  shows "driver_inv t"
proof (cases "count < PKTSIZE")
  case True
  with assms show ?thesis by (simp add: can_read_def)
next
  case False
  with rd obtain fs where f: "fstates s f = Some fs"
    by (auto simp: can_read_def simp del: can_read_loop.simps split: option.splits)
      (metis (no_types, lifting) can_read_loop.simps option.case_eq_if option.exhaust option.simps(3))
  have "ring_wf (snd (snd (ring_to_user fault (count div PKTSIZE) (fs_inq fs))))"
    unfolding ring_to_user_def by (rule ring_to_user_wf) (rule inv_fs_wf [OF inv f])
  then have "driver_inv (set_fs f (fs\<lparr>fs_inq := snd (snd (ring_to_user fault (count div PKTSIZE) (fs_inq fs)))\<rparr>) s)"
    using inv_set_fs [OF inv f] by simp
  with False rd f show ?thesis
    by (auto simp: can_read_def Let_def split_beta split: sum.splits if_splits)
qed

lemma inv_user_to_outq: "driver_inv s \<Longrightarrow> driver_inv (snd (user_to_outq_loop E user i n s))"
proof (induction n arbitrary: i s)
  case (Suc n)
  then show ?case
    using drv.I_send [OF Suc.prems, of E] by (auto simp: split_beta split: option.split)
qed simp

lemma inv_write:
  assumes inv: "driver_inv s" and w: "can_write E True user count [] s = Some (r, t)"
  shows "driver_inv t"
  using w inv_user_to_outq [OF inv, of E user 0 "count div PKTSIZE"] inv
  by (auto simp: can_write_def user_to_outq_def split: if_splits prod.splits sum.splits)

section \<open>Delivery\<close>

text \<open>What delivery does to one open file: the packet is queued if the file wants it and has room.\<close>

definition accept :: "('c, 'z) can_main_scheme \<Rightarrow> can_packet \<Rightarrow> file_state \<Rightarrow> file_state" where
  "accept s pkt fs =
     (if IS_MYPACKET s pkt \<or> promiscuous fs \<or> snoopy fs
      then fs\<lparr>fs_inq := snd (pkt_to_ring pkt (fs_inq fs))\<rparr> else fs)"

lemma accept_simps [simp]:
  "consobj (accept s pkt fs) = consobj fs" "promiscuous (accept s pkt fs) = promiscuous fs"
  "snoopy (accept s pkt fs) = snoopy fs" "ring_wf (fs_inq fs) \<Longrightarrow> ring_wf (fs_inq (accept s pkt fs))"
  by (simp_all add: accept_def pktq.wf_enq)

lemma deliver_fd_spec:
  assumes "openfd s i \<noteq> 0" "fstates s (openfd s i) = Some fs"
  shows "\<exists>t. deliver_fd pkt i s =
    Some (s\<lparr>fstates := (fstates s)(openfd s i \<mapsto> accept s pkt fs), ktrace := t\<rparr>)"
proof -
  have id: "s = s\<lparr>fstates := (fstates s)(openfd s i \<mapsto> fs), ktrace := ktrace s\<rparr>"
    using assms(2) by (cases s) (simp add: fun_upd_idem)
  show ?thesis
  proof (cases "IS_MYPACKET s pkt \<or> promiscuous fs \<or> snoopy fs")
    case True
    then show ?thesis
      using assms
      by (intro exI [of _ "if fst (pkt_to_ring pkt (fs_inq fs)) then ktrace s @ [WakeUpReadq (openfd s i)]
          else ktrace s"]) (auto simp: deliver_fd_def accept_def set_fs_def kcall_def split_beta Let_def)
  next
    case False
    then show ?thesis
      using assms id by (intro exI [of _ "ktrace s"]) (auto simp: deliver_fd_def accept_def)
  qed
qed

lemma IS_MYPACKET_cong: "can_nodeid s = can_nodeid t \<Longrightarrow> IS_MYPACKET s pkt = IS_MYPACKET t pkt"
  by (simp add: IS_MYPACKET_def)

lemma deliver_fds_spec:
  assumes "distinct js" "set js \<subseteq> used (openfd s) \<union> {i. openfd s i = 0}"
    and "inj_on (openfd s) (used (openfd s))"
    and "\<forall>i \<in> set js. openfd s i \<noteq> 0 \<longrightarrow> fstates s (openfd s i) \<noteq> None"
  shows "\<exists>t. deliver_fds pkt js s = Some (s\<lparr>fstates := (\<lambda>a. if a \<in> openfd s ` (set js \<inter> used (openfd s))
      then map_option (accept s pkt) (fstates s a) else fstates s a), ktrace := t\<rparr>)"
  using assms
proof (induction js arbitrary: s)
  case Nil
  show ?case by (intro exI [of _ "ktrace s"]) simp
next
  case (Cons i js)
  show ?case
  proof (cases "openfd s i = 0")
    case True
    then have "i \<notin> used (openfd s)" by (simp add: used_def)
    with True Cons.IH [of s] Cons.prems show ?thesis by (simp add: deliver_fd_def)
  next
    case False
    then have iu: "i \<in> used (openfd s)" using Cons.prems(2) by auto
    obtain fs where fs: "fstates s (openfd s i) = Some fs" using False Cons.prems(4) by auto
    obtain t where d: "deliver_fd pkt i s =
        Some (s\<lparr>fstates := (fstates s)(openfd s i \<mapsto> accept s pkt fs), ktrace := t\<rparr>)"
      using deliver_fd_spec [OF False fs] by blast
    define s1 where "s1 = s\<lparr>fstates := (fstates s)(openfd s i \<mapsto> accept s pkt fs), ktrace := t\<rparr>"
    have o: "openfd s1 = openfd s" by (simp add: s1_def)
    have acc: "accept s1 = accept s" by (simp add: s1_def accept_def fun_eq_iff IS_MYPACKET_def)
    have f1: "fstates s1 = (fstates s)(openfd s i \<mapsto> accept s pkt fs)" by (simp add: s1_def)
    have "\<forall>j \<in> set js. openfd s j \<noteq> 0 \<longrightarrow> fstates s1 (openfd s j) \<noteq> None"
      using Cons.prems(4) by (simp add: f1)
    with Cons.prems have "\<exists>t'. deliver_fds pkt js s1 = Some (s1\<lparr>fstates :=
        (\<lambda>a. if a \<in> openfd s ` (set js \<inter> used (openfd s))
             then map_option (accept s pkt) (fstates s1 a) else fstates s1 a), ktrace := t'\<rparr>)"
      using Cons.IH [of s1, unfolded o acc] by simp
    then obtain t' where r: "deliver_fds pkt js s1 = Some (s1\<lparr>fstates :=
        (\<lambda>a. if a \<in> openfd s ` (set js \<inter> used (openfd s))
             then map_option (accept s pkt) (fstates s1 a) else fstates s1 a), ktrace := t'\<rparr>)" by blast
    have notin: "openfd s i \<notin> openfd s ` (set js \<inter> used (openfd s))"
      using Cons.prems(1,3) iu by (auto simp: inj_on_def)
    have "(\<lambda>a. if a \<in> openfd s ` (set js \<inter> used (openfd s)) then map_option (accept s pkt) (fstates s1 a) else fstates s1 a)
      = (\<lambda>a. if a \<in> openfd s ` (set (i # js) \<inter> used (openfd s)) then map_option (accept s pkt) (fstates s a) else fstates s a)"
      using notin iu fs by (auto simp: fun_eq_iff f1)
    then show ?thesis using d r by (intro exI [of _ t']) (simp add: s1_def)
  qed
qed

text \<open>With the invariant, delivery reaches every open file, once, and never touches a freed one.\<close>

lemma deliver_all:
  assumes "driver_inv s"
  shows "\<exists>t. deliver_fds pkt [0..<CAN_MAX_USECOUNT] s =
    Some (s\<lparr>fstates := (\<lambda>a. map_option (accept s pkt) (fstates s a)), ktrace := t\<rparr>)"
proof -
  have d: "dom (fstates s) = openfd s ` used (openfd s)" "inj_on (openfd s) (used (openfd s))"
    using assms by (simp_all add: driver_inv_def fd_wf_def)
  have sub: "set [0..<CAN_MAX_USECOUNT] \<inter> used (openfd s) = used (openfd s)"
    "set [0..<CAN_MAX_USECOUNT] \<subseteq> used (openfd s) \<union> {i. openfd s i = 0}"
    by (auto simp: used_def)
  have live: "\<forall>i \<in> set [0..<CAN_MAX_USECOUNT]. openfd s i \<noteq> 0 \<longrightarrow> fstates s (openfd s i) \<noteq> None"
  proof (intro ballI impI)
    fix i assume "i \<in> set [0..<CAN_MAX_USECOUNT]" "openfd s i \<noteq> 0"
    then have "openfd s i \<in> dom (fstates s)" unfolding d(1) by (auto simp: used_def)
    then show "fstates s (openfd s i) \<noteq> None" by auto
  qed
  have "(\<lambda>a. if a \<in> openfd s ` used (openfd s) then map_option (accept s pkt) (fstates s a) else fstates s a)
    = (\<lambda>a. map_option (accept s pkt) (fstates s a))"
    unfolding d(1) [symmetric] by (auto simp: fun_eq_iff domIff)
  then show ?thesis
    using deliver_fds_spec [OF _ sub(2) d(2) live, of pkt] sub(1) by simp
qed

lemma inv_map_fstates:
  assumes inv: "driver_inv s" and F: "\<And>fs. consobj (F fs) = consobj fs"
    "\<And>fs. ring_wf (fs_inq fs) \<Longrightarrow> ring_wf (fs_inq (F fs))"
  shows "driver_inv (s\<lparr>fstates := (\<lambda>a. map_option F (fstates s a)), ktrace := t\<rparr>)"
proof -
  let ?t = "s\<lparr>fstates := (\<lambda>a. map_option F (fstates s a)), ktrace := t\<rparr>"
  have "holders ?t = holders s"
    using F(1) by (auto simp: holders_def fun_eq_iff option.map_comp comp_def)
  moreover have "dom (\<lambda>a. map_option F (fstates s a)) = dom (fstates s)" by (auto simp: dom_def)
  ultimately show ?thesis
    using inv F(2) by (auto simp: driver_inv_def fd_wf_def console_wf_def queues_wf_def)
qed

lemma deliver_pkt_inv:
  assumes "driver_inv s"
  shows "\<exists>t. deliver_pkt E pkt s = Some t \<and> driver_inv t"
proof -
  define s1 where "s1 = (if IS_MYPACKET s pkt then snd (canobj_packet E pkt s) else s)"
  have inv: "driver_inv s1" using assms by (simp add: s1_def drv.I_packet)
  obtain t where t: "deliver_fds pkt [0..<CAN_MAX_USECOUNT] s1 =
      Some (s1\<lparr>fstates := (\<lambda>a. map_option (accept s1 pkt) (fstates s1 a)), ktrace := t\<rparr>)"
    using deliver_all [OF inv] by blast
  have "deliver_pkt E pkt s = deliver_fds pkt [0..<CAN_MAX_USECOUNT] s1"
    by (simp add: deliver_pkt_def s1_def Let_def)
  then show ?thesis unfolding t by (simp add: inv_map_fstates [OF inv])
qed

end
