(* ===== verification/CanBh.thy ===== *)
theory CanBh
  imports CanInv
begin

text \<open>
  The bottom half and the interrupt handler under the invariant: the loop that
  delivers received packets ends although delivering a packet can queue another,
  and both handlers keep the invariant.
\<close>

section \<open>The bottom half ends\<close>

text \<open>
  Handling a packet may queue another one for this node: the answer to a request
  the node sent to itself, or the next console packet when the console program
  runs on this node. An answer is never answered, and a console packet takes
  characters out of the output buffer, so the following potential decreases with
  every packet the bottom half takes off the queue.
\<close>

definition pkt_weight :: "can_packet \<Rightarrow> nat" where
  "pkt_weight p = (if ctype (ext p) = CANTYPE_ACK \<or> ctype (ext p) = CANTYPE_NAK then 1 else 2)"

definition bh_potential :: "('c, 'z) console_state \<Rightarrow> nat" where
  "bh_potential s = sum_list (map pkt_weight (ring_list (inq s))) + 2 * length (ring_list (cancon_outbuf s))"

lemma pkt_weight_bounds: "1 \<le> pkt_weight p" "pkt_weight p \<le> 2"
  by (simp_all add: pkt_weight_def)

lemma pkt_weight_ext [simp]:
  "pkt_weight (incoming_fixup s p) = pkt_weight p" "pkt_weight (outgoing_fixup s p) = pkt_weight p"
  by (simp_all add: pkt_weight_def)

lemma bh_potential_kcall [simp]: "bh_potential (kcall e s) = bh_potential s"
  by (simp add: bh_potential_def kcall_def)

lemma bh_potential_send:
  assumes "queues_wf s"
  shows "bh_potential (snd (snd (send_pkt E p s))) \<le> bh_potential s + pkt_weight p"
proof -
  obtain i q c t where fr: "snd (snd (send_pkt E p s)) = s\<lparr>inq := i, outq := q, reg := c, ktrace := t\<rparr>"
    using send_frame [of E p s] by blast
  have "ring_list (inq (snd (snd (send_pkt E p s)))) = ring_list (inq s) \<or>
    ring_list (inq (snd (snd (send_pkt E p s)))) = ring_list (inq s) @ [incoming_fixup s (outgoing_fixup s p)]"
    using send_queues(3) [OF assms, where E = E and pkt = p] by simp
  moreover have "cancon_outbuf (snd (snd (send_pkt E p s))) = cancon_outbuf s" unfolding fr by simp
  ultimately show ?thesis by (auto simp: bh_potential_def)
qed

lemma bh_potential_acknak:
  assumes "queues_wf s" "ty = CANTYPE_ACK \<or> ty = CANTYPE_NAK"
  shows "bh_potential (canobj_acknak E ty p d s) \<le> Suc (bh_potential s)"
proof -
  have "pkt_weight (acknak_pkt ty p d) = 1"
    using assms(2) by (auto simp: pkt_weight_def acknak_pkt_def Let_def split: option.split)
  then show ?thesis
    using bh_potential_send [OF assms(1), of E "acknak_pkt ty p d"] by (simp add: canobj_acknak_def)
qed

lemma bh_potential_updates [simp]:
  "bh_potential (s\<lparr>cancon_ack_pending := b\<rparr>) = bh_potential s"
  "bh_potential (s\<lparr>ack_timer := x\<rparr>) = bh_potential s"
  "bh_potential (s\<lparr>cancon_rmt := r\<rparr>) = bh_potential s"
  "bh_potential (s\<lparr>cancon_inbuf := i\<rparr>) = bh_potential s"
  "bh_potential (s\<lparr>ttyp := y\<rparr>) = bh_potential s"
  by (simp_all add: bh_potential_def)

lemma bh_potential_obj [simp]:
  "bh_potential (s\<lparr>promdata := p\<rparr>) = bh_potential s" "bh_potential (s\<lparr>testrw_val := v\<rparr>) = bh_potential s"
  by (simp_all add: bh_potential_def)

lemma bh_potential_wakeup [simp]: "bh_potential (cantty_write_wakeup t s) = bh_potential s"
  by (simp add: cantty_write_wakeup_def split: option.split)

lemma bh_potential_send_next:
  assumes "console_wf s"
  shows "bh_potential (cancon_send_next E s) \<le> bh_potential s"
proof -
  obtain cs q where d: "deq_upto ring_to_char 4 (cancon_outbuf s) = (cs, q)" by fastforce
  have cs: "cs = take 4 (ring_list (cancon_outbuf s))" "ring_list q = drop 4 (ring_list (cancon_outbuf s))"
    using charq.deq_upto_spec [of "cancon_outbuf s" 4] assms by (simp_all add: d console_wf_def)
  define s1 where "s1 = s\<lparr>cancon_outbuf := q\<rparr>"
  have q1: "queues_wf s1" using assms by (simp add: s1_def console_wf_def queues_wf_def)
  have s1: "bh_potential s1 \<le> bh_potential s" "cs \<noteq> [] \<Longrightarrow> bh_potential s1 + 2 \<le> bh_potential s"
    using cs by (cases "ring_list (cancon_outbuf s)"; simp add: s1_def bh_potential_def)+
  have "bh_potential (snd (snd (send_pkt E (cancon_pkt E cs s1) s1))) \<le> bh_potential s1 + 2"
    using bh_potential_send [OF q1, of E "cancon_pkt E cs s1"] pkt_weight_bounds(2) [of "cancon_pkt E cs s1"]
    by linarith
  moreover have "bh_potential (s\<lparr>cancon_outbuf := clear_ring (cancon_outbuf s)\<rparr>) \<le> bh_potential s"
    by (simp add: bh_potential_def)
  ultimately show ?thesis
    using s1 by (auto simp: cancon_send_next_def d Let_def s1_def [symmetric] split_beta)
qed

lemma recv_ack_cases:
  fixes s :: "('c, 'z) console_state" and E :: "('c, 'p) env"
  defines "u \<equiv> s\<lparr>ack_timer := None, cancon_ack_pending := False\<rparr>"
  shows "\<exists>e. cancon_recv_ack E t s = cancon_send_next E u \<or> cancon_recv_ack E t s = cancon_send_next E (kcall e u)"
proof (cases "cancon_ack_pending s")
  case False
  then have "s\<lparr>ack_timer := None\<rparr> = u" by (cases s) (simp add: u_def)
  with False show ?thesis by (auto simp: cancon_recv_ack_def Let_def)
qed (auto simp: cancon_recv_ack_def Let_def u_def)

lemma bh_potential_recv_ack:
  assumes "console_wf s"
  shows "bh_potential (cancon_recv_ack E t s) \<le> bh_potential s"
proof -
  define u where "u = s\<lparr>ack_timer := None, cancon_ack_pending := False\<rparr>"
  have "console_wf u" using assms by (simp add: u_def console_wf_def queues_wf_def)
  then have "console_wf (kcall e u)" "bh_potential (kcall e u) = bh_potential s" "bh_potential u = bh_potential s" for e
    by (simp_all add: console.I_kcall u_def)
  with \<open>console_wf u\<close> bh_potential_send_next [of u E] bh_potential_send_next [of "kcall _ u" E]
  show ?thesis using recv_ack_cases [of E t s] unfolding u_def [symmetric] by metis
qed

lemma bh_potential_hangup: "bh_potential (cantty_hangup s) \<le> bh_potential s"
  by (simp add: cantty_hangup_def Let_def) (simp add: bh_potential_def)

lemma bh_potential_recv_dat [simp]: "bh_potential (cantty_recv_dat E p n s) = bh_potential s"
  by (simp add: cantty_recv_dat_def cantty_recv_push_def split_beta split: option.split)

lemma bh_potential_setcon [simp]:
  "bh_potential (cancon_setcon p s) = bh_potential s" "bh_potential (canobj_cancon_host E g s') = bh_potential s'"
  by (simp_all add: cancon_setcon_def canobj_cancon_host_def Let_def split: option.split getset.split)

lemma switch_ignores_answers:
  assumes "ctype (ext p) = CANTYPE_ACK \<or> ctype (ext p) = CANTYPE_NAK"
  shows "snd (canobj_switch E p s) = s"
proof -
  have "ctype (ext p) \<noteq> CANTYPE_RO" "ctype (ext p) \<noteq> CANTYPE_WO" "ctype (ext p) \<noteq> CANTYPE_DAT"
    using assms by (auto simp: CANTYPE_defs)
  then show ?thesis
    by (simp add: canobj_switch_def canobj_connect_def canobj_disconnect_def canobj_dat_def
        canobj_break_def canobj_testrw_def canobj_autoboot_def canobj_reset_io_def canobj_boot_dev_def
        canobj_heartbeat_def canobj_force_disconn_def Let_def)
qed

lemma bh_potential_switch:
  assumes "console_wf s"
  shows "bh_potential (snd (canobj_switch E p s)) \<le> Suc (bh_potential s)"
proof -
  have q: "queues_wf s" using assms by (simp add: console_wf_def)
  have a: "bh_potential (canobj_acknak E ty p d t) \<le> Suc (bh_potential t)"
    if "ty = CANTYPE_ACK \<or> ty = CANTYPE_NAK" "queues_wf t" for ty d t
    by (rule bh_potential_acknak [OF that(2,1)])
  have qs: "queues_wf (canobj_cancon_host E g (cancon_setcon r s))" for g r
    using q by (simp add: canobj_cancon_host_def cancon_setcon_def queues_wf_def Let_def split: getset.split option.split)
  have h: "bh_potential (cantty_hangup (canobj_acknak E CANTYPE_ACK p d (canobj_cancon_host E g (cancon_setcon r s))))
      \<le> Suc (bh_potential s)" for d g r
    using bh_potential_hangup a [of CANTYPE_ACK, OF _ qs] by (fastforce intro: order_trans)
  have c: "bh_potential (canobj_acknak E CANTYPE_ACK p d (canobj_cancon_host E g (cancon_setcon r s)))
      \<le> Suc (bh_potential s)" for d g r
    using a [of CANTYPE_ACK, OF _ qs] by simp
  have pr: "queues_wf (s\<lparr>promdata := x\<rparr>)" for x using q by (simp add: queues_wf_def)
  note ap = a [OF _ pr, simplified]
  have "bh_potential (snd (canobj_connect E p s)) \<le> Suc (bh_potential s)"
      "bh_potential (snd (canobj_disconnect E p s)) \<le> Suc (bh_potential s)"
      "bh_potential (snd (canobj_force_disconn E p s)) \<le> Suc (bh_potential s)"
    by (simp_all add: canobj_connect_def canobj_disconnect_def canobj_force_disconn_def Let_def a q h c)
  moreover have "bh_potential (snd (canobj_dat E p s)) \<le> Suc (bh_potential s)"
      "bh_potential (snd (canobj_break E p s)) \<le> Suc (bh_potential s)"
      "bh_potential (snd (canobj_testrw E p s)) \<le> Suc (bh_potential s)"
      "bh_potential (snd (canobj_heartbeat E p s)) \<le> Suc (bh_potential s)"
    by (simp_all add: canobj_dat_def canobj_break_def canobj_testrw_def canobj_heartbeat_def Let_def a q)
  moreover have "bh_potential (snd (canobj_autoboot E p s)) \<le> Suc (bh_potential s)"
      "bh_potential (snd (canobj_boot_dev E p s)) \<le> Suc (bh_potential s)"
    by (simp_all add: canobj_autoboot_def canobj_boot_dev_def Let_def split_beta a q split: option.split)
  moreover have "bh_potential (snd (canobj_reset_io E p s)) \<le> Suc (bh_potential s)"
    by (simp add: canobj_reset_io_def Let_def split_beta a q ap split: option.split)
  ultimately show ?thesis by (simp add: canobj_switch_def Let_def)
qed

lemma bh_potential_packet:
  assumes "console_wf s"
  shows "bh_potential (snd (canobj_packet E p s)) < bh_potential s + pkt_weight p"
proof (cases "ctype (ext p) = CANTYPE_ACK \<or> ctype (ext p) = CANTYPE_NAK")
  case True
  have "bh_potential (snd (canobj_consobj E p s)) \<le> bh_potential s"
    using bh_potential_recv_ack [OF assms, of E] by (simp add: canobj_consobj_def)
  with switch_ignores_answers [OF True, of E s] pkt_weight_bounds(1) [of p] show ?thesis
    by (auto simp: canobj_packet_def split_beta)
next
  case False
  then have "snd (canobj_consobj E p t) = t" for t by (simp add: canobj_consobj_def)
  with False bh_potential_switch [OF assms, of E p] show ?thesis
    by (auto simp: canobj_packet_def split_beta pkt_weight_def)
qed

lemma can_bh_ends:
  "driver_inv s \<Longrightarrow> bh_potential s < n \<Longrightarrow>
   \<exists>t. can_bh E n s = Some t \<and> driver_inv t \<and> ring_list (inq t) = []"
proof (induction n arbitrary: s)
  case (Suc n)
  have wf: "ring_wf (inq s)" using drv.I_queues [OF Suc.prems(1)] by (simp add: queues_wf_def)
  then show ?case
  proof (cases rule: pktq.deq_cases)
    case none
    with Suc.prems show ?thesis by simp
  next
    case (some p q)
    let ?s0 = "s\<lparr>inq := q\<rparr>"
    define s1 where "s1 = (if IS_MYPACKET ?s0 p then snd (canobj_packet E p ?s0) else ?s0)"
    have inv: "driver_inv ?s0" "driver_inv s1"
      using inv_inq [OF Suc.prems(1) some(2)] by (simp_all add: s1_def drv.I_packet)
    obtain t where t: "deliver_fds p [0..<CAN_MAX_USECOUNT] s1 =
        Some (s1\<lparr>fstates := (\<lambda>a. map_option (accept s1 p) (fstates s1 a)), ktrace := t\<rparr>)"
      using deliver_all [OF inv(2)] by blast
    let ?s2 = "s1\<lparr>fstates := (\<lambda>a. map_option (accept s1 p) (fstates s1 a)), ktrace := t\<rparr>"
    have "bh_potential s = pkt_weight p + bh_potential ?s0" by (simp add: bh_potential_def some(3))
    moreover have "bh_potential s1 < bh_potential ?s0 + pkt_weight p"
      using bh_potential_packet [OF drv.I_console [OF inv(1)], of E p] pkt_weight_bounds(1) [of p]
      by (simp add: s1_def)
    moreover have "bh_potential ?s2 = bh_potential s1" by (simp add: bh_potential_def)
    ultimately have "bh_potential ?s2 < n" using Suc.prems(2) by linarith
    moreover have "driver_inv ?s2" by (rule inv_map_fstates [OF inv(2)]) simp_all
    ultimately obtain u where "can_bh E n ?s2 = Some u" "driver_inv u" "ring_list (inq u) = []"
      using Suc.IH by blast
    moreover have "can_bh E (Suc n) s = can_bh E n ?s2"
      using some(1) t by (simp add: deliver_pkt_def Let_def s1_def [symmetric])
    ultimately show ?thesis by simp
  qed
qed simp

text \<open>The potential is at most two per packet and character slot.\<close>

lemma bh_potential_bound:
  assumes "console_wf s"
  shows "bh_potential s \<le> 4 * (MAXRING - 1)"
proof -
  have "sum_list (map pkt_weight ps) \<le> 2 * length ps" for ps
  proof (induction ps)
    case (Cons p ps)
    then show ?case using pkt_weight_bounds(2) [of p] by simp
  qed simp
  from this [of "ring_list (inq s)"] show ?thesis
    using assms pktq.contents_le [of "inq s"] charq.contents_le [of "cancon_outbuf s"]
    unfolding bh_potential_def console_wf_def queues_wf_def by linarith
qed

lemma inv_bh: "driver_inv s \<Longrightarrow> can_bh E n s = Some t \<Longrightarrow> driver_inv t"
proof (induction n arbitrary: s)
  case (Suc n)
  have wf: "ring_wf (inq s)" using drv.I_queues [OF Suc.prems(1)] by (simp add: queues_wf_def)
  then show ?case
  proof (cases rule: pktq.deq_cases)
    case none
    with Suc.prems show ?thesis by simp
  next
    case (some p q)
    obtain u where "deliver_pkt E p (s\<lparr>inq := q\<rparr>) = Some u" "driver_inv u"
      using deliver_pkt_inv [OF inv_inq [OF Suc.prems(1) some(2)]] by blast
    with some(1) Suc show ?thesis by simp
  qed
qed simp

section \<open>The interrupt handler\<close>

lemma try_recv_loop_frame:
  "ring_wf (inq s) \<Longrightarrow> try_recv_loop E n i s = Some (j, t) \<Longrightarrow>
     \<exists>q c. t = s\<lparr>inq := q, reg := c\<rparr> \<and> ring_wf q \<and> i \<le> j \<and> (j = i \<longrightarrow> q = inq s)"
proof (induction n arbitrary: i s)
  case (Suc n)
  let ?s = "snd (rd E status s)"
  show ?case
  proof (cases "fst (rd E status s) AND CAN_STATUS_RECV_AVAIL = 0")
    case True
    with Suc.prems show ?thesis
      by (intro exI [of _ "inq s"] exI [of _ "reg t"]) (auto simp: split_beta rd_eq)
  next
    case False
    obtain c where c: "snd (can_copy_rx E (stack_pkt E) ?s) = s\<lparr>reg := c\<rparr>"
      using can_copy_rx_frame [of E "stack_pkt E" ?s] by (auto simp: rd_eq)
    define w where "w = wr E command CAN_COMMAND_CLR_RECV (s\<lparr>reg := c\<rparr>)"
    define p where "p = incoming_fixup w (fst (can_copy_rx E (stack_pkt E) ?s))"
    have w: "w = s\<lparr>reg := reg w\<rparr>" by (simp add: w_def wr_def)
    let ?u = "w\<lparr>inq := snd (pkt_to_ring p (inq w))\<rparr>"
    have "try_recv_loop E n (Suc i) ?u = Some (j, t)"
      using Suc.prems(2) False by (simp add: split_beta Let_def c p_def w_def)
    moreover have "inq w = inq s" by (subst w) simp
    then have "ring_wf (inq ?u)" using Suc.prems(1) by (simp add: pktq.wf_enq)
    ultimately obtain q d where "t = ?u\<lparr>inq := q, reg := d\<rparr>" "ring_wf q" "Suc i \<le> j" using Suc.IH by blast
    moreover have "?u\<lparr>inq := q, reg := d\<rparr> = s\<lparr>inq := q, reg := d\<rparr>" by (subst w) simp
    ultimately show ?thesis by auto
  qed
qed simp

lemma inv_intr:
  assumes "driver_inv s" "can_intr E n s = Some t" shows "driver_inv t"
proof -
  have recv: "driver_inv u" if v: "try_recv E n v = Some u" "driver_inv v" for u v
  proof -
    obtain j w where w: "try_recv_loop E n 0 v = Some (j, w)" "u = (if j > 0 then kcall QueueBh w else w)"
      using v(1) by (auto simp: try_recv_def split: option.splits)
    have "ring_wf (inq v)" using drv.I_queues [OF v(2)] by (simp add: queues_wf_def)
    from try_recv_loop_frame [OF this w(1)] show ?thesis using v(2) by (auto simp: w(2) drv.I_kcall drv.I_reg inv_inq)
  qed
  show ?thesis
    using assms(2)
    by (auto simp: can_intr_def Let_def split_beta split: option.splits
        intro!: drv.I_rd drv.I_try_xmit elim!: recv) 
      (auto intro!: drv.I_rd drv.I_kcall drv.I_wr simp: assms(1))
qed

end
