(* ===== verification/CanStep.thy ===== *)
theory CanStep
  imports CanBh
begin

text \<open>
  The driver as a state machine: what can happen to it after the module has been
  loaded, and that every state it reaches satisfies the invariant.

  A blocking read or write is a sequence of attempts with other steps in between,
  so the steps \<open>read_file\<close> and \<open>write_file\<close> are the non-blocking ones. \<^verbatim>\<open>printk\<close> called from inside
  the driver is recorded in the trace; the call it makes back into the console
  driver is the step \<open>printk\<close>.
\<close>

section \<open>Steps\<close>

inductive driver_step :: "('c, 'p) env \<Rightarrow> ('c, 'p) driver \<Rightarrow> ('c, 'p) driver \<Rightarrow> bool" for E where
  open_file: "fstates s a = None \<Longrightarrow> can_open a g s = Some (r, t) \<Longrightarrow> driver_step E s t"
| release_file: "fstates s f \<noteq> None \<Longrightarrow> can_release E f s = Some t \<Longrightarrow> driver_step E s t"
| ioctl: "fstates s f \<noteq> None \<Longrightarrow> can_ioctl E cmd x ok f s = Some (i, t) \<Longrightarrow> driver_step E s t"
| read_file: "can_read True fault count [] f s = Some (n, out, t) \<Longrightarrow> driver_step E s t"
| write_file: "can_write E True user count [] s = Some (n, t) \<Longrightarrow> driver_step E s t"
| intr: "can_intr E k s = Some t \<Longrightarrow> driver_step E s t"
| bh: "can_bh E k s = Some t \<Longrightarrow> driver_step E s t"
| heartbeat: "hb_timer s = Some e \<Longrightarrow> driver_step E s (canobj_send_heartbeat E (s\<lparr>hb_timer := None\<rparr>))"
| ack_timeout: "ack_timer s = Some (e, d) \<Longrightarrow> driver_step E s (cancon_recv_ack E d s)"
| printk: "driver_step E s (cancon_printk_write E str s)"
| tty_open: "driver_step E s (cantty_open t s)"
| tty_close: "cantty_myrefcount s > 0 \<Longrightarrow> driver_step E s (cantty_close s)"
| tty_write: "driver_step E s (snd (cantty_write E t u bf flt n s))"
| tty_put_char: "driver_step E s (cantty_put_char E ch s)"
| tty_flush: "driver_step E s (cantty_flush_buffer t s)"
| tty_layer: "ttyp s = Some t \<Longrightarrow> driver_step E s (s\<lparr>ttyp := Some t'\<rparr>)"
| tick: "driver_step E s (s\<lparr>jiffies := jiffies s + 1\<rparr>)"
| chip: "driver_step E s (s\<lparr>reg := c\<rparr>)"

text \<open>The static variables when the module has just been loaded.\<close>

definition loaded :: "('c, 'p) driver \<Rightarrow> bool" where
  "loaded s \<longleftrightarrow> can_usecount s = 0 \<and> fstates s = Map.empty \<and> promiscuous_usecount s = 0
     \<and> \<not> cancon_ack_pending s \<and> ack_timer s = None
     \<and> head (cancon_outbuf s) = 0 \<and> tail (cancon_outbuf s) = 0
     \<and> head (cancon_inbuf s) = 0 \<and> tail (cancon_inbuf s) = 0"

inductive driver_reach :: "('c, 'p) env \<Rightarrow> ('c, 'p) driver \<Rightarrow> bool" for E where
  start: "loaded s \<Longrightarrow> init_module E s = (0, t) \<Longrightarrow> driver_reach E t"
| step: "driver_reach E s \<Longrightarrow> driver_step E s t \<Longrightarrow> driver_reach E t"

section \<open>Module start\<close>

lemma used_empty [simp]: "used (\<lambda>i. if i < CAN_MAX_USECOUNT then 0 else fd i) = {}"
  by (auto simp: used_def)

lemma inv_fresh_tables:
  assumes "loaded s"
  shows "driver_inv (can_init_openfd (can_init_consobj ((can_init_queues s)\<lparr>reg := c, first_time := b\<rparr>)))"
proof -
  have "res_ok (\<lambda>i. if i < COSIZE then 0 else R i) (\<lambda>a. None)" for R
    by (rule res_okI) (auto simp: held_def)
  with assms show ?thesis
    by (simp add: driver_inv_def fd_wf_def console_wf_def queues_wf_def holders_def [abs_def] loaded_def
        ring_wf_def [of "cancon_outbuf s"] ring_wf_def [of "cancon_inbuf s"] MAXRING_def
        can_init_openfd_def can_init_consobj_def can_init_queues_def)
qed

lemma inv_boardtype: "driver_inv s \<Longrightarrow> driver_inv (s\<lparr>can_boardtype := v\<rparr>)"
  "driver_inv s \<Longrightarrow> driver_inv (s\<lparr>cantty_registered := b\<rparr>)"
  by (simp_all add: inv_defs)

lemma inv_canobj_init: "driver_inv s \<Longrightarrow> driver_inv (canobj_init E s)"
  by (simp add: canobj_init_def Let_def split_beta drv.I_hb_timer drv.I_kcall inv_boardtype drv.I_cancon_host)

lemma inv_cancon_init: assumes "driver_inv s" shows "driver_inv (cancon_init E s)"
proof -
  let ?a = "RING_INIT_INLOCK (RING_INIT (cancon_outbuf s))"
  have "driver_inv (s\<lparr>cancon_outbuf := ?a, cancon_inbuf := RING_INIT (cancon_inbuf s)\<rparr>)"
    using drv.I_inbuf [OF drv.I_outbuf [OF assms, of ?a], of "RING_INIT (cancon_inbuf s)" "ttyp s"] by simp
  then show ?thesis
    by (simp add: cancon_init_def cantty_init_def Let_def drv.I_kcall inv_boardtype)
qed

lemma init_module_inv:
  assumes "loaded s" "init_module E s = (0, t)"
  shows "driver_inv t"
proof -
  obtain r b where rb: "obp_getprop (prom_of E) (promdata s) OBP_CAN_NODEID (chars_of_u32 (can_nodeid s)) = (r, b)"
    by fastforce
  let ?s1 = "s\<lparr>can_nodeid := u32_of_chars b\<rparr>"
  obtain c f where cf: "snd (can_init_82c200 E False (can_init_queues ?s1)) =
      (can_init_queues ?s1)\<lparr>reg := c, first_time := f\<rparr>"
    using init_82c200_frame [of E False "can_init_queues ?s1"] by blast
  have "loaded ?s1" using assms(1) by (simp add: loaded_def)
  then have "driver_inv (can_init_openfd (can_init_consobj (snd (can_init_82c200 E False (can_init_queues ?s1)))))"
    unfolding cf by (rule inv_fresh_tables)
  then have "driver_inv (cancon_init E (canobj_init E (can_init_openfd (can_init_consobj
      (snd (can_init_82c200 E False (can_init_queues ?s1)))))))"
    by (intro inv_cancon_init inv_canobj_init)
  with assms(2) show ?thesis
    by (auto simp: init_module_def rb Let_def split_beta split: if_splits)
qed

section \<open>Every reachable state satisfies the invariant\<close>

lemma inv_step: "driver_step E s t \<Longrightarrow> driver_inv s \<Longrightarrow> driver_inv t"
proof (induction rule: driver_step.induct)
  case (tty_open s t)
  then show ?case by (simp add: cantty_open_def inv_misc)
next
  case (tty_close s)
  then show ?case by (simp add: cantty_close_def Let_def inv_misc)
qed (auto intro: inv_open inv_release inv_ioctl inv_read inv_write inv_intr inv_bh
    simp: drv.I_heartbeat drv.I_hb_timer drv.I_recv_ack drv.I_printk_write drv.I_write drv.I_put_char
      drv.I_flush_buffer drv.I_reg inv_misc)

lemma reach_inv: "driver_reach E s \<Longrightarrow> driver_inv s"
  by (induction rule: driver_reach.induct) (auto intro: init_module_inv inv_step)

end
