(* ===== verification/Example.thy ===== *)
theory Example
  imports CanStep
begin

text \<open>
  A concrete machine on which the properties are instantiated: the chip is a plain
  register file, the PROM is in memory, the node's address is 0,0,5. \<open>cold\<close> is the
  driver's state before the module is loaded, \<open>idle\<close> a state of the loaded driver with
  no open file and no connection, \<open>one_file\<close> the same with a file open at address 8.
\<close>

type_synonym regfile = "creg \<Rightarrow> u8"

definition no_ext :: can_header_ext where
  "no_ext = \<lparr>xpriority = 0, ctype = 0, cluster = 0x3f, module = 0x3f, node = 0x3f, object = 0x3f\<rparr>"

definition no_pkt :: can_packet where
  "no_pkt = \<lparr>timestamp = 0, can = \<lparr>lpriority = 0, dest = 0, src = 0, remote = 0, clength = 4\<rparr>,
             ext = no_ext, dat = 0\<rparr>"

definition pkt_ring :: "can_packet ringbuf" where
  "pkt_ring = \<lparr>buf = (\<lambda>_. no_pkt), head = 0, tail = 0, use_inlock = False, use_outlock = False\<rparr>"

definition char_ring :: "u8 ringbuf" where
  "char_ring = \<lparr>buf = (\<lambda>_. 0), head = 0, tail = 0, use_inlock = False, use_outlock = False\<rparr>"

definition regs_env :: "(regfile, ram) env" where
  "regs_env =
     \<lparr>reg_read = (\<lambda>r c. (c r, c)), reg_write = (\<lambda>r v c. c(r := v)), prom_of = ram_prom,
      stack_pkt = no_pkt, stack_buf = replicate 80 CHR ''x'', stack_u32 = 0xdeadbeef, after_pkt = (\<lambda>_. 0xee),
      HZ = 100, TTY_FLIPBUF_SIZE = 512, request_irq = 0, tty_register_driver = 0, misc_register = 0,
      map_82c200 = True,
      offset_of = (\<lambda>f. if f = ''timestamp'' then 0 else if f = ''can'' then 4
                        else if f = ''ext'' then 8 else 12)\<rparr>"

definition prom0 :: ram where
  "prom0 = (\<lambda>_. [])((5, ''can-nodeid'') := [CHR 0x00, CHR 0x00, CHR 0x00, CHR 0x05],
     (5, ''can-meiko-board-type'') := [CHR 0x00, CHR 0x00, CHR 0x00, CHR 0x01],
     (3, ''cancon-host'') := ''1073741823'' @ [CHR 0x00])"

definition cold :: "(regfile, ram) driver" where
  "cold =
     \<lparr>inq = pkt_ring, outq = pkt_ring, can_debug = False, can_usecount = 0, reg = (\<lambda>_. 0),
      promiscuous_usecount = 0, openfd = (\<lambda>_. 0), fstates = Map.empty, consobj_reserved = (\<lambda>_. 0),
      can_nodeid = 0, first_time = True, jiffies = 0, mod_usecount = 0, ktrace = [],
      cancon_outbuf = char_ring, cancon_inbuf = char_ring, cancon_ack_pending = False,
      cancon_rmt = no_ext, ttyp = None, cantty_myrefcount = 0, cantty_registered = False, ack_timer = None,
      hb_timer = None, can_boardtype = 0, can_hb_val = push_bit 2 HB_CAN_RUNNING, hb_count = 0,
      testrw_val = 0, promdata = prom0\<rparr>"

definition idle :: "(regfile, ram) driver" where
  "idle = cold\<lparr>can_nodeid := 5, first_time := False, cantty_registered := True, can_boardtype := 1,
               hb_timer := Some 25\<rparr>"

definition fresh_file :: file_state where
  "fresh_file = \<lparr>fs_inq = pkt_ring, promiscuous = False, snoopy = False, consobj = -1\<rparr>"

definition one_file :: "(regfile, ram) driver" where
  "one_file = idle\<lparr>openfd := (\<lambda>_. 0)(0 := 8), fstates := [8 \<mapsto> fresh_file], can_usecount := 1,
                   mod_usecount := 1\<rparr>"

lemma rings_wf [simp]: "ring_wf pkt_ring" "ring_wf char_ring" "ring_list pkt_ring = []" "ring_list char_ring = []"
  by (simp_all add: pkt_ring_def char_ring_def ring_wf_def ring_list_def cdist_def MAXRING_def)

lemma idle_inv: "driver_inv idle"
proof -
  have "res_ok (\<lambda>_. 0) (\<lambda>a. None)" by (rule res_okI) (auto simp: held_def)
  then show ?thesis
    by (simp add: inv_defs idle_def cold_def used_def)
qed

lemma used_one: "used ((\<lambda>_. 0)(0 := 8)) = {0}"
  by (auto simp: used_def CAN_MAX_USECOUNT_def split: if_splits)

lemma one_file_inv: "driver_inv one_file"
proof -
  have "res_ok (\<lambda>_. 0) ((\<lambda>a. None)(8 \<mapsto> -1))"
    by (rule res_ok_idle) (auto intro: res_okI simp: held_def)
  moreover have "(\<lambda>a. map_option consobj ([8 \<mapsto> fresh_file] a)) = (\<lambda>a :: nat. None)(8 \<mapsto> -1)"
    by (auto simp: fresh_file_def fun_eq_iff)
  ultimately show ?thesis
    by (simp add: inv_defs one_file_def idle_def cold_def used_one) (simp add: fresh_file_def)
qed

lemma cold_loaded: "loaded cold"
  by (simp add: loaded_def cold_def char_ring_def)

lemma basename_nodeid: "obp_basename OBP_CAN_NODEID = ''can-nodeid''"
  by (simp add: obp_basename_def obp_paths)

lemma prom_of_regs [simp]: "prom_of regs_env = ram_prom"
  by (simp add: regs_env_def)

lemma ram_getproperty [simp]:
  "prom_getproperty ram_prom p nd name sz = (int (length (p (nd, name))), take sz (p (nd, name)))"
  "prom_setprop ram_prom p nd name cs = (int (length cs), p((nd, name) := cs))"
  by (simp_all add: ram_prom_def)

lemma cold_init: "fst (init_module regs_env cold) = 0"
proof -
  have align: "\<not> can_checkalign (offset_of regs_env) < 0" by (simp add: can_checkalign_def regs_env_def)
  have getp: "obp_getprop ram_prom (promdata cold) OBP_CAN_NODEID (chars_of_u32 (can_nodeid cold)) =
      (4, [CHR 0x00, CHR 0x00, CHR 0x00, CHR 0x05])"
    by (simp add: obp_getprop_def Let_def basename_nodeid cold_def prom0_def chars_of_u32_def)
  have chip: "fst (can_init_82c200 regs_env False s) = 0"
    if "reg s status = 0" for s :: "(regfile, ram) driver"
    using that by (simp add: can_init_82c200_def wr_def rd_eq regs_env_def CAN_CONTROL_RESET_def CAN_CONTROL_RIE_def
        CAN_CONTROL_EIE_def CAN_CONTROL_OIE_def CAN_CONTROL_TIE_def CAN_STATUS_BUS_STAT_def)
  have st: "reg (can_init_queues (cold\<lparr>can_nodeid := n\<rparr>)) status = 0" for n
    by (simp add: can_init_queues_def cold_def)
  show ?thesis
    using getp chip [OF st] align
    by (simp add: init_module_def Let_def split_beta) (simp add: regs_env_def)
qed

end
