(* ===== verification/CanFiles.thy ===== *)
theory CanFiles
  imports Example
begin

text \<open>
  The properties of \<^verbatim>\<open>/dev/can\<close>: what open, release, ioctl, read and write promise, and the
  path of a packet from a write through the bottom half to the readers.
\<close>

section \<open>What handling a packet leaves alone\<close>

text \<open>The kernel's objects touch neither the open files nor the node's address.\<close>

interpretation files: obj_closed "\<lambda>s. driver_inv s \<and> fstates s = F \<and> openfd s = T \<and> can_nodeid s = n
    \<and> consobj_reserved s = R" for F T n R
  by unfold_locales
    (simp_all add: drv.I_queues drv.I_console drv.I_upd drv.I_console_upd drv.I_rmt drv.I_obj)

lemma packet_frame:
  assumes "driver_inv s"
  shows "fstates (snd (canobj_packet E pkt s)) = fstates s"
    "openfd (snd (canobj_packet E pkt s)) = openfd s"
    "can_nodeid (snd (canobj_packet E pkt s)) = can_nodeid s"
    "consobj_reserved (snd (canobj_packet E pkt s)) = consobj_reserved s"
  using files.I_packet [of s "fstates s" "openfd s" "can_nodeid s" "consobj_reserved s" E pkt] assms by auto

section \<open>Delivery\<close>

lemma deliver_pkt_files:
  assumes "driver_inv s"
  shows "\<exists>t. deliver_pkt E pkt s = Some t \<and> driver_inv t \<and> can_nodeid t = can_nodeid s \<and>
    fstates t = (\<lambda>a. map_option (accept s pkt) (fstates s a)) \<and>
    inq t = inq (if IS_MYPACKET s pkt then snd (canobj_packet E pkt s) else s)"
proof -
  define s1 where "s1 = (if IS_MYPACKET s pkt then snd (canobj_packet E pkt s) else s)"
  have inv: "driver_inv s1" using assms by (simp add: s1_def drv.I_packet)
  have fr: "fstates s1 = fstates s" "can_nodeid s1 = can_nodeid s"
    using packet_frame [OF assms] by (simp_all add: s1_def)
  then have acc: "accept s1 pkt = accept s pkt" by (simp add: accept_def IS_MYPACKET_def fun_eq_iff)
  obtain t where t: "deliver_fds pkt [0..<CAN_MAX_USECOUNT] s1 =
      Some (s1\<lparr>fstates := (\<lambda>a. map_option (accept s pkt) (fstates s a)), ktrace := t\<rparr>)"
    using deliver_all [OF inv, of pkt] by (auto simp: acc fr)
  have "driver_inv (s1\<lparr>fstates := (\<lambda>a. map_option (accept s pkt) (fstates s1 a)), ktrace := t\<rparr>)"
    by (rule inv_map_fstates [OF inv]) simp_all
  with t show ?thesis by (simp add: deliver_pkt_def s1_def [symmetric] Let_def fr)
qed

text \<open>The packets a file holds are only ever extended by the bottom half.\<close>

lemma bh_extends:
  "driver_inv s \<Longrightarrow> can_bh E n s = Some t \<Longrightarrow> fstates s f = Some fs \<Longrightarrow>
   \<exists>fs' ps. fstates t f = Some fs' \<and> ring_list (fs_inq fs') = ring_list (fs_inq fs) @ ps"
proof (induction n arbitrary: s fs)
  case (Suc n)
  have wf: "ring_wf (inq s)" using drv.I_queues [OF Suc.prems(1)] by (simp add: queues_wf_def)
  then show ?case
  proof (cases rule: pktq.deq_cases)
    case none
    with Suc.prems show ?thesis by simp
  next
    case (some p q)
    let ?s0 = "s\<lparr>inq := q\<rparr>"
    obtain u where u: "deliver_pkt E p ?s0 = Some u" "driver_inv u"
      "fstates u = (\<lambda>a. map_option (accept ?s0 p) (fstates ?s0 a))"
      using deliver_pkt_files [OF inv_inq [OF Suc.prems(1) some(2)], of E p] by blast
    have "fstates u f = Some (accept ?s0 p fs)" using Suc.prems(3) by (simp add: u(3))
    moreover have "can_bh E n u = Some t" using Suc.prems(2) some(1) u(1) by simp
    ultimately obtain fs' ps where "fstates t f = Some fs'"
      "ring_list (fs_inq fs') = ring_list (fs_inq (accept ?s0 p fs)) @ ps"
      using Suc.IH [OF u(2)] by blast
    moreover have "\<exists>ps. ring_list (fs_inq (accept ?s0 p fs)) = ring_list (fs_inq fs) @ ps"
      using pktq.contents_enq [OF inv_fs_wf [OF Suc.prems(1,3)], of p] by (simp add: accept_def)
    ultimately show ?thesis by auto
  qed
qed simp

text \<open>
  C1 (reachable_invariant): in every state the driver reaches from a successful module
  start, through any sequence of file operations, interrupts, bottom halves, timers,
  console calls and chip changes, the invariant holds: all queue indices are in range,
  the table and the heap agree (no slot points to a freed file state, no file state is
  unreachable, no two slots share one, the use count is their number), the console
  numbers marked reserved are exactly those held and are held once, and the
  acknowledgement timer is queued exactly while an acknowledgement is awaited.
\<close>

theorem reachable_invariant:
  assumes "driver_reach E s"
  shows "driver_inv s"
  using assms by (rule reach_inv)

lemma ready_reach: "driver_reach regs_env (snd (init_module regs_env cold))"
  using cold_init driver_reach.start [OF cold_loaded, of regs_env] by (cases "init_module regs_env cold") simp

theorem reachable_invariant_witness: "driver_inv (snd (init_module regs_env cold))"
  by (rule reachable_invariant [OF ready_reach])





section \<open>Console object numbers\<close>

lemma card_used: "fd_wf s \<Longrightarrow> can_usecount s = int (card (used (openfd s)))"
  by (simp add: fd_wf_def card_image)

lemma find_free_iff:
  assumes "driver_inv s"
  shows "find_openfd 0 s = None \<longleftrightarrow> can_usecount s = 256"
proof -
  have sub: "used (openfd s) \<subseteq> {..<CAN_MAX_USECOUNT}" by (auto simp: used_def)
  have n: "card {..<CAN_MAX_USECOUNT} = 256" by (simp add: CAN_MAX_USECOUNT_def)
  have "find_openfd 0 s = None \<longleftrightarrow> used (openfd s) = {..<CAN_MAX_USECOUNT}"
    by (auto simp: find_openfd_None used_def)
  also have "\<dots> \<longleftrightarrow> card (used (openfd s)) = 256"
    using card_subset_eq [OF finite_lessThan sub] n by metis
  finally show ?thesis using card_used [of s] assms by (simp add: driver_inv_def)
qed

lemma get_consobj_spec:
  assumes inv: "driver_inv s" and f: "fstates s f = Some fs"
  shows "\<exists>r t c fs'. can_ioctl E CAN_GET_CONSOBJ x ok f s = Some (r, t) \<and> driver_inv t
    \<and> fstates t f = Some fs' \<and> consobj fs' = c \<and> (\<forall>b. b \<noteq> f \<longrightarrow> fstates t b = fstates s b)
    \<and> (if \<forall>i < 256. \<exists>b y. b \<noteq> f \<and> fstates s b = Some y \<and> consobj y = int i + 0x100
       then c = -1 \<and> r = Inl EBUSY
       else CAN_VALID_CONSOBJ c \<and> r = (if ok then Inr (Some c) else Inl EFAULT)
          \<and> (\<forall>b y. b \<noteq> f \<and> fstates s b = Some y \<longrightarrow> consobj y \<noteq> c))"
proof -
  obtain R where R: "free_held fs s = s\<lparr>consobj_reserved := R\<rparr>" using free_held_frame by blast
  have okR: "res_ok R ((holders s)(f \<mapsto> -1))"
    using free_held_res_ok [OF _ f] inv by (simp add: driver_inv_def R)
  have M: "CANOBJ_CONSMIN = 0x100" by (simp add: CANOBJ_CONSMIN_def)
  have held: "held ((holders s)(f \<mapsto> -1)) i \<longleftrightarrow> (\<exists>b y. b \<noteq> f \<and> fstates s b = Some y \<and> consobj y = int i + 0x100)" for i
    unfolding held_def M by (auto simp: holders_def split: if_splits)
  let ?c = "fst (can_alloc_consobj (s\<lparr>consobj_reserved := R\<rparr>))"
  let ?t = "set_fs f (fs\<lparr>consobj := ?c\<rparr>) (snd (can_alloc_consobj (s\<lparr>consobj_reserved := R\<rparr>)))"
  let ?r = "if ?c = -1 then Inl EBUSY else to_user ok ?c"
  have io: "can_ioctl E CAN_GET_CONSOBJ x ok f s = Some (?r, ?t)"
    by (simp add: get_consobj_eq [OF f] R split_beta)
  have inv': "driver_inv ?t" by (rule inv_get_consobj [OF inv f io])
  show ?thesis
  proof (cases rule: alloc_cases [of "s\<lparr>consobj_reserved := R\<rparr>"])
    case full
    then have "\<forall>i < 256. held ((holders s)(f \<mapsto> -1)) i"
      using res_okD(1) [OF okR] by (auto simp: COSIZE_eq split: if_splits)
    with full io inv' show ?thesis
      by (intro exI [of _ ?r] exI [of _ ?t] exI [of _ ?c] exI [of _ "fs\<lparr>consobj := ?c\<rparr>"])
        (simp add: held set_fs_def)
  next
    case (got i)
    then have nh: "\<not> held ((holders s)(f \<mapsto> -1)) i"
      using res_okD(1) [OF okR got(1)] by (auto split: if_splits)
    have c: "?c = int i + 0x100" using got(3) by (simp add: M)
    have "CAN_VALID_CONSOBJ ?c" using got(1) valid_consobj_iff c M by auto
    moreover have "\<not> (\<forall>i < 256. \<exists>b y. b \<noteq> f \<and> fstates s b = Some y \<and> consobj y = int i + 0x100)"
      using nh got(1) unfolding held COSIZE_eq by blast
    moreover have "\<forall>b y. b \<noteq> f \<and> fstates s b = Some y \<longrightarrow> consobj y \<noteq> ?c"
      using nh unfolding held c by blast
    moreover have "fstates ?t = (fstates s)(f \<mapsto> fs\<lparr>consobj := ?c\<rparr>)" using got(3) by (simp add: set_fs_def)
    moreover have "?c \<noteq> -1" using c by simp
    ultimately show ?thesis
      using io inv'
      by (intro exI [of _ ?r] exI [of _ ?t] exI [of _ ?c] exI [of _ "fs\<lparr>consobj := ?c\<rparr>"])
        (simp add: to_user_def)
  qed
qed

lemma one_file_state: "fstates one_file 8 = Some fresh_file"
  by (simp add: one_file_def)

text \<open>Reachable states with an open file, and with a file that holds a number.\<close>

lemma some_file_reach: "\<exists>s f fs. driver_reach regs_env s \<and> fstates s f = Some fs"
proof -
  obtain s where s: "driver_reach regs_env s" using ready_reach by blast
  note inv = reach_inv [OF s]
  have fin: "finite (dom (fstates s))" using inv by (simp add: driver_inv_def fd_wf_def)
  show ?thesis
  proof (cases "dom (fstates s) = {}")
    case True
    then have "can_usecount s = 0" using inv by (simp add: driver_inv_def fd_wf_def)
    then obtain i where "find_openfd 0 s = Some i" using find_free_iff [OF inv] by fastforce
    then have "can_open 8 fresh_file s = Some (Inr 8, snd (the (can_open 8 fresh_file s)))"
      "fstates (snd (the (can_open 8 fresh_file s))) 8 \<noteq> None"
      by (simp_all add: can_open_def can_alloc_openfd_def)
    with s True show ?thesis by (blast intro: driver_reach.step driver_step.open_file)
  next
    case False
    then obtain f fs where "fstates s f = Some fs" by blast
    with s show ?thesis by blast
  qed
qed

lemma some_number_reach:
  "\<exists>s f fs. driver_reach regs_env s \<and> fstates s f = Some fs \<and> consobj fs \<noteq> -1"
proof -
  obtain s f fs where s: "driver_reach regs_env s" "fstates s f = Some fs" using some_file_reach by blast
  let ?all = "\<forall>i < 256. \<exists>b y. b \<noteq> f \<and> fstates s b = Some y \<and> consobj y = int i + 0x100"
  show ?thesis
  proof (cases ?all)
    case True
    then obtain b y where "fstates s b = Some y" "consobj y = int 0 + 0x100" by (meson zero_less_numeral)
    then have "consobj y \<noteq> -1" by simp
    with s(1) \<open>fstates s b = Some y\<close> show ?thesis by blast
  next
    case False
    obtain r t c fs' where t: "can_ioctl regs_env CAN_GET_CONSOBJ None True f s = Some (r, t)"
      "fstates t f = Some fs'" "consobj fs' = c" "CAN_VALID_CONSOBJ c"
      using get_consobj_spec [OF reach_inv [OF s(1)] s(2), of regs_env None True]
      unfolding if_not_P [OF False] by blast
    then have "c \<noteq> -1" by (auto simp: CAN_VALID_CONSOBJ_def CANOBJ_CONSMIN_def)
    moreover have "driver_reach regs_env t"
      using s t(1) by (blast intro: driver_reach.step driver_step.ioctl)
    ultimately show ?thesis using t(2,3) by blast
  qed
qed

text \<open>
  In every reachable state, a console object number held by an
  open file lies between 0x100 and 0x1ff and is held by no other open file.
\<close>

theorem console_numbers_unique:
  assumes "driver_reach E s" "fstates s a = Some x" "consobj x \<noteq> -1"
  shows "CAN_VALID_CONSOBJ (consobj x) \<and> (\<forall>b y. fstates s b = Some y \<and> consobj y = consobj x \<longrightarrow> b = a)"
proof -
  have ok: "res_ok (consobj_reserved s) (holders s)"
    using reach_inv [OF assms(1)] by (simp add: driver_inv_def)
  have "holders s a = Some (consobj x)" using assms(2) by (simp add: holders_def)
  with res_okD(2,3) [OF ok] assms(3) show ?thesis by (auto simp: holders_def)
qed

theorem console_numbers_unique_witness:
  "\<exists>s a x. driver_reach regs_env s \<and> fstates s a = Some x \<and> consobj x \<noteq> -1
     \<and> CAN_VALID_CONSOBJ (consobj x) \<and> (\<forall>b y. fstates s b = Some y \<and> consobj y = consobj x \<longrightarrow> b = a)"
  using some_number_reach console_numbers_unique by blast

text \<open>
  C24 (get_consobj_correct): \<^verbatim>\<open>CAN_GET_CONSOBJ\<close> on an open file fails with \<^verbatim>\<open>EBUSY\<close> exactly when all
  256 numbers are held by other open files; otherwise the file then holds a number
  that no other open file holds, the caller gets that number (or \<^verbatim>\<open>EFAULT\<close> if it cannot
  be stored), and the other files keep theirs.
\<close>

theorem get_consobj_correct:
  assumes inv: "driver_inv s" and f: "fstates s f = Some fs"
  shows "\<exists>r t c fs'. can_ioctl E CAN_GET_CONSOBJ x ok f s = Some (r, t) \<and> driver_inv t
    \<and> fstates t f = Some fs' \<and> consobj fs' = c \<and> (\<forall>b. b \<noteq> f \<longrightarrow> fstates t b = fstates s b)
    \<and> (if \<forall>i < 256. \<exists>b y. b \<noteq> f \<and> fstates s b = Some y \<and> consobj y = int i + 0x100
       then c = -1 \<and> r = Inl EBUSY
       else CAN_VALID_CONSOBJ c \<and> r = (if ok then Inr (Some c) else Inl EFAULT)
          \<and> (\<forall>b y. b \<noteq> f \<and> fstates s b = Some y \<longrightarrow> consobj y \<noteq> c))"
  using assms by (rule get_consobj_spec)

theorem get_consobj_correct_witness:
  "\<exists>r t c fs'. can_ioctl regs_env CAN_GET_CONSOBJ None True 8 one_file = Some (r, t) \<and> driver_inv t
    \<and> fstates t 8 = Some fs' \<and> consobj fs' = c \<and> CAN_VALID_CONSOBJ c \<and> r = Inr (Some c)"
proof -
  have "\<not> (\<forall>i < 256. \<exists>b y. b \<noteq> 8 \<and> fstates one_file b = Some y \<and> consobj y = int i + 0x100)"
    by (auto simp: one_file_def idle_def cold_def intro!: exI [of _ 0])
  note none = this
  from get_consobj_correct [OF one_file_inv one_file_state, of regs_env None True] show ?thesis
    unfolding if_not_P [OF none] by (simp only: if_True) blast
qed

text \<open>
  A request to force the disconnection of a console number in range
  is answered by the kernel exactly when no open file holds that number; otherwise
  it is left to the console program that holds it.
\<close>

theorem force_disconn_kernel:
  assumes "driver_inv s" "ctype (ext pkt) = CANTYPE_WO" "CAN_VALID_CONSOBJ (uint (object (dat_ext (dat pkt))))"
  shows "canobj_force_disconn E pkt s =
    (if \<exists>a fs. fstates s a = Some fs \<and> consobj fs = uint (object (dat_ext (dat pkt)))
     then (False, s) else (True, canobj_acknak E CANTYPE_ACK pkt None s))"
proof -
  obtain i where i: "i < COSIZE" "uint (object (dat_ext (dat pkt))) = int i + CANOBJ_CONSMIN"
    using assms(3) valid_consobj_iff by blast
  have "consobj_reserved s i = (if held (holders s) i then 1 else 0)"
    using assms(1) res_okD(1) [OF _ i(1)] by (simp add: driver_inv_def)
  moreover have "held (holders s) i \<longleftrightarrow> (\<exists>a fs. fstates s a = Some fs \<and> consobj fs = int i + CANOBJ_CONSMIN)"
    by (auto simp: held_def holders_def)
  moreover have "can_inuse_consobj (int i + CANOBJ_CONSMIN) s = consobj_reserved s i"
    by (simp add: can_inuse_consobj_def)
  ultimately show ?thesis
    using assms(2,3) by (simp add: canobj_force_disconn_def i(2) Let_def)
qed

theorem force_disconn_kernel_witness:
  "canobj_force_disconn regs_env (no_pkt\<lparr>ext := no_ext\<lparr>ctype := CANTYPE_WO\<rparr>, dat := 0x123\<rparr>) one_file =
   (True, canobj_acknak regs_env CANTYPE_ACK (no_pkt\<lparr>ext := no_ext\<lparr>ctype := CANTYPE_WO\<rparr>, dat := 0x123\<rparr>) None one_file)"
proof -
  let ?p = "no_pkt\<lparr>ext := no_ext\<lparr>ctype := CANTYPE_WO\<rparr>, dat := 0x123\<rparr>"
  have o: "uint (object (dat_ext (dat ?p))) = 0x123" by (simp add: of_ext_dat_def)
  have "CAN_VALID_CONSOBJ (uint (object (dat_ext (dat ?p))))"
    unfolding o by (simp add: CAN_VALID_CONSOBJ_def CANOBJ_CONSMIN_def CANOBJ_CONSMAX_def)
  from force_disconn_kernel [OF one_file_inv _ this, of regs_env] show ?thesis
    unfolding o by (simp add: one_file_def idle_def cold_def fresh_file_def)
qed

text \<open>
  Opening the device fails with \<^verbatim>\<open>EBUSY\<close> exactly when 256 files are open;
  otherwise, when memory is available at address \<open>a\<close>, the new file gets a cleared
  state at \<open>a\<close> and the others keep theirs. When \<^verbatim>\<open>kmalloc\<close> fails and a slot is
  free, the NULL pointer it returned is dereferenced.
\<close>

theorem open_busy_iff:
  assumes "driver_inv s"
  shows "can_open a g s =
    (if can_usecount s = 256 then Some (Inl EBUSY, s)
     else if a = 0 then None
     else Some (Inr a, s\<lparr>openfd := (openfd s)(the (find_openfd 0 s) := a),
            fstates := (fstates s)(a \<mapsto> g\<lparr>consobj := -1, promiscuous := False, snoopy := False,
                                         fs_inq := RING_INIT (fs_inq g)\<rparr>),
            can_usecount := can_usecount s + 1, mod_usecount := mod_usecount s + 1\<rparr>))"
  using find_free_iff [OF assms]
  by (auto simp: can_open_def can_alloc_openfd_def Let_def split: option.splits)

theorem open_busy_iff_witness: "can_open 0 fresh_file idle = None"
  using open_busy_iff [OF idle_inv, of 0 fresh_file] by (simp add: idle_def cold_def)

section \<open>Read and write\<close>

lemma set_fs_id: "fstates s f = Some fs \<Longrightarrow> set_fs f fs s = s"
  by (cases s) (simp add: set_fs_def fun_upd_idem)

lemma ring_to_user_empty:
  assumes "ring_wf r" "ring_list r = []"
  shows "ring_to_user fault n r = (Inr 0, [], r)"
  using assms pktq.deq_None_iff [OF assms(1)] by (cases n) (simp_all add: ring_to_user_def)

text \<open>
  A read of at least one packet's size from an open file whose buffer
  does not fault. If packets are queued it returns as many of the oldest as fit, in
  order, removes exactly those, and its result is their size in bytes. If none is
  queued a non-blocking read fails with \<^verbatim>\<open>EAGAIN\<close>; a blocking one sleeps, fails with \<^verbatim>\<open>EINTR\<close>
  when a signal woke it, and otherwise starts over. A smaller read fails with \<^verbatim>\<open>EIO\<close>.
\<close>

theorem read_returns_fifo:
  assumes inv: "driver_inv s" and f: "fstates s f = Some fs" and nf: "\<And>j. \<not> fault j"
  shows "if count < PKTSIZE then can_read nonblock fault count naps f s = Some (Inl EIO, [], s)
    else if ring_list (fs_inq fs) = [] then
      can_read nonblock fault count naps f s =
        (if nonblock then Some (Inl EAGAIN, [], s)
         else case naps of [] \<Rightarrow> None
              | nap # naps' \<Rightarrow> (case nap s of (s', sig) \<Rightarrow>
                  if sig then Some (Inl EINTR, [], s') else can_read nonblock fault count naps' f s'))
    else \<exists>q. can_read nonblock fault count naps f s =
        Some (Inr (min (count div PKTSIZE) (length (ring_list (fs_inq fs))) * PKTSIZE),
              take (count div PKTSIZE) (ring_list (fs_inq fs)), set_fs f (fs\<lparr>fs_inq := q\<rparr>) s)
      \<and> ring_wf q \<and> ring_list q = drop (count div PKTSIZE) (ring_list (fs_inq fs))"
proof -
  have wf: "ring_wf (fs_inq fs)" by (rule inv_fs_wf [OF inv f])
  let ?n = "count div PKTSIZE"
  obtain q where sp: "ring_to_user fault ?n (fs_inq fs) =
      (Inr (min ?n (length (ring_list (fs_inq fs)))), take ?n (ring_list (fs_inq fs)), q)"
    "ring_list q = drop ?n (ring_list (fs_inq fs))" "ring_wf q"
    using ring_to_user_spec [OF wf, of ?n fault 0] ring_to_user_wf [OF wf, of fault 0 ?n] nf
    by (simp add: ring_to_user_def) blast
  have pos: "\<not> count < PKTSIZE \<Longrightarrow> 0 < ?n" by (simp add: PKTSIZE_def)
  show ?thesis
  proof (cases "ring_list (fs_inq fs) = []")
    case True
    have id: "set_fs f (fs\<lparr>fs_inq := fs_inq fs\<rparr>) s = s" using set_fs_id [OF f] by simp
    show ?thesis
      using True f id
      by (auto simp: can_read_def can_read_loop.simps [of nonblock fault ?n naps f s]
          ring_to_user_empty [OF wf True] Let_def split: list.split prod.split simp del: can_read_loop.simps)
  next
    case False
    then have "\<not> count < PKTSIZE \<Longrightarrow> 0 < min ?n (length (ring_list (fs_inq fs)))" using pos by auto
    with False sp f show ?thesis
      by (auto simp: can_read_def can_read_loop.simps [of nonblock fault ?n naps f s] Let_def
          simp del: can_read_loop.simps)
  qed
qed

text \<open>Writing packets addressed to the node itself.\<close>

definition stamp :: "('c, 'z) can_main_scheme \<Rightarrow> can_packet \<Rightarrow> can_packet" where
  "stamp s p = incoming_fixup s (outgoing_fixup s p)"

lemma send_local:
  assumes "IS_MYPACKET s p"
  shows "send_pkt E p s =
    (if RING_FULL (inq s) then (False, stamp s p, s)
     else (True, stamp s p, s\<lparr>inq := RING_IN (inq s) (stamp s p), ktrace := ktrace s @ [QueueBh]\<rparr>))"
proof -
  have "IS_MYPACKET s (outgoing_fixup s p)" using assms by simp
  from send_nof_local [OF this, of E] show ?thesis
    by (simp add: send_pkt_def Let_def kcall_def pkt_to_ring_def stamp_def)
qed

lemma user_to_outq_local:
  assumes "ring_wf (inq s)" "\<forall>j < m. \<exists>p. user (i + j) = Some p \<and> IS_MYPACKET s p"
  shows "\<exists>q t. user_to_outq_loop E user i m s =
      (Inr (i + min m (MAXRING - 1 - length (ring_list (inq s)))), s\<lparr>inq := q, ktrace := t\<rparr>) \<and> ring_wf q
    \<and> ring_list q = ring_list (inq s) @
        map (\<lambda>j. stamp s (the (user (i + j)))) [0..<min m (MAXRING - 1 - length (ring_list (inq s)))]"
  using assms
proof (induction m arbitrary: i s)
  case 0
  then show ?case by (intro exI [of _ "inq s"] exI [of _ "ktrace s"]) simp
next
  case (Suc m)
  note wf = Suc.prems(1)
  obtain p where p: "user i = Some p" "IS_MYPACKET s p" using Suc.prems(2) by (auto dest: spec [of _ 0])
  show ?case
  proof (cases "RING_FULL (inq s)")
    case True
    then have "length (ring_list (inq s)) = MAXRING - 1" using ring_full_iff [OF wf] by simp
    then show ?thesis
      using p True wf
      by (intro exI [of _ "inq s"] exI [of _ "ktrace s"]) (simp add: send_local)
  next
    case False
    then have lt: "length (ring_list (inq s)) < MAXRING - 1"
      using ring_full_iff [OF wf] pktq.contents_le [OF wf] by linarith
    define q where "q = RING_IN (inq s) (stamp s p)"
    define s1 where "s1 = s\<lparr>inq := q, ktrace := ktrace s @ [QueueBh]\<rparr>"
    have q: "ring_list q = ring_list (inq s) @ [stamp s p]" "ring_wf q"
      using ring_in_list [OF wf False] by (simp_all add: q_def)
    have st: "stamp s1 = stamp s" "inq s1 = q"
      by (simp_all add: s1_def stamp_def incoming_fixup_def outgoing_fixup_def fun_eq_iff)
    have "\<forall>j < m. \<exists>p. user (Suc i + j) = Some p \<and> IS_MYPACKET s1 p"
      using Suc.prems(2) by (auto simp: s1_def IS_MYPACKET_def dest: spec [of _ "Suc _"])
    from Suc.IH [OF _ this] q(2) obtain q' t' where IH: "user_to_outq_loop E user (Suc i) m s1 =
        (Inr (Suc i + min m (MAXRING - 1 - length (ring_list q))), s1\<lparr>inq := q', ktrace := t'\<rparr>)" "ring_wf q'"
      "ring_list q' = ring_list q @
        map (\<lambda>j. stamp s (the (user (Suc i + j)))) [0..<min m (MAXRING - 1 - length (ring_list q))]"
      unfolding st by blast
    define k where "k = min m (MAXRING - 1 - length (ring_list q))"
    have k: "min (Suc m) (MAXRING - 1 - length (ring_list (inq s))) = Suc k"
      using lt by (simp add: k_def q(1))
    have "[0..<Suc k] = 0 # map Suc [0..<k]" by (simp add: map_Suc_upt upt_conv_Cons del: upt_Suc)
    then have "ring_list q' = ring_list (inq s) @ map (\<lambda>j. stamp s (the (user (i + j)))) [0..<Suc k]"
      using IH(3) [folded k_def] q(1) p(1) by (simp add: comp_def del: upt_Suc)
    moreover have "user_to_outq_loop E user i (Suc m) s = (Inr (i + Suc k), s\<lparr>inq := q', ktrace := t'\<rparr>)"
      using p False IH(1) by (simp add: send_local q_def [symmetric] s1_def k_def)
    ultimately show ?thesis
      using IH(2) by (intro exI [of _ q'] exI [of _ t']) (simp only: k)
  qed
qed

text \<open>
  A write of whole packets addressed to this node, from a buffer that
  does not fault, queues the longest prefix that fits in the inbound queue, in order
  and each stamped with the node's source address and the current time, and returns
  its size in bytes. If nothing fits a non-blocking write fails with \<^verbatim>\<open>EAGAIN\<close>; a size that is
  not a multiple of the packet size fails with \<^verbatim>\<open>EIO\<close> and changes nothing.
\<close>

theorem write_local_packets:
  assumes inv: "driver_inv s" and ps: "\<forall>p \<in> set ps. IS_MYPACKET s p"
  shows "(\<forall>count user. count mod PKTSIZE \<noteq> 0 \<longrightarrow> can_write E True user count naps s = Some (Inl EIO, s)) \<and>
    (let k = min (length ps) (MAXRING - 1 - length (ring_list (inq s))) in
     \<exists>t. can_write E True (\<lambda>i. Some (ps ! i)) (length ps * PKTSIZE) naps s =
           Some (if k > 0 then Inr (k * PKTSIZE) else Inl EAGAIN, t)
         \<and> fstates t = fstates s \<and> outq t = outq s
         \<and> ring_list (inq t) = ring_list (inq s) @ map (stamp s) (take k ps))"
proof -
  define k where "k = min (length ps) (MAXRING - 1 - length (ring_list (inq s)))"
  have wf: "ring_wf (inq s)" using drv.I_queues [OF inv] by (simp add: queues_wf_def)
  have "\<forall>j < length ps. \<exists>p. Some (ps ! (0 + j)) = Some p \<and> IS_MYPACKET s p" using ps by simp
  from user_to_outq_local [OF wf this, of E] obtain q t where
    u: "user_to_outq_loop E (\<lambda>i. Some (ps ! i)) 0 (length ps) s = (Inr k, s\<lparr>inq := q, ktrace := t\<rparr>)"
    and q: "ring_list q = ring_list (inq s) @ map (\<lambda>j. stamp s (ps ! j)) [0..<k]"
    unfolding k_def by auto
  have "map (\<lambda>j. stamp s (ps ! j)) [0..<k] = map (stamp s) (take k ps)"
    by (rule nth_equalityI) (simp_all add: k_def)
  with u q show ?thesis
    unfolding Let_def k_def [symmetric] by (auto simp: can_write_def user_to_outq_def PKTSIZE_def)
qed

text \<open>Two packets for the node itself, as the instances below write them.\<close>

definition my_pkt :: can_packet where
  "my_pkt = no_pkt\<lparr>can := (can no_pkt)\<lparr>dest := 5\<rparr>\<rparr>"

lemma my_pkt_mine: "IS_MYPACKET one_file my_pkt"
  by (simp add: IS_MYPACKET_def my_pkt_def one_file_def idle_def cold_def UNPACK_NODE_def)

lemma one_file_inq: "inq one_file = pkt_ring" "outq one_file = pkt_ring"
  by (simp_all add: one_file_def idle_def cold_def)

theorem write_local_packets_witness:
  "\<exists>t. can_write regs_env True (\<lambda>i. Some ([my_pkt, my_pkt] ! i)) (2 * PKTSIZE) [] one_file = Some (Inr (2 * PKTSIZE), t)
     \<and> ring_list (inq t) = [stamp one_file my_pkt, stamp one_file my_pkt]"
  using write_local_packets [OF one_file_inv, of "[my_pkt, my_pkt]" regs_env "[]"]
  by (auto simp: my_pkt_mine one_file_inq Let_def MAXRING_def numeral_2_eq_2)

theorem read_returns_fifo_witness:
  "can_read True (\<lambda>_. False) 16 [] 8 one_file = Some (Inl EAGAIN, [], one_file)"
  using read_returns_fifo [OF one_file_inv one_file_state, of "\<lambda>_. False" 16 True "[]"]
  by (simp add: fresh_file_def PKTSIZE_def)

lemma read_first:
  assumes "driver_inv s" "fstates s f = Some fs" "ring_list (fs_inq fs) = a # ps"
  shows "\<exists>r. can_read True (\<lambda>_. False) PKTSIZE [] f s = Some (Inr PKTSIZE, [a], set_fs f (fs\<lparr>fs_inq := r\<rparr>) s) \<and> ring_list r = ps"
proof -
  have "ring_to_user (\<lambda>_. False) 1 (fs_inq fs) = (Inr 1, [a], snd (snd (ring_to_user (\<lambda>_. False) 1 (fs_inq fs))))"
    "ring_list (snd (snd (ring_to_user (\<lambda>_. False) 1 (fs_inq fs)))) = ps"
    using ring_to_user_spec [OF inv_fs_wf [OF assms(1,2)], of 1 "\<lambda>_. False" 0] assms(3) by (simp_all add: ring_to_user_def)
  then obtain r where "ring_to_user (\<lambda>_. False) 1 (fs_inq fs) = (Inr 1, [a], r)" "ring_list r = ps" by blast
  then show ?thesis using assms(2) by (intro exI [of _ r]) (simp add: can_read_def PKTSIZE_def)
qed



section \<open>Promiscuous mode\<close>

lemma init_82c200_simps [simp]:
  "fstates (snd (can_init_82c200 E p s)) = fstates s"
  "promiscuous_usecount (snd (can_init_82c200 E p s)) = promiscuous_usecount s"
proof -
  obtain c b where "snd (can_init_82c200 E p s) = s\<lparr>reg := c, first_time := b\<rparr>"
    using init_82c200_frame [of E p s] by blast
  then show "fstates (snd (can_init_82c200 E p s)) = fstates s"
    "promiscuous_usecount (snd (can_init_82c200 E p s)) = promiscuous_usecount s" by simp_all
qed

lemma set_fs_simps [simp]:
  "fstates (set_fs f g s) = (fstates s)(f \<mapsto> g)" "promiscuous_usecount (set_fs f g s) = promiscuous_usecount s"
  by (simp_all add: set_fs_def)

lemma promiscuous_ioctls:
  assumes "fstates s f = Some fs"
  shows "\<exists>t. can_ioctl E CAN_SET_PROMISCUOUS x ok f s = Some (Inr None, t)
      \<and> promiscuous_usecount t = promiscuous_usecount s + 1
      \<and> fstates t = (fstates s)(f \<mapsto> fs\<lparr>promiscuous := True\<rparr>)"
    and "\<exists>t. can_ioctl E CAN_CLR_PROMISCUOUS x ok f s = Some (Inr None, t)
      \<and> promiscuous_usecount t = promiscuous_usecount s - 1
      \<and> fstates t = (fstates s)(f \<mapsto> fs\<lparr>promiscuous := False\<rparr>)"
  using assms by (simp_all add: can_ioctl_def Let_def)

lemma release_promiscuous:
  assumes inv: "driver_inv s" and f: "fstates s f = Some fs"
  shows "\<exists>t. can_release E f s = Some t \<and> fstates t = (fstates s)(f := None)
    \<and> promiscuous_usecount t = promiscuous_usecount s - of_bool (promiscuous fs)"
proof -
  obtain i where i: "find_openfd f s = Some i" using inv_slot [OF inv f] by blast
  obtain R where R: "free_held fs s = s\<lparr>consobj_reserved := R\<rparr>" using free_held_frame by blast
  show ?thesis
    using i f by (simp add: can_release_def can_release_openfd_def Let_def free_held_def [symmetric] R)
qed

text \<open>
  The count of promiscuous users is not the number of promiscuous
  files. A file that sets promiscuous mode twice counts twice but releases once, so
  after it is closed the count has grown by one, and when all files are closed the
  chip's address filter stays off. Clearing the mode on a file lowers the count
  whether or not the file had set it.
\<close>

theorem promiscuous_count_leak:
  assumes "driver_inv s" "fstates s f = Some fs"
  shows "(\<exists>t1 t2 t3. can_ioctl E CAN_SET_PROMISCUOUS None True f s = Some (Inr None, t1)
      \<and> can_ioctl E CAN_SET_PROMISCUOUS None True f t1 = Some (Inr None, t2)
      \<and> can_release E f t2 = Some t3 \<and> fstates t3 = (fstates s)(f := None)
      \<and> promiscuous_usecount t3 = promiscuous_usecount s + 1)
    \<and> (\<exists>t. can_ioctl E CAN_CLR_PROMISCUOUS None True f s = Some (Inr None, t)
      \<and> promiscuous_usecount t = promiscuous_usecount s - 1)"
proof -
  obtain t1 where t1: "can_ioctl E CAN_SET_PROMISCUOUS None True f s = Some (Inr None, t1)"
    "promiscuous_usecount t1 = promiscuous_usecount s + 1" "fstates t1 = (fstates s)(f \<mapsto> fs\<lparr>promiscuous := True\<rparr>)"
    using promiscuous_ioctls(1) [OF assms(2)] by blast
  then have f1: "fstates t1 f = Some (fs\<lparr>promiscuous := True\<rparr>)" by simp
  obtain t2 where t2: "can_ioctl E CAN_SET_PROMISCUOUS None True f t1 = Some (Inr None, t2)"
    "promiscuous_usecount t2 = promiscuous_usecount t1 + 1" "fstates t2 = (fstates s)(f \<mapsto> fs\<lparr>promiscuous := True\<rparr>)"
    using promiscuous_ioctls(1) [OF f1, of E None True] t1(3) by auto
  have inv2: "driver_inv t2" by (rule inv_ioctl [OF inv_ioctl [OF assms t1(1)] f1 t2(1)])
  obtain t3 where "can_release E f t2 = Some t3" "fstates t3 = (fstates s)(f := None)"
    "promiscuous_usecount t3 = promiscuous_usecount t2 - 1"
    using release_promiscuous [OF inv2, of f "fs\<lparr>promiscuous := True\<rparr>" E] t2(3) by auto
  with t1 t2 promiscuous_ioctls(2) [OF assms(2), of E None True] show ?thesis by fastforce
qed

theorem promiscuous_count_leak_witness:
  "\<exists>t1 t2 t3. can_ioctl regs_env CAN_SET_PROMISCUOUS None True 8 one_file = Some (Inr None, t1)
      \<and> can_ioctl regs_env CAN_SET_PROMISCUOUS None True 8 t1 = Some (Inr None, t2)
      \<and> can_release regs_env 8 t2 = Some t3 \<and> fstates t3 = Map.empty
      \<and> promiscuous_usecount t3 = 1"
  using promiscuous_count_leak [OF one_file_inv one_file_state, of regs_env]
  by (auto simp: one_file_def idle_def cold_def)

section \<open>Module start\<close>

text \<open>
  The module start does not notice that the chip could not be
  set up. When the interrupt cannot be allocated \<^verbatim>\<open>can_init_82c200\<close> returns \<^verbatim>\<open>-EIO\<close>, but the
  caller compares with -1, so the start goes on and reports success with no
  interrupt handler installed.
\<close>

theorem init_ignores_chip_failure:
  assumes "first_time s" "request_irq E \<noteq> 0"
    and "can_checkalign (offset_of E) = 0" "map_82c200 E" "misc_register E = 0"
    and "fst (obp_getprop (prom_of E) (promdata s) OBP_CAN_NODEID (chars_of_u32 (can_nodeid s))) \<ge> 0"
  shows "fst (can_init_82c200 E False (can_init_queues s)) = - errno_code EIO \<and> fst (init_module E s) = 0"
proof -
  have irq: "fst (can_init_82c200 E False u) = -5" if "first_time u" for u :: "('a, 'b) driver"
    using that assms(2) by (simp add: can_init_82c200_def wr_def rd_eq Let_def)
  have "first_time (can_init_queues (s\<lparr>can_nodeid := n\<rparr>))" for n
    using assms(1) by (simp add: can_init_queues_def)
  moreover have "first_time (can_init_queues s)" using assms(1) by (simp add: can_init_queues_def)
  ultimately show ?thesis
    using irq assms by (simp add: init_module_def Let_def split_beta not_less)
qed

lemma cold_nodeid:
  "obp_getprop ram_prom (promdata cold) OBP_CAN_NODEID (chars_of_u32 (can_nodeid cold)) =
   (4, [CHR 0x00, CHR 0x00, CHR 0x00, CHR 0x05])"
  by (simp add: obp_getprop_def Let_def basename_nodeid cold_def prom0_def chars_of_u32_def)

theorem init_ignores_chip_failure_witness:
  "fst (can_init_82c200 (regs_env\<lparr>request_irq := -16\<rparr>) False (can_init_queues cold)) = -5
   \<and> fst (init_module (regs_env\<lparr>request_irq := -16\<rparr>) cold) = 0"
proof -
  let ?E = "regs_env\<lparr>request_irq := -16\<rparr>"
  have "first_time cold" "request_irq ?E \<noteq> 0" "can_checkalign (offset_of ?E) = 0" "map_82c200 ?E" "misc_register ?E = 0"
    by (simp_all add: cold_def regs_env_def can_checkalign_def)
  moreover have "fst (obp_getprop (prom_of ?E) (promdata cold) OBP_CAN_NODEID (chars_of_u32 (can_nodeid cold))) \<ge> 0"
    using cold_nodeid by simp
  ultimately show ?thesis using init_ignores_chip_failure [of cold ?E] by simp
qed

end
