(* ===== verification/CanChip.thy ===== *)
theory CanChip
  imports Example
begin

text \<open>
  The properties of the lower half: what reaches the 82C200 controller and what is
  read from it. Where a property depends on how the chip behaves, the behaviour is a
  hypothesis (which registers a write or a read changes, and when; the documented acceptance
  filter), stated for an arbitrary chip.
\<close>

section \<open>A packet survives the chip\<close>

definition bus_pairs :: "(creg \<times> creg) list" where
  "bus_pairs = [(txdb1, rxdb1), (txdb2, rxdb2), (tx0, rx0), (tx1, rx1), (tx2, rx2), (tx3, rx3),
                (tx4, rx4), (tx5, rx5), (tx6, rx6), (tx7, rx7)]"

text \<open>The transmit registers keep what is written to them, the receive registers can be read in any order.\<close>

definition data_regs :: "('c, 'p) env \<Rightarrow> ('c \<Rightarrow> creg \<Rightarrow> u8) \<Rightarrow> bool" where
  "data_regs E get \<longleftrightarrow>
     (\<forall>t \<in> set (map fst bus_pairs). \<forall>v c. \<forall>t' \<in> set (map fst bus_pairs). get (reg_write E t v c) t' = (if t' = t then v else get c t'))
     \<and> (\<forall>r \<in> set (map snd bus_pairs). \<forall>c. fst (reg_read E r c) = get c r
          \<and> (\<forall>r' \<in> set (map snd bus_pairs). get (snd (reg_read E r c)) r' = get c r'))"

text \<open>
  If the transmit registers keep what \<^verbatim>\<open>can_copy_tx\<close> writes and the bus
  carries them unchanged into the receive registers of another node, then \<^verbatim>\<open>can_copy_rx\<close>
  there yields the same standard header, extended header and payload.
\<close>

theorem chip_copy_roundtrip:
  assumes "data_regs E get"
    and "\<forall>(t, r) \<in> set bus_pairs. get (reg u) r = get (reg (can_copy_tx E pkt s)) t"
  shows "fst (can_copy_rx E p u) = p\<lparr>can := can pkt, ext := ext pkt, dat := dat pkt\<rparr>"
  using assms
  by (simp add: data_regs_def can_copy_tx_def can_copy_rx_def bus_pairs_def wr_def rd_eq Let_def)

theorem chip_copy_roundtrip_witness:
  "fst (can_copy_rx regs_env no_pkt (idle\<lparr>reg := (\<lambda>r. case map_of (map prod.swap bus_pairs) r of
       Some t \<Rightarrow> reg (can_copy_tx regs_env (no_pkt\<lparr>dat := 42\<rparr>) idle) t | None \<Rightarrow> 0)\<rparr>)) = no_pkt\<lparr>dat := 42\<rparr>"
proof -
  let ?u = "idle\<lparr>reg := (\<lambda>r. case map_of (map prod.swap bus_pairs) r of
       Some t \<Rightarrow> reg (can_copy_tx regs_env (no_pkt\<lparr>dat := 42\<rparr>) idle) t | None \<Rightarrow> 0)\<rparr>"
  have "data_regs regs_env (\<lambda>c. c)" by (auto simp: data_regs_def regs_env_def)
  moreover have "\<forall>(t, r) \<in> set bus_pairs. reg ?u r = reg (can_copy_tx regs_env (no_pkt\<lparr>dat := 42\<rparr>) idle) t"
    by (simp add: bus_pairs_def)
  ultimately have "fst (can_copy_rx regs_env no_pkt ?u) =
      no_pkt\<lparr>can := can (no_pkt\<lparr>dat := 42\<rparr>), ext := ext (no_pkt\<lparr>dat := 42\<rparr>), dat := dat (no_pkt\<lparr>dat := 42\<rparr>)\<rparr>"
    by (rule chip_copy_roundtrip [where get = "\<lambda>c. c" and s = idle])
  then show ?thesis by (simp add: no_pkt_def)
qed

section \<open>The acceptance filter\<close>

lemma bit_mask_83: "bit (0x83 :: u8) k \<longleftrightarrow> k < 2 \<or> k = 7" if "k < 8"
proof -
  from that have "k \<in> {0, 1, 2, 3, 4, 5, 6, 7}" by auto
  then show ?thesis by (auto simp: bit_numeral_rec)
qed

lemma bit_filtered:
  "bit ((b XOR c) AND NOT (0x83 :: u8)) k \<longleftrightarrow> bit b k \<noteq> bit c k \<and> \<not> (k < 2 \<or> k = 7)" if "k < 8"
  using that by (simp only: bit_and_iff bit_xor_iff bit_not_iff bit_mask_83 [OF that] possible_bit_word) auto

lemma bit_UNPACK_NODE: "bit (UNPACK_NODE n) k \<longleftrightarrow> bit n k \<and> k < 5"
proof -
  have m5: "(0x1f :: u32) = mask 5" by (simp add: mask_eq_exp_minus_1)
  show ?thesis unfolding UNPACK_NODE_def m5 bit_and_iff bit_mask_iff by auto
qed

lemma ucast_UNPACK_NODE_iff:
  "(ucast (d :: 5 word) :: u32) = UNPACK_NODE n \<longleftrightarrow> (\<forall>k < 5. bit d k = bit n k)"
proof -
  have d: "bit d k \<Longrightarrow> k < 5" for k using bit_imp_le_length [of d k] by simp
  have e: "v = w \<longleftrightarrow> (\<forall>k < 32. bit v k = bit w k)" for v w :: u32
    using bit_word_eqI [of v w] by auto
  have "bit (ucast d :: u32) k = bit (UNPACK_NODE n) k \<longleftrightarrow> (k < 5 \<longrightarrow> bit d k = bit n k)"
    if "k < 32" for k
    using that d by (auto simp: bit_simps bit_UNPACK_NODE)
  moreover have "k < 32" if "k < 5" for k :: nat using that by simp
  ultimately show ?thesis unfolding e by blast
qed

lemma filter_bits:
  fixes n :: u32 and h :: can_header_std
  shows "(fst (can_b h) XOR ucast (push_bit 2 (UNPACK_NODE n))) AND NOT (0x83 :: u8) = 0
    \<longleftrightarrow> ucast (dest h) = UNPACK_NODE n"
proof -
  let ?b = "fst (can_b h)" and ?c = "ucast (push_bit 2 (UNPACK_NODE n)) :: u8"
  have z: "w = 0 \<longleftrightarrow> (\<forall>k < 8. \<not> bit w k)" for w :: u8
    using bit_word_eqI [of w 0] by auto
  have b: "bit ?b k = bit (dest h) (k - 2)" "bit ?c k = bit n (k - 2)" if "2 \<le> k" "k < 7" for k
    using that by (auto simp: can_b_def bit_simps not_bit_beyond bit_UNPACK_NODE)
  have "(?b XOR ?c) AND NOT (0x83 :: u8) = 0 \<longleftrightarrow> (\<forall>k < 8. \<not> (k < 2 \<or> k = 7) \<longrightarrow> bit ?b k = bit ?c k)"
    unfolding z using bit_filtered by blast
  also have "\<dots> \<longleftrightarrow> (\<forall>k < 5. bit (dest h) k = bit n k)"
  proof (rule iffI; intro allI impI)
    fix k :: nat assume all: "\<forall>k < 8. \<not> (k < 2 \<or> k = 7) \<longrightarrow> bit ?b k = bit ?c k" and k: "k < 5"
    from all [rule_format, of "k + 2"] k have "bit ?b (k + 2) = bit ?c (k + 2)" by simp
    with b [of "k + 2"] k show "bit (dest h) k = bit n k" by simp
  next
    fix k :: nat assume "\<forall>k < 5. bit (dest h) k = bit n k" "k < 8" "\<not> (k < 2 \<or> k = 7)"
    with b [of k] show "bit ?b k = bit ?c k" by auto
  qed
  finally show ?thesis by (simp add: ucast_UNPACK_NODE_iff)
qed

text \<open>
  The mode registers of the 82C200: whether it is in reset, its acceptance code and its acceptance mask. Setting the reset bit of the control register puts it into reset, and
  what clearing the bit does is left open, since the chip may stay there; reading the register tells. The
  acceptance registers can only be written in reset. Reading a register changes none of the three, and neither does writing any other register.
  Nothing is said of the other registers: \<^verbatim>\<open>command\<close> is write-only, \<^verbatim>\<open>status\<close> and \<^verbatim>\<open>interrupt\<close> are read-only, and reading the latter clears it.
\<close>

definition mode_regs :: "('c, 'p) env \<Rightarrow> ('c \<Rightarrow> bool) \<Rightarrow> ('c \<Rightarrow> u8) \<Rightarrow> ('c \<Rightarrow> u8) \<Rightarrow> bool" where
  "mode_regs E resetting code msk \<longleftrightarrow>
     (\<forall>r c. resetting (snd (reg_read E r c)) = resetting c \<and> code (snd (reg_read E r c)) = code c \<and> msk (snd (reg_read E r c)) = msk c)
     \<and> (\<forall>c. fst (reg_read E control c) AND CAN_CONTROL_RESET \<noteq> 0 \<longleftrightarrow> resetting c)
     \<and> (\<forall>v c. (v AND CAN_CONTROL_RESET \<noteq> 0 \<longrightarrow> resetting (reg_write E control v c))
            \<and> code (reg_write E control v c) = code c \<and> msk (reg_write E control v c) = msk c)
     \<and> (\<forall>v c. code (reg_write E accept_code v c) = (if resetting c then v else code c)
            \<and> resetting (reg_write E accept_code v c) = resetting c \<and> msk (reg_write E accept_code v c) = msk c)
     \<and> (\<forall>v c. msk (reg_write E accept_mask v c) = (if resetting c then v else msk c)
            \<and> resetting (reg_write E accept_mask v c) = resetting c \<and> code (reg_write E accept_mask v c) = code c)
     \<and> (\<forall>r v c. r \<notin> {control, accept_code, accept_mask} \<longrightarrow>
            resetting (reg_write E r v c) = resetting c \<and> code (reg_write E r v c) = code c \<and> msk (reg_write E r v c) = msk c)"

lemma mode_regsD:
  assumes "mode_regs E resetting code msk"
  shows "resetting (snd (reg_read E r c)) = resetting c" "code (snd (reg_read E r c)) = code c" "msk (snd (reg_read E r c)) = msk c"
    "fst (reg_read E control c) AND CAN_CONTROL_RESET \<noteq> 0 \<longleftrightarrow> resetting c"
    "resetting (reg_write E control CAN_CONTROL_RESET c)"
    "code (reg_write E control v c) = code c" "msk (reg_write E control v c) = msk c"
    "code (reg_write E accept_code v c) = (if resetting c then v else code c)" "resetting (reg_write E accept_code v c) = resetting c"
    "msk (reg_write E accept_code v c) = msk c"
    "msk (reg_write E accept_mask v c) = (if resetting c then v else msk c)" "resetting (reg_write E accept_mask v c) = resetting c"
    "code (reg_write E accept_mask v c) = code c"
    "code (reg_write E bus_timing0 v c) = code c" "msk (reg_write E bus_timing0 v c) = msk c"
    "code (reg_write E bus_timing1 v c) = code c" "msk (reg_write E bus_timing1 v c) = msk c"
    "code (reg_write E out_control v c) = code c" "msk (reg_write E out_control v c) = msk c"
  using assms by (simp_all add: mode_regs_def CAN_CONTROL_RESET_def)

lemma wr_reg: "wr E r v (s\<lparr>reg := c\<rparr>) = s\<lparr>reg := reg_write E r v c\<rparr>"
  and rd_reg: "rd E r (s\<lparr>reg := c\<rparr>) = (fst (reg_read E r c), s\<lparr>reg := snd (reg_read E r c)\<rparr>)"
  by (simp_all add: wr_def rd_eq)

lemma init_82c200_filter:
  assumes "mode_regs E resetting code msk"
  shows "code (reg (snd (can_init_82c200 E p s))) = ucast (push_bit 2 (UNPACK_NODE (can_nodeid s)))"
    and "msk (reg (snd (can_init_82c200 E p s))) = (if p then 0xff else 0x83)"
    and "fst (can_init_82c200 E p s) = 0 \<Longrightarrow> \<not> resetting (reg (snd (can_init_82c200 E p s)))"
proof -
  note L = mode_regsD [OF assms]
  let ?m = "if p then 0xff else 0x83 :: u8" and ?k = "ucast (push_bit 2 (UNPACK_NODE (can_nodeid s))) :: u8"
  define c1 where "c1 = reg_write E control CAN_CONTROL_RESET (reg s)"
  define c2 where "c2 = reg_write E accept_mask ?m c1"
  define c3 where "c3 = reg_write E accept_code ?k c2"
  define c4 where "c4 = reg_write E bus_timing0 0x40 c3"
  define c5 where "c5 = reg_write E bus_timing1 0x16 c4"
  define c6 where "c6 = reg_write E out_control 0xaa c5"
  define c7 where "c7 = snd (reg_read E interrupt c6)"
  define c8 where "c8 = reg_write E control (CAN_CONTROL_RIE OR CAN_CONTROL_EIE OR CAN_CONTROL_OIE OR CAN_CONTROL_TIE) c7"
  define c9 where "c9 = snd (reg_read E control c8)"
  define c10 where "c10 = snd (reg_read E status c9)"
  have c1: "resetting c1" by (simp add: c1_def L)
  have c2: "resetting c2" "msk c2 = ?m" using c1 by (simp_all add: c2_def L)
  have c3: "code c3 = ?k" "msk c3 = ?m" using c2 by (simp_all add: c3_def L)
  have c7: "code c7 = ?k" "msk c7 = ?m" using c3 by (simp_all add: c7_def c6_def c5_def c4_def L)
  have c9: "code c9 = ?k" "msk c9 = ?m" "resetting c9 \<longleftrightarrow> resetting c8" using c7 by (simp_all add: c9_def c8_def L)
  have c10: "code c10 = ?k" "msk c10 = ?m" "resetting c10 \<longleftrightarrow> resetting c8" using c9 by (simp_all add: c10_def L)
  have w1: "wr E control CAN_CONTROL_RESET s = s\<lparr>reg := c1\<rparr>" by (simp add: wr_def c1_def)
  have ft: "s\<lparr>reg := c7, first_time := False\<rparr> = s\<lparr>first_time := False, reg := c7\<rparr>" by simp
  have ctl: "fst (reg_read E control c8) AND CAN_CONTROL_RESET \<noteq> 0 \<longleftrightarrow> resetting c8" by (rule L(4))
  have i: "can_init_82c200 E p s =
    (if first_time s \<and> request_irq E \<noteq> 0 then (- errno_code EIO, s\<lparr>reg := c7\<rparr>)
     else if resetting c8 then (- errno_code EIO, s\<lparr>first_time := False, reg := c9\<rparr>)
     else if fst (reg_read E status c9) AND CAN_STATUS_BUS_STAT \<noteq> 0 then (- errno_code EIO, s\<lparr>first_time := False, reg := c10\<rparr>)
     else (0, s\<lparr>first_time := False, reg := c10\<rparr>))"
    unfolding ctl [symmetric]
    by (simp add: can_init_82c200_def w1 ft wr_reg rd_reg Let_def c2_def [symmetric] c3_def [symmetric] c4_def [symmetric] c5_def [symmetric] c6_def [symmetric]
      c7_def [symmetric] c8_def [symmetric] c9_def [symmetric] c10_def [symmetric])
  show "code (reg (snd (can_init_82c200 E p s))) = ?k" "msk (reg (snd (can_init_82c200 E p s))) = ?m"
    unfolding i using c7 c9 c10 by simp_all
  show "\<not> resetting (reg (snd (can_init_82c200 E p s)))" if "fst (can_init_82c200 E p s) = 0"
    using that c10 unfolding i by (auto split: if_splits)
qed

text \<open>
  C15 (filter_is_IS_MYPACKET): on a chip with the documented mode registers (\<open>mode_regs\<close>: the acceptance registers take effect only while the chip is in reset) and
  the documented filter (a bit of the first identifier byte must equal the acceptance code wherever
  the mask is 0), a non-promiscuous initialisation leaves a filter that passes exactly the packets
  \<^verbatim>\<open>IS_MYPACKET\<close> recognises, and a promiscuous one a filter that passes every packet; an initialisation that reports success leaves the chip out of reset.
\<close>

theorem filter_is_IS_MYPACKET:
  assumes "mode_regs E resetting code msk"
    and "\<And>cd m b. passes cd m b \<longleftrightarrow> (b XOR cd) AND NOT m = 0"
  shows "case can_init_82c200 E p s of (rc, t) \<Rightarrow>
    (passes (code (reg t)) (msk (reg t)) (fst (can_b (can pkt))) \<longleftrightarrow> p \<or> IS_MYPACKET s pkt)
    \<and> (rc = 0 \<longrightarrow> \<not> resetting (reg t))"
proof -
  note i = init_82c200_filter [OF assms(1), of p s]
  have "passes (code (reg (snd (can_init_82c200 E p s)))) (msk (reg (snd (can_init_82c200 E p s)))) (fst (can_b (can pkt))) \<longleftrightarrow> p \<or> IS_MYPACKET s pkt"
  proof (cases p)
    case True
    have ff: "NOT (0xff :: u8) = 0" by simp
    show ?thesis unfolding i(1,2) assms(2) by (simp only: True if_True ff and_zero_eq) simp
  next
    case False
    then show ?thesis unfolding i(1,2) assms(2) using filter_bits [of "can pkt" "can_nodeid s"] by (simp add: IS_MYPACKET_def)
  qed
  with i(3) show ?thesis by (simp add: split_beta)
qed

text \<open>
  A chip as the data sheet has it: \<^verbatim>\<open>command\<close> cannot be read, \<^verbatim>\<open>status\<close> and \<^verbatim>\<open>interrupt\<close> cannot be written, reading \<^verbatim>\<open>interrupt\<close> clears it, and the acceptance registers are
  locked outside reset.
\<close>

definition sja_env :: "(regfile, ram) env" where
  "sja_env = regs_env
     \<lparr>reg_read := (\<lambda>r c. if r = command then (0xff, c) else if r = interrupt then (c interrupt, c(interrupt := 0)) else (c r, c)),
      reg_write := (\<lambda>r v c. if r = status \<or> r = interrupt then c
        else if (r = accept_code \<or> r = accept_mask) \<and> c control AND CAN_CONTROL_RESET = 0 then c else c(r := v))\<rparr>"

lemma sja_mode: "mode_regs sja_env (\<lambda>c. c control AND CAN_CONTROL_RESET \<noteq> 0) (\<lambda>c. c accept_code) (\<lambda>c. c accept_mask)"
  by (auto simp: mode_regs_def sja_env_def)

theorem filter_is_IS_MYPACKET_witness:
  "case can_init_82c200 sja_env False (idle\<lparr>reg := (\<lambda>_. 0)(interrupt := 0x1f)\<rparr>) of (rc, t) \<Rightarrow>
    rc = 0 \<and> reg t control AND CAN_CONTROL_RESET = 0
    \<and> ((fst (can_b (can (no_pkt\<lparr>can := (can no_pkt)\<lparr>dest := 5\<rparr>\<rparr>))) XOR reg t accept_code) AND NOT (reg t accept_mask) = 0)
    \<and> (fst (can_b (can (no_pkt\<lparr>can := (can no_pkt)\<lparr>dest := 6\<rparr>\<rparr>))) XOR reg t accept_code) AND NOT (reg t accept_mask) \<noteq> 0"
proof -
  let ?s = "idle\<lparr>reg := (\<lambda>_. 0)(interrupt := 0x1f)\<rparr>" and ?p = "\<lambda>n. no_pkt\<lparr>can := (can no_pkt)\<lparr>dest := n\<rparr>\<rparr>"
  have rc: "fst (can_init_82c200 sja_env False ?s) = 0"
    by (simp add: can_init_82c200_def wr_def rd_eq sja_env_def regs_env_def idle_def Let_def CAN_CONTROL_RESET_def CAN_CONTROL_RIE_def
        CAN_CONTROL_EIE_def CAN_CONTROL_OIE_def CAN_CONTROL_TIE_def CAN_STATUS_BUS_STAT_def)
  have "can_nodeid ?s = 5" by (simp add: idle_def)
  then have "IS_MYPACKET ?s (?p 5)" "\<not> IS_MYPACKET ?s (?p 6)" by (simp_all add: IS_MYPACKET_def UNPACK_NODE_def)
  with rc filter_is_IS_MYPACKET [OF sja_mode refl, where p = False and s = ?s and pkt = "?p 5"]
    filter_is_IS_MYPACKET [OF sja_mode refl, where p = False and s = ?s and pkt = "?p 6"]
  show ?thesis by (simp add: split_beta)
qed

section \<open>Transmission\<close>

text \<open>What the chip sees of a list of packets: for each a status read, its ten bytes and the transmit command.\<close>

definition xmit_pkt :: "('c, 'p) env \<Rightarrow> can_packet \<Rightarrow> 'c \<Rightarrow> 'c" where
  "xmit_pkt E pkt c =
     (let c = snd (reg_read E status c);
          c = reg_write E txdb1 (fst (can_b (can pkt))) c; c = reg_write E txdb2 (snd (can_b (can pkt))) c;
          c = fold (\<lambda>(r, i). reg_write E r (byte_of (ext_dat (ext pkt)) i)) [(tx0, 0), (tx1, 1), (tx2, 2), (tx3, 3)] c;
          c = fold (\<lambda>(r, i). reg_write E r (byte_of (dat pkt) i)) [(tx4, 0), (tx5, 1), (tx6, 2), (tx7, 3)] c
      in reg_write E command CAN_COMMAND_TRANSMIT c)"

text \<open>The chip was free each time it was given one of the first \<open>k\<close> packets.\<close>

definition xmit_free :: "('c, 'p) env \<Rightarrow> nat \<Rightarrow> can_packet list \<Rightarrow> 'c \<Rightarrow> bool" where
  "xmit_free E k ps c \<longleftrightarrow> (\<forall>j < k. fst (reg_read E status (fold (xmit_pkt E) (take j ps) c)) AND CAN_STATUS_XMIT_AVAIL \<noteq> 0)"

lemma xmit_free_0 [simp]: "xmit_free E 0 ps c"
  by (simp add: xmit_free_def)

lemma xmit_free_Suc [simp]:
  "xmit_free E (Suc k) (p # ps) c \<longleftrightarrow> fst (reg_read E status c) AND CAN_STATUS_XMIT_AVAIL \<noteq> 0 \<and> xmit_free E k ps (xmit_pkt E p c)"
  unfolding xmit_free_def by (auto simp: less_Suc_eq_0_disj)

lemma reg_xmit_body:
  "reg (wr E command CAN_COMMAND_TRANSMIT (can_copy_tx E pkt (s\<lparr>reg := snd (reg_read E status (reg s)), outq := q\<rparr>)))
   = xmit_pkt E pkt (reg s)"
  by (simp add: wr_def can_copy_tx_def xmit_pkt_def Let_def)

lemma try_xmit_loop_chip:
  assumes "ring_wf (outq s)" "length (ring_list (outq s)) < n"
  shows "\<exists>k \<le> length (ring_list (outq s)).
    (let c = fold (xmit_pkt E) (take k (ring_list (outq s))) (reg s) in
     reg (snd (try_xmit_loop E n i s)) = snd (reg_read E status c)
     \<and> ring_list (outq (snd (try_xmit_loop E n i s))) = drop k (ring_list (outq s))
     \<and> fst (try_xmit_loop E n i s) = i + k
     \<and> (fst (reg_read E status c) AND CAN_STATUS_XMIT_AVAIL = 0 \<or> k = length (ring_list (outq s)))
     \<and> xmit_free E k (ring_list (outq s)) (reg s))"
  using assms
proof (induction n arbitrary: i s)
  case (Suc n)
  let ?s1 = "s\<lparr>reg := snd (reg_read E status (reg s))\<rparr>"
  show ?case
  proof (cases "fst (reg_read E status (reg s)) AND CAN_STATUS_XMIT_AVAIL = 0 \<or> ring_to_pkt (outq s) = None")
    case True
    then show ?thesis
      using pktq.deq_None_iff [OF Suc.prems(1)]
      by (intro exI [of _ 0]) (auto simp: rd_eq split: option.split)
  next
    case False
    then obtain pkt q where pq: "ring_to_pkt (outq s) = Some (pkt, q)" by fastforce
    then have q: "ring_wf q" "ring_list (outq s) = pkt # ring_list q"
      using pktq.deq_Some_iff [OF Suc.prems(1)] by auto
    define u where "u = wr E command CAN_COMMAND_TRANSMIT (can_copy_tx E pkt (?s1\<lparr>outq := q\<rparr>))"
    have u: "outq u = q" "reg u = xmit_pkt E pkt (reg s)"
      unfolding u_def by (rule outq_xmit_body) (rule reg_xmit_body)
    have loop: "try_xmit_loop E (Suc n) i s = try_xmit_loop E n (Suc i) u"
      using False pq by (simp add: rd_eq u_def)
    from Suc.IH [of u "Suc i"] q Suc.prems(2) obtain k where "k \<le> length (ring_list q)"
      "let c = fold (xmit_pkt E) (take k (ring_list q)) (reg u) in
       reg (snd (try_xmit_loop E n (Suc i) u)) = snd (reg_read E status c)
       \<and> ring_list (outq (snd (try_xmit_loop E n (Suc i) u))) = drop k (ring_list q)
       \<and> fst (try_xmit_loop E n (Suc i) u) = Suc i + k
       \<and> (fst (reg_read E status c) AND CAN_STATUS_XMIT_AVAIL = 0 \<or> k = length (ring_list q))
       \<and> xmit_free E k (ring_list q) (reg u)"
      unfolding u(1) by auto
    then show ?thesis
      using False unfolding loop q(2) by (intro exI [of _ "Suc k"]) (simp add: u(2) Let_def pq)
  qed
qed simp

lemma try_xmit_chip:
  assumes "ring_wf (outq s)"
  shows "\<exists>k \<le> length (ring_list (outq s)).
    (let c = fold (xmit_pkt E) (take k (ring_list (outq s))) (reg s) in
     reg (try_xmit E s) = snd (reg_read E status c)
     \<and> ring_list (outq (try_xmit E s)) = drop k (ring_list (outq s))
     \<and> (fst (reg_read E status c) AND CAN_STATUS_XMIT_AVAIL = 0 \<or> k = length (ring_list (outq s)))
     \<and> ktrace (try_xmit E s) = ktrace s @ (if k > 0 then [WakeUpWriteq] else [])
     \<and> xmit_free E k (ring_list (outq s)) (reg s))"
proof -
  have "length (ring_list (outq s)) < MAXRING"
    using pktq.contents_le [OF assms] by (simp add: MAXRING_def)
  from try_xmit_loop_chip [OF assms this, of E 0] obtain k where k: "k \<le> length (ring_list (outq s))"
    "let c = fold (xmit_pkt E) (take k (ring_list (outq s))) (reg s) in
     reg (snd (try_xmit_loop E MAXRING 0 s)) = snd (reg_read E status c)
     \<and> ring_list (outq (snd (try_xmit_loop E MAXRING 0 s))) = drop k (ring_list (outq s))
     \<and> fst (try_xmit_loop E MAXRING 0 s) = 0 + k
     \<and> (fst (reg_read E status c) AND CAN_STATUS_XMIT_AVAIL = 0 \<or> k = length (ring_list (outq s)))
     \<and> xmit_free E k (ring_list (outq s)) (reg s)"
    by blast
  obtain q c where fr: "snd (try_xmit_loop E MAXRING 0 s) = s\<lparr>outq := q, reg := c\<rparr>"
    using try_xmit_loop_frame [of E MAXRING 0 s] by blast
  show ?thesis
    using k by (intro exI [of _ k]) (auto simp: try_xmit_def split_beta Let_def fr)
qed

text \<open>
  C22 (transmit_in_order): with a well-formed outbound queue \<^verbatim>\<open>try_xmit\<close> hands the chip a prefix of the queue, oldest first,
  each packet with all its bytes before the transmit command and only when the chip reports that its buffer is free, removes exactly those
  packets, stops only when the queue is empty or the chip reports that its buffer is
  taken, and wakes the writers if it sent anything.
\<close>

theorem transmit_in_order:
  assumes "ring_wf (outq s)"
  shows "\<exists>k \<le> length (ring_list (outq s)).
    (let c = fold (xmit_pkt E) (take k (ring_list (outq s))) (reg s) in
     reg (try_xmit E s) = snd (reg_read E status c)
     \<and> ring_list (outq (try_xmit E s)) = drop k (ring_list (outq s))
     \<and> (fst (reg_read E status c) AND CAN_STATUS_XMIT_AVAIL = 0 \<or> k = length (ring_list (outq s)))
     \<and> ktrace (try_xmit E s) = ktrace s @ (if k > 0 then [WakeUpWriteq] else [])
     \<and> xmit_free E k (ring_list (outq s)) (reg s))"
  by (rule try_xmit_chip [OF assms])

theorem transmit_in_order_witness:
  "ring_list (outq (try_xmit regs_env (idle\<lparr>outq := RING_IN pkt_ring no_pkt, reg := (\<lambda>_. 0xff)\<rparr>))) = []
   \<and> reg (try_xmit regs_env (idle\<lparr>outq := RING_IN pkt_ring no_pkt, reg := (\<lambda>_. 0xff)\<rparr>)) = xmit_pkt regs_env no_pkt (\<lambda>_. 0xff)"
proof -
  let ?s = "idle\<lparr>outq := RING_IN pkt_ring no_pkt, reg := (\<lambda>_. 0xff)\<rparr>"
  have "\<not> RING_FULL pkt_ring" by (simp add: pkt_ring_def RING_FULL_def RING_NEXT_def MAXRING_def)
  then have q: "ring_wf (outq ?s)" "ring_list (outq ?s) = [no_pkt]" using ring_in_list [of pkt_ring no_pkt] by simp_all
  have "fst (reg_read regs_env status (reg ?s)) AND CAN_STATUS_XMIT_AVAIL \<noteq> 0" "snd (reg_read regs_env r c) = c" for r c
    by (simp_all add: regs_env_def CAN_STATUS_XMIT_AVAIL_def)
  with transmit_in_order [OF q(1), of regs_env, unfolded q(2)] show ?thesis
    by (auto simp: Let_def le_Suc_eq)
qed

section \<open>Reception\<close>

text \<open>
  The receive side of a chip: it holds the packets of \<open>pend\<close>, reports that one is available
  while there is one, shows the bytes of the oldest in its receive registers, and
  drops it when told that it has been read. Reading a register loses nothing.
\<close>

definition rx_fifo :: "('c, 'p) env \<Rightarrow> ('c \<Rightarrow> can_packet list) \<Rightarrow> bool" where
  "rx_fifo E pend \<longleftrightarrow>
     (\<forall>c. fst (reg_read E status c) AND CAN_STATUS_RECV_AVAIL = 0 \<longleftrightarrow> pend c = []) \<and>
     (\<forall>r c. pend (snd (reg_read E r c)) = pend c) \<and>
     (\<forall>c. pend (reg_write E command CAN_COMMAND_CLR_RECV c) = tl (pend c)) \<and>
     (\<forall>c p ps. pend c = p # ps \<longrightarrow>
        fst (reg_read E rxdb1 c) = fst (can_b (can p)) \<and> fst (reg_read E rxdb2 c) = snd (can_b (can p)) \<and>
        (\<forall>(r, i) \<in> set [(rx0, 0), (rx1, 1), (rx2, 2), (rx3, 3)].
           fst (reg_read E r c) = byte_of (ext_dat (ext p)) i) \<and>
        (\<forall>(r, i) \<in> set [(rx4, 0), (rx5, 1), (rx6, 2), (rx7, 3)]. fst (reg_read E r c) = byte_of (dat p) i))"

lemma rx_fifo_copy:
  assumes "rx_fifo E pend" "pend (reg s) = p # ps"
  shows "fst (can_copy_rx E q s) = p\<lparr>timestamp := timestamp q\<rparr>"
    and "pend (reg (snd (can_copy_rx E q s))) = p # ps"
  using assms by (simp_all add: rx_fifo_def can_copy_rx_def rd_eq Let_def)

lemma try_recv_loop_spec:
  assumes rx: "rx_fifo E pend"
  shows "ring_wf (inq s) \<Longrightarrow> length (pend (reg s)) < n \<Longrightarrow>
    \<exists>q c. try_recv_loop E n i s = Some (i + length (pend (reg s)), s\<lparr>inq := q, reg := c\<rparr>) \<and> ring_wf q \<and> pend c = []
      \<and> q = enq_list pkt_to_ring (map (incoming_fixup s) (pend (reg s))) (inq s)"
proof (induction n arbitrary: i s)
  case (Suc n)
  let ?s1 = "s\<lparr>reg := snd (reg_read E status (reg s))\<rparr>"
  have pend1: "pend (reg ?s1) = pend (reg s)" using rx by (simp add: rx_fifo_def)
  show ?case
  proof (cases "pend (reg s)")
    case Nil
    then have "fst (reg_read E status (reg s)) AND CAN_STATUS_RECV_AVAIL = 0" using rx by (simp add: rx_fifo_def)
    with Nil Suc.prems pend1 show ?thesis
      by (intro exI [of _ "inq s"] exI [of _ "snd (reg_read E status (reg s))"]) (simp add: rd_eq)
  next
    case (Cons p ps)
    then have av: "fst (reg_read E status (reg s)) AND CAN_STATUS_RECV_AVAIL \<noteq> 0" using rx by (simp add: rx_fifo_def)
    note cp = rx_fifo_copy [OF rx pend1 [unfolded Cons], where q = "stack_pkt E"]
    obtain c where c: "snd (can_copy_rx E (stack_pkt E) ?s1) = s\<lparr>reg := c\<rparr>"
      using can_copy_rx_frame [of E "stack_pkt E" ?s1] by auto
    define c2 where "c2 = reg_write E command CAN_COMMAND_CLR_RECV c"
    have c2: "pend c2 = ps" using rx cp(2) by (simp add: c2_def c rx_fifo_def)
    define u where "u = s\<lparr>reg := c2, inq := snd (pkt_to_ring (incoming_fixup s p) (inq s))\<rparr>"
    have cpu: "can_copy_rx E (stack_pkt E) ?s1 = (p\<lparr>timestamp := timestamp (stack_pkt E)\<rparr>, s\<lparr>reg := c\<rparr>)"
      using cp(1) c by (simp add: prod_eq_iff)
    have fx: "incoming_fixup (s\<lparr>reg := c2\<rparr>) (p\<lparr>timestamp := x\<rparr>) = incoming_fixup s p" for x
      by (simp add: incoming_fixup_def)
    have loop: "try_recv_loop E (Suc n) i s = try_recv_loop E n (Suc i) u"
      using av by (simp add: rd_eq cpu wr_def c2_def [symmetric] fx u_def Let_def)
    have fu: "incoming_fixup u = incoming_fixup s" by (simp add: u_def incoming_fixup_def fun_eq_iff)
    have "ring_wf (inq u)" "length ps < n"
      using Suc.prems Cons c2 by (simp_all add: u_def pktq.wf_enq)
    moreover have ru: "pend (reg u) = ps" using c2 by (simp add: u_def)
    ultimately obtain q c' where
      "try_recv_loop E n (Suc i) u = Some (Suc i + length ps, u\<lparr>inq := q, reg := c'\<rparr>)" "ring_wf q" "pend c' = []"
      "q = enq_list pkt_to_ring (map (incoming_fixup s) ps) (inq u)"
      using Suc.IH [of u "Suc i", unfolded fu ru] by blast
    then show ?thesis
      unfolding loop by (intro exI [of _ q] exI [of _ c']) (simp add: Cons u_def)
  qed
qed simp

text \<open>
  C23 (receive_in_order): a chip reports that a packet is available exactly while it holds packets, shows the bytes of the oldest, drops the oldest when told and loses none when a register is read.
  With such a chip and a well-formed inbound queue the receive loop ends, empties the chip, and appends to
  the inbound queue, in order and stamped with the current time, the packets it held
  as far as there is room; the rest are dropped.
\<close>

theorem receive_in_order:
  assumes "rx_fifo E pend" "ring_wf (inq s)" "length (pend (reg s)) < n"
  shows "\<exists>t. try_recv E n s = Some t \<and> pend (reg t) = [] \<and> ring_wf (inq t)
    \<and> ring_list (inq t) = ring_list (inq s) @
        take (MAXRING - 1 - length (ring_list (inq s))) (map (\<lambda>p. p\<lparr>timestamp := jiffies s\<rparr>) (pend (reg s)))"
proof -
  obtain q c where l: "try_recv_loop E n 0 s = Some (0 + length (pend (reg s)), s\<lparr>inq := q, reg := c\<rparr>)"
    "ring_wf q" "pend c = []" "q = enq_list pkt_to_ring (map (incoming_fixup s) (pend (reg s))) (inq s)"
    using try_recv_loop_spec [OF assms, of 0] by blast
  have "incoming_fixup s = (\<lambda>p. p\<lparr>timestamp := jiffies s\<rparr>)" by (simp add: incoming_fixup_def fun_eq_iff)
  with l pktq.enq_list_spec [OF assms(2), of "map (incoming_fixup s) (pend (reg s))"] show ?thesis
    by (auto simp: try_recv_def kcall_def)
qed

text \<open>A chip that is just a list of received packets.\<close>

definition rx_env :: "(can_packet list, ram) env" where
  "rx_env = \<lparr>reg_read = (\<lambda>r c. (case c of [] \<Rightarrow> 0 | p # _ \<Rightarrow>
        (case r of status \<Rightarrow> 1 | rxdb1 \<Rightarrow> fst (can_b (can p)) | rxdb2 \<Rightarrow> snd (can_b (can p))
         | rx0 \<Rightarrow> byte_of (ext_dat (ext p)) 0 | rx1 \<Rightarrow> byte_of (ext_dat (ext p)) 1
         | rx2 \<Rightarrow> byte_of (ext_dat (ext p)) 2 | rx3 \<Rightarrow> byte_of (ext_dat (ext p)) 3
         | rx4 \<Rightarrow> byte_of (dat p) 0 | rx5 \<Rightarrow> byte_of (dat p) 1
         | rx6 \<Rightarrow> byte_of (dat p) 2 | rx7 \<Rightarrow> byte_of (dat p) 3 | _ \<Rightarrow> 0), c)),
      reg_write = (\<lambda>r v c. if r = command \<and> v = CAN_COMMAND_CLR_RECV then tl c else c),
      prom_of = ram_prom, stack_pkt = no_pkt, stack_buf = [], stack_u32 = 0, after_pkt = (\<lambda>_. 0), HZ = 100,
      TTY_FLIPBUF_SIZE = 512, request_irq = 0, tty_register_driver = 0, misc_register = 0,
      map_82c200 = True, offset_of = (\<lambda>_. 0)\<rparr>"

lemma rx_env_fifo: "rx_fifo rx_env (\<lambda>c. c)"
  by (auto simp: rx_fifo_def rx_env_def CAN_STATUS_RECV_AVAIL_def split: list.split)

definition my_word :: "u32 \<Rightarrow> can_packet" where
  "my_word w = no_pkt\<lparr>dat := w\<rparr>"

definition idle_rx :: "can_packet list \<Rightarrow> (can_packet list, ram) driver" where
  "idle_rx ps =
     \<lparr>inq = pkt_ring, outq = pkt_ring, can_debug = False, can_usecount = 0, reg = ps,
      promiscuous_usecount = 0, openfd = (\<lambda>_. 0), fstates = Map.empty, consobj_reserved = (\<lambda>_. 0),
      can_nodeid = 5, first_time = False, jiffies = 0, mod_usecount = 0, ktrace = [],
      cancon_outbuf = char_ring, cancon_inbuf = char_ring, cancon_ack_pending = False,
      cancon_rmt = no_ext, ttyp = None, cantty_myrefcount = 0, cantty_registered = True, ack_timer = None,
      hb_timer = None, can_boardtype = 0, can_hb_val = 0, hb_count = 0, testrw_val = 0, promdata = prom0\<rparr>"

theorem receive_in_order_witness:
  "\<exists>t. try_recv rx_env 3 (idle_rx [no_pkt, my_word 7]) = Some t \<and> reg t = [] \<and> ring_wf (inq t)
     \<and> ring_list (inq t) = [no_pkt, my_word 7]"
proof -
  have "ring_wf (inq (idle_rx [no_pkt, my_word 7]))" "ring_list (inq (idle_rx [no_pkt, my_word 7])) = []"
    "reg (idle_rx [no_pkt, my_word 7]) = [no_pkt, my_word 7]" "jiffies (idle_rx [no_pkt, my_word 7]) = 0"
    by (simp_all add: idle_rx_def)
  with receive_in_order [OF rx_env_fifo, of "idle_rx [no_pkt, my_word 7]" 3] show ?thesis
    by (simp add: MAXRING_def no_pkt_def my_word_def)
qed

section \<open>Sending\<close>

lemma send_refused:
  "RING_FULL (if IS_MYPACKET s pkt then inq s else outq s) \<Longrightarrow> snd (snd (send_pkt E pkt s)) = s"
  by (cases "IS_MYPACKET s pkt") (simp_all add: send_pkt_def send_nof_local send_nof_remote_full pkt_to_ring_def Let_def)

lemma send_to_chip:
  fixes E :: "('c, 'p) env" and s :: "('c, 'z) can_main_scheme"
  assumes "queues_wf s" "\<not> IS_MYPACKET s pkt" "\<not> RING_FULL (outq s)"
  defines "ps \<equiv> ring_list (outq s) @ [incoming_fixup s (outgoing_fixup s pkt)]" and "t \<equiv> snd (snd (send_pkt E pkt s))"
  shows "\<exists>k \<le> length ps. let c = fold (xmit_pkt E) (take k ps) (reg s) in
    reg t = snd (reg_read E status c) \<and> ring_list (outq t) = drop k ps \<and> xmit_free E k ps (reg s)
    \<and> (fst (reg_read E status c) AND CAN_STATUS_XMIT_AVAIL = 0 \<or> k = length ps)"
proof -
  have wf: "ring_wf (outq s)" using assms(1) by (simp add: queues_wf_def)
  define s2 where "s2 = (let (r, q) = pkt_to_ring (incoming_fixup s (outgoing_fixup s pkt)) (inq s); s1 = s\<lparr>outq := RING_IN (outq s) (incoming_fixup s (outgoing_fixup s pkt)), inq := q\<rparr>
    in if r then kcall QueueBh s1 else s1)"
  have s2: "ring_wf (outq s2)" "ring_list (outq s2) = ps" "reg s2 = reg s"
    using ring_in_list [OF wf assms(3), of "incoming_fixup s (outgoing_fixup s pkt)"] by (simp_all add: s2_def ps_def kcall_def split_beta Let_def)
  have "t = try_xmit E s2"
    using assms(2,3) by (simp add: t_def send_pkt_def send_nof_remote_room s2_def Let_def split_beta)
  then show ?thesis using try_xmit_chip [OF s2(1), of E] unfolding s2(2,3) by (auto simp: Let_def)
qed

text \<open>
  C21 (send_pkt_outcome): on well-formed queues \<^verbatim>\<open>send_pkt\<close> succeeds exactly when the queue of the
  packet's destination has room: the inbound queue for a packet to this node, the
  outbound queue otherwise. It changes nothing when it fails. When it succeeds, the packet, with the
  node's address as its source and the current time, is in the inbound queue if there is room there: for a packet to this node
  that is its destination and the chip and the outbound queue are left alone, for another it is the copy for the files that look at outgoing packets. A packet for another node is put
  behind the outbound queue, and of that queue a prefix, oldest first, is handed to the chip, each packet with all its bytes before the transmit command and only while the chip reports that its
  buffer is free; what stays queued stays because the chip reports that its buffer is taken.
\<close>

theorem send_pkt_outcome:
  assumes "queues_wf s"
  shows "case send_pkt E pkt s of (ok, p, t) \<Rightarrow>
    queues_wf t
    \<and> p = pkt\<lparr>timestamp := jiffies s, can := (can pkt)\<lparr>src := ucast (UNPACK_NODE (can_nodeid s)), remote := 0\<rparr>\<rparr>
    \<and> (ok \<longleftrightarrow> \<not> RING_FULL (if IS_MYPACKET s pkt then inq s else outq s))
    \<and> (if ok then
         ring_list (inq t) = ring_list (inq s) @ (if RING_FULL (inq s) then [] else [p])
         \<and> (if IS_MYPACKET s pkt then outq t = outq s \<and> reg t = reg s
            else let ps = ring_list (outq s) @ [p] in
              \<exists>k \<le> length ps. let c = fold (xmit_pkt E) (take k ps) (reg s) in
                reg t = snd (reg_read E status c) \<and> ring_list (outq t) = drop k ps \<and> xmit_free E k ps (reg s)
                \<and> (fst (reg_read E status c) AND CAN_STATUS_XMIT_AVAIL = 0 \<or> k = length ps))
       else t = s)"
proof (cases "IS_MYPACKET s pkt \<or> RING_FULL (outq s)")
  case True
  then show ?thesis
    using send_queues [OF assms, where E = E and pkt = pkt] send_refused [of s pkt E]
    by (cases "send_pkt E pkt s") (auto simp: split_beta incoming_fixup_def outgoing_fixup_def)
next
  case False
  then show ?thesis
    using send_queues [OF assms, where E = E and pkt = pkt] send_to_chip [OF assms, of pkt E]
    by (cases "send_pkt E pkt s") (auto simp: split_beta incoming_fixup_def outgoing_fixup_def Let_def)
qed

theorem send_pkt_outcome_witness:
  "case send_pkt regs_env no_pkt (idle\<lparr>reg := (\<lambda>_. 0xff)\<rparr>) of (ok, p, t) \<Rightarrow>
    ok \<and> queues_wf t \<and> p = incoming_fixup idle (outgoing_fixup idle no_pkt) \<and> ring_list (inq t) = [p]
    \<and> ring_list (outq t) = [] \<and> reg t = xmit_pkt regs_env p (\<lambda>_. 0xff)"
proof -
  let ?s = "idle\<lparr>reg := (\<lambda>_. 0xff)\<rparr>"
  have "queues_wf ?s" "inq ?s = pkt_ring" "outq ?s = pkt_ring" "jiffies ?s = jiffies idle" "can_nodeid ?s = 5" "can_nodeid idle = 5"
    using idle_inv by (simp_all add: inv_defs idle_def cold_def)
  moreover have "\<not> RING_FULL pkt_ring" by (simp add: pkt_ring_def RING_FULL_def RING_NEXT_def MAXRING_def)
  moreover have "\<not> IS_MYPACKET ?s no_pkt" by (simp add: IS_MYPACKET_def UNPACK_NODE_def no_pkt_def idle_def)
  moreover have "fst (reg_read regs_env status (reg ?s)) AND CAN_STATUS_XMIT_AVAIL \<noteq> 0" "snd (reg_read regs_env r c) = c" for r c
    by (simp_all add: regs_env_def CAN_STATUS_XMIT_AVAIL_def)
  ultimately show ?thesis
    using send_pkt_outcome [of ?s, where E = regs_env and pkt = no_pkt]
    by (auto simp: incoming_fixup_def outgoing_fixup_def Let_def le_Suc_eq split: prod.splits)
qed

end
