(* ===== verification/CanTty.thy ===== *)
theory CanTty
  imports Example
begin

text \<open>
  The properties of the console: the outbound stop-and-wait protocol as a refinement of
  an abstract one, the packets it builds, what the tty layer is promised, and the
  inbound path.
\<close>

section \<open>Stop and wait\<close>

text \<open>
  The abstract protocol: characters not yet sent, and whether an acknowledgement is
  awaited. A send takes up to four characters, and only when none is awaited; \<open>ok\<close>
  says whether the packet could be queued (if not, its characters are lost).
\<close>

record stop_wait =
  queued :: "u8 list"
  awaiting :: bool

definition sw_send :: "bool \<Rightarrow> stop_wait \<Rightarrow> stop_wait" where
  "sw_send ok a = (if awaiting a \<or> queued a = [] then a else \<lparr>queued = drop 4 (queued a), awaiting = ok\<rparr>)"

definition sw_put :: "u8 list \<Rightarrow> stop_wait \<Rightarrow> stop_wait" where
  "sw_put cs a = a\<lparr>queued := queued a @ take (MAXRING - 1 - length (queued a)) cs\<rparr>"

definition sw_ack :: "stop_wait \<Rightarrow> stop_wait" where
  "sw_ack a = a\<lparr>awaiting := False\<rparr>"

definition sw_of :: "('c, 'z) console_state \<Rightarrow> stop_wait" where
  "sw_of s = \<lparr>queued = ring_list (cancon_outbuf s), awaiting = cancon_ack_pending s\<rparr>"

text \<open>Whether the next packet of a state would be accepted by the send path.\<close>

definition next_accepted :: "('c, 'p) env \<Rightarrow> ('c, 'z) console_state \<Rightarrow> bool" where
  "next_accepted E s =
     fst (send_pkt E (cancon_pkt E (take 4 (ring_list (cancon_outbuf s))) s) s)"

lemma send_frame_console:
  "cancon_outbuf (snd (snd (send_pkt E p s))) = cancon_outbuf s"
  "cancon_ack_pending (snd (snd (send_pkt E p s))) = cancon_ack_pending s"
  "cancon_rmt (snd (snd (send_pkt E p s))) = cancon_rmt s"
  "cancon_inbuf (snd (snd (send_pkt E p s))) = cancon_inbuf s"
  "ttyp (snd (snd (send_pkt E p s))) = ttyp s"
  "jiffies (snd (snd (send_pkt E p s))) = jiffies s"
proof -
  obtain i q c t where fr: "snd (snd (send_pkt E p s)) = s\<lparr>inq := i, outq := q, reg := c, ktrace := t\<rparr>"
    using send_frame [of E p s] by blast
  show "cancon_outbuf (snd (snd (send_pkt E p s))) = cancon_outbuf s"
    "cancon_ack_pending (snd (snd (send_pkt E p s))) = cancon_ack_pending s"
    "cancon_rmt (snd (snd (send_pkt E p s))) = cancon_rmt s"
    "cancon_inbuf (snd (snd (send_pkt E p s))) = cancon_inbuf s"
    "ttyp (snd (snd (send_pkt E p s))) = ttyp s"
    "jiffies (snd (snd (send_pkt E p s))) = jiffies s"
    unfolding fr by simp_all
qed

lemma cantty_write_wakeup_simps [simp]:
  "cancon_outbuf (cantty_write_wakeup t s) = cancon_outbuf s"
  "cancon_ack_pending (cantty_write_wakeup t s) = cancon_ack_pending s"
  "cancon_rmt (cantty_write_wakeup t s) = cancon_rmt s"
  "cancon_inbuf (cantty_write_wakeup t s) = cancon_inbuf s"
  by (simp_all add: cantty_write_wakeup_def kcall_def split: option.split)

text \<open>The send path and the packet do not depend on the characters that are taken out.\<close>

lemma send_fst_outbuf: "fst (send_pkt E p (s\<lparr>cancon_outbuf := q\<rparr>)) = fst (send_pkt E p s)"
  if "queues_wf s"
proof -
  have "queues_wf (s\<lparr>cancon_outbuf := q\<rparr>)" using that by (simp add: queues_wf_def)
  from send_queues(2) [OF this, where E = E and pkt = p] send_queues(2) [OF that, where E = E and pkt = p]
  show ?thesis by (simp add: IS_MYPACKET_def)
qed

lemma cancon_pkt_outbuf: "cancon_pkt E cs (s\<lparr>cancon_outbuf := q\<rparr>) = cancon_pkt E cs s"
  by (simp add: cancon_pkt_def IS_LOCAL_def Let_def)

lemma sw_of_send_next:
  assumes wf: "console_wf s" and conn: "\<not> CANCON_UNCONNECTED (cancon_rmt s)"
  shows "sw_of (cancon_send_next E s) = sw_send (next_accepted E s) (sw_of s)"
    and "cancon_rmt (cancon_send_next E s) = cancon_rmt s"
proof -
  obtain cs q where d: "deq_upto ring_to_char 4 (cancon_outbuf s) = (cs, q)" by fastforce
  have cs: "cs = take 4 (ring_list (cancon_outbuf s))" "ring_list q = drop 4 (ring_list (cancon_outbuf s))"
    using charq.deq_upto_spec [of "cancon_outbuf s" 4] wf by (simp_all add: d console_wf_def)
  have ok: "fst (send_pkt E (cancon_pkt E cs s) (s\<lparr>cancon_outbuf := q\<rparr>)) = next_accepted E s"
    using wf by (simp add: next_accepted_def cs(1) console_wf_def send_fst_outbuf)
  have "ring_list (cancon_outbuf s) = [] \<Longrightarrow> ring_list q = []" using cs by simp
  with conn cs ok show "sw_of (cancon_send_next E s) = sw_send (next_accepted E s) (sw_of s)"
    by (auto simp: cancon_send_next_def d Let_def split_beta sw_of_def sw_send_def cancon_pkt_outbuf
        send_frame_console)
  show "cancon_rmt (cancon_send_next E s) = cancon_rmt s"
    by (simp add: cancon_send_next_def d Let_def split_beta send_frame_console)
qed

definition crlf :: "u8 list \<Rightarrow> u8 list" where
  "crlf str = concat (map (\<lambda>c. if c = 0x0a then [0x0d, 0x0a] else [c]) str)"

lemma printk_chars_enq: "printk_chars str q = enq_list char_to_ring (crlf str) q"
  by (induction str arbitrary: q) (simp_all add: crlf_def Let_def)

lemma sw_of_enq:
  assumes "console_wf s"
  shows "sw_of (s\<lparr>cancon_outbuf := enq_list char_to_ring cs (cancon_outbuf s)\<rparr>) = sw_put cs (sw_of s)"
    and "console_wf (s\<lparr>cancon_outbuf := enq_list char_to_ring cs (cancon_outbuf s)\<rparr>)"
  using assms charq.enq_list_spec [of "cancon_outbuf s" cs]
  by (simp_all add: sw_of_def sw_put_def console_wf_def queues_wf_def)

definition after_put :: "u8 list \<Rightarrow> ('c, 'z) console_state \<Rightarrow> ('c, 'z) console_state" where
  "after_put cs s = s\<lparr>cancon_outbuf := enq_list char_to_ring cs (cancon_outbuf s)\<rparr>"

definition after_ack :: "('c, 'z) console_state \<Rightarrow> ('c, 'z) console_state" where
  "after_ack s = s\<lparr>ack_timer := None, cancon_ack_pending := False\<rparr>"

lemma next_accepted_kcall: "next_accepted E (kcall e s) = next_accepted E s" if "queues_wf s"
proof -
  have q: "queues_wf (kcall e s)" using that by (simp add: queues_wf_def)
  have "cancon_pkt E cs (kcall e s) = cancon_pkt E cs s" for cs
    by (simp add: cancon_pkt_def IS_LOCAL_def Let_def kcall_def)
  then show ?thesis
    using send_queues(2) [OF q, where E = E] send_queues(2) [OF that, where E = E]
    by (simp add: next_accepted_def IS_MYPACKET_def kcall_def)
qed

lemma sw_of_recv_ack:
  assumes wf: "console_wf s" and conn: "\<not> CANCON_UNCONNECTED (cancon_rmt s)"
  shows "sw_of (cancon_recv_ack E t s) = sw_send (next_accepted E (after_ack s)) (sw_ack (sw_of s))"
proof -
  let ?a = "after_ack s"
  have a: "console_wf ?a" "\<not> CANCON_UNCONNECTED (cancon_rmt ?a)" "sw_of ?a = sw_ack (sw_of s)"
    using wf conn by (simp_all add: after_ack_def console_wf_def queues_wf_def sw_of_def sw_ack_def)
  have "\<exists>e. cancon_recv_ack E t s = cancon_send_next E ?a \<or> cancon_recv_ack E t s = cancon_send_next E (kcall e ?a)"
    unfolding after_ack_def by (rule recv_ack_cases)
  moreover have "sw_of (cancon_send_next E (kcall e ?a)) = sw_send (next_accepted E ?a) (sw_of ?a)" for e
  proof -
    have "console_wf (kcall e ?a)" "\<not> CANCON_UNCONNECTED (cancon_rmt (kcall e ?a))"
      "sw_of (kcall e ?a) = sw_of ?a" "queues_wf ?a"
      using a by (simp_all add: console.I_kcall) (simp_all add: kcall_def sw_of_def console_wf_def)
    with sw_of_send_next(1) [of "kcall e ?a" E] show ?thesis by (simp add: next_accepted_kcall)
  qed
  ultimately show ?thesis using sw_of_send_next(1) [OF a(1,2), of E] a(3) by auto
qed

text \<open>
  C3 (console_refines_stop_wait): while a console is connected, the driver's output operations are
  the operations of the stop-and-wait protocol: sending the next packet does nothing
  while an acknowledgement is awaited and otherwise takes the oldest four characters;
  an acknowledgement, and equally its timeout, allows the next send; a character put by
  the tty layer and the text of \<^verbatim>\<open>printk\<close>, with a carriage return before each newline, are
  appended as far as they fit, and a send is attempted.
\<close>

theorem console_refines_stop_wait:
  assumes "console_wf s" "\<not> CANCON_UNCONNECTED (cancon_rmt s)"
  shows "sw_of (cancon_send_next E s) = sw_send (next_accepted E s) (sw_of s)
    \<and> sw_of (cancon_recv_ack E timeout s) = sw_send (next_accepted E (after_ack s)) (sw_ack (sw_of s))
    \<and> sw_of (cantty_put_char E ch s) = sw_send (next_accepted E (after_put [ch] s)) (sw_put [ch] (sw_of s))
    \<and> sw_of (cancon_printk_write E str s) =
        (if str = [] then sw_of s
         else sw_send (next_accepted E (after_put (crlf str) s)) (sw_put (crlf str) (sw_of s)))"
proof -
  have p: "sw_of (cancon_send_next E (after_put cs s)) = sw_send (next_accepted E (after_put cs s)) (sw_put cs (sw_of s))" for cs
    using sw_of_send_next(1) [OF sw_of_enq(2) [OF assms(1)], of cs E] assms(2) sw_of_enq(1) [OF assms(1), of cs]
    by (simp add: after_put_def)
  have "cantty_put_char E ch s = cancon_send_next E (after_put [ch] s)"
    by (simp add: cantty_put_char_def after_put_def)
  moreover have "cancon_printk_write E str s = (if str = [] then s else cancon_send_next E (after_put (crlf str) s))"
    using assms(2) by (simp add: cancon_printk_write_def after_put_def printk_chars_enq)
  ultimately show ?thesis
    using p [of "[ch]"] p [of "crlf str"] sw_of_send_next(1) [OF assms, of E] sw_of_recv_ack [OF assms, of E timeout]
    by simp
qed

text \<open>A connected driver with three characters to send.\<close>

definition rmt7 :: can_header_ext where
  "rmt7 = \<lparr>xpriority = 0, ctype = 0, cluster = 0, module = 0, node = 7, object = 0x123\<rparr>"

definition three_chars :: "(regfile, ram) driver" where
  "three_chars = idle\<lparr>cancon_rmt := rmt7,
     cancon_outbuf := char_ring\<lparr>buf := (\<lambda>i. of_nat (65 + i)), head := 3\<rparr>\<rparr>"

lemma three_chars_simps [simp]:
  "ring_list (cancon_outbuf three_chars) = [65, 66, 67]" "\<not> CANCON_UNCONNECTED (cancon_rmt three_chars)"
  "cancon_ack_pending three_chars = False"
  by (simp_all add: three_chars_def rmt7_def CANCON_UNCONNECTED_def ring_list_def char_ring_def cdist_def
      MAXRING_def upt_rec idle_def cold_def)

lemma three_chars_wf: "console_wf three_chars"
  using drv.I_console [OF idle_inv] by (simp add: three_chars_def console_wf_def queues_wf_def ring_wf_def
      char_ring_def MAXRING_def)

theorem console_refines_stop_wait_witness:
  "sw_of (cancon_send_next regs_env three_chars) =
     sw_send (next_accepted regs_env three_chars) \<lparr>queued = [65, 66, 67], awaiting = False\<rparr>"
proof -
  have "sw_of three_chars = \<lparr>queued = [65, 66, 67], awaiting = False\<rparr>" by (simp add: sw_of_def)
  with console_refines_stop_wait [OF three_chars_wf three_chars_simps(2), of regs_env] show ?thesis by simp
qed

section \<open>The packets\<close>

lemma fill_dat_other: "i + length cs \<le> 4 \<Longrightarrow> j < i \<Longrightarrow> byte_of (fill_dat w i cs) j = byte_of w j"
proof (induction cs arbitrary: w i)
  case (Cons c cs)
  then show ?case by (simp add: byte_of_set_other)
qed simp

lemma fill_dat_byte: "i + length cs \<le> 4 \<Longrightarrow> j < length cs \<Longrightarrow> byte_of (fill_dat w i cs) (i + j) = cs ! j"
proof (induction cs arbitrary: w i j)
  case (Cons c cs)
  show ?case
  proof (cases j)
    case 0
    with Cons.prems show ?thesis by (simp add: fill_dat_other)
  next
    case (Suc k)
    with Cons.IH [of "Suc i" k "set_dat_b w i c"] Cons.prems show ?thesis by simp
  qed
qed simp

lemma cancon_pkt_fields:
  "dat (cancon_pkt E cs s) = fill_dat (dat (stack_pkt E)) 0 cs"
  "clength (can (cancon_pkt E cs s)) = of_nat (4 + length cs)"
  "ext (cancon_pkt E cs s) = (cancon_rmt s)\<lparr>ctype := CANTYPE_DAT\<rparr>"
  "dest (can (cancon_pkt E cs s)) = (if IS_LOCAL s (cancon_rmt s) then ucast (node (cancon_rmt s)) else ucast CAN_MODULE_H8)"
  by (simp_all add: cancon_pkt_def Let_def)

lemma uint_clength: "n \<le> 4 \<Longrightarrow> uint (of_nat (4 + n) :: 4 word) = int (4 + n)"
proof -
  assume "n \<le> 4"
  then have "n \<in> {0, 1, 2, 3, 4}" by auto
  then show ?thesis by auto
qed

text \<open>
  The packet built for up to four characters is a \<^verbatim>\<open>DAT\<close> packet to the
  connected console object; it goes to the console's node when that is in the same
  cluster and module and to the module controller otherwise; and a receiver that
  takes as many payload bytes as the length field says beyond the extended header, as
  \<^verbatim>\<open>canobj_dat\<close> does, gets exactly those characters, in order.
\<close>

theorem console_packet_roundtrip:
  assumes "length cs \<le> 4"
  shows "let p = cancon_pkt E cs s in
    ext p = (cancon_rmt s)\<lparr>ctype := CANTYPE_DAT\<rparr>
    \<and> dest (can p) = (if IS_LOCAL s (cancon_rmt s) then ucast (node (cancon_rmt s)) else 0x1d)
    \<and> map (dat_bytes E' p) [0..<nat (uint (clength (can p)) - 4)] = cs"
proof -
  have len: "nat (uint (clength (can (cancon_pkt E cs s))) - 4) = length cs"
    using uint_clength [OF assms] by (simp add: cancon_pkt_fields del: of_nat_add)
  have "dat_bytes E' (cancon_pkt E cs s) i = cs ! i" if "i < length cs" for i
    using fill_dat_byte [of 0 cs i] that assms by (simp add: dat_bytes_def cancon_pkt_fields)
  then have "map (dat_bytes E' (cancon_pkt E cs s)) [0..<length cs] = cs"
    by (intro nth_equalityI) simp_all
  then show ?thesis by (simp add: len cancon_pkt_fields(3,4) CAN_MODULE_H8_def)
qed

theorem console_packet_roundtrip_witness:
  "let p = cancon_pkt regs_env [72, 105] three_chars in
    ext p = rmt7\<lparr>ctype := CANTYPE_DAT\<rparr> \<and> map (dat_bytes regs_env p) [0..<nat (uint (clength (can p)) - 4)] = [72, 105]"
  using console_packet_roundtrip [of "[72, 105]" regs_env three_chars regs_env]
  by (simp add: Let_def three_chars_def)

section \<open>What the tty layer is promised\<close>

lemma write_loop_spec:
  assumes "ring_wf q" "\<And>j. \<not> (u \<and> fault j)"
  shows "fst (cantty_write_loop u b fault i n q) = Inr (i + min n (MAXRING - 1 - length (ring_list q)))
    \<and> snd (cantty_write_loop u b fault i n q) = enq_list char_to_ring (map (\<lambda>j. b (i + j)) [0..<n]) q"
  using assms(1)
proof (induction n arbitrary: i q)
  case (Suc n)
  have full: "enq_list char_to_ring cs q = q" if "length (ring_list q) = MAXRING - 1" for cs
    using that charq.enq_full [OF Suc.prems] by (induction cs) simp_all
  have up: "map (\<lambda>j. b (i + j)) [0..<Suc n] = b i # map (\<lambda>j. b (Suc i + j)) [0..<n]"
    by (simp add: map_upt_Suc del: upt_Suc)
  from Suc.prems show ?case
  proof (cases rule: charq.enq_cases [where x = "b i"])
    case (room q')
    then have "MAXRING - 1 - length (ring_list q) = Suc (MAXRING - 1 - length (ring_list q'))" by simp
    with room Suc.IH [OF room(3), of "Suc i"] assms(2) [of i] up show ?thesis by (simp del: upt_Suc)
  next
    case full': full
    with full assms(2) [of i] show ?thesis by (simp add: full)
  qed
qed simp

text \<open>
  A tty write of \<open>count\<close> characters that do not fault, on a connected and not
  stopped terminal, accepts as many as \<^verbatim>\<open>cantty_write_room\<close> reports, all of them if it
  reported at least \<open>count\<close>, and returns that number; unconnected output is accepted
  and discarded, and a stopped terminal accepts nothing.
\<close>

theorem tty_write_promise:
  assumes "console_wf s" "\<And>j. \<not> (u \<and> fault j)"
  shows "fst (cantty_write E t u (Some b) fault count s) =
    (if CANCON_UNCONNECTED (cancon_rmt s) then Inr count
     else Inr (min count (nat (cantty_write_room t s))))
    \<and> (\<not> CANCON_UNCONNECTED (cancon_rmt s) \<and> \<not> stopped t \<and> 0 < min count (nat (cantty_write_room t s)) \<longrightarrow>
        snd (cantty_write E t u (Some b) fault count s) =
          cancon_send_next E (after_put (map b [0..<count]) s))"
proof -
  have wf: "ring_wf (cancon_outbuf s)" using assms(1) by (simp add: console_wf_def)
  have room: "nat (RING_ROOM (cancon_outbuf s)) = MAXRING - 1 - length (ring_list (cancon_outbuf s))"
    using ring_room_length [OF wf] by simp
  have pos: "0 < RING_ROOM (cancon_outbuf s) \<longleftrightarrow> Suc (length (ring_list (cancon_outbuf s))) < MAXRING"
    using ring_room_length [OF wf] by auto
  from write_loop_spec [OF wf, of u fault b 0 count] assms(2) show ?thesis
    by (auto simp: cantty_write_def cantty_write_room_def room pos split_beta Let_def after_put_def)
qed

definition plain_tty :: tty where
  "plain_tty = \<lparr>stopped = False, flip_ptr_null = False, flip_count = 0, flip_chars = [],
     do_write_wakeup = False, ldisc_write_wakeup = False\<rparr>"

theorem tty_write_promise_witness:
  "fst (cantty_write regs_env plain_tty False (Some (\<lambda>_. 65)) (\<lambda>_. True) 10 three_chars) = Inr 10"
proof -
  have "cantty_write_room plain_tty three_chars = 1020"
    by (simp add: cantty_write_room_def plain_tty_def three_chars_def RING_ROOM_def char_ring_def MAXRING_def)
  with tty_write_promise [OF three_chars_wf, of False "\<lambda>_. True" regs_env plain_tty "\<lambda>_. 65" 10] show ?thesis by simp
qed

section \<open>Input\<close>

text \<open>
  Characters received for an open terminal are appended to the input
  buffer as far as they fit, and the oldest ones move, in order, to the terminal's
  flip buffer until that is full; the flip buffer never overflows, and what does not
  fit there stays in the input buffer.
\<close>

theorem tty_input_in_order:
  assumes "console_wf s" "ttyp s = Some t" "\<not> flip_ptr_null t"
  shows "let waiting = ring_list (cancon_inbuf s) @ take (MAXRING - 1 - length (ring_list (cancon_inbuf s))) (map p [0..<nat count]);
             room = TTY_FLIPBUF_SIZE E - flip_count t;
             s' = cantty_recv_dat E p count s in
    \<exists>t'. ttyp s' = Some t' \<and> flip_chars t' = flip_chars t @ take room waiting
      \<and> flip_count t' = flip_count t + length (take room waiting)
      \<and> flip_count t' \<le> max (flip_count t) (TTY_FLIPBUF_SIZE E)
      \<and> ring_list (cancon_inbuf s') = drop room waiting \<and> console_wf s'"
proof -
  define q where "q = enq_list char_to_ring (map p [0..<nat count]) (cancon_inbuf s)"
  have wf: "ring_wf (cancon_inbuf s)" using assms(1) by (simp add: console_wf_def)
  have q: "ring_wf q" "ring_list q = ring_list (cancon_inbuf s) @ take (MAXRING - 1 - length (ring_list (cancon_inbuf s))) (map p [0..<nat count])"
    using charq.enq_list_spec [OF wf] by (simp_all add: q_def)
  have "console_wf (cantty_recv_dat E p count s)" using assms(1) by (rule console.I_recv_dat)
  with charq.deq_upto_spec [OF q(1), of "TTY_FLIPBUF_SIZE E - flip_count t"] assms(2,3) show ?thesis
    unfolding Let_def q(2) [symmetric]
    by (auto simp: cantty_recv_dat_def q_def [symmetric] cantty_recv_push_def split_beta kcall_def)
qed

theorem tty_input_in_order_witness:
  "\<exists>t'. ttyp (cantty_recv_dat regs_env (\<lambda>i. of_nat (65 + i)) 2 (idle\<lparr>ttyp := Some plain_tty\<rparr>)) = Some t'
     \<and> flip_chars t' = [65, 66]"
proof -
  have "console_wf (idle\<lparr>ttyp := Some plain_tty\<rparr>)" using drv.I_console [OF inv_misc(8) [OF idle_inv]] .
  from tty_input_in_order [OF this, of plain_tty "\<lambda>i. of_nat (65 + i)" 2 regs_env]
  show ?thesis
    by (auto simp: Let_def plain_tty_def idle_def cold_def MAXRING_def regs_env_def upt_rec numeral_2_eq_2)
qed

end
