(* ===== verification/CanObjects.thy ===== *)
theory CanObjects
  imports CanTty
begin

text \<open>
  The properties of the kernel's CAN objects: who is connected, what survives a reboot,
  what a request is answered, and the heartbeat.
\<close>

section \<open>The connection\<close>

lemma rmt_send [simp]: "cancon_rmt (canobj_acknak E ty p d s) = cancon_rmt s"
  by (simp add: canobj_acknak_def send_frame_console)

lemma rmt_kcall [simp]: "cancon_rmt (kcall e s) = cancon_rmt s"
  by (simp add: kcall_def)

lemma rmt_send_next [simp]: "cancon_rmt (cancon_send_next E s) = cancon_rmt s"
  by (simp add: cancon_send_next_def Let_def split_beta send_frame_console)

lemma rmt_console [simp]:
  "cancon_rmt (cancon_recv_ack E t s) = cancon_rmt s" "cancon_rmt (cantty_hangup s) = cancon_rmt s"
  "cancon_rmt (cantty_recv_dat E p n s) = cancon_rmt s"
  by (simp_all add: cancon_recv_ack_def cantty_hangup_def cantty_recv_dat_def cantty_recv_push_def
      Let_def split_beta split: option.split)

lemma rmt_consobj [simp]: "cancon_rmt (snd (canobj_consobj E p s)) = cancon_rmt s"
  by (simp add: canobj_consobj_def)

lemma rmt_set [simp]: "cancon_rmt (canobj_cancon_host E SET s) = cancon_rmt s"
  by (simp add: canobj_cancon_host_def Let_def)

lemma rmt_reset_io [simp]: "cancon_rmt (snd (canobj_reset_io E p s)) = cancon_rmt s"
  by (simp add: canobj_reset_io_def Let_def split_beta split: option.split)

lemma rmt_handlers [simp]:
  "cancon_rmt (snd (canobj_dat E p s)) = cancon_rmt s" "cancon_rmt (snd (canobj_break E p s)) = cancon_rmt s"
  "cancon_rmt (snd (canobj_testrw E p s)) = cancon_rmt s" "cancon_rmt (snd (canobj_autoboot E p s)) = cancon_rmt s"
  "cancon_rmt (snd (canobj_boot_dev E p s)) = cancon_rmt s" "cancon_rmt (snd (canobj_heartbeat E p s)) = cancon_rmt s"
  "cancon_rmt (snd (canobj_force_disconn E p s)) = cancon_rmt s"
  by (simp_all add: canobj_dat_def canobj_break_def canobj_testrw_def canobj_autoboot_def canobj_boot_dev_def
      canobj_heartbeat_def canobj_force_disconn_def Let_def split: option.split)

text \<open>
  C16 (connection_changes): who the console is connected to changes in exactly two ways. A write to
  the connect object while unconnected records the address in the packet; a write to
  the disconnect object while connected marks the console unconnected. No other
  packet changes it: a second connect does not take the console away from its owner.
\<close>

theorem connection_changes:
  "cancon_rmt (snd (canobj_packet E pkt s)) =
    (if ctype (ext pkt) = CANTYPE_WO \<and> object (ext pkt) = CANOBJ_CONSOLE_CONNECT \<and> CANCON_UNCONNECTED (cancon_rmt s)
     then dat_ext (dat pkt)
     else if ctype (ext pkt) = CANTYPE_WO \<and> object (ext pkt) = CANOBJ_CONSOLE_DISCONN
       \<and> \<not> CANCON_UNCONNECTED (cancon_rmt s)
     then (cancon_rmt s)\<lparr>cluster := 0x3f, module := 0x3f, node := 0x3f, object := 0x3f\<rparr>
     else cancon_rmt s)"
proof -
  have pk: "cancon_rmt (snd (canobj_packet E pkt s)) = cancon_rmt (snd (canobj_switch E pkt s))"
    by (simp add: canobj_packet_def split_beta)
  have ne: "CANTYPE_RO \<noteq> CANTYPE_WO" "CANTYPE_WO \<noteq> CANTYPE_RO" by (simp_all add: CANTYPE_defs)
  have co: "cancon_rmt (snd (canobj_connect E pkt s)) =
      (if ctype (ext pkt) = CANTYPE_WO \<and> CANCON_UNCONNECTED (cancon_rmt s) then dat_ext (dat pkt) else cancon_rmt s)"
    using ne by (simp add: canobj_connect_def Let_def) (simp add: cancon_setcon_def)
  have di: "cancon_rmt (snd (canobj_disconnect E pkt s)) =
      (if ctype (ext pkt) = CANTYPE_WO \<and> \<not> CANCON_UNCONNECTED (cancon_rmt s)
       then (cancon_rmt s)\<lparr>cluster := 0x3f, module := 0x3f, node := 0x3f, object := 0x3f\<rparr> else cancon_rmt s)"
    by (simp add: canobj_disconnect_def Let_def) (simp add: cancon_setcon_def)
  have dist: "CANOBJ_CONSOLE_DISCONN \<noteq> CANOBJ_CONSOLE_CONNECT" by (simp add: CANOBJ_defs)
  show ?thesis unfolding pk canobj_switch_def Let_def using dist by (simp add: co di)
qed

text \<open>
  Connecting to an address whose cluster and module are both 0x3f is
  acknowledged but leaves the console unconnected, whatever the node: the test for
  "unconnected" looks at the cluster twice and never at the node.
\<close>

theorem connect_to_unconnected:
  assumes "ctype (ext pkt) = CANTYPE_WO" "CANCON_UNCONNECTED (cancon_rmt s)"
    and "cluster (dat_ext (dat pkt)) = 0x3f" "module (dat_ext (dat pkt)) = 0x3f" "node (dat_ext (dat pkt)) \<noteq> 0x3f"
  shows "canobj_connect E pkt s =
      (True, canobj_acknak E CANTYPE_ACK pkt (Some (dat pkt)) (canobj_cancon_host E SET (cancon_setcon (Some pkt) s)))
    \<and> node (cancon_rmt (snd (canobj_connect E pkt s))) \<noteq> 0x3f
    \<and> CANCON_UNCONNECTED (cancon_rmt (snd (canobj_connect E pkt s)))"
proof -
  have "CANTYPE_WO \<noteq> CANTYPE_RO" by (simp add: CANTYPE_defs)
  then have eq: "canobj_connect E pkt s =
      (True, canobj_acknak E CANTYPE_ACK pkt (Some (dat pkt)) (canobj_cancon_host E SET (cancon_setcon (Some pkt) s)))"
    using assms(1,2) by (simp add: canobj_connect_def Let_def) (simp add: cancon_setcon_def)
  have "cancon_rmt (snd (canobj_connect E pkt s)) = dat_ext (dat pkt)" unfolding eq by (simp add: cancon_setcon_def)
  with eq assms(3-5) show ?thesis by (simp add: CANCON_UNCONNECTED_def)
qed

theorem connect_to_unconnected_witness:
  "CANCON_UNCONNECTED (cancon_rmt (snd (canobj_connect regs_env
     (no_pkt\<lparr>ext := no_ext\<lparr>ctype := CANTYPE_WO, object := CANOBJ_CONSOLE_CONNECT\<rparr>,
             dat := ext_dat (no_ext\<lparr>node := 7, object := 0x100\<rparr>)\<rparr>) idle)))"
proof -
  let ?p = "no_pkt\<lparr>ext := no_ext\<lparr>ctype := CANTYPE_WO, object := CANOBJ_CONSOLE_CONNECT\<rparr>,
             dat := ext_dat (no_ext\<lparr>node := 7, object := 0x100\<rparr>)\<rparr>"
  have "ctype (ext ?p) = CANTYPE_WO" "CANCON_UNCONNECTED (cancon_rmt idle)"
    "cluster (dat_ext (dat ?p)) = 0x3f" "module (dat_ext (dat ?p)) = 0x3f" "node (dat_ext (dat ?p)) \<noteq> 0x3f"
    by (simp_all add: idle_def cold_def no_ext_def CANCON_UNCONNECTED_def)
  from connect_to_unconnected [OF this, of regs_env] show ?thesis by blast
qed

section \<open>The connection survives a reboot\<close>

lemma digit_char: "d < 10 \<Longrightarrow> (of_char (char_of (48 + d :: nat)) :: nat) = 48 + d"
  by simp

lemma strtoul_append:
  "\<forall>c \<in> set xs. 48 \<le> (of_char c :: nat) \<and> (of_char c :: nat) \<le> 57 \<Longrightarrow>
   simple_strtoul (xs @ ys) r = simple_strtoul ys (simple_strtoul xs r)"
  by (induction xs arbitrary: r) auto

lemma sprintf_digits: "c \<in> set (sprintf_lu n) \<Longrightarrow> 48 \<le> (of_char c :: nat) \<and> (of_char c :: nat) \<le> 57"
proof (induction n rule: sprintf_lu.induct)
  case (1 n)
  then show ?case by (cases "n < 10") (auto simp: sprintf_lu.simps [of n])
qed

lemma strtoul_sprintf: "simple_strtoul (sprintf_lu n) 0 = of_nat n"
proof (induction n rule: sprintf_lu.induct)
  case (1 n)
  show ?case
  proof (cases "n < 10")
    case True
    then show ?thesis by (simp add: sprintf_lu.simps [of n])
  next
    case False
    have "of_nat (n div 10) * 10 + of_nat (n mod 10) = (of_nat n :: u32)"
      by (metis div_mult_mod_eq of_nat_add of_nat_mult of_nat_numeral)
    moreover have "n mod 10 \<le> 9" by simp
    ultimately show ?thesis
      using False 1 sprintf_digits [of _ "n div 10"] by (simp add: sprintf_lu.simps [of n] strtoul_append)
  qed
qed

lemma length_sprintf: "n < 10 ^ k \<Longrightarrow> 0 < k \<Longrightarrow> length (sprintf_lu n) \<le> k"
proof (induction n arbitrary: k rule: sprintf_lu.induct)
  case (1 n)
  show ?case
  proof (cases "n < 10")
    case True
    with "1.prems" show ?thesis by (simp add: sprintf_lu.simps [of n] Suc_leI)
  next
    case False
    then have k: "k \<noteq> 1" using "1.prems" by auto
    then obtain j where j: "k = Suc j" "0 < j" using "1.prems"(2) by (cases k) auto
    then have "n div 10 < 10 ^ j" using "1.prems"(1) by auto
    with 1 False j show ?thesis by (simp add: sprintf_lu.simps [of n])
  qed
qed

text \<open>
  C38 (connection_survives_reboot): the connection written to the PROM's \<^verbatim>\<open>cancon-host\<close> property, as a
  decimal number, is the one read back when the driver is loaded again, whatever the
  variable held meanwhile; the number and its terminator fit the 16-byte buffer. The
  PROM is one that stores what it is given and has the property.
\<close>

theorem connection_survives_reboot:
  assumes "prom_stores (prom_of E)" "obp_lookup (prom_of E) (promdata s) OBP_CANCON_HOST \<noteq> -1"
    and "16 \<le> length (stack_buf E)"
  shows "cancon_rmt (canobj_cancon_host E GET ((canobj_cancon_host E SET s)\<lparr>cancon_rmt := x\<rparr>)) = cancon_rmt s
    \<and> length (sprintf_lu (unat (ext_dat (cancon_rmt s))) @ [CHR 0x00]) \<le> 16"
proof -
  let ?n = "unat (ext_dat (cancon_rmt s))"
  let ?cs = "sprintf_lu ?n @ [CHR 0x00]"
  have "?n < 10 ^ 10" using unsigned_less [of "ext_dat (cancon_rmt s)", where ?'a = nat] by simp
  then have "length ?cs \<le> 16" using length_sprintf [of ?n 10] by simp
  moreover have "length (take 16 (stack_buf E)) = 16" using assms(3) by simp
  ultimately have "length ?cs \<le> length (take 16 (stack_buf E))" by simp
  note get = obp_getprop_setprop(1) [OF assms(1,2) _ this]
  have nul: "CHR 0x00 \<notin> set (sprintf_lu ?n)" using sprintf_digits [of "CHR 0x00" ?n] by auto
  have "length OBP_CANCON_HOST \<le> OBP_MAX_PATHLEN" by (simp add: OBP_CANCON_HOST_def OBP_MAX_PATHLEN_def)
  from get [OF this] have "cancon_rmt (canobj_cancon_host E GET ((canobj_cancon_host E SET s)\<lparr>cancon_rmt := x\<rparr>)) = cancon_rmt s"
    using nul by (simp add: canobj_cancon_host_def Let_def cstr_append_NUL strtoul_sprintf)
  with \<open>length ?cs \<le> 16\<close> show ?thesis by simp
qed

theorem connection_survives_reboot_witness:
  "cancon_rmt (canobj_cancon_host regs_env GET ((canobj_cancon_host regs_env SET three_chars)\<lparr>cancon_rmt := no_ext\<rparr>)) = rmt7"
proof -
  have "16 \<le> length (stack_buf regs_env)" by (simp add: regs_env_def)
  moreover have "cancon_rmt three_chars = rmt7" by (simp add: three_chars_def)
  ultimately show ?thesis
    using connection_survives_reboot [of regs_env three_chars no_ext] ram_prom_stores by simp
qed

section \<open>Answers\<close>

lemma acknak_fields:
  "dest (can (acknak_pkt ty p d)) = src (can p)" "ctype (ext (acknak_pkt ty p d)) = ty"
  "object (ext (acknak_pkt ty p d)) = object (ext p)"
  "clength (can (acknak_pkt ty p d)) = (if d = None then 4 else 8)"
  "dat (acknak_pkt ty p d) = (case d of None \<Rightarrow> dat p | Some v \<Rightarrow> v)"
  by (simp_all add: acknak_pkt_def Let_def split: option.split)

text \<open>The answer is in the inbound queue too, where files that look at outgoing packets see it.\<close>

lemma acknak_queued:
  assumes "queues_wf s" "\<not> RING_FULL (inq s)" "\<not> RING_FULL (outq s)"
  shows "ring_list (inq (canobj_acknak E ty p d s)) =
    ring_list (inq s) @ [incoming_fixup s (outgoing_fixup s (acknak_pkt ty p d))]"
    and "queues_wf (canobj_acknak E ty p d s)"
  using send_queues(1,2,3) [OF assms(1), where E = E and pkt = "acknak_pkt ty p d"] assms(2,3)
  by (simp_all add: canobj_acknak_def)

lemma testrw_val_acknak [simp]: "testrw_val (canobj_acknak E ty p d s) = testrw_val s"
proof -
  obtain i q c t where "snd (snd (send_pkt E (acknak_pkt ty p d) s)) = s\<lparr>inq := i, outq := q, reg := c, ktrace := t\<rparr>"
    using send_frame [of E "acknak_pkt ty p d" s] by blast
  then show ?thesis by (simp add: canobj_acknak_def)
qed

definition answers :: "('c, 'p) driver \<Rightarrow> can_packet \<Rightarrow> u32 \<Rightarrow> can_packet \<Rightarrow> bool" where
  "answers s req v a \<longleftrightarrow> ctype (ext a) = CANTYPE_ACK \<and> object (ext a) = object (ext req) \<and> dat a = v
     \<and> clength (can a) = 8 \<and> dest (can a) = src (can req) \<and> src (can a) = ucast (UNPACK_NODE (can_nodeid s))"

lemma answers_acknak:
  "answers s req v (incoming_fixup s (outgoing_fixup s (acknak_pkt CANTYPE_ACK req (Some v))))"
  by (simp add: answers_def acknak_fields) (simp add: outgoing_fixup_def acknak_fields)

text \<open>
  A write to the \<^verbatim>\<open>TESTRW\<close> object is answered with the old value and stores
  the new one, and a read is then answered with the value written; each answer is an
  8-byte \<^verbatim>\<open>ACK\<close> for the same object, from this node to the requester.
\<close>

theorem testrw_write_then_read:
  assumes "queues_wf s" "length (ring_list (inq s)) < MAXRING - 1" "length (ring_list (outq s)) < MAXRING - 1"
    and "ctype (ext w) = CANTYPE_WO" "ctype (ext r) = CANTYPE_RO"
  shows "\<exists>a. ring_list (inq (snd (canobj_testrw E w s))) = ring_list (inq s) @ [a] \<and> answers s w (testrw_val s) a
    \<and> testrw_val (snd (canobj_testrw E w s)) = dat w
    \<and> canobj_testrw E r (snd (canobj_testrw E w s)) =
        (True, canobj_acknak E CANTYPE_ACK r (Some (dat w)) (snd (canobj_testrw E w s)))"
proof -
  have nf: "\<not> RING_FULL (inq s)" "\<not> RING_FULL (outq s)"
    using assms(1-3) by (simp_all add: queues_wf_def ring_full_iff)
  have "CANTYPE_WO \<noteq> CANTYPE_RO" "CANTYPE_RO \<noteq> CANTYPE_WO" by (simp_all add: CANTYPE_defs)
  with assms(4,5) acknak_queued(1) [OF assms(1) nf, of E CANTYPE_ACK w "Some (testrw_val s)"]
    answers_acknak [of s w "testrw_val s"]
  show ?thesis by (simp add: canobj_testrw_def Let_def)
qed

lemma idle_queues: "queues_wf idle" "ring_list (inq idle) = []" "ring_list (outq idle) = []"
  using drv.I_queues [OF idle_inv] by (simp_all add: idle_def cold_def)

theorem testrw_write_then_read_witness:
  "\<exists>a. ring_list (inq (snd (canobj_testrw regs_env (no_pkt\<lparr>ext := no_ext\<lparr>ctype := CANTYPE_WO\<rparr>, dat := 99\<rparr>) idle))) = [a]
    \<and> answers idle (no_pkt\<lparr>ext := no_ext\<lparr>ctype := CANTYPE_WO\<rparr>, dat := 99\<rparr>) 0 a"
  using testrw_write_then_read [OF idle_queues(1), of "no_pkt\<lparr>ext := no_ext\<lparr>ctype := CANTYPE_WO\<rparr>, dat := 99\<rparr>"
      "no_pkt\<lparr>ext := no_ext\<lparr>ctype := CANTYPE_RO\<rparr>\<rparr>" regs_env]
  by (auto simp: idle_queues MAXRING_def) (simp_all add: idle_def cold_def)

section \<open>The heartbeat\<close>

definition hb_pkt :: "('c, 'p) env \<Rightarrow> ('c, 'p) driver \<Rightarrow> can_packet" where
  "hb_pkt E s =
     (let h8 = CAN_GET_BOARD_H8 (UNPACK_NODE (can_nodeid s)); pkt = stack_pkt E
      in pkt\<lparr>can := (can pkt)\<lparr>dest := ucast h8, clength := 8\<rparr>,
             ext := (ext pkt)\<lparr>ctype := CANTYPE_WNA, object := CANOBJ_HEARTBEAT,
                              cluster := ucast (UNPACK_CLUSTER (can_nodeid s)),
                              module := ucast (UNPACK_MODULE (can_nodeid s)), node := ucast (ucast h8 :: 5 word)\<rparr>,
             dat := can_hb_val s\<rparr>)"

definition iam_pkt :: "('c, 'p) driver \<Rightarrow> can_packet \<Rightarrow> can_packet" where
  "iam_pkt s pkt =
     pkt\<lparr>can := (can pkt)\<lparr>src := ucast (CAN_GET_BOARD_H8 (UNPACK_NODE (can_nodeid s))), dest := 0x1d, clength := 8\<rparr>,
         ext := (ext pkt)\<lparr>ctype := CANTYPE_WNA, object := CANOBJ_IAM,
                          cluster := ucast (UNPACK_CLUSTER (can_nodeid s)),
                          module := ucast (UNPACK_MODULE (can_nodeid s)), node := 0x1d\<rparr>,
         dat := can_boardtype s\<rparr>"

lemma heartbeat_eq:
  "canobj_send_heartbeat E s =
    (let p = fst (snd (send_pkt E (hb_pkt E s) s)); s1 = snd (snd (send_pkt E (hb_pkt E s) s));
         s2 = s1\<lparr>hb_count := hb_count s1 + 1\<rparr>;
         s3 = (if hb_count s1 mod 0x77 = 0 then snd (snd (send_pkt_no_out_fixup E (iam_pkt s2 p) s2)) else s2)
     in s3\<lparr>hb_timer := Some (jiffies s3 + HB_INTERVAL E)\<rparr>)"
proof -
  obtain i q c t where fr: "snd (snd (send_pkt E (hb_pkt E s) s)) = s\<lparr>inq := i, outq := q, reg := c, ktrace := t\<rparr>"
    using send_frame [of E "hb_pkt E s" s] by blast
  have d: "ucast CAN_MODULE_H8 = (0x1d :: 5 word)" "ucast (0x1d :: 5 word) = (0x1d :: 6 word)"
    by (simp_all add: CAN_MODULE_H8_def)
  have hb: "(stack_pkt E)\<lparr>can := (can (stack_pkt E))\<lparr>dest := ucast (CAN_GET_BOARD_H8 (UNPACK_NODE (can_nodeid s))), clength := 8\<rparr>,
      ext := (ext (stack_pkt E))\<lparr>ctype := CANTYPE_WNA, object := CANOBJ_HEARTBEAT,
        cluster := ucast (UNPACK_CLUSTER (can_nodeid s)), module := ucast (UNPACK_MODULE (can_nodeid s)),
        node := ucast (ucast (CAN_GET_BOARD_H8 (UNPACK_NODE (can_nodeid s))) :: 5 word)\<rparr>, dat := can_hb_val s\<rparr> = hb_pkt E s"
    by (simp add: hb_pkt_def Let_def)
  show ?thesis
    unfolding canobj_send_heartbeat_def Let_def
    by (simp add: hb split_beta fr iam_pkt_def d HB_IAM_FACTOR_def)
qed

text \<open>
  With room for two packets in both queues, each run of the heartbeat timer
  sends one \<^verbatim>\<open>HEARTBEAT\<close> packet with the current value to the board controller of this node,
  re-arms the timer 250 ms ahead, and on every 0x77th run, the first included, also sends an
  \<^verbatim>\<open>IAM\<close> packet with the board type to the module controller, in the name of the board
  controller.
\<close>

theorem heartbeat_schedule:
  assumes wf: "queues_wf s" and room: "length (ring_list (inq s)) + 2 < MAXRING" "length (ring_list (outq s)) + 2 < MAXRING"
  shows "\<exists>hb iam. ring_list (inq (canobj_send_heartbeat E s)) =
        ring_list (inq s) @ hb # (if hb_count s mod 0x77 = 0 then [iam] else [])
    \<and> hb = incoming_fixup s (outgoing_fixup s (hb_pkt E s)) \<and> iam = incoming_fixup s (iam_pkt s hb)
    \<and> hb_timer (canobj_send_heartbeat E s) = Some (jiffies s + (250 * HZ E) div 1000)
    \<and> hb_count (canobj_send_heartbeat E s) = hb_count s + 1"
proof -
  let ?hb = "incoming_fixup s (outgoing_fixup s (hb_pkt E s))"
  note sq = send_queues [OF wf, where E = E and pkt = "hb_pkt E s"]
  obtain i q c t where fr: "snd (snd (send_pkt E (hb_pkt E s) s)) = s\<lparr>inq := i, outq := q, reg := c, ktrace := t\<rparr>"
    using send_frame [of E "hb_pkt E s" s] by blast
  have nf: "\<not> RING_FULL (inq s)" "\<not> RING_FULL (outq s)"
    using wf room by (simp_all add: queues_wf_def ring_full_iff)
  have ok: "fst (send_pkt E (hb_pkt E s) s)" using sq(2) nf by simp
  have iq: "ring_list i = ring_list (inq s) @ [?hb]" "ring_wf i" "ring_wf q"
    using sq(1,3) ok nf by (simp_all add: fr queues_wf_def)
  have "length (ring_list q) \<le> length (ring_list (outq s)) + 1"
    using sq(4,5) ok by (cases "IS_MYPACKET s (hb_pkt E s)") (auto simp: fr)
  then have nf2: "\<not> RING_FULL i" "\<not> RING_FULL q"
    using iq room by (simp_all add: ring_full_iff)
  define s2 where "s2 = s\<lparr>inq := i, outq := q, reg := c, ktrace := t, hb_count := hb_count s + 1\<rparr>"
  have wf2: "queues_wf s2" using iq by (simp add: s2_def queues_wf_def)
  let ?iam = "iam_pkt s2 ?hb"
  note sq2 = send_nof_queues [OF wf2, where E = E and pkt = ?iam]
  have "ring_list (inq (snd (snd (send_pkt_no_out_fixup E ?iam s2)))) = ring_list i @ [incoming_fixup s2 ?iam]"
    using sq2(2,3) nf2 by (simp add: s2_def)
  moreover have "incoming_fixup s2 ?iam = incoming_fixup s (iam_pkt s ?hb)"
    by (simp add: s2_def incoming_fixup_def iam_pkt_def)
  moreover obtain i' q' c' t' where fr2: "snd (snd (send_pkt_no_out_fixup E ?iam s2)) =
      s2\<lparr>inq := i', outq := q', reg := c', ktrace := t'\<rparr>"
    using send_nof_frame [of E ?iam s2] by blast
  moreover have "fst (snd (send_pkt E (hb_pkt E s) s)) = ?hb" by (rule sq(6))
  ultimately show ?thesis
    by (simp add: heartbeat_eq fr Let_def s2_def [symmetric] iq(1)) (simp add: s2_def HB_INTERVAL_def iq(1))
qed

theorem heartbeat_schedule_witness:
  "\<exists>hb iam. ring_list (inq (canobj_send_heartbeat regs_env idle)) = [hb, iam]
     \<and> hb_count (canobj_send_heartbeat regs_env idle) = 1"
proof -
  have "hb_count idle = 0" by (simp add: idle_def cold_def)
  with heartbeat_schedule [OF idle_queues(1), of regs_env] show ?thesis
    by (simp add: idle_queues MAXRING_def)
qed

section \<open>Setting the console devices\<close>

lemma input_table_entry: "obp_numtostr 0 OBP_INPUT_DEVICE_VALUES = Some ''keyboard''"
  by (simp add: obp_numtostr_def OBP_INPUT_DEVICE_VALUES_def)

lemma promdata_acknak [simp]: "promdata (canobj_acknak E ty p d s) = promdata s"
proof -
  obtain i q c t where "snd (snd (send_pkt E (acknak_pkt ty p d) s)) = s\<lparr>inq := i, outq := q, reg := c, ktrace := t\<rparr>"
    using send_frame [of E "acknak_pkt ty p d" s] by blast
  then show ?thesis by (simp add: canobj_acknak_def)
qed

text \<open>
  Resetting the console to device 0 writes the input device's name
  \<^verbatim>\<open>keyboard\<close> into \<^verbatim>\<open>output-device\<close> as well: both options are looked up in the input table.
  The request is acknowledged, but the output option then holds a name that the
  table of output devices does not have, so it reads back as -1.
\<close>

theorem reset_io_output_table:
  assumes P: "prom_stores (prom_of E)"
    and look: "obp_lookup (prom_of E) (promdata s) OBP_INPUT_DEVICE \<noteq> -1"
      "obp_lookup (prom_of E) (promdata s) OBP_OUTPUT_DEVICE \<noteq> -1"
    and get: "obp_getcan (prom_of E) (promdata s) OBP_INPUT_DEVICE OBP_INPUT_DEVICE_VALUES (stack_buf E) = Some old"
    and pkt: "ctype (ext pkt) = CANTYPE_WO" "dat pkt = 0" and b: "length b = OBP_MAXSTR"
  shows "\<exists>t. canobj_reset_io E pkt s = (True, canobj_acknak E CANTYPE_ACK pkt (Some old) t)
    \<and> obp_getcan (prom_of E) (promdata t) OBP_OUTPUT_DEVICE OBP_OUTPUT_DEVICE_VALUES b = Some (-1)"
proof -
  let ?P = "prom_of E"
  let ?kb = "''keyboard'' @ [CHR 0x00]"
  let ?p1 = "snd (obp_setprop ?P (promdata s) OBP_INPUT_DEVICE ?kb)"
  let ?p2 = "snd (obp_setprop ?P ?p1 OBP_OUTPUT_DEVICE ?kb)"
  have len: "length OBP_INPUT_DEVICE \<le> OBP_MAX_PATHLEN" "length OBP_OUTPUT_DEVICE \<le> OBP_MAX_PATHLEN"
    by (simp_all add: obp_paths OBP_MAX_PATHLEN_def)
  have kb: "length ?kb \<le> length b" by (simp add: b OBP_MAXSTR_def)
  have base: "obp_basename OBP_INPUT_DEVICE \<noteq> obp_basename OBP_OUTPUT_DEVICE"
    by (simp add: obp_basename_def obp_paths)
  have r1: "fst (obp_setprop ?P (promdata s) OBP_INPUT_DEVICE ?kb) \<ge> 0"
    using obp_getprop_setprop(2) [OF P look(1) len(1) kb] .
  have look2: "obp_lookup ?P ?p1 OBP_OUTPUT_DEVICE \<noteq> -1"
    using obp_getprop_setprop_other(2) [OF P look(1) len(1) base] look(2) by simp
  have r2: "fst (obp_setprop ?P ?p1 OBP_OUTPUT_DEVICE ?kb) \<ge> 0"
    using obp_getprop_setprop(2) [OF P look2 len(2) kb] .
  have g: "obp_getprop ?P ?p2 OBP_OUTPUT_DEVICE b = (int (length ?kb), ?kb @ drop (length ?kb) b)"
    using obp_getprop_setprop(1) [OF P look2 len(2) kb] .
  have "obp_getcan ?P ?p2 OBP_OUTPUT_DEVICE OBP_OUTPUT_DEVICE_VALUES b = Some (-1)"
    using g b cstr_append_NUL [of "''keyboard''" "drop (length ?kb) b"]
    by (simp add: obp_getcan_def obp_strtonum_def OBP_OUTPUT_DEVICE_VALUES_def)
  moreover have "CANTYPE_WO \<noteq> CANTYPE_RO" by (simp add: CANTYPE_defs)
  ultimately show ?thesis
    using pkt get r1 r2
    by (intro exI [of _ "s\<lparr>promdata := ?p2\<rparr>"])
      (simp add: canobj_reset_io_def Let_def obp_setcan_def input_table_entry split_beta not_less)
qed

theorem reset_io_output_table_witness:
  "\<exists>t. canobj_reset_io regs_env (no_pkt\<lparr>ext := no_ext\<lparr>ctype := CANTYPE_WO\<rparr>\<rparr>) idle =
      (True, canobj_acknak regs_env CANTYPE_ACK (no_pkt\<lparr>ext := no_ext\<lparr>ctype := CANTYPE_WO\<rparr>\<rparr>) (Some (-1)) t)
    \<and> obp_getcan ram_prom (promdata t) OBP_OUTPUT_DEVICE OBP_OUTPUT_DEVICE_VALUES (replicate OBP_MAXSTR CHR ''x'') = Some (-1)"
proof -
  have base: "obp_basename OBP_INPUT_DEVICE = ''input-device''" by (simp add: obp_basename_def obp_paths)
  have ne: "length xs \<noteq> 80 \<Longrightarrow> (xs = replicate 80 c) = False" for xs and c :: char by auto
  have "obp_getcan ram_prom (promdata idle) OBP_INPUT_DEVICE OBP_INPUT_DEVICE_VALUES (stack_buf regs_env) = Some (-1)"
    by (simp add: obp_getcan_def obp_getprop_def Let_def base idle_def cold_def prom0_def regs_env_def OBP_MAXSTR_def
        cstr_def obp_strtonum_def OBP_INPUT_DEVICE_VALUES_def ne)
  then show ?thesis
    using reset_io_output_table [of regs_env idle "-1" "no_pkt\<lparr>ext := no_ext\<lparr>ctype := CANTYPE_WO\<rparr>\<rparr>"
        "replicate OBP_MAXSTR CHR ''x''"] ram_prom_stores
    by (simp add: no_pkt_def)
qed

section \<open>Console data\<close>

text \<open>
  A \<^verbatim>\<open>DAT\<close> packet whose 4-bit length field is 15 makes the driver take 11
  characters from a 4-byte payload: after the four payload bytes, seven bytes of
  whatever follows the packet in memory are appended to the terminal's input.
\<close>

theorem dat_reads_past_packet:
  assumes "console_wf s" "ring_list (cancon_inbuf s) = []" "ttyp s = None"
    and "\<not> CANCON_UNCONNECTED (cancon_rmt s)" "ctype (ext pkt) = CANTYPE_DAT" "clength (can pkt) = 15"
  shows "fst (canobj_dat E pkt s) \<and> ring_list (cancon_inbuf (snd (canobj_dat E pkt s))) =
    map (byte_of (dat pkt)) [0..<4] @ map (after_pkt E) [0..<7]"
proof -
  let ?s = "canobj_acknak E CANTYPE_ACK pkt None s"
  have f: "cancon_inbuf ?s = cancon_inbuf s" "ttyp ?s = None"
    using assms(3) by (simp_all add: canobj_acknak_def send_frame_console)
  have wf: "ring_wf (cancon_inbuf s)" using assms(1) by (simp add: console_wf_def)
  have m: "map (dat_bytes E pkt) [0..<11] = map (byte_of (dat pkt)) [0..<4] @ map (after_pkt E) [0..<7]"
    by (simp add: dat_bytes_def upt_rec)
  have len: "uint (clength (can pkt)) - 4 = 11" using assms(6) by simp
  show ?thesis
    using assms(2,4,5) charq.enq_list_spec [OF wf, of "map (dat_bytes E pkt) [0..<11]"] f
    by (simp add: canobj_dat_def Let_def len cantty_recv_dat_def cantty_recv_push_def m MAXRING_def)
qed

theorem dat_reads_past_packet_witness:
  "ring_list (cancon_inbuf (snd (canobj_dat regs_env (no_pkt\<lparr>can := (can no_pkt)\<lparr>clength := 15\<rparr>,
      ext := no_ext\<lparr>ctype := CANTYPE_DAT\<rparr>\<rparr>) three_chars))) = [0, 0, 0, 0, 0xee, 0xee, 0xee, 0xee, 0xee, 0xee, 0xee]"
proof -
  let ?p = "no_pkt\<lparr>can := (can no_pkt)\<lparr>clength := 15\<rparr>, ext := no_ext\<lparr>ctype := CANTYPE_DAT\<rparr>\<rparr>"
  have "ring_list (cancon_inbuf three_chars) = []" "ttyp three_chars = None"
    by (simp_all add: three_chars_def idle_def cold_def)
  from dat_reads_past_packet [OF three_chars_wf this three_chars_simps(2), of ?p regs_env] show ?thesis
    by (simp add: no_pkt_def byte_of_def regs_env_def upt_rec)
qed

end
