(* ===== verification/CanSource.thy ===== *)
theory CanSource
  imports CanChip CanFiles
begin

text \<open>
  Who a packet on the bus is from: the contract of \<^verbatim>\<open>can_main.c\<close> for properties that do not depend on its files, and with it
  that every packet a node sends has the node's own address as its source.
\<close>

section \<open>Properties that do not depend on the files\<close>

text \<open>
  A property that the layers below keep and that depends only on the queues, the chip, the console, the node's address and the growing trace is
  kept by every operation of the driver.
\<close>

locale main_closed = obj_closed I for I :: "('c, 'p) driver \<Rightarrow> bool" +
  assumes I_cong: "I s \<Longrightarrow> can_nodeid t = can_nodeid s \<Longrightarrow> inq t = inq s \<Longrightarrow> outq t = outq s \<Longrightarrow> reg t = reg s \<Longrightarrow>
      cancon_outbuf t = cancon_outbuf s \<Longrightarrow> cancon_inbuf t = cancon_inbuf s \<Longrightarrow>
      cancon_ack_pending t = cancon_ack_pending s \<Longrightarrow> ack_timer t = ack_timer s \<Longrightarrow> \<exists>e. ktrace t = ktrace s @ e \<Longrightarrow> I t"
begin

lemma I_init_82c200: assumes "I s" shows "I (snd (can_init_82c200 E p s))"
proof -
  obtain c b where "snd (can_init_82c200 E p s) = s\<lparr>reg := c, first_time := b\<rparr>" using init_82c200_frame [of E p s] by blast
  then show ?thesis by (auto intro: I_cong [OF I_reg [OF assms, of c]])
qed

lemma I_open: "I s \<Longrightarrow> can_open a g s = Some (r, t) \<Longrightarrow> I t"
  by (erule I_cong) (auto simp: can_open_def can_alloc_openfd_def Let_def split: option.splits if_splits)

lemma I_usecount: "I s \<Longrightarrow> I (s\<lparr>promiscuous_usecount := n\<rparr>)" "I s \<Longrightarrow> I (set_fs f fs s)"
  by (auto intro: I_cong simp: set_fs_def)

lemma I_free_consobj: "I s \<Longrightarrow> I (can_free_consobj c s)"
  by (erule I_cong) (simp_all add: can_free_consobj_def Let_def)

lemma I_alloc_consobj: "I s \<Longrightarrow> I (snd (can_alloc_consobj s))"
  by (erule I_cong) (simp_all add: can_alloc_consobj_def Let_def split: prod.splits)

lemma I_release:
  assumes "I s" "can_release E f s = Some t"
  shows "I t"
proof -
  have "I (u\<lparr>fstates := F, openfd := T, can_usecount := n, mod_usecount := m\<rparr>)" if "I u" for u F T n m
    using that by (rule I_cong) simp_all
  moreover have "I (u\<lparr>can_usecount := n, mod_usecount := m\<rparr>)" if "I u" for u n m
    using that by (rule I_cong) simp_all
  ultimately show ?thesis
    using assms
    by (auto simp: can_release_def can_release_openfd_def Let_def I_kcall I_free_consobj I_init_82c200 I_usecount
        split: option.splits if_splits)
qed

lemma I_ioctl:
  assumes "I s" "can_ioctl E cmd x ok f s = Some (r, t)"
  shows "I t"
proof -
  have d: "I (s\<lparr>can_debug := b\<rparr>)" "I (s\<lparr>can_hb_val := h\<rparr>)" for b h
    using assms(1) by (auto intro: I_cong)
  then have "I (can_dump_info (s\<lparr>can_debug := b\<rparr>))" for b
    by (simp add: can_dump_info_def Let_def I_kcall I_dump)
  then show ?thesis
    using assms d
    by (auto simp: can_ioctl_def Let_def split_beta canobj_sethbval_def I_kcall I_init_82c200 I_usecount I_free_consobj
        I_alloc_consobj split: ioctl_cmd.splits option.splits if_splits)
qed

lemma I_read:
  assumes "I s" "can_read True fault count [] f s = Some (r, out, t)"
  shows "I t"
proof -
  have "I t" if "can_read_loop True fault n [] f s = Some (r, out, t)" for n
    using that assms(1) unfolding can_read_loop.simps [of True fault n "[]" f s]
    by (auto simp: I_usecount Let_def simp del: can_read_loop.simps split: if_splits option.splits prod.splits sum.splits)
  then show ?thesis using assms by (auto simp: can_read_def simp del: can_read_loop.simps split: if_splits)
qed

lemma I_user_to_outq: "I s \<Longrightarrow> I (snd (user_to_outq_loop E user i n s))"
proof (induction n arbitrary: i s)
  case (Suc n)
  then show ?case using I_send [OF Suc.prems, of E] by (auto simp: split_beta split: option.split)
qed simp

lemma I_can_write: "I s \<Longrightarrow> can_write E True user count [] s = Some (r, t) \<Longrightarrow> I t"
  using I_user_to_outq [of s E user 0 "count div PKTSIZE"]
  by (auto simp: can_write_def user_to_outq_def split: if_splits prod.splits sum.splits)

lemma I_deliver_fds: "I s \<Longrightarrow> deliver_fds pkt is s = Some t \<Longrightarrow> I t"
proof (induction "is" arbitrary: s)
  case (Cons i "is")
  have "I u" if "deliver_fd pkt i s = Some u" for u
    using Cons.prems(1) that by (elim I_cong) (auto simp: deliver_fd_def kcall_def set_fs_def Let_def split: if_splits option.splits prod.splits)
  with Cons show ?case by (auto split: option.splits)
qed simp

lemma I_bh: "I s \<Longrightarrow> can_bh E n s = Some t \<Longrightarrow> I t"
proof (induction n arbitrary: s)
  case (Suc n)
  have wf: "ring_wf (inq s)" using I_queues [OF Suc.prems(1)] by (simp add: queues_wf_def)
  then show ?case
  proof (cases rule: pktq.deq_cases)
    case none
    with Suc.prems show ?thesis by simp
  next
    case (some p q)
    have "I u" if "deliver_pkt E p (s\<lparr>inq := q\<rparr>) = Some u" for u
    proof -
      have "I (if IS_MYPACKET (s\<lparr>inq := q\<rparr>) p then snd (canobj_packet E p (s\<lparr>inq := q\<rparr>)) else s\<lparr>inq := q\<rparr>)"
        using I_inq [OF Suc.prems(1) some(2)] by (simp add: I_packet some(3))
      then show ?thesis using that I_deliver_fds unfolding deliver_pkt_def Let_def by blast
    qed
    with some(1) Suc show ?thesis by (auto split: option.splits)
  qed
qed simp

lemma I_try_recv:
  assumes "I s" "try_recv E n s = Some t"
  shows "I t"
proof -
  have wf: "ring_wf (inq s)" "ring_wf (outq s)" using I_queues [OF assms(1)] by (simp_all add: queues_wf_def)
  obtain j u where u: "try_recv_loop E n 0 s = Some (j, u)" "t = (if j > 0 then kcall QueueBh u else u)"
    using assms(2) by (auto simp: try_recv_def split: option.splits)
  obtain q c where q: "u = s\<lparr>inq := q, reg := c\<rparr>" "ring_wf q" "j = 0 \<Longrightarrow> q = inq s"
    using try_recv_loop_frame [OF wf(1) u(1)] by auto
  have "announced s q (if j > 0 then ktrace s @ [QueueBh] else ktrace s)" using q(3) by (auto simp: announced_def)
  from I_upd [OF assms(1) q(2) wf(2) _ this, of c] show ?thesis by (cases "j > 0") (auto simp: u(2) q(1) kcall_def)
qed

lemma I_intr:
  assumes "I s" "can_intr E n s = Some t"
  shows "I t"
proof -
  have recv: "I u" if "try_recv E n v = Some u" "I v" for u v using that(2,1) by (rule I_try_recv)
  show ?thesis
    using assms(2)
    by (auto simp: can_intr_def Let_def split_beta split: option.splits intro!: I_rd I_try_xmit elim!: recv)
      (auto intro!: I_rd I_kcall I_wr simp: assms(1))
qed

lemma I_tty: assumes "I s" shows "I (cantty_open t s)" "I (cantty_close s)" "I (s\<lparr>jiffies := j\<rparr>)" "I (s\<lparr>ttyp := y\<rparr>)"
  using assms by (auto intro: I_cong simp: cantty_open_def cantty_close_def Let_def)

lemma I_step: "driver_step E s t \<Longrightarrow> I s \<Longrightarrow> I t"
  by (induction rule: driver_step.induct)
    (auto intro: I_open I_release I_ioctl I_read I_can_write I_intr I_bh simp: I_heartbeat I_hb_timer I_recv_ack I_printk_write
      I_write I_put_char I_flush_buffer I_reg I_tty)

end

section \<open>Every packet is authentic\<close>

lemma ucast_node [simp]: "(ucast (ucast (UNPACK_NODE n) :: 5 word) :: u32) = UNPACK_NODE n"
  unfolding ucast_UNPACK_NODE_iff by (auto simp: bit_simps bit_UNPACK_NODE)

definition sources_ok :: "('c, 'p) driver \<Rightarrow> bool" where
  "sources_ok s \<longleftrightarrow> console_wf s \<and> (\<forall>p \<in> set (ring_list (outq s)). authentic s p)"

lemma authentic_cong: "can_nodeid t = can_nodeid s \<Longrightarrow> authentic t p = authentic s p"
  by (simp add: authentic_def own_source_def iam_for_board_def)

interpretation source: main_closed sources_ok
proof
  fix s t :: "('c, 'p) driver"
  assume s: "sources_ok s"
  then have p: "\<forall>p \<in> set (ring_list (outq s)). authentic s p" and w: "console_wf s" by (simp_all add: sources_ok_def)
  have keep: "sources_ok u" if "can_nodeid u = can_nodeid s" "outq u = outq s" "console_wf u" for u :: "('c, 'p) driver"
    using p that authentic_cong [OF that(1)] by (simp add: sources_ok_def)
  show "queues_wf s" "console_wf s" using w by (simp_all add: console_wf_def)
  show "sources_ok (s\<lparr>inq := i, outq := q, reg := c, ktrace := x\<rparr>)"
    if "ring_wf i" "ring_wf q" "set (ring_list q) \<subseteq> set (ring_list (outq s)) \<union> Collect (authentic s)" for i q c x
    using that p w authentic_cong [of "s\<lparr>inq := i, outq := q, reg := c, ktrace := x\<rparr>" s]
    by (auto simp: sources_ok_def console_wf_def queues_wf_def)
  show "sources_ok (s\<lparr>cancon_outbuf := a, cancon_inbuf := b, cancon_ack_pending := pe, ack_timer := ti, ttyp := y\<rparr>)"
    if "ring_wf a" "ring_wf b" "pe \<longleftrightarrow> ti \<noteq> None" for a b pe ti y
    by (rule keep) (use that w in \<open>simp_all add: console_wf_def queues_wf_def\<close>)
  show "sources_ok (s\<lparr>cancon_rmt := r\<rparr>)" for r
    by (rule keep) (use w in \<open>simp_all add: console_wf_def queues_wf_def\<close>)
  show "sources_ok (s\<lparr>hb_timer := h, hb_count := n, testrw_val := v, promdata := d\<rparr>)" for h n v d
    by (rule keep) (use w in \<open>simp_all add: console_wf_def queues_wf_def\<close>)
  show "sources_ok t"
    if "can_nodeid t = can_nodeid s" "inq t = inq s" "outq t = outq s" "reg t = reg s" "cancon_outbuf t = cancon_outbuf s"
      "cancon_inbuf t = cancon_inbuf s" "cancon_ack_pending t = cancon_ack_pending s" "ack_timer t = ack_timer s"
    by (rule keep) (use that w in \<open>simp_all add: console_wf_def queues_wf_def\<close>)
qed

lemma init_objects_outq [simp]: "outq (canobj_init E s) = outq s" "outq (cancon_init E s) = outq s"
  by (simp_all add: canobj_init_def canobj_cancon_host_def cancon_init_def cantty_init_def Let_def split_beta)

lemma init_82c200_outq [simp]: "outq (snd (can_init_82c200 E p s)) = outq s"
  using init_82c200_frame [of E p s] by auto

lemma init_module_sources:
  assumes "loaded s" "init_module E s = (0, t)"
  shows "sources_ok t"
proof -
  have "ring_list (outq t) = []"
    using assms(2)
    by (auto simp: init_module_def Let_def split_beta can_init_openfd_def can_init_consobj_def can_init_queues_def split: if_splits)
  moreover have "console_wf t" by (rule drv.I_console) (rule init_module_inv [OF assms])
  ultimately show ?thesis by (simp add: sources_ok_def)
qed

lemma reach_sources: "driver_reach E s \<Longrightarrow> sources_ok s"
  by (induction rule: driver_reach.induct) (auto intro: init_module_sources source.I_step)

text \<open>
  C7 (sources_authentic): whatever users write to the device and whatever arrives from the bus, in every state the driver reaches the
  packets that wait for the chip, and with them all that \<^verbatim>\<open>try_xmit\<close> hands to the chip, are data packets that have the node's own address as their source. The only
  exception is the \<^verbatim>\<open>IAM\<close> packet to the module's controller, which the heartbeat sends in the name of the board's controller.
\<close>

theorem sources_authentic:
  assumes "driver_reach E s"
  shows "(\<forall>p \<in> set (ring_list (outq s)). remote (can p) = 0 \<and> (src (can p) = ucast (UNPACK_NODE (can_nodeid s)) \<or> iam_for_board s p))
    \<and> (\<exists>ps. reg (try_xmit E s) = snd (reg_read E status (fold (xmit_pkt E) ps (reg s))) \<and> set ps \<subseteq> set (ring_list (outq s)))"
proof -
  have s: "sources_ok s" by (rule reach_sources [OF assms])
  then have wf: "ring_wf (outq s)" by (simp add: sources_ok_def console_wf_def queues_wf_def)
  obtain k where "reg (try_xmit E s) = snd (reg_read E status (fold (xmit_pkt E) (take k (ring_list (outq s))) (reg s)))"
    using try_xmit_chip [OF wf, of E] by (auto simp: Let_def)
  moreover have "set (take k (ring_list (outq s))) \<subseteq> set (ring_list (outq s))" by (rule set_take_subset)
  ultimately show ?thesis using s by (auto simp: sources_ok_def authentic_def own_source_def)
qed

lemma nonblocking_write: "\<exists>r t. can_write E True user count [] s = Some (r, t)"
proof -
  obtain a u where "user_to_outq E user (count div PKTSIZE) s = (a, u)" by fastforce
  then show ?thesis by (cases a) (simp_all add: can_write_def)
qed

theorem sources_authentic_witness:
  "\<exists>r t. can_write regs_env True (\<lambda>i. Some (no_pkt\<lparr>can := (can no_pkt)\<lparr>src := 9, remote := 1\<rparr>\<rparr>)) PKTSIZE []
      (snd (init_module regs_env cold)) = Some (r, t)
    \<and> (\<forall>p \<in> set (ring_list (outq t)). remote (can p) = 0 \<and> (src (can p) = ucast (UNPACK_NODE (can_nodeid t)) \<or> iam_for_board t p))"
proof -
  let ?u = "\<lambda>i. Some (no_pkt\<lparr>can := (can no_pkt)\<lparr>src := 9, remote := 1\<rparr>\<rparr>)"
  obtain r t where w: "can_write regs_env True ?u PKTSIZE [] (snd (init_module regs_env cold)) = Some (r, t)"
    using nonblocking_write by blast
  have "driver_reach regs_env t" by (rule driver_reach.step [OF ready_reach driver_step.write_file [OF w]])
  from sources_authentic [OF this] w show ?thesis by blast
qed

end
