(* ===== verification/CanTask.thy ===== *)
theory CanTask
  imports CanSource
begin

text \<open>
  When the bottom half runs (\<^verbatim>\<open>can_main.c\<close>): the task structure that \<^verbatim>\<open>can_init_bh\<close> fills, its way through the kernel's queue of immediate tasks, and that
  no packet waits in the inbound queue without the bottom half being queued.
\<close>

section \<open>The task\<close>

text \<open>
  A task of the kernel has a link, a mark that it is queued, and the routine with its argument. The queue \<^verbatim>\<open>tq_immediate\<close> and the functions on it are the kernel's
  and parameters: \<open>queue_task\<close> (with \<^verbatim>\<open>mark_bh\<close>), the part of \<^verbatim>\<open>run_task_queue\<close> that takes the task off before it calls the routine, and whether the queue holds the task.
\<close>

record ('c, 'p) tq_struct =
  tq_next :: u32
  tq_sync :: u32
  tq_routine :: "u32 \<Rightarrow> ('c, 'p) driver \<Rightarrow> ('c, 'p) driver option"
  tq_data :: u32

record ('k, 'c, 'p) task_queue =
  queue_task :: "('c, 'p) tq_struct \<Rightarrow> 'k \<Rightarrow> ('c, 'p) tq_struct \<times> 'k"
  take_task :: "('c, 'p) tq_struct \<Rightarrow> 'k \<Rightarrow> ('c, 'p) tq_struct \<times> 'k"
  holds_task :: "'k \<Rightarrow> bool"

text \<open>
  A task that is not marked is queued and marked, a marked one is left alone; a task that is taken off is unmarked first.
\<close>

definition task_laws :: "('k, 'c, 'p) task_queue \<Rightarrow> bool" where
  "task_laws Q \<longleftrightarrow>
     (\<forall>t k. tq_sync t = 0 \<longrightarrow> (\<exists>l k'. queue_task Q t k = (t\<lparr>tq_next := l, tq_sync := 1\<rparr>, k') \<and> holds_task Q k'))
     \<and> (\<forall>t k. tq_sync t \<noteq> 0 \<longrightarrow> queue_task Q t k = (t, k))
     \<and> (\<forall>t k. holds_task Q k \<longrightarrow> (\<exists>l k'. take_task Q t k = (t\<lparr>tq_next := l, tq_sync := 0\<rparr>, k') \<and> \<not> holds_task Q k'))"

definition can_init_bh :: "('c, 'p) env \<Rightarrow> nat \<Rightarrow> ('c, 'p) tq_struct \<Rightarrow> ('c, 'p) tq_struct" where
  "can_init_bh E n t = t\<lparr>tq_next := 0, tq_sync := 0, tq_routine := (\<lambda>_. can_bh E n), tq_data := 0\<rparr>"

section \<open>The driver with its task\<close>

text \<open>The calls of \<open>queue_task\<close> are the events \<open>QueueBh\<close> of the trace. A step of the driver makes those that it adds to the trace.\<close>

definition queue_event :: "('k, 'c, 'p) task_queue \<Rightarrow> kevent \<Rightarrow> ('c, 'p) tq_struct \<times> 'k \<Rightarrow> ('c, 'p) tq_struct \<times> 'k" where
  "queue_event Q e a = (case a of (t, k) \<Rightarrow> if e = QueueBh then queue_task Q t k else (t, k))"

definition new_events :: "('c, 'p) driver \<Rightarrow> ('c, 'p) driver \<Rightarrow> kevent list" where
  "new_events s s' = drop (length (ktrace s)) (ktrace s')"

definition run_bh ::
    "('k, 'c, 'p) task_queue \<Rightarrow> ('c, 'p) driver \<times> ('c, 'p) tq_struct \<times> 'k \<Rightarrow>
     (('c, 'p) driver \<times> ('c, 'p) tq_struct \<times> 'k) option" where
  "run_bh Q a =
     (case a of (s, t, k) \<Rightarrow>
        (case take_task Q t k of (t, k) \<Rightarrow>
           (case tq_routine t (tq_data t) s of
              None \<Rightarrow> None
            | Some s' \<Rightarrow> Some (s', fold (queue_event Q) (new_events s s') (t, k)))))"

text \<open>
  The steps of the driver, the run of the queued task, and other uses of the queue. The steps of the driver include the bottom half at any time, which is more than the kernel does.
\<close>

inductive task_step ::
    "('c, 'p) env \<Rightarrow> ('k, 'c, 'p) task_queue \<Rightarrow> ('c, 'p) driver \<times> ('c, 'p) tq_struct \<times> 'k \<Rightarrow>
     ('c, 'p) driver \<times> ('c, 'p) tq_struct \<times> 'k \<Rightarrow> bool" for E Q where
  work: "driver_step E s s' \<Longrightarrow> task_step E Q (s, t, k) (s', fold (queue_event Q) (new_events s s') (t, k))"
| run: "holds_task Q k \<Longrightarrow> run_bh Q (s, t, k) = Some a \<Longrightarrow> task_step E Q (s, t, k) a"
| others: "holds_task Q k' = holds_task Q k \<Longrightarrow> task_step E Q (s, t, k) (s, t, k')"

inductive task_reach ::
    "('c, 'p) env \<Rightarrow> ('k, 'c, 'p) task_queue \<Rightarrow> nat \<Rightarrow> ('c, 'p) driver \<times> ('c, 'p) tq_struct \<times> 'k \<Rightarrow> bool" for E Q n where
  start: "loaded s \<Longrightarrow> init_module E s = (0, s') \<Longrightarrow> \<not> holds_task Q k \<Longrightarrow> task_reach E Q n (s', can_init_bh E n t, k)"
| step: "task_reach E Q n a \<Longrightarrow> task_step E Q a b \<Longrightarrow> task_reach E Q n b"

section \<open>No packet waits alone\<close>

text \<open>Every operation announces what it adds to the inbound queue.\<close>

definition announces :: "('c, 'p) driver \<Rightarrow> ('c, 'p) driver \<Rightarrow> bool" where
  "announces s s' \<longleftrightarrow> console_wf s' \<and> announced s (inq s') (ktrace s')"

lemma announced_trans: "announced s (inq u) (ktrace u) \<Longrightarrow> announced u i t \<Longrightarrow> announced s i t"
  by (force simp: announced_def)

interpretation announcing: main_closed "announces s0" for s0 :: "('c, 'p) driver"
proof
  fix s t :: "('c, 'p) driver"
  assume s: "announces s0 s"
  then have w: "console_wf s" and a: "announced s0 (inq s) (ktrace s)" by (simp_all add: announces_def)
  have keep: "announces s0 u" if "inq u = inq s" "ktrace u = ktrace s" "console_wf u" for u :: "('c, 'p) driver"
    using a that by (simp add: announces_def)
  show "queues_wf s" "console_wf s" using w by (simp_all add: console_wf_def)
  show "announces s0 (s\<lparr>inq := i, outq := q, reg := c, ktrace := x\<rparr>)"
    if "ring_wf i" "ring_wf q" "announced s i x" for i q c x
    using that w announced_trans [OF a that(3)] by (auto simp: announces_def console_wf_def queues_wf_def)
  show "announces s0 (s\<lparr>cancon_outbuf := b, cancon_inbuf := d, cancon_ack_pending := pe, ack_timer := ti, ttyp := y\<rparr>)"
    if "ring_wf b" "ring_wf d" "pe \<longleftrightarrow> ti \<noteq> None" for b d pe ti y
    by (rule keep) (use that w in \<open>simp_all add: console_wf_def queues_wf_def\<close>)
  show "announces s0 (s\<lparr>cancon_rmt := r\<rparr>)" for r
    by (rule keep) (use w in \<open>simp_all add: console_wf_def queues_wf_def\<close>)
  show "announces s0 (s\<lparr>hb_timer := h, hb_count := n, testrw_val := v, promdata := d\<rparr>)" for h n v d
    by (rule keep) (use w in \<open>simp_all add: console_wf_def queues_wf_def\<close>)
  show "announces s0 t"
    if "inq t = inq s" "outq t = outq s" "cancon_outbuf t = cancon_outbuf s" "cancon_inbuf t = cancon_inbuf s"
      "cancon_ack_pending t = cancon_ack_pending s" "ack_timer t = ack_timer s" "\<exists>e. ktrace t = ktrace s @ e"
    using that w announced_trans [OF a, of "inq t" "ktrace t"] by (auto simp: announces_def console_wf_def queues_wf_def)
qed

lemma step_announces: "driver_step E s t \<Longrightarrow> console_wf s \<Longrightarrow> announced s (inq t) (ktrace t)"
  using announcing.I_step [of E s t s] by (simp add: announces_def)

lemma bh_announces: "can_bh E n s = Some t \<Longrightarrow> console_wf s \<Longrightarrow> announced s (inq t) (ktrace t)"
  by (rule step_announces) (rule driver_step.bh)

definition task_inv :: "('c, 'p) env \<Rightarrow> ('k, 'c, 'p) task_queue \<Rightarrow> nat \<Rightarrow> ('c, 'p) tq_struct \<times> 'k \<Rightarrow> bool" where
  "task_inv E Q n a \<longleftrightarrow> (case a of (t, k) \<Rightarrow> (tq_sync t \<noteq> 0 \<longleftrightarrow> holds_task Q k) \<and> tq_routine t (tq_data t) = can_bh E n)"

lemma queue_events_inv:
  assumes "task_laws Q" "task_inv E Q n a"
  shows "task_inv E Q n (fold (queue_event Q) es a)
    \<and> (holds_task Q (snd (fold (queue_event Q) es a)) \<longleftrightarrow> holds_task Q (snd a) \<or> QueueBh \<in> set es)"
  using assms(2)
proof (induction es arbitrary: a)
  case (Cons e es)
  obtain t k where a: "a = (t, k)" by fastforce
  have "task_inv E Q n (queue_event Q e a) \<and> (holds_task Q (snd (queue_event Q e a)) \<longleftrightarrow> holds_task Q k \<or> e = QueueBh)"
  proof (cases "e = QueueBh \<and> tq_sync t = 0")
    case True
    then obtain l k' where "queue_task Q t k = (t\<lparr>tq_next := l, tq_sync := 1\<rparr>, k')" "holds_task Q k'"
      using assms(1) unfolding task_laws_def by blast
    with True Cons.prems show ?thesis by (simp add: a queue_event_def task_inv_def)
  next
    case False
    then have "e = QueueBh \<Longrightarrow> queue_task Q t k = (t, k)" using assms(1) unfolding task_laws_def by blast
    with False Cons.prems show ?thesis by (auto simp: a queue_event_def task_inv_def)
  qed
  with Cons.IH [of "queue_event Q e a"] show ?case by (auto simp: a)
qed simp

lemma queued_after:
  assumes "task_laws Q" "task_inv E Q n (t, k)" "announced s (inq s') (ktrace s')" "ring_list (inq s) = [] \<or> holds_task Q k" "ring_list (inq s') \<noteq> []"
  shows "holds_task Q (snd (fold (queue_event Q) (new_events s s') (t, k)))"
  using queue_events_inv [OF assms(1,2), of "new_events s s'"] assms(3-5) by (auto simp: announced_def new_events_def)

lemma take_inv:
  assumes "task_laws Q" "task_inv E Q n (t, k)" "holds_task Q k"
  shows "task_inv E Q n (take_task Q t k)" "\<not> holds_task Q (snd (take_task Q t k))"
proof -
  obtain l k' where "take_task Q t k = (t\<lparr>tq_next := l, tq_sync := 0\<rparr>, k')" "\<not> holds_task Q k'"
    using assms(1,3) unfolding task_laws_def by blast
  then show "task_inv E Q n (take_task Q t k)" "\<not> holds_task Q (snd (take_task Q t k))"
    using assms(2) by (simp_all add: task_inv_def)
qed

lemma run_bh_eq:
  assumes "task_laws Q" "task_inv E Q n (t, k)" "holds_task Q k"
  shows "run_bh Q (s, t, k) = map_option (\<lambda>s'. (s', fold (queue_event Q) (new_events s s') (take_task Q t k))) (can_bh E n s)"
  using take_inv(1) [OF assms] by (cases "take_task Q t k") (auto simp: run_bh_def task_inv_def split: option.split)

lemma init_inq [simp]: "inq (canobj_init E s) = inq s" "inq (cancon_init E s) = inq s" "inq (snd (can_init_82c200 E p s)) = inq s"
  using init_82c200_frame [of E p s]
  by (auto simp: canobj_init_def canobj_cancon_host_def cancon_init_def cantty_init_def Let_def split_beta)

lemma init_module_inq: "init_module E s = (0, t) \<Longrightarrow> ring_list (inq t) = []"
  by (auto simp: init_module_def Let_def split_beta can_init_openfd_def can_init_consobj_def can_init_queues_def split: if_splits)

lemma bh_runs:
  assumes "task_laws Q" "task_inv E Q n (t, k)" "holds_task Q k" "driver_inv s" "4 * MAXRING - 3 \<le> n"
  shows "\<exists>s'. run_bh Q (s, t, k) = Some (s', fold (queue_event Q) (new_events s s') (take_task Q t k))
    \<and> can_bh E n s = Some s' \<and> ring_list (inq s') = []"
proof -
  have "bh_potential s < n"
    using bh_potential_bound [OF drv.I_console [OF assms(4)]] assms(5) by (simp add: MAXRING_def)
  from can_bh_ends [OF assms(4) this] show ?thesis by (auto simp: run_bh_eq [OF assms(1-3)])
qed

lemma task_reach_inv:
  assumes "task_laws Q" "4 * MAXRING - 3 \<le> n" "task_reach E Q n a"
  shows "driver_reach E (fst a) \<and> task_inv E Q n (snd a) \<and> (ring_list (inq (fst a)) \<noteq> [] \<longrightarrow> holds_task Q (snd (snd a)))"
  using assms(3)
proof (induction rule: task_reach.induct)
  case (start s s' k t)
  then show ?case by (auto simp: init_module_inq can_init_bh_def task_inv_def intro: driver_reach.start)
next
  case (step a b)
  from step(2,3) show ?case
  proof (induction rule: task_step.induct)
    case (work s s' t k)
    have "announced s (inq s') (ktrace s')"
      using step_announces [OF work(1)] drv.I_console [OF reach_inv, of E s] work(2) by simp
    with work queued_after [OF assms(1), of E n t k s s'] queue_events_inv [OF assms(1), of E n "(t, k)"]
    show ?case by (auto intro: driver_reach.step)
  next
    case (run k s t b)
    then have i: "driver_inv s" "task_inv E Q n (t, k)" by (auto intro: reach_inv)
    obtain s' where "b = (s', fold (queue_event Q) (new_events s s') (take_task Q t k))" "can_bh E n s = Some s'" "ring_list (inq s') = []"
      using bh_runs [OF assms(1) i(2) run(1) i(1) assms(2)] run(2) by auto
    with run i take_inv(1) [OF assms(1) i(2) run(1)] show ?case
      using queue_events_inv [OF assms(1)] by (auto intro: driver_reach.step driver_step.bh)
  next
    case (others k' k s t)
    then show ?case by (simp add: task_inv_def)
  qed
qed


text \<open>A queue for this task alone; a packet to the node itself is written after the start.\<close>

definition one_task :: "(bool, 'c, 'p) task_queue" where
  "one_task = \<lparr>queue_task = (\<lambda>t k. if tq_sync t = 0 then (t\<lparr>tq_next := 0, tq_sync := 1\<rparr>, True) else (t, k)),
     take_task = (\<lambda>t k. (t\<lparr>tq_next := 0, tq_sync := 0\<rparr>, False)), holds_task = (\<lambda>k. k)\<rparr>"


end
