(* ===== verification/UserLib.thy ===== *)
theory UserLib
  imports Packet
begin

text \<open>
  The user-level library \<^verbatim>\<open>cmd/can.c\<close> on which the commands are built: sending, receiving
  and acknowledging packets through \<^verbatim>\<open>/dev/can\<close>, the host and object databases, and the
  names of message types and heartbeat states.

  The system calls are a parameter (\<open>os\<close>) over an arbitrary world; a failing \<^verbatim>\<open>assert\<close>, an
  \<^verbatim>\<open>exit\<close> and an access outside a buffer are errors. \<open>uninit\<close> stands for the contents
  of packets on the stack that the code has not stored to.
\<close>

section \<open>System calls and library state\<close>

datatype lib_error = AssertFail | ExitWith int | BufferOverflow

record 'w os =
  sys_get_addr :: "'w \<Rightarrow> u32 option \<times> 'w"
  sys_write :: "can_packet \<Rightarrow> 'w \<Rightarrow> int \<times> 'w"
  sys_read :: "'w \<Rightarrow> int \<times> can_packet \<times> 'w"
  offsets :: "string \<Rightarrow> int"
  uninit :: can_packet

record 'w lib =
  nodeid :: u32
  initialized :: bool
  world :: 'w

definition PKTSIZE_user :: int where "PKTSIZE_user = 16"

definition lib_initialize :: "'w os \<Rightarrow> 'w lib \<Rightarrow> lib_error + 'w lib" where
  "lib_initialize os l =
     (if can_checkalign (offsets os) \<noteq> 0 then Inl AssertFail
      else (case sys_get_addr os (world l) of
              (None, w) \<Rightarrow> Inl (ExitWith 1)
            | (Some a, w) \<Rightarrow> Inr (l\<lparr>nodeid := a, world := w, initialized := True\<rparr>)))"

definition lib_ready :: "'w os \<Rightarrow> 'w lib \<Rightarrow> lib_error + 'w lib" where
  "lib_ready os l = (if \<not> initialized l then lib_initialize os l else Inr l)"

text \<open>\<^verbatim>\<open>write\<close> of one packet with the assertion on its result.\<close>

definition write_pkt :: "'w os \<Rightarrow> can_packet \<Rightarrow> 'w lib \<Rightarrow> lib_error + int \<times> 'w lib" where
  "write_pkt os pkt l =
     (case sys_write os pkt (world l) of (n, w) \<Rightarrow>
        if n = -1 \<or> n = PKTSIZE_user then Inr (n, l\<lparr>world := w\<rparr>) else Inl AssertFail)"

section \<open>Sending\<close>

definition can_ack ::
    "'w os \<Rightarrow> can_dat option \<Rightarrow> int \<Rightarrow> int \<Rightarrow> can_packet \<Rightarrow> 'w lib \<Rightarrow>
     lib_error + int \<times> can_packet \<times> 'w lib" where
  "can_ack os d len acknak ack l =
     (case lib_ready os l of
        Inl e \<Rightarrow> Inl e
      | Inr l \<Rightarrow>
          (let ack = ack\<lparr>can := (can ack)\<lparr>clength := word_of_int (4 + len)\<rparr>,
                         ext := (ext ack)\<lparr>ctype := word_of_int acknak\<rparr>\<rparr>;
               ack = (case d of Some v \<Rightarrow> if len > 0 then ack\<lparr>dat := v\<rparr> else ack | None \<Rightarrow> ack)
           in case write_pkt os ack l of Inl e \<Rightarrow> Inl e | Inr (n, l) \<Rightarrow> Inr (n, ack, l)))"

definition can_send ::
    "'w os \<Rightarrow> can_header_ext \<Rightarrow> can_dat option \<Rightarrow> int \<Rightarrow> 'w lib \<Rightarrow> lib_error + int \<times> 'w lib" where
  "can_send os x d len l =
     (case lib_ready os l of
        Inl e \<Rightarrow> Inl e
      | Inr l \<Rightarrow>
          (let c = UNPACK_CLUSTER (nodeid l); m = UNPACK_MODULE (nodeid l);
               pkt = uninit os;
               pkt = pkt\<lparr>can := (can pkt)\<lparr>lpriority := CAN_HIGH_PRIORITY, clength := word_of_int (4 + len),
                 dest := (if m = ucast (module x) \<and> c = ucast (cluster x) then ucast (node x)
                          else ucast CAN_MODULE_H8)\<rparr>\<rparr>;
               pkt = pkt\<lparr>ext := x\<rparr>;
               pkt = (case d of Some v \<Rightarrow> if len > 0 then pkt\<lparr>dat := v\<rparr> else pkt | None \<Rightarrow> pkt)
           in write_pkt os pkt l))"

section \<open>Receiving\<close>

definition ACKABLE :: "3 word \<Rightarrow> bool" where
  "ACKABLE t \<longleftrightarrow> t = CANTYPE_RO \<or> t = CANTYPE_WO \<or> t = CANTYPE_DAT"

definition ISACKNAK :: "3 word \<Rightarrow> bool" where
  "ISACKNAK t \<longleftrightarrow> t = CANTYPE_ACK \<or> t = CANTYPE_NAK"

text \<open>
  \<open>can_recv\<close> takes the caller's variables \<open>out\<close> (header, payload, length) and acknowledgement
  packet, and returns them as it leaves them. When the read fails the packet is
  whatever the stack holds, but the acknowledgement is built from it all the same.
\<close>

definition can_recv ::
    "'w os \<Rightarrow> can_header_ext \<times> can_dat \<times> int \<Rightarrow> can_packet option \<Rightarrow> 'w lib \<Rightarrow>
     lib_error + int \<times> (can_header_ext \<times> can_dat \<times> int) \<times> can_packet option \<times> 'w lib" where
  "can_recv os out ack l =
     (case lib_ready os l of
        Inl e \<Rightarrow> Inl e
      | Inr l \<Rightarrow>
          (case sys_read os (world l) of (n, p, w) \<Rightarrow>
             if n \<noteq> -1 \<and> n \<noteq> PKTSIZE_user then Inl AssertFail
             else
               (let pkt = (if n = PKTSIZE_user then p else uninit os);
                    out = (if n = PKTSIZE_user then (ext pkt, dat pkt, uint (clength (can pkt)) - 4) else out);
                    ack = (case ack of
                             None \<Rightarrow> None
                           | Some a \<Rightarrow>
                               if ACKABLE (ctype (ext pkt)) then
                                 Some (a\<lparr>can := (can a)\<lparr>lpriority := CAN_HIGH_PRIORITY, clength := 4,
                                                         dest := src (can pkt)\<rparr>,
                                         ext := (ext pkt)\<lparr>ctype := CANTYPE_ACK\<rparr>\<rparr>)
                               else Some a)
                in Inr (n, out, ack, l\<lparr>world := w\<rparr>))))"

text \<open>The four comparisons of \<open>can_recv_ack\<close> after the type test.\<close>

definition same_addr :: "can_header_ext \<Rightarrow> can_header_ext \<Rightarrow> bool" where
  "same_addr a b \<longleftrightarrow> object a = object b \<and> cluster a = cluster b \<and> module a = module b \<and> node a = node b"

text \<open>
  \<open>can_recv_ack\<close> loops until a matching answer arrives or a read fails; \<open>n\<close> bounds the packets
  it looks at, and \<open>None\<close> means that it is still waiting after that many. Its own test of
  \<^verbatim>\<open>initialized\<close> is the one of its first call of \<open>can_recv\<close>.
\<close>

fun can_recv_ack ::
    "'w os \<Rightarrow> nat \<Rightarrow> can_header_ext \<Rightarrow> can_dat \<Rightarrow> int \<Rightarrow> 'w lib \<Rightarrow>
     (lib_error + int \<times> can_header_ext \<times> can_dat \<times> int \<times> 'w lib) option" where
  "can_recv_ack os 0 x d len l = None"
| "can_recv_ack os (Suc n) x d len l =
     (case can_recv os (ext (uninit os), dat (uninit os), 0) None l of
        Inl e \<Rightarrow> Some (Inl e)
      | Inr (nb, (lext, ldat, llen), _, l) \<Rightarrow>
          if nb = -1 then Some (Inr (nb, x, d, len, l))
          else if ISACKNAK (ctype lext) \<and> same_addr lext x
          then Some (Inr (nb, x\<lparr>ctype := ctype lext\<rparr>, ldat, llen, l))
          else can_recv_ack os n x d len l)"

section \<open>The databases\<close>

record canhostname =
  h_cluster :: int
  h_module :: int
  h_node :: int
  hostname :: string

record canobj =
  obj_id :: int
  obj_name :: string

definition MAXHOSTNAMELEN :: nat where "MAXHOSTNAMELEN = 128"
definition BSIZE :: nat where "BSIZE = 255"

text \<open>\<^verbatim>\<open>fgets\<close>: the pieces of at most \<^verbatim>\<open>BSIZE - 1\<close> characters, each ending at a newline if it has one.\<close>

definition NL :: char where "NL = CHR 0x0a"

fun fgets_piece :: "nat \<Rightarrow> string \<Rightarrow> string \<times> string" where
  "fgets_piece 0 cs = ([], cs)"
| "fgets_piece (Suc n) [] = ([], [])"
| "fgets_piece (Suc n) (c # cs) =
     (if c = NL then ([c], cs) else (case fgets_piece n cs of (p, r) \<Rightarrow> (c # p, r)))"

lemma fgets_piece_length: "length (snd (fgets_piece n cs)) \<le> length cs"
  by (induction n cs rule: fgets_piece.induct) (auto split: prod.splits)

lemma fgets_piece_shrinks: "cs \<noteq> [] \<Longrightarrow> length (snd (fgets_piece (Suc n) cs)) < length cs"
  using fgets_piece_length [of n "tl cs"] by (cases cs) (auto split: prod.splits)

function fgets_all :: "string \<Rightarrow> string list" where
  "fgets_all cs =
     (if cs = [] then []
      else (case fgets_piece (BSIZE - 1) cs of (p, r) \<Rightarrow> p # fgets_all r))"
  by pat_completeness auto
termination
proof (relation "measure length")
  fix cs p r assume "cs \<noteq> []" "(p, r) = fgets_piece (BSIZE - 1) cs"
  then show "(r, cs) \<in> measure length"
    using fgets_piece_shrinks [of cs "BSIZE - 2"] by (simp add: BSIZE_def) (metis snd_conv)
qed simp

declare fgets_all.simps [simp del]

text \<open>
  The conversions of \<^verbatim>\<open>sscanf\<close> the library uses: \<^verbatim>\<open>%s\<close> skips white space and takes the characters
  up to the next; \<^verbatim>\<open>%x\<close> skips white space, an optional sign and an optional \<^verbatim>\<open>0x\<close>, and takes
  at least one hexadecimal digit, as a 32-bit number that stops at its largest value.
\<close>

definition is_space :: "char \<Rightarrow> bool" where
  "is_space c \<longleftrightarrow> (of_char c :: nat) = 32 \<or> 9 \<le> (of_char c :: nat) \<and> (of_char c :: nat) \<le> 13"

definition scan_s :: "string \<Rightarrow> (string \<times> string) option" where
  "scan_s cs =
     (let r = dropWhile is_space cs
      in if r = [] then None else Some (takeWhile (\<lambda>c. \<not> is_space c) r, dropWhile (\<lambda>c. \<not> is_space c) r))"

definition hex_digit :: "char \<Rightarrow> nat option" where
  "hex_digit c =
     (let n = (of_char c :: nat)
      in if 48 \<le> n \<and> n \<le> 57 then Some (n - 48)
         else if 97 \<le> n \<and> n \<le> 102 then Some (n - 87)
         else if 65 \<le> n \<and> n \<le> 70 then Some (n - 55) else None)"

definition hex_value :: "string \<Rightarrow> nat" where
  "hex_value ds = foldl (\<lambda>v c. 16 * v + the (hex_digit c)) 0 ds"

definition scan_x :: "string \<Rightarrow> (u32 \<times> string) option" where
  "scan_x cs =
     (let r = dropWhile is_space cs;
          neg = (r \<noteq> [] \<and> hd r = CHR ''-'');
          r = (if r \<noteq> [] \<and> (hd r = CHR ''-'' \<or> hd r = CHR ''+'') then tl r else r);
          r = (if take 2 r = ''0x'' \<or> take 2 r = ''0X'' then drop 2 r else r);
          ds = takeWhile (\<lambda>c. hex_digit c \<noteq> None) r;
          n = hex_value ds;
          v = (if n < 2 ^ 32 then if neg then - of_nat n else of_nat n else 0xffffffff)
      in if ds = [] then None else Some (v, dropWhile (\<lambda>c. hex_digit c \<noteq> None) r))"

definition scan_comma :: "string \<Rightarrow> string option" where
  "scan_comma cs = (case cs of [] \<Rightarrow> None | c # r \<Rightarrow> if c = CHR '','' then Some r else None)"

text \<open>\<^verbatim>\<open>sscanf(buf, "%s %s", canid, hostname)\<close> and \<^verbatim>\<open>sscanf(canid, "%x,%x,%x", \&c, \&m, \&n)\<close>, \<open>None\<close> unless all items convert.\<close>

definition scan_two_words :: "string \<Rightarrow> (string \<times> string) option" where
  "scan_two_words cs =
     (case scan_s cs of None \<Rightarrow> None
      | Some (a, r) \<Rightarrow> (case scan_s r of None \<Rightarrow> None | Some (b, _) \<Rightarrow> Some (a, b)))"

definition scan_canid :: "string \<Rightarrow> (u32 \<times> u32 \<times> u32) option" where
  "scan_canid cs =
     (case scan_x cs of None \<Rightarrow> None | Some (c, r) \<Rightarrow>
      (case scan_comma r of None \<Rightarrow> None | Some r \<Rightarrow>
       (case scan_x r of None \<Rightarrow> None | Some (m, r) \<Rightarrow>
        (case scan_comma r of None \<Rightarrow> None | Some r \<Rightarrow>
         (case scan_x r of None \<Rightarrow> None | Some (n, _) \<Rightarrow> Some (c, m, n))))))"

text \<open>
  The host lookups scan the whole file and keep the last match; the object lookups stop
  at the first. A second word that does not fit its 128-character buffer overflows it.
  \<open>file\<close> is the contents of the database, \<open>None\<close> if it cannot be opened; the result \<open>None\<close>
  is the return value -1.
\<close>

fun gethost_loop ::
    "(string \<Rightarrow> u32 \<times> u32 \<times> u32 \<Rightarrow> bool) \<Rightarrow> string list \<Rightarrow> canhostname option \<Rightarrow>
     lib_error + canhostname option" where
  "gethost_loop sel [] found = Inr found"
| "gethost_loop sel (b # bs) found =
     (case scan_two_words (cstr b) of
        None \<Rightarrow> gethost_loop sel bs found
      | Some (canid, h) \<Rightarrow>
          if MAXHOSTNAMELEN \<le> length h then Inl BufferOverflow
          else (case scan_canid canid of
                  None \<Rightarrow> gethost_loop sel bs found
                | Some (c, m, n) \<Rightarrow>
                    gethost_loop sel bs
                      (if sel h (c, m, n)
                       then Some \<lparr>h_cluster = sint c, h_module = sint m, h_node = sint n, hostname = h\<rparr>
                       else found)))"

definition can_gethostbyname :: "string option \<Rightarrow> string \<Rightarrow> lib_error + canhostname option" where
  "can_gethostbyname file name =
     (case file of None \<Rightarrow> Inr None | Some f \<Rightarrow> gethost_loop (\<lambda>h _. h = name) (fgets_all f) None)"

definition can_gethostbyaddr ::
    "string option \<Rightarrow> int \<Rightarrow> int \<Rightarrow> int \<Rightarrow> lib_error + canhostname option" where
  "can_gethostbyaddr file c m n =
     (case file of None \<Rightarrow> Inr None
      | Some f \<Rightarrow> gethost_loop (\<lambda>_ a. a = (word_of_int c, word_of_int m, word_of_int n)) (fgets_all f) None)"

definition tolower :: "char \<Rightarrow> char" where
  "tolower c = (if 65 \<le> (of_char c :: nat) \<and> (of_char c :: nat) \<le> 90 then char_of ((of_char c :: nat) + 32) else c)"

definition strcaseeq :: "string \<Rightarrow> string \<Rightarrow> bool" where
  "strcaseeq a b \<longleftrightarrow> map tolower a = map tolower b"

fun getobj_loop :: "(u32 \<Rightarrow> string \<Rightarrow> bool) \<Rightarrow> string list \<Rightarrow> lib_error + canobj option" where
  "getobj_loop sel [] = Inr None"
| "getobj_loop sel (b # bs) =
     (case scan_x (cstr b) of
        None \<Rightarrow> getobj_loop sel bs
      | Some (i, r) \<Rightarrow>
          (case scan_s r of
             None \<Rightarrow> getobj_loop sel bs
           | Some (nm, _) \<Rightarrow>
               if MAXHOSTNAMELEN \<le> length nm then Inl BufferOverflow
               else if sel i nm then Inr (Some \<lparr>obj_id = sint i, obj_name = nm\<rparr>)
               else getobj_loop sel bs))"

definition can_getobjbyname :: "string option \<Rightarrow> string \<Rightarrow> lib_error + canobj option" where
  "can_getobjbyname file name =
     (case file of None \<Rightarrow> Inr None | Some f \<Rightarrow> getobj_loop (\<lambda>_ nm. strcaseeq nm name) (fgets_all f))"

definition can_getobjbyid :: "string option \<Rightarrow> int \<Rightarrow> lib_error + canobj option" where
  "can_getobjbyid file i =
     (case file of None \<Rightarrow> Inr None | Some f \<Rightarrow> getobj_loop (\<lambda>j _. sint j = i) (fgets_all f))"

section \<open>Names\<close>

definition can_type2str :: "int \<Rightarrow> string" where
  "can_type2str type =
     (let t = (word_of_int type :: 3 word)
      in if t = CANTYPE_RO then ''RO'' else if t = CANTYPE_WO then ''WO''
         else if t = CANTYPE_WNA then ''WNA'' else if t = CANTYPE_DAT then ''DAT''
         else if t = CANTYPE_ACK then ''ACK'' else if t = CANTYPE_NAK then ''NAK''
         else if t = CANTYPE_SIG then ''SIG'' else ''[?]'')"

definition can_str2type :: "string \<Rightarrow> int" where
  "can_str2type s =
     (if strcaseeq s ''wo'' then uint CANTYPE_WO
      else if strcaseeq s ''ro'' then uint CANTYPE_RO
      else if strcaseeq s ''wna'' then uint CANTYPE_WNA
      else if strcaseeq s ''dat'' then uint CANTYPE_DAT
      else if strcaseeq s ''ack'' then uint CANTYPE_ACK
      else if strcaseeq s ''nak'' then uint CANTYPE_NAK
      else if strcaseeq s ''sig'' then uint CANTYPE_SIG else -1)"

definition hb_names :: "string list" where
  "hb_names =
     [''held in reset'', ''at OK'', ''running remote self test'', ''ROM loading external code'',
      ''ROM about to run external code'', ''OS called panic'', ''disk needs checking'',
      ''the can module has been loaded'', ''UNIX running single user'', ''UNIX going to run level 0'',
      ''UNIX running at level 1'', ''UNIX running at level 2'', ''UNIX running at level 3'',
      ''UNIX running at level 4'', ''UNIX running at level 5'', ''UNIX running at level 6'',
      ''module power is bad'', ''processor is configured out'', ''processor is running vrom'',
      ''H8 did not respond to request'', ''module is not responding'']"

definition hbstr :: "string option list" where
  "hbstr = map Some hb_names @ replicate 11 None"

definition HB_TO_STATUS :: "u32 \<Rightarrow> nat" where
  "HB_TO_STATUS hb = unat (drop_bit 2 hb AND 0x1f)"

definition STATUS_TO_HB :: "nat \<Rightarrow> u32" where
  "STATUS_TO_HB st = push_bit 2 (of_nat st)"

definition HB_NUMSTATES :: nat where "HB_NUMSTATES = 0x20"

definition can_hb2str :: "u32 \<Rightarrow> string option" where
  "can_hb2str hb = hbstr ! HB_TO_STATUS hb"

fun str2hb_loop :: "string \<Rightarrow> nat \<Rightarrow> string option list \<Rightarrow> u32 option" where
  "str2hb_loop str i [] = None"
| "str2hb_loop str i (None # ss) = None"
| "str2hb_loop str i (Some s # ss) =
     (if strcaseeq str s then Some (STATUS_TO_HB i) else str2hb_loop str (Suc i) ss)"

definition can_str2hb :: "string \<Rightarrow> u32 option" where
  "can_str2hb str = str2hb_loop str 0 (take HB_NUMSTATES hbstr)"

section \<open>Requests and answers\<close>

text \<open>The packets \<open>ps\<close> are what the next reads return, one each; the result is the world after them.\<close>

fun reads :: "'w os \<Rightarrow> 'w \<Rightarrow> can_packet list \<Rightarrow> 'w option" where
  "reads os w [] = Some w"
| "reads os w (p # ps) =
     (case sys_read os w of (n, q, w) \<Rightarrow> if n = PKTSIZE_user \<and> q = p then reads os w ps else None)"

definition answer_for :: "can_header_ext \<Rightarrow> can_packet \<Rightarrow> bool" where
  "answer_for x p \<longleftrightarrow> ISACKNAK (ctype (ext p)) \<and> same_addr (ext p) x"

text \<open>A world for the examples: an inbox, and writes that succeed.\<close>

definition request :: can_header_ext where
  "request = \<lparr>xpriority = 0, ctype = CANTYPE_RO, cluster = 1, module = 2, node = 3, object = 0x3ff\<rparr>"

definition request_pkt :: can_packet where
  "request_pkt = \<lparr>timestamp = 0, can = \<lparr>lpriority = 0, dest = 3, src = 5, remote = 0, clength = 4\<rparr>,
                  ext = request, dat = 0\<rparr>"

definition answer_pkt :: can_packet where
  "answer_pkt = \<lparr>timestamp = 0, can = \<lparr>lpriority = 0, dest = 5, src = 3, remote = 0, clength = 8\<rparr>,
                 ext = request\<lparr>ctype := CANTYPE_ACK\<rparr>, dat = 0x12345678\<rparr>"

definition inbox_os :: "can_packet list os" where
  "inbox_os = \<lparr>sys_get_addr = (\<lambda>w. (Some 0, w)), sys_write = (\<lambda>p w. (16, w)),
     sys_read = (\<lambda>w. case w of [] \<Rightarrow> (- 1, request_pkt, w) | p # ps \<Rightarrow> (16, p, ps)),
     offsets = (\<lambda>_. 0), uninit = request_pkt\<rparr>"

definition inbox_lib :: "can_packet list \<Rightarrow> can_packet list lib" where
  "inbox_lib ps = \<lparr>nodeid = 0, initialized = True, world = ps\<rparr>"

lemmas sample_lib_defs = inbox_os_def inbox_lib_def request_def request_pkt_def answer_pkt_def

lemma can_recv_reads:
  "initialized l \<Longrightarrow> sys_read os (world l) = (PKTSIZE_user, p, w) \<Longrightarrow>
   can_recv os out None l = Inr (PKTSIZE_user, (ext p, dat p, uint (clength (can p)) - 4), None, l\<lparr>world := w\<rparr>)"
  by (simp add: can_recv_def lib_ready_def)

lemma recv_ack_skips:
  "initialized l \<Longrightarrow> reads os (world l) ps = Some w \<Longrightarrow> \<forall>p \<in> set ps. \<not> answer_for x p \<Longrightarrow>
   can_recv_ack os (length ps + n) x d len l = can_recv_ack os n x d len (l\<lparr>world := w\<rparr>)"
proof (induction ps arbitrary: l)
  case (Cons p ps)
  then obtain w1 where w1: "sys_read os (world l) = (PKTSIZE_user, p, w1)" "reads os w1 ps = Some w"
    by (auto split: prod.splits if_splits)
  then have "can_recv_ack os (length (p # ps) + n) x d len l = can_recv_ack os (length ps + n) x d len (l\<lparr>world := w1\<rparr>)"
    using Cons.prems can_recv_reads [of l os p w1] by (auto simp: answer_for_def PKTSIZE_user_def)
  also have "\<dots> = can_recv_ack os n x d len (l\<lparr>world := w1\<rparr>\<lparr>world := w\<rparr>)"
    using Cons.IH [of "l\<lparr>world := w1\<rparr>"] Cons.prems w1 by simp
  finally show ?case by simp
next
  case (Nil l)
  then show ?case by (cases l) simp
qed

lemma recv_ack_more_fuel:
  "can_recv_ack os n x d len l = Some r \<Longrightarrow> can_recv_ack os (n + k) x d len l = Some r"
  by (induction os n x d len l rule: can_recv_ack.induct) (auto split: sum.splits prod.splits if_splits)

text \<open>
  C37 (recv_ack_first_answer): when the packets that arrive are some that do not answer the request \<open>x\<close>, followed
  by one that does, \<^verbatim>\<open>can_recv_ack\<close> skips the former, returns the type, the data and the length of
  the latter, and reads nothing after it; one loop iteration per packet is enough.
\<close>

theorem recv_ack_first_answer:
  assumes "initialized l" "reads os (world l) (ps @ [p]) = Some w"
    and "\<forall>q \<in> set ps. \<not> answer_for x q" "answer_for x p" "length ps < n"
  shows "can_recv_ack os n x d len l =
           Some (Inr (PKTSIZE_user, x\<lparr>ctype := ctype (ext p)\<rparr>, dat p, uint (clength (can p)) - 4, l\<lparr>world := w\<rparr>))"
proof -
  have "reads os v (ps @ [p]) = Some w \<Longrightarrow> \<exists>w1. reads os v ps = Some w1 \<and> sys_read os w1 = (PKTSIZE_user, p, w)" for v
    by (induction ps arbitrary: v) (auto split: prod.splits if_splits)
  then obtain w1 where w1: "reads os (world l) ps = Some w1" "sys_read os w1 = (PKTSIZE_user, p, w)"
    using assms(2) by blast
  have "can_recv_ack os (length ps + 1) x d len l = can_recv_ack os 1 x d len (l\<lparr>world := w1\<rparr>)"
    using recv_ack_skips [OF assms(1) w1(1) assms(3), of 1] .
  also have "\<dots> = Some (Inr (PKTSIZE_user, x\<lparr>ctype := ctype (ext p)\<rparr>, dat p, uint (clength (can p)) - 4, l\<lparr>world := w\<rparr>))"
    using can_recv_reads [of "l\<lparr>world := w1\<rparr>" os p w] w1 assms by (simp add: answer_for_def PKTSIZE_user_def)
  finally show ?thesis
    using recv_ack_more_fuel [of os "length ps + 1" x d len l _ "n - (length ps + 1)"] assms(5) by simp
qed

theorem recv_ack_first_answer_witness:
  "can_recv_ack inbox_os 2 request 0 0 (inbox_lib [request_pkt, answer_pkt])
     = Some (Inr (16, request\<lparr>ctype := CANTYPE_ACK\<rparr>, dat answer_pkt, 4, inbox_lib []))"
proof -
  have "reads inbox_os (world (inbox_lib [request_pkt, answer_pkt])) ([request_pkt] @ [answer_pkt]) = Some []"
    by (simp add: sample_lib_defs PKTSIZE_user_def)
  from recv_ack_first_answer [OF _ this, of request 2] show ?thesis
    by (simp add: sample_lib_defs PKTSIZE_user_def answer_for_def ISACKNAK_def same_addr_def CANTYPE_defs)
qed

text \<open>
  An acknowledgement or refusal that a server builds with \<^verbatim>\<open>can_recv\<close>
  and sends with \<^verbatim>\<open>can_ack\<close> goes to the node the request came from, carries the server's data, and
  is one that \<^verbatim>\<open>can_recv_ack\<close> of the requester accepts as the answer.
\<close>

theorem answer_matches_request:
  assumes "initialized l" "sys_read os (world l) = (PKTSIZE_user, q, w)" "ACKABLE (ctype (ext q))"
    and "\<forall>p. fst (sys_write os p w) = - 1 \<or> fst (sys_write os p w) = PKTSIZE_user"
    and "acknak = uint CANTYPE_ACK \<or> acknak = uint CANTYPE_NAK" "0 < len" "len \<le> 4"
  shows "\<exists>a' l' p. can_recv os out (Some a) l
             = Inr (PKTSIZE_user, (ext q, dat q, uint (clength (can q)) - 4), Some a', l')
           \<and> can_ack os (Some v) len acknak a' l'
             = Inr (fst (sys_write os p w), p, l'\<lparr>world := snd (sys_write os p w)\<rparr>)
           \<and> answer_for (ext q) p \<and> uint (ctype (ext p)) = acknak
           \<and> dest (can p) = src (can q) \<and> dat p = v \<and> uint (clength (can p)) - 4 = len"
proof -
  define a' where "a' = a\<lparr>can := (can a)\<lparr>lpriority := CAN_HIGH_PRIORITY, clength := 4, dest := src (can q)\<rparr>,
                         ext := (ext q)\<lparr>ctype := CANTYPE_ACK\<rparr>\<rparr>"
  define p where "p = a'\<lparr>can := (can a')\<lparr>clength := word_of_int (4 + len)\<rparr>,
                         ext := (ext a')\<lparr>ctype := word_of_int acknak\<rparr>, dat := v\<rparr>"
  have "can_recv os out (Some a) l
          = Inr (PKTSIZE_user, (ext q, dat q, uint (clength (can q)) - 4), Some a', l\<lparr>world := w\<rparr>)"
    using assms(1-3) by (simp add: can_recv_def lib_ready_def a'_def)
  moreover have "can_ack os (Some v) len acknak a' (l\<lparr>world := w\<rparr>)
          = Inr (fst (sys_write os p w), p, l\<lparr>world := w\<rparr>\<lparr>world := snd (sys_write os p w)\<rparr>)"
    using assms(1,4,6) by (simp add: can_ack_def lib_ready_def write_pkt_def p_def Let_def prod.case_eq_if)
  moreover have "answer_for (ext q) p" "uint (ctype (ext p)) = acknak"
    using assms(5) by (auto simp: answer_for_def ISACKNAK_def same_addr_def p_def a'_def)
  moreover have "uint (clength (can p)) - 4 = len"
  proof -
    have "uint (word_of_int (4 + len) :: 4 word) = 4 + len"
      using assms(6,7) by (simp only: uint_word_of_int) simp
    then show ?thesis by (simp only: p_def) simp
  qed
  moreover have "dest (can p) = src (can q)" "dat p = v" by (simp_all add: p_def a'_def)
  ultimately show ?thesis by blast
qed

theorem answer_matches_request_witness:
  "\<exists>a' l' p. can_recv inbox_os (request, 0, 0) (Some request_pkt) (inbox_lib [request_pkt])
             = Inr (16, (request, 0, 0), Some a', l')
           \<and> can_ack inbox_os (Some 7) 4 (uint CANTYPE_ACK) a' l' = Inr (16, p, l'\<lparr>world := []\<rparr>)
           \<and> answer_for request p \<and> dest (can p) = 5 \<and> dat p = 7"
proof -
  have r: "sys_read inbox_os (world (inbox_lib [request_pkt])) = (PKTSIZE_user, request_pkt, [])"
      "sys_write inbox_os p [] = (PKTSIZE_user, [])" for p
    by (simp_all add: inbox_os_def inbox_lib_def PKTSIZE_user_def)
  have "initialized (inbox_lib [request_pkt])" by (simp add: inbox_lib_def)
  from answer_matches_request [OF this r(1), of "uint CANTYPE_ACK" 4 "(request, 0, 0)" request_pkt 7]
  have "\<exists>a' l' p. can_recv inbox_os (request, 0, 0) (Some request_pkt) (inbox_lib [request_pkt])
             = Inr (PKTSIZE_user, (ext request_pkt, dat request_pkt, uint (clength (can request_pkt)) - 4), Some a', l')
           \<and> can_ack inbox_os (Some 7) 4 (uint CANTYPE_ACK) a' l' = Inr (PKTSIZE_user, p, l'\<lparr>world := []\<rparr>)
           \<and> answer_for (ext request_pkt) p \<and> dest (can p) = src (can request_pkt) \<and> dat p = 7"
    by (simp add: r request_pkt_def request_def ACKABLE_def) blast
  then show ?thesis by (simp add: request_pkt_def PKTSIZE_user_def)
qed

section \<open>Lookups\<close>

definition host_line :: "string \<Rightarrow> ((u32 \<times> u32 \<times> u32) \<times> string) option" where
  "host_line b = (case scan_two_words (cstr b) of None \<Rightarrow> None
     | Some (canid, h) \<Rightarrow> map_option (\<lambda>a. (a, h)) (scan_canid canid))"

definition host_fits :: "string \<Rightarrow> bool" where
  "host_fits b \<longleftrightarrow> (case scan_two_words (cstr b) of None \<Rightarrow> True | Some (_, h) \<Rightarrow> length h < 128)"

definition last_host :: "((u32 \<times> u32 \<times> u32) \<times> string) list \<Rightarrow> canhostname option \<Rightarrow> canhostname option" where
  "last_host es d = (if es = [] then d else (case last es of ((c, m, n), h) \<Rightarrow>
     Some \<lparr>h_cluster = sint c, h_module = sint m, h_node = sint n, hostname = h\<rparr>))"

lemma gethost_loop_step:
  "gethost_loop sel (b # bs) d =
     (if host_fits b
      then gethost_loop sel bs (case host_line b of None \<Rightarrow> d
             | Some (a, h) \<Rightarrow> if sel h a then last_host [(a, h)] d else d)
      else Inl BufferOverflow)"
  by (cases "scan_two_words (cstr b)"; cases "scan_canid (fst (the (scan_two_words (cstr b))))")
     (auto simp: host_fits_def host_line_def last_host_def MAXHOSTNAMELEN_def)

lemma last_host_Cons: "last_host (e # es) d = last_host es (last_host [e] d)"
  by (simp add: last_host_def split: prod.splits)

lemma gethost_loop_last:
  "gethost_loop sel bs d =
     (if \<forall>b \<in> set bs. host_fits b
      then Inr (last_host (filter (\<lambda>(a, h). sel h a) (List.map_filter host_line bs)) d)
      else Inl BufferOverflow)"
proof (induction bs arbitrary: d)
  case Nil
  show ?case by (simp add: last_host_def List.map_filter_simps)
next
  case (Cons b bs)
  show ?case
    by (cases "host_line b")
       (auto simp: gethost_loop_step Cons.IH List.map_filter_simps last_host_Cons [of _ "filter _ _"]
          simp del: gethost_loop.simps)
qed

definition obj_line :: "string \<Rightarrow> (u32 \<times> string) option" where
  "obj_line b = (case scan_x (cstr b) of None \<Rightarrow> None
     | Some (i, r) \<Rightarrow> map_option (\<lambda>(nm, _). (i, nm)) (scan_s r))"

lemma getobj_loop_first:
  "\<forall>e \<in> set (List.map_filter obj_line bs). length (snd e) < 128 \<Longrightarrow>
   getobj_loop sel bs = Inr (map_option (\<lambda>(i, nm). \<lparr>obj_id = sint i, obj_name = nm\<rparr>)
     (List.find (\<lambda>(i, nm). sel i nm) (List.map_filter obj_line bs)))"
  by (induction bs) (auto simp: obj_line_def List.map_filter_simps MAXHOSTNAMELEN_def split: option.splits prod.splits)

text \<open>
  \<^verbatim>\<open>can_gethostbyname\<close> and \<^verbatim>\<open>can_gethostbyaddr\<close> return the last entry of the file
  with the name or the address, and a failure when there is none; they overflow their
  buffer exactly when some line of the file, matching or not, has a host name of 128
  characters or more.
\<close>

theorem host_lookups:
  "can_gethostbyname (Some f) name =
     (if \<forall>b \<in> set (fgets_all f). host_fits b
      then Inr (last_host (filter (\<lambda>(a, h). h = name) (List.map_filter host_line (fgets_all f))) None)
      else Inl BufferOverflow)
   \<and> can_gethostbyaddr (Some f) c m n =
     (if \<forall>b \<in> set (fgets_all f). host_fits b
      then Inr (last_host (filter (\<lambda>(a, h). a = (word_of_int c, word_of_int m, word_of_int n))
             (List.map_filter host_line (fgets_all f))) None)
      else Inl BufferOverflow)"
  by (simp add: can_gethostbyname_def can_gethostbyaddr_def gethost_loop_last)

lemma one_host: "fgets_all ''1,2,3 cs2'' = [''1,2,3 cs2'']"
  by (simp add: fgets_all.simps BSIZE_def NL_def numeral_eq_Suc)

lemma one_host_line: "scan_two_words (cstr ''1,2,3 cs2'') = Some (''1,2,3'', ''cs2'')"
    "scan_canid ''1,2,3'' = Some (1, 2, 3)"
  by (simp_all add: cstr_def scan_two_words_def scan_canid_def scan_comma_def scan_x_def scan_s_def
      is_space_def hex_digit_def hex_value_def)

theorem host_lookups_witness:
  "can_gethostbyname (Some ''1,2,3 cs2'') ''cs2''
     = Inr (Some \<lparr>h_cluster = 1, h_module = 2, h_node = 3, hostname = ''cs2''\<rparr>)"
  using host_lookups [of "''1,2,3 cs2''" "''cs2''"]
  by (simp add: one_host one_host_line host_fits_def host_line_def last_host_def List.map_filter_simps)

text \<open>
  \<^verbatim>\<open>can_getobjbyname\<close> and \<^verbatim>\<open>can_getobjbyid\<close> return the first entry of a file whose names
  all fit the buffer, names being compared without regard to case.
\<close>

theorem object_lookups:
  assumes "\<forall>e \<in> set (List.map_filter obj_line (fgets_all f)). length (snd e) < 128"
  shows "can_getobjbyname (Some f) name =
           Inr (map_option (\<lambda>(i, nm). \<lparr>obj_id = sint i, obj_name = nm\<rparr>)
             (List.find (\<lambda>(i, nm). strcaseeq nm name) (List.map_filter obj_line (fgets_all f))))
         \<and> can_getobjbyid (Some f) k =
           Inr (map_option (\<lambda>(i, nm). \<lparr>obj_id = sint i, obj_name = nm\<rparr>)
             (List.find (\<lambda>(i, nm). sint i = k) (List.map_filter obj_line (fgets_all f))))"
  using getobj_loop_first [OF assms] by (simp add: can_getobjbyname_def can_getobjbyid_def)

lemma one_line: "fgets_all ''3ff LED'' = [''3ff LED'']"
  by (simp add: fgets_all.simps BSIZE_def NL_def numeral_eq_Suc)

lemma one_obj: "obj_line ''3ff LED'' = Some (0x3ff, ''LED'')"
  by (simp add: obj_line_def cstr_def scan_x_def scan_s_def is_space_def hex_digit_def hex_value_def)

theorem object_lookups_witness:
  "can_getobjbyid (Some ''3ff LED'') 0x3ff = Inr (Some \<lparr>obj_id = 0x3ff, obj_name = ''LED''\<rparr>)"
proof -
  have "\<forall>e \<in> set (List.map_filter obj_line (fgets_all ''3ff LED'')). length (snd e) < 128"
    by (simp add: one_line one_obj List.map_filter_simps)
  from object_lookups [OF this, of "[]" "0x3ff"] show ?thesis
    by (simp add: one_line one_obj List.map_filter_simps)
qed

section \<open>Names are inverse to numbers\<close>

lemma str2hb_loop_nth:
  "distinct (map (map tolower) names) \<Longrightarrow> k < length names \<Longrightarrow> strcaseeq str (names ! k) \<Longrightarrow>
   str2hb_loop str i (map Some names @ r) = Some (STATUS_TO_HB (i + k))"
proof (induction names arbitrary: i k)
  case (Cons s names)
  show ?case
  proof (cases k)
    case 0
    with Cons.prems show ?thesis by simp
  next
    case (Suc j)
    then have "map tolower str = map tolower (names ! j)" "map tolower (names ! j) \<in> set (map (map tolower) names)"
      using Cons.prems by (simp_all add: strcaseeq_def)
    then have "\<not> strcaseeq str s" using Cons.prems(1) by (auto simp: strcaseeq_def)
    with Suc Cons.IH [of j "Suc i"] Cons.prems show ?thesis by (simp add: strcaseeq_def)
  qed
qed simp

lemma hb_names_distinct: "distinct (map (map tolower) hb_names)"
  by (simp add: hb_names_def tolower_def)

lemma status_hb: "st < 32 \<Longrightarrow> HB_TO_STATUS (STATUS_TO_HB st) = st"
proof -
  assume "st < 32"
  then have "st \<in> set [0..<32]" by simp
  moreover have "\<forall>st \<in> set [0..<32]. HB_TO_STATUS (STATUS_TO_HB st) = st" by code_simp
  ultimately show ?thesis by blast
qed

lemma strcaseeq_tolower: "strcaseeq (map tolower s) s"
proof -
  have "tolower (tolower c) = tolower c" for c by (auto simp: tolower_def)
  then show ?thesis by (simp add: strcaseeq_def)
qed

lemma hbstr_shape: "length hb_names = 21" "take HB_NUMSTATES hbstr = map Some hb_names @ replicate 11 None"
  by (simp_all add: hb_names_def hbstr_def HB_NUMSTATES_def)

lemma hb2str_eq: "st < 32 \<Longrightarrow> can_hb2str (STATUS_TO_HB st) = (if st < 21 then Some (hb_names ! st) else None)"
  by (simp add: can_hb2str_def status_hb hbstr_def nth_append hbstr_shape)

lemma str2hb_eq: "st < 21 \<Longrightarrow> strcaseeq str (hb_names ! st) \<Longrightarrow> can_str2hb str = Some (STATUS_TO_HB st)"
  using str2hb_loop_nth [OF hb_names_distinct, of st str 0] by (simp add: can_str2hb_def hbstr_shape)

text \<open>
  The name of every heartbeat state up to 0x14 is turned back into the same
  heartbeat value, in any mixture of upper and lower case; the states above have no
  name. The value the driver starts with is named "the can module has been loaded".
\<close>

theorem heartbeat_names_roundtrip:
  "(\<forall>st < 21. \<exists>str. can_hb2str (STATUS_TO_HB st) = Some str
      \<and> (\<forall>s. strcaseeq s str \<longrightarrow> can_str2hb s = Some (STATUS_TO_HB st)))
   \<and> (\<forall>st. 21 \<le> st \<and> st < 32 \<longrightarrow> can_hb2str (STATUS_TO_HB st) = None)
   \<and> can_hb2str (push_bit 2 HB_CAN_RUNNING) = Some ''the can module has been loaded''"
proof -
  have "push_bit 2 HB_CAN_RUNNING = STATUS_TO_HB 7" by (simp add: HB_CAN_RUNNING_def STATUS_TO_HB_def)
  then have "can_hb2str (push_bit 2 HB_CAN_RUNNING) = Some ''the can module has been loaded''"
    using hb2str_eq [of 7] by (simp add: hb_names_def)
  then show ?thesis using hb2str_eq str2hb_eq by auto
qed

theorem heartbeat_names_roundtrip_witness:
  "can_str2hb ''AT ok'' = Some (STATUS_TO_HB 1)"
proof -
  have "hb_names ! 1 = ''at OK''" by (simp add: hb_names_def)
  moreover obtain str where "can_hb2str (STATUS_TO_HB 1) = Some str"
      "\<forall>s. strcaseeq s str \<longrightarrow> can_str2hb s = Some (STATUS_TO_HB 1)"
    using heartbeat_names_roundtrip [THEN conjunct1, rule_format, of 1] by auto
  ultimately show ?thesis using hb2str_eq [of 1]
    by (simp add: strcaseeq_def tolower_def char_of_def bit_numeral_rec bit_Suc_0_iff)
qed

lemma type_mod: "(word_of_int t :: 3 word) = word_of_int (t mod 8)"
  by (rule word_of_int_eq_iff [THEN iffD2]) (simp add: take_bit_eq_mod)

lemma tolower_types:
  "map tolower ''RO'' = ''ro''" "map tolower ''WO'' = ''wo''" "map tolower ''WNA'' = ''wna''" 
  "map tolower ''DAT'' = ''dat''" "map tolower ''ACK'' = ''ack''" "map tolower ''NAK'' = ''nak''" "map tolower ''SIG'' = ''sig''"
  "map tolower ''[?]'' = ''[?]''"
  by (simp_all add: tolower_def char_of_def bit_numeral_rec bit_Suc_0_iff)
lemma tolower_lower: "map tolower ''ro'' = ''ro''" "map tolower ''wo'' = ''wo''" "map tolower ''wna'' = ''wna''" 
  "map tolower ''dat'' = ''dat''" "map tolower ''ack'' = ''ack''" "map tolower ''nak'' = ''nak''" "map tolower ''sig'' = ''sig''"
  by (simp_all add: tolower_def)

text \<open>
  \<^verbatim>\<open>can_str2type\<close> inverts \<^verbatim>\<open>can_type2str\<close> on the seven message types, whatever
  the bits above the type field; the type number that is not used has no name.
\<close>

theorem type_names_roundtrip:
  "can_str2type (can_type2str t) = (if t mod 8 = 5 then -1 else t mod 8)"
proof -
  have "t mod 8 \<ge> 0" "t mod 8 < 8" by simp_all
  then consider "t mod 8 = 0" | "t mod 8 = 1" | "t mod 8 = 2" | "t mod 8 = 3" | "t mod 8 = 4"
    | "t mod 8 = 5" | "t mod 8 = 6" | "t mod 8 = 7" by linarith
  then show ?thesis
    by cases (simp_all only: can_type2str_def type_mod [of t] Let_def,
        simp_all add: can_str2type_def CANTYPE_defs strcaseeq_def tolower_types tolower_lower del: list.map)
qed

end
