(* ===== verification/Cancon.thy ===== *)
theory Cancon
  imports UserLib CanConsole
begin

text \<open>
  The console program \<^verbatim>\<open>cmd/cancon.c\<close>: it takes over a node's console through the node's
  connect and disconnect objects, relays typed characters to it and prints what the node
  sends. Its reader, writer and tty threads share the answer buffer \<open>ackbuf\<close> and the
  character queue \<open>outchars\<close>, each under a mutex; a definition below is what one thread does
  while it holds the mutex or between two blocking calls.

  What the other threads do meanwhile is a parameter: \<open>mutex_free\<close> gives the answers the
  reader hands over before a waiting thread gets the mutex, \<open>timedwait\<close> whether
  \<^verbatim>\<open>pthread_cond_timedwait\<close> reported \<^verbatim>\<open>ETIMEDOUT\<close> and the answers handed over during it,
  \<open>out_wait\<close> the characters queued during \<^verbatim>\<open>pthread_cond_wait\<close>. A thread that is still blocked
  after the number of waits allowed is \<open>Waiting\<close>; a failed assertion of the library or an
  access outside a buffer is \<open>Fail\<close>.
\<close>

section \<open>State\<close>

datatype 'a run = Ret 'a | Fail lib_error | Waiting

definition then_run :: "'a run \<Rightarrow> ('a \<Rightarrow> 'b run) \<Rightarrow> 'b run" where
  "then_run r f = (case r of Ret x \<Rightarrow> f x | Fail e \<Rightarrow> Fail e | Waiting \<Rightarrow> Waiting)"

lemma then_run_simps [simp]:
  "then_run (Ret x) f = f x" "then_run (Fail e) f = Fail e" "then_run Waiting f = Waiting"
  by (simp_all add: then_run_def)

lemma then_run_cong [fundef_cong]:
  "r = r' \<Longrightarrow> (\<And>x. r' = Ret x \<Longrightarrow> f x = g x) \<Longrightarrow> then_run r f = then_run r' g"
  by (simp add: then_run_def split: run.split)

definition MAX_RETRIES :: nat where "MAX_RETRIES = 20"
definition ACKBUFLEN :: nat where "ACKBUFLEN = 16"
definition OUTCHARSLEN :: nat where "OUTCHARSLEN = 1024"
definition ESCAPE_CHAR :: u8 where "ESCAPE_CHAR = 0x26"

datatype acknak = NONE | ACK | NAK | TIMEDOUT

record ack_pkt =
  a_ext :: can_header_ext
  a_dat :: can_dat

text \<open>What is printed on the standard error stream.\<close>

datatype cc_msg =
    Dot | SendAborted nat | ConsoleStolen | Help | SentBreak bool | SentReset bool
  | Dropped nat | ConnectFailed "3 word" | DisconnectFailed | NoResponse
  | Connecting | Stealing | InUse | Connected | CleaningUp

record 'w cancon =
  console_object :: can_header_ext
  target_ch :: canhostname
  my_consobj :: int
  my_nodeid :: u32
  resetobj :: canobj
  ackbuf :: "ack_pkt list"
  outchars :: "u8 list"
  fopt :: bool
  canlib :: "'w lib"
  out_bytes :: "u8 list"
  msgs :: "cc_msg list"
  disconnects :: nat

record 'w cc_env =
  cc_os :: "'w os"
  mutex_free :: "'w \<Rightarrow> ack_pkt list \<times> 'w"
  timedwait :: "'w \<Rightarrow> bool \<times> ack_pkt list \<times> 'w"
  out_wait :: "'w \<Rightarrow> u8 list \<times> 'w"

definition say :: "cc_msg \<Rightarrow> 'w cancon \<Rightarrow> 'w cancon" where
  "say m s = s\<lparr>msgs := msgs s @ [m]\<rparr>"

definition set_world :: "'w \<Rightarrow> 'w cancon \<Rightarrow> 'w cancon" where
  "set_world w s = s\<lparr>canlib := (canlib s)\<lparr>world := w\<rparr>\<rparr>"

definition start_disconnect :: "'w cancon \<Rightarrow> 'w cancon" where
  "start_disconnect s = s\<lparr>disconnects := Suc (disconnects s)\<rparr>"

section \<open>Addresses\<close>

definition load_ext_ch :: "can_header_ext \<Rightarrow> 3 word \<Rightarrow> int \<Rightarrow> canhostname \<Rightarrow> can_header_ext" where
  "load_ext_ch x tp obj ch =
     x\<lparr>ctype := tp, object := word_of_int obj, cluster := word_of_int (h_cluster ch),
       module := word_of_int (h_module ch), node := word_of_int (h_node ch)\<rparr>"

definition load_ext_nodeid :: "u32 \<Rightarrow> can_header_ext \<Rightarrow> 3 word \<Rightarrow> int \<Rightarrow> can_header_ext" where
  "load_ext_nodeid i x tp obj =
     x\<lparr>ctype := tp, object := word_of_int obj, cluster := ucast (UNPACK_CLUSTER i),
       module := ucast (UNPACK_MODULE i), node := ucast (UNPACK_NODE i)\<rparr>"

section \<open>Answers\<close>

definition signal_acknak :: "ack_pkt \<Rightarrow> ack_pkt list \<Rightarrow> ack_pkt list" where
  "signal_acknak a b = (if length b < ACKBUFLEN then b @ [a] else b)"

definition deposit :: "ack_pkt list \<Rightarrow> 'w cancon \<Rightarrow> 'w cancon" where
  "deposit as s = s\<lparr>ackbuf := foldl (\<lambda>b a. signal_acknak a b) (ackbuf s) as\<rparr>"

definition IS_ACKNAK :: "3 word \<Rightarrow> acknak" where
  "IS_ACKNAK t = (if t = CANTYPE_ACK then ACK else NAK)"

text \<open>The scan of the buffer: every match overwrites the response and the data.\<close>

fun scan_acks :: "can_header_ext \<Rightarrow> ack_pkt list \<Rightarrow> acknak \<times> can_dat \<Rightarrow> acknak \<times> can_dat" where
  "scan_acks target [] r = r"
| "scan_acks target (a # as) r =
     scan_acks target as
       (if same_addr (a_ext a) target then (IS_ACKNAK (ctype (a_ext a)), a_dat a) else r)"

fun waitfor_loop ::
    "'w cc_env \<Rightarrow> nat \<Rightarrow> can_header_ext \<Rightarrow> can_dat \<Rightarrow> 'w cancon \<Rightarrow> (acknak \<times> can_dat \<times> 'w cancon) run" where
  "waitfor_loop C 0 target d s = Waiting"
| "waitfor_loop C (Suc n) target d s =
     (case (if ackbuf s = []
            then (case timedwait C (world (canlib s)) of (tmo, as, w) \<Rightarrow>
                    (if tmo then TIMEDOUT else NONE, deposit as (set_world w s)))
            else (NONE, s)) of
        (r, s) \<Rightarrow>
          (case scan_acks target (ackbuf s) (r, d) of
             (r, d) \<Rightarrow>
               (let s = s\<lparr>ackbuf := []\<rparr>
                in if r = NONE then waitfor_loop C n target d s else Ret (r, d, s))))"

definition waitfor_acknak ::
    "'w cc_env \<Rightarrow> nat \<Rightarrow> can_header_ext \<Rightarrow> can_dat \<Rightarrow> 'w cancon \<Rightarrow> (acknak \<times> can_dat \<times> 'w cancon) run" where
  "waitfor_acknak C n target d s =
     (case mutex_free C (world (canlib s)) of (as, w) \<Rightarrow>
        waitfor_loop C n target d (deposit as (set_world w s)))"

section \<open>Sending\<close>

definition lib_send ::
    "'w cc_env \<Rightarrow> can_header_ext \<Rightarrow> can_dat option \<Rightarrow> int \<Rightarrow> 'w cancon \<Rightarrow> 'w cancon run" where
  "lib_send C x d len s =
     (case can_send (cc_os C) x d len (canlib s) of
        Inl e \<Rightarrow> Fail e
      | Inr (n, l) \<Rightarrow> Ret (s\<lparr>canlib := l\<rparr>))"

text \<open>\<open>ack\<close> is the caller's variable for the answer's data; callers that pass NULL drop it.\<close>

function mysend_loop ::
    "'w cc_env \<Rightarrow> nat \<Rightarrow> can_header_ext \<Rightarrow> can_dat option \<Rightarrow> int \<Rightarrow> can_dat \<Rightarrow> nat \<Rightarrow> nat \<Rightarrow> 'w cancon \<Rightarrow>
     (acknak \<times> can_dat \<times> 'w cancon) run" where
  "mysend_loop C n target d len ack max_retries tries s =
     then_run (lib_send C target d len s) (\<lambda>s.
     then_run (waitfor_acknak C n target ack s) (\<lambda>(r, ack, s).
       let tries = Suc tries;
           s = (if r = TIMEDOUT \<and> max_retries > 0 then say Dot s else s)
       in if r \<noteq> ACK \<and> tries < max_retries then mysend_loop C n target d len ack max_retries tries s
          else Ret (r, ack, if r \<noteq> ACK \<and> max_retries > 0 then say (SendAborted tries) s else s)))"
  by pat_completeness auto
termination
  by (relation "measure (\<lambda>(C, n, target, d, len, ack, max_retries, tries, s). max_retries - tries)") auto

declare mysend_loop.simps [simp del]

definition mysend ::
    "'w cc_env \<Rightarrow> nat \<Rightarrow> can_header_ext \<Rightarrow> can_dat option \<Rightarrow> int \<Rightarrow> can_dat \<Rightarrow> nat \<Rightarrow> 'w cancon \<Rightarrow>
     (acknak \<times> can_dat \<times> 'w cancon) run" where
  "mysend C n target d len ack max_retries s = mysend_loop C n target d len ack max_retries 0 s"

definition send ::
    "'w cc_env \<Rightarrow> nat \<Rightarrow> can_header_ext \<Rightarrow> can_dat option \<Rightarrow> int \<Rightarrow> can_dat \<Rightarrow> 'w cancon \<Rightarrow>
     (acknak \<times> can_dat \<times> 'w cancon) run" where
  "send C n target d len ack s = mysend C n target d len ack MAX_RETRIES s"

definition send_nb ::
    "'w cc_env \<Rightarrow> nat \<Rightarrow> can_header_ext \<Rightarrow> can_dat option \<Rightarrow> int \<Rightarrow> can_dat \<Rightarrow> 'w cancon \<Rightarrow>
     (acknak \<times> can_dat \<times> 'w cancon) run" where
  "send_nb C n target d len ack s = mysend C n target d len ack 0 s"

text \<open>The local variables \<^verbatim>\<open>target\<close> and \<^verbatim>\<open>dat\<close> of the callers start with what the stack holds.\<close>

abbreviation stack_ext :: "'w cc_env \<Rightarrow> can_header_ext" where
  "stack_ext C \<equiv> ext (uninit (cc_os C))"

abbreviation stack_dat :: "'w cc_env \<Rightarrow> can_dat" where
  "stack_dat C \<equiv> dat (uninit (cc_os C))"

definition send_dat :: "'w cc_env \<Rightarrow> nat \<Rightarrow> u8 list \<Rightarrow> 'w cancon \<Rightarrow> 'w cancon run" where
  "send_dat C n chars s =
     (if length chars > 4 then Fail BufferOverflow
      else then_run (send C n (load_ext_ch (stack_ext C) CANTYPE_DAT 0 (target_ch s))
                       (Some (fill_dat (stack_dat C) 0 chars)) (int (length chars)) 0 s)
             (\<lambda>(r, _, s). Ret s))"

definition send_break :: "'w cc_env \<Rightarrow> nat \<Rightarrow> 'w cancon \<Rightarrow> 'w cancon run" where
  "send_break C n s =
     then_run (send C n (load_ext_ch (stack_ext C) CANTYPE_WO (uint CANOBJ_BREAK) (target_ch s)) None 0 0 s)
       (\<lambda>(r, _, s). Ret (say (SentBreak (r = ACK)) s))"

definition send_reset_h8 :: "'w cc_env \<Rightarrow> nat \<Rightarrow> 'w cancon \<Rightarrow> 'w cancon run" where
  "send_reset_h8 C n s =
     (let target = load_ext_ch (stack_ext C) CANTYPE_WO (obj_id (resetobj s)) (target_ch s);
          target = target\<lparr>node := ucast (CAN_GET_BOARD_H8 (ucast (node target)))\<rparr>
      in then_run (send C n target (Some 2) 4 0 s)
           (\<lambda>(r, _, s). Ret (say (SentReset (r = ACK)) s)))"

section \<open>Connecting and disconnecting\<close>

definition send_connect ::
    "'w cc_env \<Rightarrow> nat \<Rightarrow> 3 word \<Rightarrow> can_header_ext \<Rightarrow> 'w cancon \<Rightarrow> (acknak \<times> can_header_ext \<times> 'w cancon) run" where
  "send_connect C n tp cons s =
     (let target = load_ext_ch (stack_ext C) tp (uint CANOBJ_CONSOLE_CONNECT) (target_ch s)
      in then_run
           (if tp = CANTYPE_RO
            then then_run (send C n target None 0 (ext_dat cons) s) (\<lambda>(r, d, s). Ret (r, dat_ext d, s))
            else then_run (send C n target (Some (ext_dat cons)) 4 0 s) (\<lambda>(r, _, s). Ret (r, cons, s)))
           (\<lambda>(r, cons, s). Ret (r, cons, if r \<noteq> ACK then say (ConnectFailed tp) s else s)))"

definition send_disconnect ::
    "'w cc_env \<Rightarrow> nat \<Rightarrow> can_header_ext \<Rightarrow> 'w cancon \<Rightarrow> (acknak \<times> 'w cancon) run" where
  "send_disconnect C n cons s =
     then_run (send C n (load_ext_ch (stack_ext C) CANTYPE_WO (uint CANOBJ_CONSOLE_DISCONN) (target_ch s))
                 (Some (ext_dat cons)) 4 0 s)
       (\<lambda>(r, _, s). Ret (r, if r \<noteq> ACK then say DisconnectFailed s else s))"

definition send_force_disconnect_nb ::
    "'w cc_env \<Rightarrow> nat \<Rightarrow> can_header_ext \<Rightarrow> 'w cancon \<Rightarrow> (acknak \<times> 'w cancon) run" where
  "send_force_disconnect_nb C n cons s =
     then_run (send_nb C n (cons\<lparr>ctype := CANTYPE_WO, object := CANOBJ_FORCE_DISCONN\<rparr>)
                 (Some (ext_dat cons)) 4 0 s)
       (\<lambda>(r, _, s). Ret (r, if r \<noteq> ACK then say NoResponse s else s))"

text \<open>The loop of \<^verbatim>\<open>heist_connection\<close>, after \<open>tries\<close> reads; the result is \<open>None\<close> for the return of -1.\<close>

function heist_loop ::
    "'w cc_env \<Rightarrow> nat \<Rightarrow> nat \<Rightarrow> can_header_ext \<Rightarrow> 'w cancon \<Rightarrow> ((nat \<times> can_header_ext) option \<times> 'w cancon) run" where
  "heist_loop C n tries oldcon s =
     then_run (send_connect C n CANTYPE_RO oldcon s) (\<lambda>(r, oldcon, s).
       if r \<noteq> ACK then Ret (None, s)
       else (let tries = Suc tries
             in if \<not> CANCON_UNCONNECTED oldcon \<and> tries < 5 then heist_loop C n tries oldcon s
                else Ret (Some (tries, oldcon), s)))"
  by pat_completeness auto
termination
  by (relation "measure (\<lambda>(C, n, tries, oldcon, s). 5 - tries)") auto

declare heist_loop.simps [simp del]

definition heist_connection ::
    "'w cc_env \<Rightarrow> nat \<Rightarrow> can_header_ext \<Rightarrow> 'w cancon \<Rightarrow> (int \<times> 'w cancon) run" where
  "heist_connection C n oldcon s =
     then_run (send_force_disconnect_nb C n oldcon s) (\<lambda>(r, s).
     then_run (if r \<noteq> ACK then send_disconnect C n oldcon s else Ret (ACK, s)) (\<lambda>(r, s).
       if r \<noteq> ACK then Ret (-1, s)
       else then_run (heist_loop C n 0 oldcon s) (\<lambda>(x, s).
              case x of
                None \<Rightarrow> Ret (-1, s)
              | Some (tries, oldcon) \<Rightarrow>
                  if tries = 5
                  then then_run (send_disconnect C n oldcon s) (\<lambda>(r, s). Ret (if r \<noteq> ACK then -1 else 0, s))
                  else Ret (0, s))))"

definition connect_protocol :: "'w cc_env \<Rightarrow> nat \<Rightarrow> 'w cancon \<Rightarrow> (int \<times> 'w cancon) run" where
  "connect_protocol C n s =
     then_run (send_connect C n CANTYPE_RO (stack_ext C) (say Connecting s)) (\<lambda>(r, oldcon, s).
       if r \<noteq> ACK then Ret (-1, s)
       else then_run
              (if \<not> CANCON_UNCONNECTED oldcon
               then if fopt s then heist_connection C n oldcon (say Stealing s) else Ret (-1, say InUse s)
               else Ret (0, s))
              (\<lambda>(h, s).
                 if h = -1 then Ret (-1, s)
                 else (let s = s\<lparr>console_object :=
                                   load_ext_nodeid (my_nodeid s) (console_object s) CANTYPE_DAT (my_consobj s)\<rparr>
                       in then_run (send_connect C n CANTYPE_WO (console_object s) s)
                            (\<lambda>(r, _, s). if r \<noteq> ACK then Ret (-1, s) else Ret (0, say Connected s)))))"

text \<open>\<^verbatim>\<open>disconnect\<close>: the threads it kills are in \<open>CanconThreads\<close>.\<close>

definition disconnect :: "'w cc_env \<Rightarrow> nat \<Rightarrow> 'w cancon \<Rightarrow> 'w cancon run" where
  "disconnect C n s =
     then_run (send_disconnect C n (console_object s) (say CleaningUp s)) (\<lambda>(_, s). Ret s)"

section \<open>The reader thread\<close>

text \<open>
  One iteration: the result says whether the loop goes on. \<^verbatim>\<open>fwrite\<close> of more bytes than the
  payload has, or of a negative number of them, leaves the payload.
\<close>

definition lib_ack ::
    "'w cc_env \<Rightarrow> can_dat option \<Rightarrow> int \<Rightarrow> can_packet \<Rightarrow> 'w cancon \<Rightarrow> (can_packet \<times> 'w cancon) run" where
  "lib_ack C d len ack s =
     (case can_ack (cc_os C) d len (uint CANTYPE_ACK) ack (canlib s) of
        Inl e \<Rightarrow> Fail e
      | Inr (n, ack, l) \<Rightarrow> Ret (ack, s\<lparr>canlib := l\<rparr>))"

definition reader_packet ::
    "'w cc_env \<Rightarrow> can_header_ext \<Rightarrow> can_dat \<Rightarrow> int \<Rightarrow> can_packet \<Rightarrow> 'w cancon \<Rightarrow> (can_packet \<times> 'w cancon) run" where
  "reader_packet C target d len ack s =
     (if ISACKNAK (ctype target)
      then Ret (ack, s\<lparr>ackbuf := signal_acknak \<lparr>a_ext = target, a_dat = d\<rparr> (ackbuf s)\<rparr>)
      else if ctype target = CANTYPE_DAT then
        if ext_dat target = ext_dat (console_object s) then
          if len < 0 \<or> len > 4 then Fail BufferOverflow
          else lib_ack C None 0 ack (s\<lparr>out_bytes := out_bytes s @ map (byte_of d) [0..<nat len]\<rparr>)
        else Ret (ack, s)
      else if ctype target = CANTYPE_WO then
        if object target = CANOBJ_FORCE_DISCONN \<and> d = ext_dat (console_object s)
        then then_run (lib_ack C (Some 1) 4 ack (say ConsoleStolen s)) (\<lambda>(ack, s). Ret (ack, start_disconnect s))
        else Ret (ack, s)
      else Ret (ack, s))"

definition reader_iter ::
    "'w cc_env \<Rightarrow> can_header_ext \<times> can_dat \<times> int \<Rightarrow> can_packet \<Rightarrow> 'w cancon \<Rightarrow>
     (bool \<times> can_packet \<times> 'w cancon) run" where
  "reader_iter C out ack s =
     (case can_recv (cc_os C) out (Some ack) (canlib s) of
        Inl e \<Rightarrow> Fail e
      | Inr (nb, (target, d, len), a, l) \<Rightarrow>
          (let s = s\<lparr>canlib := l\<rparr>; ack = (case a of Some a \<Rightarrow> a | None \<Rightarrow> ack)
           in if nb = -1 then Ret (False, ack, s)
              else then_run (reader_packet C target d len ack s) (\<lambda>(ack, s). Ret (True, ack, s))))"

section \<open>The character queue and the writer thread\<close>

fun signal_outchars :: "u8 list \<Rightarrow> u8 list \<Rightarrow> nat \<times> u8 list" where
  "signal_outchars [] q = (0, q)"
| "signal_outchars (c # cs) q =
     (if length q < OUTCHARSLEN
      then (case signal_outchars cs (q @ [c]) of (count, q) \<Rightarrow> (Suc count, q)) else (0, q))"

definition waitfor_outchars :: "'w cc_env \<Rightarrow> nat \<Rightarrow> 'w cancon \<Rightarrow> u8 list \<times> 'w cancon" where
  "waitfor_outchars C maxlen s =
     (let s = (if outchars s = []
               then (case out_wait C (world (canlib s)) of (cs, w) \<Rightarrow>
                       (set_world w s)\<lparr>outchars := snd (signal_outchars cs [])\<rparr>)
               else s);
          count = min (length (outchars s)) maxlen
      in (take count (outchars s), s\<lparr>outchars := drop count (outchars s)\<rparr>))"

definition writer_iter :: "'w cc_env \<Rightarrow> nat \<Rightarrow> 'w cancon \<Rightarrow> 'w cancon run" where
  "writer_iter C n s = (case waitfor_outchars C 4 s of (chars, s) \<Rightarrow> send_dat C n chars s)"

section \<open>The tty thread\<close>

definition ISCRNL :: "u8 \<Rightarrow> bool" where "ISCRNL c \<longleftrightarrow> c = 0x0a \<or> c = 0x0d"

datatype tty_act = ADisconnect | AHelp | ABreak | AReset

text \<open>
  One character with the two before it: the action it triggers and the characters it adds
  to \<^verbatim>\<open>outbuf\<close>. The actions do not touch \<^verbatim>\<open>outbuf\<close>, which is queued after the last of them.
\<close>

definition tty_char :: "u8 \<times> u8 \<Rightarrow> u8 \<Rightarrow> tty_act list \<times> u8 list" where
  "tty_char h c =
     (if ISCRNL (fst h) \<and> snd h = ESCAPE_CHAR then
        if c = 0x2e then ([ADisconnect], [])
        else if c = 0x3f then ([AHelp], [])
        else if c = 0x23 then ([ABreak], [])
        else if c = 0x72 \<or> c = 0x52 then ([AReset], [])
        else ([], [ESCAPE_CHAR, c])
      else if c \<noteq> ESCAPE_CHAR \<or> \<not> ISCRNL (snd h) then ([], [c]) else ([], []))"

fun tty_scan :: "u8 \<times> u8 \<Rightarrow> u8 list \<Rightarrow> tty_act list \<times> u8 list \<times> (u8 \<times> u8)" where
  "tty_scan h [] = ([], [], h)"
| "tty_scan h (c # cs) =
     (case tty_char h c of (a, out) \<Rightarrow>
      (case tty_scan (snd h, c) cs of (as, outs, h) \<Rightarrow> (a @ as, out @ outs, h)))"

definition tty_hist :: "u8 \<times> u8" where "tty_hist = (0x0d, 0x0d)"

fun tty_run :: "'w cc_env \<Rightarrow> nat \<Rightarrow> tty_act list \<Rightarrow> 'w cancon \<Rightarrow> 'w cancon run" where
  "tty_run C n [] s = Ret s"
| "tty_run C n (a # as) s =
     then_run (case a of
                 ADisconnect \<Rightarrow> Ret (start_disconnect s)
               | AHelp \<Rightarrow> Ret (say Help s)
               | ABreak \<Rightarrow> send_break C n s
               | AReset \<Rightarrow> send_reset_h8 C n s) (tty_run C n as)"

text \<open>One iteration, for the up to four characters a read returned.\<close>

definition tty_reader_iter ::
    "'w cc_env \<Rightarrow> nat \<Rightarrow> u8 list \<Rightarrow> u8 \<times> u8 \<Rightarrow> 'w cancon \<Rightarrow> ((u8 \<times> u8) \<times> 'w cancon) run" where
  "tty_reader_iter C n chars hist s =
     (case tty_scan hist chars of (as, out, hist) \<Rightarrow>
        if length out > 8 then Fail BufferOverflow
        else then_run (tty_run C n as s) (\<lambda>s.
               case signal_outchars out (outchars s) of (count, q) \<Rightarrow>
                 (let s = s\<lparr>outchars := q\<rparr>; dropped = length out - count
                  in Ret (hist, if dropped > 0 then say (Dropped dropped) s else s))))"

section \<open>Escapes\<close>

text \<open>
  The escape conventions as a machine with three states: at the start of a line, after an
  escape character at the start of a line, and elsewhere.
\<close>

datatype esc = Bol | Esc | Mid

definition esc_state :: "u8 \<times> u8 \<Rightarrow> esc" where
  "esc_state h = (if ISCRNL (snd h) then Bol
                  else if ISCRNL (fst h) \<and> snd h = ESCAPE_CHAR then Esc else Mid)"

definition esc_next :: "u8 \<Rightarrow> esc" where "esc_next c = (if ISCRNL c then Bol else Mid)"

fun esc_step :: "esc \<Rightarrow> u8 \<Rightarrow> esc \<times> tty_act list \<times> u8 list" where
  "esc_step Bol c = (if c = ESCAPE_CHAR then (Esc, [], []) else (esc_next c, [], [c]))"
| "esc_step Mid c = (esc_next c, [], [c])"
| "esc_step Esc c =
     (esc_next c,
      if c = 0x2e then ([ADisconnect], []) else if c = 0x3f then ([AHelp], [])
      else if c = 0x23 then ([ABreak], []) else if c = 0x72 \<or> c = 0x52 then ([AReset], [])
      else ([], [ESCAPE_CHAR, c]))"

fun esc_run :: "esc \<Rightarrow> u8 list \<Rightarrow> tty_act list \<times> u8 list \<times> esc" where
  "esc_run st [] = ([], [], st)"
| "esc_run st (c # cs) =
     (case esc_step st c of (st, a, out) \<Rightarrow>
      (case esc_run st cs of (as, outs, st) \<Rightarrow> (a @ as, out @ outs, st)))"

lemma not_crnl_escape: "\<not> ISCRNL ESCAPE_CHAR"
  by (simp add: ISCRNL_def ESCAPE_CHAR_def)

lemma tty_char_step: "esc_step (esc_state h) c = (esc_state (snd h, c), tty_char h c)"
  using not_crnl_escape by (auto simp: esc_state_def tty_char_def esc_next_def)

lemma tty_scan_run:
  "tty_scan h cs = (as, out, h') \<Longrightarrow> esc_run (esc_state h) cs = (as, out, esc_state h')"
proof (induction cs arbitrary: h as out h')
  case (Cons c cs)
  obtain a o1 where tc: "tty_char h c = (a, o1)" by (cases "tty_char h c")
  obtain as2 o2 h2 where ts: "tty_scan (snd h, c) cs = (as2, o2, h2)" by (cases "tty_scan (snd h, c) cs")
  from Cons.IH [OF ts] show ?case using Cons.prems tc ts by (simp add: tty_char_step)
qed simp

lemma tty_char_length: "length (snd (tty_char h c)) \<le> 2"
  by (simp add: tty_char_def)

lemma tty_scan_length: "tty_scan h cs = (as, out, h') \<Longrightarrow> length out \<le> 2 * length cs"
proof (induction cs arbitrary: h as out h')
  case (Cons c cs)
  obtain as2 o2 h2 where ts: "tty_scan (snd h, c) cs = (as2, o2, h2)" by (cases "tty_scan (snd h, c) cs")
  with Cons.IH [OF ts] Cons.prems tty_char_length [of h c] show ?case by (auto split: prod.splits)
qed simp

lemma tty_scan_append:
  "tty_scan h xs = (as, out, h1) \<Longrightarrow> tty_scan h1 ys = (bs, out2, h2) \<Longrightarrow>
   tty_scan h (xs @ ys) = (as @ bs, out @ out2, h2)"
proof (induction xs arbitrary: h as out)
  case (Cons c xs)
  obtain as2 o2 where ts: "tty_scan (snd h, c) xs = (as2, o2, h1)"
    using Cons.prems(1) by (auto split: prod.splits)
  with Cons.IH [OF ts Cons.prems(2)] Cons.prems(1) show ?case by (auto split: prod.splits)
qed simp

text \<open>
  C25 (tty_escapes): what \<^verbatim>\<open>tty_reader\<close> does with typed characters is what the escape machine does:
  a command only after an escape character at the start of a line, an escape that is no
  command is passed on with its character, and everything else is passed on. How the
  characters are cut into reads does not matter, and four characters never yield more
  than the eight that \<^verbatim>\<open>outbuf\<close> holds.
\<close>

theorem tty_escapes:
  "(case tty_scan h cs of (as, out, h') \<Rightarrow> (as, out, esc_state h')) = esc_run (esc_state h) cs
   \<and> tty_scan h (cs @ ds) =
      (case tty_scan h cs of (as, out, h1) \<Rightarrow> case tty_scan h1 ds of (bs, out2, h2) \<Rightarrow> (as @ bs, out @ out2, h2))
   \<and> (length cs \<le> 4 \<longrightarrow> length (fst (snd (tty_scan h cs))) \<le> 8)"
proof -
  obtain as out h1 where ts: "tty_scan h cs = (as, out, h1)" by (cases "tty_scan h cs")
  obtain bs out2 h2 where td: "tty_scan h1 ds = (bs, out2, h2)" by (cases "tty_scan h1 ds")
  from ts td show ?thesis
    using tty_scan_run [OF ts] tty_scan_append [OF ts td] tty_scan_length [OF ts] by auto
qed

theorem tty_escapes_witness:
  "length (fst (snd (tty_scan tty_hist [0x26, 0x61, 0x26, 0x0d]))) \<le> 8
   \<and> esc_run Bol [0x26, 0x61, 0x26, 0x0d] = ([], [0x26, 0x61, 0x26, 0x0d], Bol)"
proof -
  have "esc_run Bol [0x26, 0x61, 0x26, 0x0d] = ([], [0x26, 0x61, 0x26, 0x0d], Bol)"
    by (simp add: ESCAPE_CHAR_def esc_next_def ISCRNL_def)
  then show ?thesis using tty_escapes [of tty_hist "[0x26, 0x61, 0x26, 0x0d]" "[]"] by simp
qed

section \<open>The character queue is first-in first-out\<close>

lemma take_min_length: "take (min (length xs) n) xs = take n xs"
  by (simp add: min_def)

lemma signal_outchars_eq:
  "length q \<le> OUTCHARSLEN \<Longrightarrow>
   signal_outchars cs q = (min (length cs) (OUTCHARSLEN - length q), q @ take (OUTCHARSLEN - length q) cs)"
proof (induction cs arbitrary: q)
  case (Cons c cs)
  show ?case
  proof (cases "length q < OUTCHARSLEN")
    case True
    then have "OUTCHARSLEN - length q = Suc (OUTCHARSLEN - Suc (length q))" by simp
    with True Cons.IH [of "q @ [c]"] show ?thesis by simp
  qed (use Cons.prems in simp)
qed simp

datatype out_op = Put "u8 list" | Take nat

text \<open>What the wait of \<open>waitfor_outchars\<close> brings, if it waits.\<close>

definition arrivals :: "'w cc_env \<Rightarrow> 'w cancon \<Rightarrow> u8 list" where
  "arrivals C s = (if outchars s = [] then take OUTCHARSLEN (fst (out_wait C (world (canlib s)))) else [])"

text \<open>The characters accepted, the characters taken, and the state, after a sequence of operations.\<close>

fun out_run :: "'w cc_env \<Rightarrow> out_op list \<Rightarrow> 'w cancon \<Rightarrow> u8 list \<times> u8 list \<times> 'w cancon" where
  "out_run C [] s = ([], [], s)"
| "out_run C (Put cs # ops) s =
     (case signal_outchars cs (outchars s) of (k, q) \<Rightarrow>
      (case out_run C ops (s\<lparr>outchars := q\<rparr>) of (put, got, t) \<Rightarrow> (take k cs @ put, got, t)))"
| "out_run C (Take m # ops) s =
     (case waitfor_outchars C m s of (cs, s1) \<Rightarrow>
      (case out_run C ops s1 of (put, got, t) \<Rightarrow> (arrivals C s @ put, cs @ got, t)))"

lemma waitfor_outchars_parts:
  "waitfor_outchars C m s = (cs, s1) \<Longrightarrow> length (outchars s) \<le> OUTCHARSLEN \<Longrightarrow>
   cs @ outchars s1 = outchars s @ arrivals C s \<and> length (outchars s1) \<le> OUTCHARSLEN \<and> length cs \<le> m"
proof -
  assume w: "waitfor_outchars C m s = (cs, s1)" and len: "length (outchars s) \<le> OUTCHARSLEN"
  define q where "q = outchars s @ arrivals C s"
  have "cs = take (min (length q) m) q" "outchars s1 = drop (min (length q) m) q"
    using w by (cases "outchars s = []"; cases "out_wait C (world (canlib s))";
        simp add: waitfor_outchars_def q_def arrivals_def Let_def signal_outchars_eq set_world_def;
        clarsimp)+
  moreover have "length q \<le> OUTCHARSLEN" using len by (simp add: q_def arrivals_def)
  ultimately show ?thesis unfolding q_def [symmetric] by simp
qed

text \<open>
  C26 (typed_chars_fifo): in every sequence of \<^verbatim>\<open>signal_outchars\<close> and \<^verbatim>\<open>waitfor_outchars\<close> calls, the
  characters taken followed by those still queued are the characters accepted, in
  order; the queue never outgrows its 1024 bytes; and a call of \<^verbatim>\<open>signal_outchars\<close> accepts the
  longest prefix that fits and returns its length.
\<close>

theorem typed_chars_fifo:
  assumes "length (outchars s) \<le> OUTCHARSLEN" "out_run C ops s = (put, got, t)"
  shows "got @ outchars t = outchars s @ put \<and> length (outchars t) \<le> OUTCHARSLEN
    \<and> signal_outchars cs (outchars t)
      = (min (length cs) (OUTCHARSLEN - length (outchars t)), outchars t @ take (OUTCHARSLEN - length (outchars t)) cs)"
proof -
  have "got @ outchars t = outchars s @ put \<and> length (outchars t) \<le> OUTCHARSLEN"
    using assms
  proof (induction C ops s arbitrary: put got rule: out_run.induct)
    case (2 C cs ops s)
    let ?q = "outchars s @ take (OUTCHARSLEN - length (outchars s)) cs"
    have sq: "signal_outchars cs (outchars s) = (min (length cs) (OUTCHARSLEN - length (outchars s)), ?q)"
      by (rule signal_outchars_eq [OF "2.prems"(1)])
    obtain p g where o: "out_run C ops (s\<lparr>outchars := ?q\<rparr>) = (p, g, t)"
      using "2.prems"(2) sq by (auto split: prod.splits)
    have "length (outchars (s\<lparr>outchars := ?q\<rparr>)) \<le> OUTCHARSLEN" using "2.prems"(1) by simp
    from "2.IH" [OF sq [symmetric] this o] show ?case using "2.prems"(2) sq o by (auto simp: take_min_length)
  next
    case (3 C m ops s)
    obtain cs s1 where w: "waitfor_outchars C m s = (cs, s1)" by (cases "waitfor_outchars C m s")
    obtain p g where o: "out_run C ops s1 = (p, g, t)" using "3.prems"(2) w by (auto split: prod.splits)
    note parts = waitfor_outchars_parts [OF w "3.prems"(1)]
    from "3.IH" [OF w [symmetric] _ o] parts
    have "g @ outchars t = outchars s1 @ p" "length (outchars t) \<le> OUTCHARSLEN" by simp_all
    moreover have "got = cs @ g" "put = arrivals C s @ p" using "3.prems"(2) w o by simp_all
    ultimately show ?case using parts by (metis append_assoc)
  qed simp
  then show ?thesis using signal_outchars_eq by blast
qed

text \<open>
  A network on which nothing is ever answered: it records the packets written, and every
  wait ends with the timeout.
\<close>

definition dead_env :: "can_packet \<Rightarrow> can_packet list cc_env" where
  "dead_env u =
     \<lparr>cc_os = \<lparr>sys_get_addr = (\<lambda>w. (Some 0, w)), sys_write = (\<lambda>p w. (16, w @ [p])),
               sys_read = (\<lambda>w. (- 1, u, w)), offsets = (\<lambda>_. 0), uninit = u\<rparr>,
      mutex_free = (\<lambda>w. ([], w)), timedwait = (\<lambda>w. (True, [], w)), out_wait = (\<lambda>w. ([], w))\<rparr>"

definition quiet :: "can_packet list cancon" where
  "quiet =
     \<lparr>console_object = request, target_ch = \<lparr>h_cluster = 1, h_module = 2, h_node = 3, hostname = []\<rparr>,
      my_consobj = 0x100, my_nodeid = 0, resetobj = \<lparr>obj_id = 0, obj_name = []\<rparr>, ackbuf = [], outchars = [],
      fopt = False, canlib = inbox_lib [], out_bytes = [], msgs = [], disconnects = 0\<rparr>"

theorem typed_chars_fifo_witness:
  "\<exists>put got t. out_run (dead_env request_pkt) [Put [1, 2, 3, 4, 5], Take 4] quiet = (put, got, t)
     \<and> got @ outchars t = put \<and> got = [1, 2, 3, 4]"
proof -
  obtain put got t where o: "out_run (dead_env request_pkt) [Put [1, 2, 3, 4, 5], Take 4] quiet = (put, got, t)"
    by (cases "out_run (dead_env request_pkt) [Put [1, 2, 3, 4, 5], Take 4] quiet")
  moreover have "length (outchars quiet) \<le> OUTCHARSLEN" by (simp add: quiet_def)
  ultimately have "got @ outchars t = outchars quiet @ put" using typed_chars_fifo by blast
  moreover have "got = [1, 2, 3, 4]"
    using o by (auto simp: quiet_def OUTCHARSLEN_def waitfor_outchars_def)
  ultimately show ?thesis using o by (simp add: quiet_def)
qed

section \<open>Retries\<close>

definition sent_pkt :: "can_packet \<Rightarrow> can_header_ext \<Rightarrow> can_dat option \<Rightarrow> int \<Rightarrow> u32 \<Rightarrow> can_packet" where
  "sent_pkt u x d len nid =
     u\<lparr>can := (can u)\<lparr>lpriority := CAN_HIGH_PRIORITY, clength := word_of_int (4 + len),
          dest := (if UNPACK_MODULE nid = ucast (module x) \<and> UNPACK_CLUSTER nid = ucast (cluster x)
                   then ucast (node x) else ucast CAN_MODULE_H8)\<rparr>,
       ext := x, dat := (case d of Some v \<Rightarrow> if len > 0 then v else dat u | None \<Rightarrow> dat u)\<rparr>"

lemma dead_send:
  "initialized (canlib s) \<Longrightarrow>
   lib_send (dead_env u) x d len s
     = Ret (s\<lparr>canlib := (canlib s)\<lparr>world := world (canlib s) @ [sent_pkt u x d len (nodeid (canlib s))]\<rparr>\<rparr>)"
  by (cases d) (simp_all add: lib_send_def can_send_def lib_ready_def write_pkt_def dead_env_def sent_pkt_def
      PKTSIZE_user_def Let_def)

lemma dead_wait:
  "ackbuf s = [] \<Longrightarrow> waitfor_acknak (dead_env u) (Suc n) x d s = Ret (TIMEDOUT, d, s)"
  by (cases s) (simp add: waitfor_acknak_def deposit_def set_world_def dead_env_def)

lemma dead_loop:
  assumes "initialized (canlib s)" "ackbuf s = []"
  shows "\<exists>t. mysend_loop (dead_env u) (Suc n) x d len a m tries s = Ret (TIMEDOUT, a, t)
    \<and> world (canlib t) = world (canlib s) @ replicate (max 1 (m - tries)) (sent_pkt u x d len (nodeid (canlib s)))"
  using assms
proof (induction "m - tries" arbitrary: tries s)
  case (0 tries s)
  then show ?case
    by (subst mysend_loop.simps) (simp add: dead_send dead_wait Let_def say_def)
next
  case (Suc k tries s)
  let ?p = "sent_pkt u x d len (nodeid (canlib s))"
  let ?t = "say Dot (s\<lparr>canlib := (canlib s)\<lparr>world := world (canlib s) @ [?p]\<rparr>\<rparr>)"
  have eq: "mysend_loop (dead_env u) (Suc n) x d len a m tries s =
      (if Suc tries < m then mysend_loop (dead_env u) (Suc n) x d len a m (Suc tries) ?t
       else Ret (TIMEDOUT, a, say (SendAborted (Suc tries)) ?t))"
    using Suc.prems Suc.hyps(2) by (subst mysend_loop.simps) (simp add: dead_send dead_wait Let_def)
  show ?case
  proof (cases "Suc tries < m")
    case True
    have "initialized (canlib ?t)" "ackbuf ?t = []" "k = m - Suc tries" using Suc by (simp_all add: say_def)
    from Suc.hyps(1) [OF this(3,1,2)] True Suc.hyps(2) show ?thesis
      by (auto simp: eq say_def max_def simp flip: replicate_Suc)
  next
    case False
    with Suc.hyps(2) show ?thesis by (simp add: eq say_def)
  qed
qed

text \<open>
  C40 (send_gives_up): on a network that never answers, a send with \<open>m\<close> retries returns, with the
  result that it timed out, after writing the same packet \<open>m\<close> times, and once when \<open>m\<close> is 0: 20 times
  for \<^verbatim>\<open>send\<close> and once for \<^verbatim>\<open>send_nb\<close>. One wait per packet is enough.
\<close>

theorem send_gives_up:
  assumes "initialized (canlib s)" "ackbuf s = []"
  shows "\<exists>t. mysend (dead_env u) (Suc n) x d len a m s = Ret (TIMEDOUT, a, t)
    \<and> world (canlib t) = world (canlib s) @ replicate (max 1 m) (sent_pkt u x d len (nodeid (canlib s)))"
  using dead_loop [OF assms, of u n x d len a m 0] by (simp add: mysend_def)

theorem send_gives_up_witness:
  "\<exists>t. send (dead_env request_pkt) 1 request None 0 0 quiet = Ret (TIMEDOUT, 0, t) \<and> length (world (canlib t)) = 20"
proof -
  have "initialized (canlib quiet)" "ackbuf quiet = []" by (simp_all add: quiet_def inbox_lib_def)
  from send_gives_up [OF this, of request_pkt 0 request None 0 0 20] show ?thesis
    by (auto simp: send_def MAX_RETRIES_def quiet_def inbox_lib_def)
qed

text \<open>
  If two threads wait for answers at the same time, as the writer and the
  tty thread do when a break or a reset is sent, the one that gets the mutex first throws
  the other's answer away: \<^verbatim>\<open>waitfor_acknak\<close> empties the buffer whether or not an answer in it is
  its own. The thread whose answer had arrived then times out, where alone it would
  have had its answer.
\<close>

theorem second_waiter_loses_answer:
  assumes "ackbuf s = [a]" "same_addr (a_ext a) x" "\<not> same_addr (a_ext a) y"
  shows "waitfor_acknak (dead_env u) 2 y d s = Ret (TIMEDOUT, d, s\<lparr>ackbuf := []\<rparr>)
    \<and> waitfor_acknak (dead_env u) 1 x d (s\<lparr>ackbuf := []\<rparr>) = Ret (TIMEDOUT, d, s\<lparr>ackbuf := []\<rparr>)
    \<and> waitfor_acknak (dead_env u) 1 x d s = Ret (IS_ACKNAK (ctype (a_ext a)), a_dat a, s\<lparr>ackbuf := []\<rparr>)"
proof -
  have w: "set_world (world (canlib t)) t = t" "deposit [] t = t" for t :: "can_packet list cancon"
    by (simp_all add: set_world_def deposit_def)
  have "IS_ACKNAK t \<noteq> NONE" for t by (simp add: IS_ACKNAK_def)
  moreover have "world (canlib (s\<lparr>ackbuf := []\<rparr>)) = world (canlib s)" by simp
  ultimately show ?thesis
    using assms w [of s] w [of "s\<lparr>ackbuf := []\<rparr>"]
    by (simp add: waitfor_acknak_def dead_env_def eval_nat_numeral Let_def)
qed

theorem second_waiter_loses_answer_witness:
  "waitfor_acknak (dead_env request_pkt) 2 (request\<lparr>object := CANOBJ_BREAK\<rparr>) 0
     (quiet\<lparr>ackbuf := [\<lparr>a_ext = request, a_dat = 7\<rparr>]\<rparr>) = Ret (TIMEDOUT, 0, quiet)"
proof -
  let ?s = "quiet\<lparr>ackbuf := [\<lparr>a_ext = request, a_dat = 7\<rparr>]\<rparr>"
  have "ackbuf ?s = [\<lparr>a_ext = request, a_dat = 7\<rparr>]" "same_addr (a_ext \<lparr>a_ext = request, a_dat = 7\<rparr>) request"
    "\<not> same_addr (a_ext \<lparr>a_ext = request, a_dat = 7\<rparr>) (request\<lparr>object := CANOBJ_BREAK\<rparr>)"
    by (simp_all add: same_addr_def request_def CANOBJ_BREAK_def)
  from second_waiter_loses_answer [OF this, of request_pkt 0] show ?thesis by (simp add: quiet_def)
qed

end
