(* ===== verification/CanconNet.thy ===== *)
theory CanconNet
  imports Cancon CanObjects
begin

text \<open>
  The console program of \<^verbatim>\<open>cmd/cancon.c\<close> against the node it connects to. What the program relies
  on is the interface \<open>console_peer\<close>: the laws of the connect and disconnect objects. The
  kernel driver provides them, so that the connect protocol is proved for the
  composition of the two programs.
\<close>

section \<open>The interface\<close>

text \<open>
  \<open>peer p s\<close> is what a node in state \<open>s\<close> answers to the packet \<open>p\<close>, and its next state; \<open>con\<close> is who
  its console is connected to.
\<close>

definition answers_as :: "3 word \<Rightarrow> can_packet \<Rightarrow> can_packet \<Rightarrow> bool" where
  "answers_as ty p a \<longleftrightarrow> ctype (ext a) = ty \<and> same_addr (ext a) (ext p)"

locale console_peer =
  fixes peer :: "can_packet \<Rightarrow> 's \<Rightarrow> can_packet list \<times> 's"
    and con :: "'s \<Rightarrow> can_header_ext"
  assumes read_con: "object (ext p) = CANOBJ_CONSOLE_CONNECT \<Longrightarrow> ctype (ext p) = CANTYPE_RO \<Longrightarrow>
      con (snd (peer p s)) = con s
      \<and> (\<exists>a. fst (peer p s) = [a] \<and> answers_as CANTYPE_ACK p a \<and> dat a = ext_dat (con s))"
    and write_con: "object (ext p) = CANOBJ_CONSOLE_CONNECT \<Longrightarrow> ctype (ext p) = CANTYPE_WO \<Longrightarrow>
      con (snd (peer p s)) = (if CANCON_UNCONNECTED (con s) then dat_ext (dat p) else con s)
      \<and> (\<exists>a. fst (peer p s) = [a]
           \<and> answers_as (if CANCON_UNCONNECTED (con s) then CANTYPE_ACK else CANTYPE_NAK) p a)"
    and write_disconn: "object (ext p) = CANOBJ_CONSOLE_DISCONN \<Longrightarrow> ctype (ext p) = CANTYPE_WO \<Longrightarrow>
      CANCON_UNCONNECTED (con (snd (peer p s)))
      \<and> (\<exists>a. fst (peer p s) = [a]
           \<and> answers_as (if CANCON_UNCONNECTED (con s) then CANTYPE_NAK else CANTYPE_ACK) p a)"

text \<open>
  A network of the target and of the node whose program holds the console: a request to
  disconnect goes to the latter, which answers \<open>other\<close> and does nothing else.
\<close>

locale console_net = console_peer +
  fixes other :: "can_packet \<Rightarrow> can_packet list"
  assumes force: "object (ext p) = CANOBJ_FORCE_DISCONN \<Longrightarrow> peer p s = (other p, s)"

section \<open>The program's view of the network\<close>

text \<open>
  The world is the peer's state and the packets on their way back; the reader thread
  hands over all of them when it can, and a wait without answers times out.
\<close>

definition to_acks :: "can_packet list \<Rightarrow> ack_pkt list" where
  "to_acks ps = map (\<lambda>p. \<lparr>a_ext = ext p, a_dat = dat p\<rparr>) (filter (\<lambda>p. ISACKNAK (ctype (ext p))) ps)"

definition peer_os :: "(can_packet \<Rightarrow> 's \<Rightarrow> can_packet list \<times> 's) \<Rightarrow> can_packet \<Rightarrow> ('s \<times> can_packet list) os" where
  "peer_os peer u =
     \<lparr>sys_get_addr = (\<lambda>w. (Some 0, w)),
      sys_write = (\<lambda>p (s, b). (16, case peer p s of (as, s) \<Rightarrow> (s, b @ as))),
      sys_read = (\<lambda>(s, b). case b of [] \<Rightarrow> (- 1, u, s, b) | p # ps \<Rightarrow> (16, p, s, ps)),
      offsets = (\<lambda>_. 0), uninit = u\<rparr>"

definition peer_env ::
    "(can_packet \<Rightarrow> 's \<Rightarrow> can_packet list \<times> 's) \<Rightarrow> can_packet \<Rightarrow> ('s \<times> can_packet list) cc_env" where
  "peer_env peer u =
     \<lparr>cc_os = peer_os peer u, mutex_free = (\<lambda>(s, b). (to_acks b, s, [])),
      timedwait = (\<lambda>(s, b). (True, to_acks b, s, [])), out_wait = (\<lambda>w. ([], w))\<rparr>"

lemma peer_env_uninit [simp]: "uninit (cc_os (peer_env peer u)) = u"
  by (simp add: peer_env_def peer_os_def)

text \<open>A program between two requests: nothing is buffered or on its way, the peer is in state \<open>v\<close>.\<close>

definition settled :: "'s \<Rightarrow> ('s \<times> can_packet list) cancon \<Rightarrow> bool" where
  "settled v st \<longleftrightarrow> initialized (canlib st) \<and> ackbuf st = [] \<and> world (canlib st) = (v, [])"

definition at_peer :: "'s \<Rightarrow> ('s \<times> can_packet list) cancon \<Rightarrow> ('s \<times> can_packet list) cancon" where
  "at_peer v st = set_world (v, []) st"

lemma at_fields [simp]:
  "settled v st \<Longrightarrow> settled v' (at_peer v' st)" "settled v (say m st) = settled v st"
  "target_ch (at_peer v st) = target_ch st" "fopt (at_peer v st) = fopt st" "my_nodeid (at_peer v st) = my_nodeid st"
  "my_consobj (at_peer v st) = my_consobj st" "console_object (at_peer v st) = console_object st"
  "target_ch (say m st) = target_ch st" "fopt (say m st) = fopt st" "my_nodeid (say m st) = my_nodeid st"
  "my_consobj (say m st) = my_consobj st" "console_object (say m st) = console_object st"
  "nodeid (canlib (at_peer v st)) = nodeid (canlib st)" "nodeid (canlib (say m st)) = nodeid (canlib st)"
  by (simp_all add: settled_def at_peer_def set_world_def say_def)

abbreviation req :: "can_packet \<Rightarrow> can_header_ext \<Rightarrow> can_dat option \<Rightarrow> int \<Rightarrow> ('s \<times> can_packet list) cancon \<Rightarrow> can_packet" where
  "req u x d len st \<equiv> sent_pkt u x d len (nodeid (canlib st))"

lemma sent_pkt_fields [simp]: "ext (sent_pkt u x d len i) = x" "0 < len \<Longrightarrow> dat (sent_pkt u x (Some v) len i) = v"
  by (simp_all add: sent_pkt_def)

lemma peer_send:
  assumes "settled v st" "peer (req u x d len st) v = (as, v')"
  shows "lib_send (peer_env peer u) x d len st = Ret (set_world (v', as) st)"
  using assms
  by (cases d) (auto simp: lib_send_def can_send_def lib_ready_def write_pkt_def peer_env_def peer_os_def sent_pkt_def
      settled_def set_world_def PKTSIZE_user_def Let_def)

lemma peer_wait_one:
  assumes "initialized (canlib st)" "ackbuf st = []" "world (canlib st) = (v, [a])"
    and "answers_as ty p a" "ty = CANTYPE_ACK \<or> ty = CANTYPE_NAK" "same_addr (ext p) x"
  shows "waitfor_acknak (peer_env peer u) (Suc n) x d st = Ret (IS_ACKNAK ty, dat a, at_peer v st)"
proof -
  have "to_acks [a] = [\<lparr>a_ext = ext a, a_dat = dat a\<rparr>]"
    using assms(4,5) by (auto simp: to_acks_def answers_as_def ISACKNAK_def)
  moreover have "same_addr (ext a) x" using assms(4,6) by (simp add: answers_as_def same_addr_def)
  moreover have "IS_ACKNAK ty \<noteq> NONE" by (simp add: IS_ACKNAK_def)
  ultimately show ?thesis
    using assms by (cases st) (simp add: waitfor_acknak_def peer_env_def deposit_def set_world_def signal_acknak_def
        ACKBUFLEN_def at_peer_def answers_as_def Let_def)
qed

lemma peer_wait_none:
  assumes "settled v st"
  shows "waitfor_acknak (peer_env peer u) (Suc n) x d st = Ret (TIMEDOUT, d, st)"
  using assms by (cases st) (auto simp: waitfor_acknak_def peer_env_def deposit_def set_world_def to_acks_def settled_def)

lemma set_world_parts:
  "settled v st \<Longrightarrow> initialized (canlib (set_world w st))" "settled v st \<Longrightarrow> ackbuf (set_world w st) = []"
  "world (canlib (set_world w st)) = w" "at_peer v' (set_world w st) = at_peer v' st"
  by (simp_all add: settled_def set_world_def at_peer_def)

text \<open>An acknowledged request is sent once.\<close>

lemma mysend_acked:
  assumes "settled v st" "peer (req u x d len st) v = ([a], v')" "answers_as CANTYPE_ACK (req u x d len st) a"
  shows "mysend (peer_env peer u) (Suc n) x d len ack m st = Ret (ACK, dat a, at_peer v' st)"
proof -
  have "waitfor_acknak (peer_env peer u) (Suc n) x ack (set_world (v', [a]) st) = Ret (IS_ACKNAK CANTYPE_ACK, dat a, at_peer v' (set_world (v', [a]) st))"
    by (rule peer_wait_one [OF _ _ _ assms(3)]) (simp_all add: set_world_parts(1,2) [OF assms(1)] set_world_parts(3) same_addr_def)
  then show ?thesis
    unfolding mysend_def
    by (subst mysend_loop.simps)
       (simp add: peer_send [where peer = peer, OF assms(1,2)] set_world_parts(4) IS_ACKNAK_def Let_def)
qed

lemma mysend_nb_silent:
  assumes "settled v st" "peer (req u x d len st) v = ([], v')"
  shows "mysend (peer_env peer u) (Suc n) x d len ack 0 st = Ret (TIMEDOUT, ack, at_peer v' st)"
proof -
  have "settled v' (set_world (v', []) st)" using assms(1) by (simp add: settled_def set_world_def)
  from peer_wait_none [OF this] show ?thesis
    unfolding mysend_def
    by (subst mysend_loop.simps) (simp add: peer_send [where peer = peer, OF assms] at_peer_def Let_def)
qed

section \<open>The connect protocol\<close>

definition claimed :: "('s \<times> can_packet list) cancon \<Rightarrow> can_header_ext" where
  "claimed st = load_ext_nodeid (my_nodeid st) (console_object st) CANTYPE_DAT (my_consobj st)"

context console_peer
begin

lemma connect_read:
  assumes "settled v st"
  shows "\<exists>v'. send_connect (peer_env peer u) (Suc n) CANTYPE_RO c st = Ret (ACK, con v, at_peer v' st) \<and> con v' = con v"
proof -
  let ?x = "load_ext_ch (ext u) CANTYPE_RO (uint CANOBJ_CONSOLE_CONNECT) (target_ch st)"
  have x: "object (ext (req u ?x None 0 st)) = CANOBJ_CONSOLE_CONNECT" "ctype (ext (req u ?x None 0 st)) = CANTYPE_RO"
    by (simp_all add: load_ext_ch_def)
  define v' where "v' = snd (peer (req u ?x None 0 st) v)"
  obtain a where a: "peer (req u ?x None 0 st) v = ([a], v')" "con v' = con v"
      "answers_as CANTYPE_ACK (req u ?x None 0 st) a" "dat a = ext_dat (con v)"
    using read_con [OF x, of v] by (auto simp: v'_def prod_eq_iff)
  have "send_connect (peer_env peer u) (Suc n) CANTYPE_RO c st = Ret (ACK, con v, at_peer v' st)"
    using mysend_acked [where peer = peer, OF assms a(1,3)] a(4) by (simp add: send_connect_def send_def Let_def)
  with a(2) show ?thesis by blast
qed

lemma connect_write:
  assumes "settled v st" "CANCON_UNCONNECTED (con v)"
  shows "\<exists>v'. send_connect (peer_env peer u) (Suc n) CANTYPE_WO c st = Ret (ACK, c, at_peer v' st) \<and> con v' = c"
proof -
  let ?x = "load_ext_ch (ext u) CANTYPE_WO (uint CANOBJ_CONSOLE_CONNECT) (target_ch st)"
  let ?p = "req u ?x (Some (ext_dat c)) 4 st"
  have x: "object (ext ?p) = CANOBJ_CONSOLE_CONNECT" "ctype (ext ?p) = CANTYPE_WO"
    by (simp_all add: load_ext_ch_def)
  define v' where "v' = snd (peer ?p v)"
  obtain a where a: "peer ?p v = ([a], v')" "con v' = c" "answers_as CANTYPE_ACK ?p a"
    using write_con [OF x, of v] assms(2) by (auto simp: v'_def prod_eq_iff)
  have "CANTYPE_WO \<noteq> CANTYPE_RO" by (simp add: CANTYPE_defs)
  then have "send_connect (peer_env peer u) (Suc n) CANTYPE_WO c st = Ret (ACK, c, at_peer v' st)"
    using mysend_acked [where peer = peer, OF assms(1) a(1,3)] by (simp add: send_connect_def send_def Let_def)
  with a(2) show ?thesis by blast
qed

lemma disconnect_write:
  assumes "settled v st" "\<not> CANCON_UNCONNECTED (con v)"
  shows "\<exists>v'. send_disconnect (peer_env peer u) (Suc n) c st = Ret (ACK, at_peer v' st) \<and> CANCON_UNCONNECTED (con v')"
proof -
  let ?x = "load_ext_ch (ext u) CANTYPE_WO (uint CANOBJ_CONSOLE_DISCONN) (target_ch st)"
  let ?p = "req u ?x (Some (ext_dat c)) 4 st"
  have x: "object (ext ?p) = CANOBJ_CONSOLE_DISCONN" "ctype (ext ?p) = CANTYPE_WO"
    by (simp_all add: load_ext_ch_def)
  define v' where "v' = snd (peer ?p v)"
  obtain a where a: "peer ?p v = ([a], v')" "CANCON_UNCONNECTED (con v')" "answers_as CANTYPE_ACK ?p a"
    using write_disconn [OF x, of v] assms(2) by (auto simp: v'_def prod_eq_iff)
  have "send_disconnect (peer_env peer u) (Suc n) c st = Ret (ACK, at_peer v' st)"
    using mysend_acked [where peer = peer, OF assms(1) a(1,3)] by (simp add: send_disconnect_def send_def)
  with a(2) show ?thesis by blast
qed

text \<open>The last part of the protocol, once the console is free.\<close>

lemma connect_free:
  assumes "settled v st" "CANCON_UNCONNECTED (con v)"
  shows "\<exists>t v'. (let s = st\<lparr>console_object := claimed st\<rparr>
      in then_run (send_connect (peer_env peer u) (Suc n) CANTYPE_WO (console_object s) s)
           (\<lambda>(r, _, s). if r \<noteq> ACK then Ret (-1, s) else Ret (0, say Connected s))) = Ret (0 :: int, t)
    \<and> settled v' t \<and> con v' = claimed st \<and> console_object t = claimed st"
proof -
  let ?s = "st\<lparr>console_object := claimed st\<rparr>"
  have s: "settled v ?s" using assms(1) by (simp add: settled_def)
  then obtain v' where "send_connect (peer_env peer u) (Suc n) CANTYPE_WO (claimed st) ?s = Ret (ACK, claimed st, at_peer v' ?s)"
      "con v' = claimed st"
    using connect_write [OF s assms(2)] by blast
  moreover have "settled v' (at_peer v' ?s)" using s by simp
  ultimately show ?thesis by auto
qed

lemma connect_unused:
  assumes "settled v st" "CANCON_UNCONNECTED (con v)"
  shows "\<exists>t v'. connect_protocol (peer_env peer u) (Suc n) st = Ret (0, t)
    \<and> settled v' t \<and> con v' = console_object t \<and> console_object t = claimed st"
proof -
  obtain v1 where r: "send_connect (peer_env peer u) (Suc n) CANTYPE_RO (ext u) (say Connecting st)
      = Ret (ACK, con v, at_peer v1 (say Connecting st))" "con v1 = con v"
    using connect_read [of v "say Connecting st" u n "ext u"] assms(1) by auto
  let ?s = "at_peer v1 (say Connecting st)"
  have s: "settled v1 ?s" "CANCON_UNCONNECTED (con v1)" using assms r(2) by simp_all
  have c: "claimed ?s = claimed st" by (simp add: claimed_def)
  obtain t v' where t: "then_run (send_connect (peer_env peer u) (Suc n) CANTYPE_WO (claimed ?s) (?s\<lparr>console_object := claimed ?s\<rparr>))
        (\<lambda>(r, _, s). if r \<noteq> ACK then Ret (-1, s) else Ret (0, say Connected s)) = Ret (0 :: int, t)"
      "settled v' t" "con v' = claimed ?s" "console_object t = claimed ?s"
    using connect_free [OF s, of u n] by auto
  have "connect_protocol (peer_env peer u) (Suc n) st = Ret (0, t)"
    using t(1) r assms(2) by (simp add: connect_protocol_def claimed_def Let_def)
  with t(2-4) c show ?thesis by auto
qed

lemma connect_used:
  assumes "settled v st" "\<not> CANCON_UNCONNECTED (con v)" "\<not> fopt st"
  shows "\<exists>t v'. connect_protocol (peer_env peer u) (Suc n) st = Ret (-1, t) \<and> settled v' t \<and> con v' = con v"
proof -
  obtain v1 where r: "send_connect (peer_env peer u) (Suc n) CANTYPE_RO (ext u) (say Connecting st)
      = Ret (ACK, con v, at_peer v1 (say Connecting st))" "con v1 = con v"
    using connect_read [of v "say Connecting st" u n "ext u"] assms(1) by auto
  have "settled v1 (at_peer v1 (say Connecting st))" using assms(1) by simp
  then show ?thesis
    using r assms(2,3) by (auto simp: connect_protocol_def)
qed

end

definition same_vars :: "('s \<times> can_packet list) cancon \<Rightarrow> ('s \<times> can_packet list) cancon \<Rightarrow> bool" where
  "same_vars t st \<longleftrightarrow> my_nodeid t = my_nodeid st \<and> my_consobj t = my_consobj st \<and> console_object t = console_object st"

lemma same_vars_simps [simp]:
  "same_vars (at_peer v t) st = same_vars t st" "same_vars (say m t) st = same_vars t st" "same_vars st st"
  by (simp_all add: same_vars_def)

text \<open>
  Stealing: the program that held the console does not answer the request to disconnect,
  or it is acknowledged (by it, or by its node's kernel) but the connection stays.
\<close>

context console_net
begin

lemma force_answered:
  assumes "settled v st" "\<And>p. \<exists>a. other p = [a] \<and> answers_as CANTYPE_ACK p a"
  shows "send_force_disconnect_nb (peer_env peer u) (Suc n) c st = Ret (ACK, at_peer v st)"
proof -
  let ?p = "req u (c\<lparr>ctype := CANTYPE_WO, object := CANOBJ_FORCE_DISCONN\<rparr>) (Some (ext_dat c)) 4 st"
  obtain a where a: "other ?p = [a]" "answers_as CANTYPE_ACK ?p a" using assms(2) by blast
  have "peer ?p v = ([a], v)" using force [of ?p v] a(1) by simp
  from mysend_acked [where peer = peer, OF assms(1) this a(2)] show ?thesis
    by (simp add: send_force_disconnect_nb_def send_nb_def)
qed

lemma force_silent:
  assumes "settled v st" "\<And>p. other p = []"
  shows "send_force_disconnect_nb (peer_env peer u) (Suc n) c st = Ret (TIMEDOUT, say NoResponse (at_peer v st))"
proof -
  let ?p = "req u (c\<lparr>ctype := CANTYPE_WO, object := CANOBJ_FORCE_DISCONN\<rparr>) (Some (ext_dat c)) 4 st"
  have "peer ?p v = ([], v)" using force [of ?p v] assms(2) by simp
  from mysend_nb_silent [where peer = peer, OF assms(1) this] show ?thesis
    by (simp add: send_force_disconnect_nb_def send_nb_def)
qed

lemma heist_loop_free:
  assumes "settled v st" "CANCON_UNCONNECTED (con v)"
  shows "\<exists>v'. heist_loop (peer_env peer u) (Suc n) k c st = Ret (Some (Suc k, con v), at_peer v' st) \<and> con v' = con v"
proof -
  obtain v' where "send_connect (peer_env peer u) (Suc n) CANTYPE_RO c st = Ret (ACK, con v, at_peer v' st)" "con v' = con v"
    using connect_read [OF assms(1), of u n c] by blast
  with assms(2) show ?thesis by (subst heist_loop.simps) (auto simp: Let_def)
qed

lemma heist_loop_stuck:
  assumes "settled v st" "\<not> CANCON_UNCONNECTED (con v)" "k < 5"
  shows "\<exists>v'. heist_loop (peer_env peer u) (Suc n) k c st = Ret (Some (5, con v), at_peer v' st) \<and> con v' = con v"
  using assms
proof (induction "5 - k" arbitrary: k c v st)
  case (Suc j k c v st)
  obtain v1 where r: "send_connect (peer_env peer u) (Suc n) CANTYPE_RO c st = Ret (ACK, con v, at_peer v1 st)" "con v1 = con v"
    using connect_read [OF Suc.prems(1), of u n c] by blast
  show ?case
  proof (cases "Suc k < 5")
    case True
    have s1: "settled v1 (at_peer v1 st)" using Suc.prems(1) by simp
    have "j = 5 - Suc k" using Suc.hyps(2) by simp
    from Suc.hyps(1) [OF this s1 _ True, of "con v"] r(2) Suc.prems(2)
    obtain v' where "heist_loop (peer_env peer u) (Suc n) (Suc k) (con v) (at_peer v1 st) = Ret (Some (5, con v), at_peer v' (at_peer v1 st))"
        "con v' = con v" by auto
    moreover have "at_peer v' (at_peer v1 st) = at_peer v' st" by (simp add: at_peer_def set_world_def)
    ultimately show ?thesis
      using True r Suc.prems(2) by (subst heist_loop.simps) (auto simp: Let_def)
  next
    case False
    with Suc.prems(3) have "Suc k = 5" by simp
    with r Suc.prems(2) show ?thesis by (subst heist_loop.simps) (auto simp: Let_def)
  qed
qed simp

lemma heist_succeeds:
  assumes "settled v st" "\<not> CANCON_UNCONNECTED (con v)"
    and "(\<forall>p. other p = []) \<or> (\<forall>p. \<exists>a. other p = [a] \<and> answers_as CANTYPE_ACK p a)"
  shows "\<exists>t v'. heist_connection (peer_env peer u) (Suc n) c st = Ret (0, t)
    \<and> settled v' t \<and> CANCON_UNCONNECTED (con v') \<and> same_vars t st"
  using assms(3)
proof
  assume "\<forall>p. other p = []"
  then have f: "send_force_disconnect_nb (peer_env peer u) (Suc n) c st = Ret (TIMEDOUT, say NoResponse (at_peer v st))"
    using force_silent [OF assms(1)] by blast
  let ?s1 = "say NoResponse (at_peer v st)"
  have s1: "settled v ?s1" using assms(1) by simp
  obtain v2 where d: "send_disconnect (peer_env peer u) (Suc n) c ?s1 = Ret (ACK, at_peer v2 ?s1)" "CANCON_UNCONNECTED (con v2)"
    using disconnect_write [OF s1 assms(2), of u n c] by blast
  have s2: "settled v2 (at_peer v2 ?s1)" using s1 by simp
  obtain v3 where "heist_loop (peer_env peer u) (Suc n) 0 c (at_peer v2 ?s1) = Ret (Some (1, con v2), at_peer v3 (at_peer v2 ?s1))" "con v3 = con v2"
    using heist_loop_free [OF s2 d(2), of u n 0 c] by auto
  moreover have "settled v3 (at_peer v3 (at_peer v2 ?s1))" using s2 by simp
  ultimately show ?thesis using f d by (auto simp: heist_connection_def)
next
  assume "\<forall>p. \<exists>a. other p = [a] \<and> answers_as CANTYPE_ACK p a"
  then have f: "send_force_disconnect_nb (peer_env peer u) (Suc n) c st = Ret (ACK, at_peer v st)"
    using force_answered [OF assms(1)] by blast
  have s1: "settled v (at_peer v st)" using assms(1) by simp
  obtain v2 where h: "heist_loop (peer_env peer u) (Suc n) 0 c (at_peer v st) = Ret (Some (5, con v), at_peer v2 (at_peer v st))" "con v2 = con v"
    using heist_loop_stuck [OF s1 assms(2), of 0 u n c] by auto
  have s2: "settled v2 (at_peer v2 (at_peer v st))" using s1 by simp
  obtain v3 where "send_disconnect (peer_env peer u) (Suc n) (con v) (at_peer v2 (at_peer v st)) = Ret (ACK, at_peer v3 (at_peer v2 (at_peer v st)))"
      "CANCON_UNCONNECTED (con v3)"
    using disconnect_write [OF s2, of u n "con v"] assms(2) h(2) by auto
  moreover have "settled v3 (at_peer v3 (at_peer v2 (at_peer v st)))" using s2 by simp
  ultimately show ?thesis using f h by (auto simp: heist_connection_def)
qed

lemma connect_steal:
  assumes "settled v st" "\<not> CANCON_UNCONNECTED (con v)" "fopt st"
    and "(\<forall>p. other p = []) \<or> (\<forall>p. \<exists>a. other p = [a] \<and> answers_as CANTYPE_ACK p a)"
  shows "\<exists>t v'. connect_protocol (peer_env peer u) (Suc n) st = Ret (0, t)
    \<and> settled v' t \<and> con v' = console_object t \<and> console_object t = claimed st"
proof -
  obtain v1 where r: "send_connect (peer_env peer u) (Suc n) CANTYPE_RO (ext u) (say Connecting st)
      = Ret (ACK, con v, at_peer v1 (say Connecting st))" "con v1 = con v"
    using connect_read [of v "say Connecting st" u n "ext u"] assms(1) by auto
  let ?s1 = "say Stealing (at_peer v1 (say Connecting st))"
  have s1: "settled v1 ?s1" "\<not> CANCON_UNCONNECTED (con v1)" using assms(1,2) r(2) by simp_all
  obtain s2 v2 where h: "heist_connection (peer_env peer u) (Suc n) (con v) ?s1 = Ret (0, s2)"
      "settled v2 s2" "CANCON_UNCONNECTED (con v2)" "same_vars s2 ?s1"
    using heist_succeeds [OF s1 assms(4), of u n "con v"] by blast
  have c: "claimed s2 = claimed st" using h(4) by (simp add: claimed_def same_vars_def)
  obtain t v' where t: "then_run (send_connect (peer_env peer u) (Suc n) CANTYPE_WO (claimed s2) (s2\<lparr>console_object := claimed s2\<rparr>))
        (\<lambda>(r, _, s). if r \<noteq> ACK then Ret (-1, s) else Ret (0, say Connected s)) = Ret (0 :: int, t)"
      "settled v' t" "con v' = claimed s2" "console_object t = claimed s2"
    using connect_free [OF h(2,3), of u n] by auto
  have "connect_protocol (peer_env peer u) (Suc n) st = Ret (0, t)"
    using t(1) r h(1) assms(2,3) by (simp add: connect_protocol_def claimed_def Let_def)
  with t(2-4) c show ?thesis by auto
qed

end

section \<open>The driver as the peer\<close>

text \<open>
  A node whose queues have drained since its last answer: \<open>canobj_packet\<close> handles the packet,
  and the answer is what it queued. Every outgoing packet is in the inbound queue
  too, for the files that look at them, and it is this copy that is taken. Whether the answer is addressed to the node that asked,
  crosses the bus and is read there is left out here: that this loses nothing is what \<open>BusPeer\<close> proves, where the same session is run with two drivers, their queues and chips, and the bus between them.
\<close>

definition node_peer :: "('c, 'p) env \<Rightarrow> can_packet \<Rightarrow> ('c, 'p) driver \<Rightarrow> can_packet list \<times> ('c, 'p) driver" where
  "node_peer E p s =
     (let s = snd (canobj_packet E p (s\<lparr>inq := RING_CLEAR (inq s), outq := RING_CLEAR (outq s)\<rparr>))
      in (ring_list (inq s), s))"

definition net_peer ::
    "('c, 'p) env \<Rightarrow> (can_packet \<Rightarrow> can_packet list) \<Rightarrow> can_packet \<Rightarrow> ('c, 'p) driver \<Rightarrow> can_packet list \<times> ('c, 'p) driver" where
  "net_peer E other p s = (if object (ext p) = CANOBJ_FORCE_DISCONN then (other p, s) else node_peer E p s)"

lemma drained_queues:
  "queues_wf (s\<lparr>inq := RING_CLEAR (inq s), outq := RING_CLEAR (outq s)\<rparr>)"
  "ring_list (RING_CLEAR r) = []" "\<not> RING_FULL (RING_CLEAR r)"
  by (simp_all add: queues_wf_def RING_CLEAR_def ring_wf_def ring_list_def cdist_def RING_FULL_def RING_NEXT_def MAXRING_def)

lemma acknak_answer:
  assumes "queues_wf t" "inq t = RING_CLEAR q" "outq t = RING_CLEAR q'"
  shows "\<exists>a. ring_list (inq (canobj_acknak E ty p d t)) = [a] \<and> answers_as ty p a
    \<and> dat a = (case d of None \<Rightarrow> dat p | Some v \<Rightarrow> v) \<and> clength (can a) = (if d = None then 4 else 8)"
proof -
  let ?a = "incoming_fixup t (outgoing_fixup t (acknak_pkt ty p d))"
  have "ring_list (inq (canobj_acknak E ty p d t)) = [?a]"
    using acknak_queued(1) [OF assms(1), of E ty p d] assms(2,3) by (simp add: drained_queues)
  moreover have "answers_as ty p ?a"
    by (simp add: answers_as_def same_addr_def acknak_fields) (simp add: acknak_pkt_def Let_def split: option.split)
  moreover have "clength (can ?a) = (if d = None then 4 else 8)"
    by (simp add: incoming_fixup_def outgoing_fixup_def acknak_fields)
  ultimately show ?thesis by (simp add: acknak_fields)
qed

lemma consobj_other: "ctype (ext p) \<noteq> CANTYPE_ACK \<Longrightarrow> ctype (ext p) \<noteq> CANTYPE_NAK \<Longrightarrow> snd (canobj_consobj E p s) = s"
  by (simp add: canobj_consobj_def)

lemma node_request:
  assumes "ctype (ext p) = CANTYPE_RO \<or> ctype (ext p) = CANTYPE_WO"
  shows "snd (canobj_packet E p s) = snd (canobj_switch E p s)"
proof -
  have "ctype (ext p) \<noteq> CANTYPE_ACK" "ctype (ext p) \<noteq> CANTYPE_NAK" using assms by (auto simp: CANTYPE_defs)
  then show ?thesis by (simp add: canobj_packet_def split_beta consobj_other)
qed

lemma setcon_queues:
  "queues_wf (canobj_cancon_host E SET (cancon_setcon x t)) = queues_wf t"
  "inq (canobj_cancon_host E SET (cancon_setcon x t)) = inq t"
  "outq (canobj_cancon_host E SET (cancon_setcon x t)) = outq t"
  "cancon_rmt (cancon_setcon (Some p) t) = dat_ext (dat p)"
  "CANCON_UNCONNECTED (cancon_rmt (cancon_setcon None t))"
  by (simp_all add: canobj_cancon_host_def cancon_setcon_def queues_wf_def Let_def CANCON_UNCONNECTED_def split: option.split)

lemma hangup_queues: "inq (cantty_hangup t) = inq t"
  by (simp add: cantty_hangup_def Let_def kcall_def split: option.split)

lemma node_objects:
  "object (ext p) = CANOBJ_CONSOLE_CONNECT \<Longrightarrow> canobj_switch E p s = canobj_connect E p s"
  "object (ext p) = CANOBJ_CONSOLE_DISCONN \<Longrightarrow> canobj_switch E p s = canobj_disconnect E p s"
  "CANTYPE_RO \<noteq> CANTYPE_WO" "CANTYPE_WO \<noteq> CANTYPE_RO"
  by (simp_all add: canobj_switch_def Let_def CANOBJ_defs CANTYPE_defs)

interpretation node: console_peer "node_peer E" cancon_rmt for E :: "('c, 'p) env"
proof
  fix p :: can_packet and s :: "('c, 'p) driver"
  let ?t = "s\<lparr>inq := RING_CLEAR (inq s), outq := RING_CLEAR (outq s)\<rparr>"
  note dq = drained_queues(1) [of s]
  show "cancon_rmt (snd (node_peer E p s)) = cancon_rmt s
      \<and> (\<exists>a. fst (node_peer E p s) = [a] \<and> answers_as CANTYPE_ACK p a \<and> dat a = ext_dat (cancon_rmt s))"
    if "object (ext p) = CANOBJ_CONSOLE_CONNECT" "ctype (ext p) = CANTYPE_RO"
    using acknak_answer [OF dq, of "inq s" "outq s" E CANTYPE_ACK p "Some (ext_dat (cancon_rmt s))"] that
    by (auto simp: node_peer_def Let_def node_request node_objects canobj_connect_def)
  show "cancon_rmt (snd (node_peer E p s)) = (if CANCON_UNCONNECTED (cancon_rmt s) then dat_ext (dat p) else cancon_rmt s)
      \<and> (\<exists>a. fst (node_peer E p s) = [a]
           \<and> answers_as (if CANCON_UNCONNECTED (cancon_rmt s) then CANTYPE_ACK else CANTYPE_NAK) p a)"
    if "object (ext p) = CANOBJ_CONSOLE_CONNECT" "ctype (ext p) = CANTYPE_WO"
  proof -
    let ?c = "canobj_cancon_host E SET (cancon_setcon (Some p) ?t)"
    have "queues_wf ?c" "inq ?c = RING_CLEAR (inq s)" "outq ?c = RING_CLEAR (outq s)" using dq by (simp_all add: setcon_queues)
    note ack = acknak_answer [OF this, of E CANTYPE_ACK p "Some (dat p)"]
    note nak = acknak_answer [OF dq, of "inq s" "outq s" E CANTYPE_NAK p None]
    from that ack nak show ?thesis
      by (auto simp: node_peer_def Let_def node_request node_objects canobj_connect_def setcon_queues)
  qed
  show "CANCON_UNCONNECTED (cancon_rmt (snd (node_peer E p s)))
      \<and> (\<exists>a. fst (node_peer E p s) = [a]
           \<and> answers_as (if CANCON_UNCONNECTED (cancon_rmt s) then CANTYPE_NAK else CANTYPE_ACK) p a)"
    if "object (ext p) = CANOBJ_CONSOLE_DISCONN" "ctype (ext p) = CANTYPE_WO"
  proof -
    let ?c = "canobj_cancon_host E SET (cancon_setcon None ?t)"
    have "queues_wf ?c" "inq ?c = RING_CLEAR (inq s)" "outq ?c = RING_CLEAR (outq s)" using dq by (simp_all add: setcon_queues)
    note ack = acknak_answer [OF this, of E CANTYPE_ACK p None]
    note nak = acknak_answer [OF dq, of "inq s" "outq s" E CANTYPE_NAK p None]
    from that ack nak show ?thesis
      by (auto simp: node_peer_def Let_def node_request node_objects canobj_disconnect_def setcon_queues hangup_queues)
  qed
qed

lemma net_peer_other:
  "object (ext p) = CANOBJ_CONSOLE_CONNECT \<or> object (ext p) = CANOBJ_CONSOLE_DISCONN \<Longrightarrow>
   net_peer E other p s = node_peer E p s"
  by (auto simp: net_peer_def CANOBJ_defs)

interpretation net: console_net "net_peer E other" cancon_rmt other
  for E :: "('c, 'p) env" and other :: "can_packet \<Rightarrow> can_packet list"
proof
  fix p :: can_packet and s :: "('c, 'p) driver"
  show "net_peer E other p s = (other p, s)" if "object (ext p) = CANOBJ_FORCE_DISCONN"
    using that by (simp add: net_peer_def)
next
  fix p :: can_packet and s :: "('c, 'p) driver"
  let ?q = "net_peer E other"
  show "cancon_rmt (snd (?q p s)) = cancon_rmt s
      \<and> (\<exists>a. fst (?q p s) = [a] \<and> answers_as CANTYPE_ACK p a \<and> dat a = ext_dat (cancon_rmt s))"
    if "object (ext p) = CANOBJ_CONSOLE_CONNECT" "ctype (ext p) = CANTYPE_RO"
    using node.read_con [OF that, of E s] that by (simp add: net_peer_other)
  show "cancon_rmt (snd (?q p s)) = (if CANCON_UNCONNECTED (cancon_rmt s) then dat_ext (dat p) else cancon_rmt s)
      \<and> (\<exists>a. fst (?q p s) = [a]
           \<and> answers_as (if CANCON_UNCONNECTED (cancon_rmt s) then CANTYPE_ACK else CANTYPE_NAK) p a)"
    if "object (ext p) = CANOBJ_CONSOLE_CONNECT" "ctype (ext p) = CANTYPE_WO"
    using node.write_con [OF that, of E s] that by (simp add: net_peer_other)
  show "CANCON_UNCONNECTED (cancon_rmt (snd (?q p s)))
      \<and> (\<exists>a. fst (?q p s) = [a]
           \<and> answers_as (if CANCON_UNCONNECTED (cancon_rmt s) then CANTYPE_NAK else CANTYPE_ACK) p a)"
    if "object (ext p) = CANOBJ_CONSOLE_DISCONN" "ctype (ext p) = CANTYPE_WO"
    using node.write_disconn [OF that, of E s] that by (simp add: net_peer_other)
qed

text \<open>
  C11 (connect_protocol_driver): the connect protocol of the console program against the driver of the target
  node. An unused console is connected to the program's console object; a console in
  use is left alone and reported, unless the program was told to steal it; then, when
  the old owner's program is gone (no answer to the request to disconnect, or one from
  its kernel only), the console ends up with the new one.
\<close>

theorem connect_protocol_driver:
  assumes "settled v st"
    and "(\<forall>p. other p = []) \<or> (\<forall>p. \<exists>a. other p = [a] \<and> answers_as CANTYPE_ACK p a)"
  shows "\<exists>r t v'. connect_protocol (peer_env (net_peer E other) u) (Suc n) st = Ret (r, t) \<and> settled v' t
    \<and> (if CANCON_UNCONNECTED (cancon_rmt v) \<or> fopt st
       then r = 0 \<and> cancon_rmt v' = claimed st \<and> console_object t = claimed st
       else r = -1 \<and> cancon_rmt v' = cancon_rmt v)"
proof (cases "CANCON_UNCONNECTED (cancon_rmt v)")
  case True
  with net.connect_unused [OF assms(1), where E = E and other = other and u = u and n = n] show ?thesis by auto
next
  case False
  show ?thesis
  proof (cases "fopt st")
    case True
    with False net.connect_steal [OF assms(1) False True assms(2), where E = E and u = u and n = n]
    show ?thesis by auto
  next
    case nof: False
    with False net.connect_used [OF assms(1) False nof, where E = E and other = other and u = u and n = n] show ?thesis by auto
  qed
qed

definition fresh_cancon :: "'s \<Rightarrow> ('s \<times> can_packet list) cancon" where
  "fresh_cancon v =
     \<lparr>console_object = of_ext_dat 0, target_ch = \<lparr>h_cluster = 0, h_module = 0, h_node = 5, hostname = []\<rparr>,
      my_consobj = 0x100, my_nodeid = 7, resetobj = \<lparr>obj_id = 0, obj_name = []\<rparr>, ackbuf = [], outchars = [],
      fopt = False, canlib = \<lparr>nodeid = 7, initialized = True, world = (v, [])\<rparr>, out_bytes = [], msgs = [],
      disconnects = 0\<rparr>"

theorem connect_protocol_driver_witness:
  "\<exists>r t v'. connect_protocol (peer_env (net_peer regs_env (\<lambda>_. [])) no_pkt) 1 (fresh_cancon idle) = Ret (r, t)
     \<and> r = 0 \<and> settled v' t \<and> object (cancon_rmt v') = 0x100 \<and> node (cancon_rmt v') = 7"
proof -
  have "settled idle (fresh_cancon idle)" by (simp add: settled_def fresh_cancon_def)
  moreover have "CANCON_UNCONNECTED (cancon_rmt idle)"
    by (simp add: idle_def cold_def no_ext_def CANCON_UNCONNECTED_def)
  moreover have "object (claimed (fresh_cancon idle)) = 0x100" "node (claimed (fresh_cancon idle)) = 7"
    by (simp_all add: claimed_def fresh_cancon_def load_ext_nodeid_def UNPACK_NODE_def)
  ultimately obtain r t v' where "connect_protocol (peer_env (net_peer regs_env (\<lambda>_. [])) no_pkt) (Suc 0) (fresh_cancon idle) = Ret (r, t)"
      "r = 0" "settled v' t" "object (cancon_rmt v') = 0x100" "node (cancon_rmt v') = 7"
    using connect_protocol_driver [where v = idle and st = "fresh_cancon idle" and other = "\<lambda>_. []"
        and E = regs_env and u = no_pkt and n = 0] by auto
  then show ?thesis by (metis One_nat_def)
qed

section \<open>A console that becomes free during the theft\<close>

text \<open>
  A target whose old owner acknowledges the request to disconnect and leaves a little
  later: the state is the number of reads of the connect object that still show the
  old connection \<open>c\<close>.
\<close>

definition leaving_peer :: "can_header_ext \<Rightarrow> can_packet \<Rightarrow> nat \<Rightarrow> can_packet list \<times> nat" where
  "leaving_peer c p k =
     (let ans = (\<lambda>ty v. p\<lparr>ext := (ext p)\<lparr>ctype := ty\<rparr>, dat := v\<rparr>)
      in if object (ext p) = CANOBJ_FORCE_DISCONN then ([ans CANTYPE_ACK 1], k)
         else if object (ext p) = CANOBJ_CONSOLE_CONNECT then
           if ctype (ext p) = CANTYPE_RO
           then ([ans CANTYPE_ACK (if k = 0 then 0xffffffff else ext_dat c)], k - 1)
           else ([ans (if k = 0 then CANTYPE_ACK else CANTYPE_NAK) (dat p)], k)
         else ([ans (if k = 0 then CANTYPE_NAK else CANTYPE_ACK) (dat p)], 0))"

lemma leaving_answer: "answers_as ty p (p\<lparr>ext := (ext p)\<lparr>ctype := ty\<rparr>, dat := v\<rparr>)"
  by (simp add: answers_as_def same_addr_def)

lemma mysend_refused:
  assumes "settled v st" "\<And>st :: ('s \<times> can_packet list) cancon. nodeid (canlib st) = i \<Longrightarrow> peer (req u x d len st) v = ([a st], v) \<and> answers_as CANTYPE_NAK (req u x d len st) (a st)"
    and "nodeid (canlib st) = i"
  shows "\<exists>r t. mysend_loop (peer_env peer u) (Suc n) x d len ack m tries (st :: ('s \<times> can_packet list) cancon) = Ret (NAK, r, t) \<and> settled v t"
  using assms(1,3)
proof (induction "m - tries" arbitrary: tries st ack rule: less_induct)
  case less
  obtain b where b: "peer (req u x d len st) v = ([b], v)" "answers_as CANTYPE_NAK (req u x d len st) b"
    using assms(2) less.prems by blast
  have w: "waitfor_acknak (peer_env peer u) (Suc n) x ack (set_world (v, [b]) st) = Ret (IS_ACKNAK CANTYPE_NAK, dat b, at_peer v (set_world (v, [b]) st))"
    by (rule peer_wait_one [OF _ _ _ b(2)])
       (simp_all add: set_world_parts(1,2) [OF less.prems(1)] set_world_parts(3) same_addr_def)
  have nak: "IS_ACKNAK CANTYPE_NAK = NAK" by (simp add: IS_ACKNAK_def CANTYPE_defs)
  have eq: "mysend_loop (peer_env peer u) (Suc n) x d len ack m tries st =
      (if Suc tries < m then mysend_loop (peer_env peer u) (Suc n) x d len (dat b) m (Suc tries) (at_peer v st)
       else Ret (NAK, dat b, if 0 < m then say (SendAborted (Suc tries)) (at_peer v st) else at_peer v st))"
    by (subst mysend_loop.simps)
       (simp add: peer_send [where peer = peer, OF less.prems(1) b(1)] w nak set_world_parts(4) Let_def)
  have s: "settled v (at_peer v st)" "nodeid (canlib (at_peer v st)) = i" using less.prems by simp_all
  show ?case
  proof (cases "Suc tries < m")
    case True
    then have "m - Suc tries < m - tries" by simp
    from less.hyps [OF this s] True show ?thesis by (simp add: eq)
  next
    case False
    with s show ?thesis by (auto simp: eq)
  qed
qed

lemma leaving_read:
  assumes "settled k st"
  shows "send_connect (peer_env (leaving_peer c) u) (Suc n) CANTYPE_RO x st
    = Ret (ACK, if k = 0 then dat_ext 0xffffffff else c, at_peer (k - 1) st)"
proof -
  let ?x = "load_ext_ch (ext u) CANTYPE_RO (uint CANOBJ_CONSOLE_CONNECT) (target_ch st)"
  let ?p = "req u ?x None 0 st"
  let ?a = "?p\<lparr>ext := (ext ?p)\<lparr>ctype := CANTYPE_ACK\<rparr>, dat := if k = 0 then 0xffffffff else ext_dat c\<rparr>"
  have p: "leaving_peer c ?p k = ([?a], k - 1)"
    by (simp add: leaving_peer_def Let_def) (simp add: load_ext_ch_def CANOBJ_defs)
  from mysend_acked [where peer = "leaving_peer c", OF assms p leaving_answer] show ?thesis
    by (simp add: send_connect_def send_def Let_def)
qed

lemma leaving_force:
  assumes "settled k st"
  shows "send_force_disconnect_nb (peer_env (leaving_peer c) u) (Suc n) x st = Ret (ACK, at_peer k st)"
proof -
  let ?p = "req u (x\<lparr>ctype := CANTYPE_WO, object := CANOBJ_FORCE_DISCONN\<rparr>) (Some (ext_dat x)) 4 st"
  have p: "leaving_peer c ?p k = ([?p\<lparr>ext := (ext ?p)\<lparr>ctype := CANTYPE_ACK\<rparr>, dat := 1\<rparr>], k)"
    by (simp add: leaving_peer_def Let_def)
  from mysend_acked [where peer = "leaving_peer c", OF assms p leaving_answer] show ?thesis
    by (simp add: send_force_disconnect_nb_def send_nb_def)
qed

lemma leaving_refuses:
  assumes "settled 0 st"
  shows "\<exists>t. send_disconnect (peer_env (leaving_peer c) u) (Suc n) x st = Ret (NAK, t) \<and> settled 0 t"
proof -
  let ?x = "load_ext_ch (ext u) CANTYPE_WO (uint CANOBJ_CONSOLE_DISCONN) (target_ch st)"
  let ?a = "\<lambda>s. req u ?x (Some (ext_dat x)) 4 s\<lparr>ext := ?x\<lparr>ctype := CANTYPE_NAK\<rparr>, dat := ext_dat x\<rparr>"
  have o: "object ?x = CANOBJ_CONSOLE_DISCONN" by (simp add: load_ext_ch_def)
  have "leaving_peer c (req u ?x (Some (ext_dat x)) 4 s) 0 = ([?a s], 0)
      \<and> answers_as CANTYPE_NAK (req u ?x (Some (ext_dat x)) 4 s) (?a s)" for s :: "(nat \<times> can_packet list) cancon"
    by (simp add: leaving_peer_def Let_def o answers_as_def same_addr_def) (simp add: CANOBJ_defs)
  then obtain r t where "mysend_loop (peer_env (leaving_peer c) u) (Suc n) ?x (Some (ext_dat x)) 4 0 MAX_RETRIES 0 st
      = Ret (NAK, r, t)" "settled 0 t"
    using mysend_refused [where peer = "leaving_peer c" and a = ?a, OF assms _ refl] by blast
  then show ?thesis by (simp add: send_disconnect_def send_def mysend_def)
qed

text \<open>
  When the old owner leaves just before the fifth and last look, \<^verbatim>\<open>heist_connection\<close>
  takes the free console for one that is still held, because it tests the number of
  tries and not what the last one read: it asks the target to disconnect nobody, is
  refused, and the program gives up although the console is free.
\<close>

theorem heist_fifth_try:
  assumes "settled 5 st" "\<not> CANCON_UNCONNECTED c" "fopt st"
  shows "\<exists>t. connect_protocol (peer_env (leaving_peer c) u) (Suc n) st = Ret (-1, t) \<and> settled 0 t"
proof -
  let ?E = "peer_env (leaving_peer c) u"
  have at2: "at_peer k (at_peer j s) = at_peer k s" for j k :: nat and s by (simp add: at_peer_def set_world_def)
  have free: "CANCON_UNCONNECTED (dat_ext 0xffffffff)" by (simp add: CANCON_UNCONNECTED_def of_ext_dat_def)
  let ?s = "say Stealing (at_peer 4 (say Connecting st))"
  have s: "settled 4 ?s" using assms(1) by simp
  have look: "send_connect ?E (Suc n) CANTYPE_RO x (at_peer k ?s) = Ret (ACK, if k = 0 then dat_ext 0xffffffff else c, at_peer (k - 1) ?s)"
    for k x
    using leaving_read [of k "at_peer k ?s" c u n x] s at2 [of "k - 1" k ?s] by simp
  have "heist_loop ?E (Suc n) 4 c (at_peer 0 ?s) = Ret (Some (5, dat_ext 0xffffffff), at_peer 0 ?s)"
    using free by (subst heist_loop.simps) (simp add: look)
  then have "heist_loop ?E (Suc n) 3 c (at_peer 1 ?s) = Ret (Some (5, dat_ext 0xffffffff), at_peer 0 ?s)"
    using assms(2) by (subst heist_loop.simps) (simp add: look)
  then have "heist_loop ?E (Suc n) 2 c (at_peer 2 ?s) = Ret (Some (5, dat_ext 0xffffffff), at_peer 0 ?s)"
    using assms(2) by (subst heist_loop.simps) (simp add: look)
  then have "heist_loop ?E (Suc n) 1 c (at_peer 3 ?s) = Ret (Some (5, dat_ext 0xffffffff), at_peer 0 ?s)"
    using assms(2) by (subst heist_loop.simps) (simp add: look numeral_2_eq_2)
  then have l: "heist_loop ?E (Suc n) 0 c (at_peer 4 ?s) = Ret (Some (5, dat_ext 0xffffffff), at_peer 0 ?s)"
    using assms(2) by (subst heist_loop.simps) (simp add: look)
  have "settled 0 (at_peer 0 ?s)" using s by simp
  from leaving_refuses [OF this, of c u n "dat_ext 0xffffffff"] obtain t where
    "send_disconnect ?E (Suc n) (dat_ext 0xffffffff) (at_peer 0 ?s) = Ret (NAK, t)" "settled 0 t" by blast
  then have "heist_connection ?E (Suc n) c ?s = Ret (-1, t)"
    using l by (simp add: heist_connection_def leaving_force [OF s])
  moreover have "settled 5 (say Connecting st)" using assms(1) by simp
  ultimately show ?thesis
    using assms(2,3) \<open>settled 0 t\<close> leaving_read [of 5 "say Connecting st" c u n "ext u"] by (simp add: connect_protocol_def)
qed

theorem heist_fifth_try_witness:
  "\<exists>t. connect_protocol (peer_env (leaving_peer request) no_pkt) 1 ((fresh_cancon 5)\<lparr>fopt := True\<rparr>) = Ret (-1, t)
     \<and> settled 0 t"
proof -
  have "settled 5 ((fresh_cancon 5)\<lparr>fopt := True\<rparr>)" "\<not> CANCON_UNCONNECTED request" "fopt ((fresh_cancon 5)\<lparr>fopt := True\<rparr>)"
    by (simp_all add: settled_def fresh_cancon_def request_def CANCON_UNCONNECTED_def)
  from heist_fifth_try [OF this, of no_pkt 0] show ?thesis by simp
qed

section \<open>Typed characters\<close>

abbreviation drained :: "('c, 'p) driver \<Rightarrow> ('c, 'p) driver" where
  "drained s \<equiv> s\<lparr>inq := RING_CLEAR (inq s), outq := RING_CLEAR (outq s)\<rparr>"

lemma inbuf_acknak: "cancon_inbuf (canobj_acknak E ty p d t) = cancon_inbuf t"
  by (simp add: canobj_acknak_def send_frame_console)

lemma inq_recv_dat: "inq (cantty_recv_dat E b k t) = inq t"
  by (simp add: cantty_recv_dat_def cantty_recv_push_def kcall_def split_beta split: option.split)

lemma dat_pkt_bytes:
  assumes "length cs \<le> 4"
  shows "map (dat_bytes E (sent_pkt u x (Some (fill_dat w 0 cs)) (int (length cs)) i))
    [0..<nat (uint (clength (can (sent_pkt u x (Some (fill_dat w 0 cs)) (int (length cs)) i))) - 4)] = cs"
proof -
  have "uint (word_of_int (4 + int (length cs)) :: 4 word) = 4 + int (length cs)"
    using assms by (simp only: uint_word_of_int) simp
  then have "nat (uint (clength (can (sent_pkt u x (Some (fill_dat w 0 cs)) (int (length cs)) i))) - 4) = length cs"
    by (simp add: sent_pkt_def)
  moreover have "dat_bytes E (sent_pkt u x (Some (fill_dat w 0 cs)) (int (length cs)) i) j = cs ! j"
    if "j < length cs" for j
    using fill_dat_byte [of 0 cs j] that assms by (cases cs) (auto simp: dat_bytes_def sent_pkt_def)
  ultimately show ?thesis by (auto intro: nth_equalityI)
qed

text \<open>
  What has arrived for the console terminal: the characters that the kernel's terminal holds already, then those in the driver's input buffer. The driver moves as many as the flip
  buffer of an open terminal takes.
\<close>

definition tty_input :: "('c, 'z) console_state \<Rightarrow> u8 list" where
  "tty_input s = (case ttyp s of None \<Rightarrow> [] | Some t \<Rightarrow> flip_chars t) @ ring_list (cancon_inbuf s)"

definition flip_room :: "('c, 'p) env \<Rightarrow> ('c, 'z) console_state \<Rightarrow> nat" where
  "flip_room E s = (case ttyp s of None \<Rightarrow> 0 | Some t \<Rightarrow> if flip_ptr_null t then 0 else TTY_FLIPBUF_SIZE E - flip_count t)"

lemma recv_push_input:
  assumes "ring_wf (cancon_inbuf s)"
  shows "tty_input (cantty_recv_push E s) = tty_input s"
    "ring_list (cancon_inbuf (cantty_recv_push E s)) = drop (flip_room E s) (ring_list (cancon_inbuf s))"
    "cancon_rmt (cantty_recv_push E s) = cancon_rmt s" "inq (cantty_recv_push E s) = inq s"
  using charq.deq_upto_spec [OF assms]
  by (auto simp: cantty_recv_push_def tty_input_def flip_room_def split_beta kcall_def split: option.split)

lemma inbuf_full_input:
  fixes cs :: "u8 list"
  assumes "ring_wf (cancon_inbuf s)"
  defines "q \<equiv> enq_list char_to_ring cs (cancon_inbuf s)" and "fit \<equiv> take (MAXRING - 1 - length (ring_list (cancon_inbuf s))) cs"
  shows "ring_wf q" "tty_input (s\<lparr>cancon_inbuf := q\<rparr>) = tty_input s @ fit" "ring_list q = ring_list (cancon_inbuf s) @ fit"
  using charq.enq_list_spec [OF assms(1), of cs] by (simp_all add: q_def fit_def tty_input_def)

text \<open>
  C13 (typed_chars_reach_node): the writer thread, with nothing else on its way, sends up to four typed characters to a node whose
  console is connected and whose driver's input buffer is well formed. It needs one packet, a \<^verbatim>\<open>DAT\<close> packet to the target host with just these characters,
  and the node's driver answers with one acknowledgement of that packet. What has arrived for the console terminal grows by these
  characters, in order and nothing else with them, as many as the input buffer had room for: the rest is lost, although it is acknowledged too. As many characters as the terminal's flip
  buffer takes move on to it, oldest first, and the console stays connected as it was.
\<close>

theorem typed_chars_reach_node:
  assumes "settled v st" "length cs \<le> 4" "\<not> CANCON_UNCONNECTED (cancon_rmt v)" "ring_wf (cancon_inbuf v)"
  shows "\<exists>t p a v'. send_dat (peer_env (node_peer E) u) (Suc n) cs st = Ret t \<and> settled v' t
    \<and> ext p = load_ext_ch (ext u) CANTYPE_DAT 0 (target_ch st) \<and> uint (clength (can p)) = 4 + int (length cs)
    \<and> map (dat_bytes E p) [0..<length cs] = cs
    \<and> node_peer E p v = ([a], v') \<and> answers_as CANTYPE_ACK p a
    \<and> tty_input v' = tty_input v @ take (MAXRING - 1 - length (ring_list (cancon_inbuf v))) cs
    \<and> ring_list (cancon_inbuf v') = drop (flip_room E v)
        (ring_list (cancon_inbuf v) @ take (MAXRING - 1 - length (ring_list (cancon_inbuf v))) cs)
    \<and> cancon_rmt v' = cancon_rmt v"
proof -
  let ?x = "load_ext_ch (ext u) CANTYPE_DAT 0 (target_ch st)"
  let ?p = "req u ?x (Some (fill_dat (dat u) 0 cs)) (int (length cs)) st"
  let ?k = "canobj_acknak E CANTYPE_ACK ?p None (drained v)"
  let ?i = "?k\<lparr>cancon_inbuf := enq_list char_to_ring cs (cancon_inbuf v)\<rparr>"
  let ?v = "cantty_recv_push E ?i"
  have x: "object (ext ?p) = 0" "ctype (ext ?p) = CANTYPE_DAT" by (simp_all add: load_ext_ch_def)
  have "uint (word_of_int (4 + int (length cs)) :: 4 word) = 4 + int (length cs)"
    using assms(2) by (simp only: uint_word_of_int) simp
  then have len: "uint (clength (can ?p)) = 4 + int (length cs)" by (simp add: sent_pkt_def)
  have bytes: "map (dat_bytes E ?p) [0..<length cs] = cs"
    using dat_pkt_bytes [OF assms(2), of E u ?x "dat u" "nodeid (canlib st)"] by (simp add: len)
  have rd: "cantty_recv_dat E (dat_bytes E ?p) (uint (clength (can ?p)) - 4) ?k = ?v"
    using bytes by (simp add: cantty_recv_dat_def inbuf_acknak len)
  have "ctype (ext ?p) \<noteq> CANTYPE_ACK" "ctype (ext ?p) \<noteq> CANTYPE_NAK" using x(2) by (simp_all add: CANTYPE_defs)
  then have "snd (canobj_packet E ?p (drained v)) = snd (canobj_switch E ?p (drained v))"
    by (simp add: canobj_packet_def split_beta consobj_other)
  also have "\<dots> = snd (canobj_dat E ?p (drained v))" using x(1) by (simp add: canobj_switch_def Let_def CANOBJ_defs)
  also have "\<dots> = ?v" using x(2) assms(3) rd by (simp add: canobj_dat_def Let_def)
  finally have st: "snd (node_peer E ?p v) = ?v" by (simp add: node_peer_def Let_def)
  have k: "cancon_inbuf ?k = cancon_inbuf v" "ttyp ?k = ttyp v" "cancon_rmt ?k = cancon_rmt v"
    using inbuf_acknak [of E CANTYPE_ACK ?p None "drained v"] by (simp_all add: canobj_acknak_def send_frame_console)
  note f = inbuf_full_input [of ?k, unfolded k(1), OF assms(4), of cs]
  have wf: "ring_wf (cancon_inbuf ?i)" using f(1) by simp
  note in_v = recv_push_input [OF wf, of E]
  have "fst (node_peer E ?p v) = ring_list (inq ?v)" using st by (simp add: node_peer_def Let_def)
  also have "\<dots> = ring_list (inq ?k)" by (simp add: in_v(4))
  finally obtain a where a: "node_peer E ?p v = ([a], ?v)" "answers_as CANTYPE_ACK ?p a"
    using acknak_answer [OF drained_queues(1) [of v], of "inq v" "outq v" E CANTYPE_ACK ?p None] st
    by (auto simp: prod_eq_iff)
  have "send_dat (peer_env (node_peer E) u) (Suc n) cs st = Ret (at_peer ?v st)"
    using assms(2) mysend_acked [where peer = "node_peer E", OF assms(1) a] by (simp add: send_dat_def send_def)
  moreover have "settled ?v (at_peer ?v st)" using assms(1) by simp
  moreover have "tty_input ?v = tty_input v @ take (MAXRING - 1 - length (ring_list (cancon_inbuf v))) cs"
    using f(2) by (simp add: in_v(1)) (simp add: tty_input_def k)
  moreover have "ring_list (cancon_inbuf ?v) = drop (flip_room E v)
      (ring_list (cancon_inbuf v) @ take (MAXRING - 1 - length (ring_list (cancon_inbuf v))) cs)"
    using f(3) by (simp add: in_v(2)) (simp add: flip_room_def k)
  moreover have "cancon_rmt ?v = cancon_rmt v" by (simp add: in_v(3) k)
  ultimately show ?thesis using a len bytes sent_pkt_fields(1) by blast
qed

theorem typed_chars_reach_node_witness:
  "\<exists>t v'. send_dat (peer_env (node_peer regs_env) no_pkt) 1 [108, 115, 13] (fresh_cancon (three_chars\<lparr>ttyp := Some plain_tty\<rparr>)) = Ret t \<and> settled v' t
     \<and> tty_input v' = [108, 115, 13] \<and> ring_list (cancon_inbuf v') = [] \<and> cancon_rmt v' = rmt7"
proof -
  let ?v = "three_chars\<lparr>ttyp := Some plain_tty\<rparr>"
  have "settled ?v (fresh_cancon ?v)" by (simp add: settled_def fresh_cancon_def)
  moreover have "\<not> CANCON_UNCONNECTED (cancon_rmt ?v)"
    by (simp add: three_chars_def rmt7_def CANCON_UNCONNECTED_def)
  moreover have "ring_wf (cancon_inbuf ?v)" using three_chars_wf by (simp add: console_wf_def)
  moreover have "tty_input ?v = []" "ring_list (cancon_inbuf ?v) = []" "flip_room regs_env ?v = 512" "cancon_rmt ?v = rmt7"
    by (simp_all add: tty_input_def three_chars_def idle_def cold_def plain_tty_def flip_room_def regs_env_def)
  ultimately show ?thesis
    using typed_chars_reach_node [of ?v "fresh_cancon ?v" "[108, 115, 13]" regs_env no_pkt 0] by (auto simp: MAXRING_def)
qed

end
