(* ===== verification/Network.thy ===== *)
theory Network
  imports CanconNet CanSource
begin

text \<open>
  Two nodes on the bus: the drivers of \<^verbatim>\<open>drivers/meiko\<close> on both sides of a transaction, with the chips and the bus between them. A request written
  by a program on one node crosses the bus, is answered by the objects of the other node, and the answer
  crosses the bus back and is read by the program.
\<close>

section \<open>Chips and bus\<close>

text \<open>
  What the driver relies on of the 82C200 and of the bus, from the data sheet that \<^verbatim>\<open>can_main.c\<close> cites. \<open>pend c\<close> are the packets the chip has received
  and not been told to drop, \<open>sending c\<close> is the packet in its transmit buffer, \<open>accepts c\<close> its acceptance filter. The bus ends a transmission with \<open>sent\<close>
  and lets every other chip hear the packet: a chip that accepts it keeps it while its receive buffer has room, which \<^verbatim>\<open>report.tex\<close> gives as two packets, and loses it
  otherwise. Time stamps are the drivers', they do not travel.
\<close>

definition RXBUFS :: nat where
  "RXBUFS = 2"

lemma RXBUFS_pos [simp]: "0 < RXBUFS"
  by (simp add: RXBUFS_def)

record 'c bus =
  pend :: "'c \<Rightarrow> can_packet list"
  sending :: "'c \<Rightarrow> can_packet option"
  accepts :: "'c \<Rightarrow> can_packet \<Rightarrow> bool"
  sent :: "'c \<Rightarrow> 'c"
  hear :: "can_packet \<Rightarrow> 'c \<Rightarrow> 'c"

definition wire :: "can_packet \<Rightarrow> can_packet" where
  "wire p = p\<lparr>timestamp := 0\<rparr>"

definition bus_laws :: "('c, 'p) env \<Rightarrow> 'c bus \<Rightarrow> bool" where
  "bus_laws E B \<longleftrightarrow> rx_fifo E (pend B)
     \<and> (\<forall>c. fst (reg_read E status c) AND CAN_STATUS_XMIT_AVAIL \<noteq> 0 \<longleftrightarrow> sending B c = None)
     \<and> (\<forall>r c. sending B (snd (reg_read E r c)) = sending B c \<and> accepts B (snd (reg_read E r c)) = accepts B c)
     \<and> (\<forall>c. sending B (reg_write E command CAN_COMMAND_CLR_RECV c) = sending B c
            \<and> accepts B (reg_write E command CAN_COMMAND_CLR_RECV c) = accepts B c)
     \<and> (\<forall>c. pend B (reg_write E command CAN_COMMAND_CLR_OVERRUN c) = pend B c
            \<and> sending B (reg_write E command CAN_COMMAND_CLR_OVERRUN c) = sending B c
            \<and> accepts B (reg_write E command CAN_COMMAND_CLR_OVERRUN c) = accepts B c)
     \<and> (\<forall>p c. sending B c = None \<longrightarrow> sending B (xmit_pkt E p c) = Some (wire p)
            \<and> pend B (xmit_pkt E p c) = pend B c \<and> accepts B (xmit_pkt E p c) = accepts B c)
     \<and> (\<forall>c. sending B (sent B c) = None \<and> pend B (sent B c) = pend B c \<and> accepts B (sent B c) = accepts B c)
     \<and> (\<forall>p c. sending B (hear B p c) = sending B c \<and> accepts B (hear B p c) = accepts B c
            \<and> pend B (hear B p c) = (if accepts B c p \<and> length (pend B c) < RXBUFS then pend B c @ [p] else pend B c))"

text \<open>A transmission of node \<open>i\<close> in a network, which maps numbers to the states of their drivers.\<close>

type_synonym ('c, 'p) net = "nat \<Rightarrow> ('c, 'p) driver"

definition bus_transfer :: "'c bus \<Rightarrow> nat \<Rightarrow> ('c, 'p) net \<Rightarrow> ('c, 'p) net" where
  "bus_transfer B i \<sigma> =
     (case sending B (reg (\<sigma> i)) of
        None \<Rightarrow> \<sigma>
      | Some p \<Rightarrow> (\<lambda>j. (\<sigma> j)\<lparr>reg := (if j = i then sent B else hear B p) (reg (\<sigma> j))\<rparr>))"

text \<open>A node handles its interrupt and runs its bottom half.\<close>

definition service :: "('c, 'p) env \<Rightarrow> nat \<Rightarrow> ('c, 'p) driver \<Rightarrow> ('c, 'p) driver option" where
  "service E n s = (case can_intr E n s of None \<Rightarrow> None | Some s \<Rightarrow> can_bh E 4093 s)"

section \<open>Sending\<close>

lemma bus_lawsD:
  assumes "bus_laws E B"
  shows "rx_fifo E (pend B)" "sending B c = None \<longleftrightarrow> fst (reg_read E status c) AND CAN_STATUS_XMIT_AVAIL \<noteq> 0"
    "pend B (snd (reg_read E r c)) = pend B c" "sending B (snd (reg_read E r c)) = sending B c"
    "accepts B (snd (reg_read E r c)) = accepts B c"
    "sending B (reg_write E command CAN_COMMAND_CLR_RECV c) = sending B c"
    "accepts B (reg_write E command CAN_COMMAND_CLR_RECV c) = accepts B c"
    "sending B (reg_write E command CAN_COMMAND_CLR_OVERRUN c) = sending B c"
    "pend B (reg_write E command CAN_COMMAND_CLR_OVERRUN c) = pend B c"
    "accepts B (reg_write E command CAN_COMMAND_CLR_OVERRUN c) = accepts B c"
    "sending B c = None \<Longrightarrow> sending B (xmit_pkt E p c) = Some (wire p)"
    "sending B c = None \<Longrightarrow> pend B (xmit_pkt E p c) = pend B c"
    "sending B c = None \<Longrightarrow> accepts B (xmit_pkt E p c) = accepts B c"
    "sending B (sent B c) = None" "pend B (sent B c) = pend B c" "accepts B (sent B c) = accepts B c"
    "sending B (hear B p c) = sending B c" "accepts B (hear B p c) = accepts B c"
    "pend B (hear B p c) = (if accepts B c p \<and> length (pend B c) < RXBUFS then pend B c @ [p] else pend B c)"
  using assms by (simp_all add: bus_laws_def rx_fifo_def)

text \<open>\<^verbatim>\<open>try_xmit\<close> with a free transmit buffer sends the oldest packet, with a taken one nothing.\<close>

lemma try_xmit_free:
  assumes "bus_laws E B" "ring_wf (outq s)" "ring_list (outq s) = [p]" "sending B (reg s) = None"
  shows "ring_list (outq (try_xmit E s)) = []" "sending B (reg (try_xmit E s)) = Some (wire p)"
    "pend B (reg (try_xmit E s)) = pend B (reg s)" "accepts B (reg (try_xmit E s)) = accepts B (reg s)"
proof -
  note L = bus_lawsD [OF assms(1)]
  obtain k where k: "k \<le> 1" "reg (try_xmit E s) = snd (reg_read E status (fold (xmit_pkt E) (take k [p]) (reg s)))"
      "ring_list (outq (try_xmit E s)) = drop k [p]"
      "fst (reg_read E status (fold (xmit_pkt E) (take k [p]) (reg s))) AND CAN_STATUS_XMIT_AVAIL = 0 \<or> k = 1"
    using try_xmit_chip [OF assms(2), of E] unfolding assms(3) Let_def by auto
  have "k = 1" using k(1,4) L(2) [of "reg s"] assms(4) by (cases "k = 0") auto
  with k L assms(4) show "ring_list (outq (try_xmit E s)) = []" "sending B (reg (try_xmit E s)) = Some (wire p)"
    "pend B (reg (try_xmit E s)) = pend B (reg s)" "accepts B (reg (try_xmit E s)) = accepts B (reg s)"
    by simp_all
qed

lemma try_xmit_none:
  assumes "bus_laws E B" "ring_wf (outq s)" "ring_list (outq s) = []"
  shows "ring_list (outq (try_xmit E s)) = []" "sending B (reg (try_xmit E s)) = sending B (reg s)"
    "pend B (reg (try_xmit E s)) = pend B (reg s)" "accepts B (reg (try_xmit E s)) = accepts B (reg s)"
  using try_xmit_chip [OF assms(2), of E] bus_lawsD [OF assms(1)] unfolding assms(3) by (auto simp: Let_def)

lemma send_remote:
  assumes L: "bus_laws E B" and wf: "queues_wf s" and free: "ring_list (outq s) = []" "sending B (reg s) = None"
    and far: "\<not> IS_MYPACKET s p" and room: "length (ring_list (inq s)) < MAXRING - 1"
  shows "\<exists>i q c t. send_pkt E p s = (True, stamp s p, s\<lparr>inq := i, outq := q, reg := c, ktrace := t\<rparr>)
    \<and> ring_wf i \<and> ring_wf q \<and> ring_list i = ring_list (inq s) @ [stamp s p] \<and> ring_list q = []
    \<and> sending B c = Some (wire (stamp s p)) \<and> pend B c = pend B (reg s) \<and> accepts B c = accepts B (reg s)"
proof -
  have w: "ring_wf (inq s)" "ring_wf (outq s)" using wf by (simp_all add: queues_wf_def)
  have nf: "\<not> RING_FULL (inq s)" "\<not> RING_FULL (outq s)"
    using ring_full_iff [OF w(1)] ring_full_iff [OF w(2)] room free by (simp_all add: MAXRING_def)
  define s2 where "s2 = kcall QueueBh (s\<lparr>outq := RING_IN (outq s) (stamp s p), inq := RING_IN (inq s) (stamp s p)\<rparr>)"
  have s2: "ring_wf (outq s2)" "ring_list (outq s2) = [stamp s p]" "sending B (reg s2) = None" "reg s2 = reg s"
    using ring_in_list [OF w(2) nf(2)] free by (simp_all add: s2_def kcall_def)
  have send: "send_pkt E p s = (True, stamp s p, try_xmit E s2)"
    using far nf by (simp add: send_pkt_def send_nof_remote_room pkt_to_ring_def s2_def stamp_def Let_def)
  obtain q c t where x: "try_xmit E s2 = s2\<lparr>outq := q, reg := c, ktrace := t\<rparr>" using try_xmit_frame [of E s2] by blast
  note y = try_xmit_free [OF L s2(1-3), unfolded x, simplified]
  have "ring_wf q" using try_xmit_outq(1) [OF s2(1), of E] by (simp add: x)
  then show ?thesis
    using y s2(4) ring_in_list [OF w(1) nf(1)]
    unfolding send x
    by (intro exI [of _ "RING_IN (inq s) (stamp s p)"] exI [of _ q] exI [of _ c] exI [of _ t]) (simp add: s2_def kcall_def)
qed

section \<open>Receiving\<close>

text \<open>What of the chip the receive loop leaves alone.\<close>

lemma try_recv_loop_keeps:
  assumes "\<And>r c. g (snd (reg_read E r c)) = g c" "\<And>c. g (reg_write E command CAN_COMMAND_CLR_RECV c) = g c"
  shows "try_recv_loop E n i s = Some (j, t) \<Longrightarrow> g (reg t) = g (reg s)"
proof (induction n arbitrary: i s)
  case (Suc n)
  have c: "g (reg (snd (can_copy_rx E pkt u))) = g (reg u)" for pkt u
    by (simp add: can_copy_rx_def rd_eq assms Let_def)
  define u where "u = snd (can_copy_rx E (stack_pkt E) (s\<lparr>reg := snd (reg_read E status (reg s))\<rparr>))"
  have u: "g (reg (wr E command CAN_COMMAND_CLR_RECV u)) = g (reg s)" by (simp add: u_def wr_def c assms)
  show ?case
  proof (cases "fst (reg_read E status (reg s)) AND CAN_STATUS_RECV_AVAIL = 0")
    case True
    with Suc.prems show ?thesis by (auto simp: rd_eq assms)
  next
    case False
    then obtain i' q where "try_recv_loop E n i' ((wr E command CAN_COMMAND_CLR_RECV u)\<lparr>inq := q\<rparr>) = Some (j, t)"
      using Suc.prems by (auto simp: rd_eq u_def Let_def split: prod.splits)
    from Suc.IH [OF this] u show ?thesis by simp
  qed
qed simp

text \<open>Steps that do nothing to the chip but read its registers and clear an overrun.\<close>

definition only_looks :: "'c bus \<Rightarrow> ('c, 'p) driver \<Rightarrow> ('c, 'p) driver \<Rightarrow> bool" where
  "only_looks B s t \<longleftrightarrow> (\<exists>c k. t = s\<lparr>reg := c, ktrace := k\<rparr> \<and> pend B c = pend B (reg s) \<and> sending B c = sending B (reg s)
     \<and> accepts B c = accepts B (reg s))"

lemma only_looks_trans: "only_looks B s t \<Longrightarrow> only_looks B t u \<Longrightarrow> only_looks B s u"
  by (auto simp: only_looks_def) blast

lemma only_looks_steps:
  assumes "bus_laws E B"
  shows "only_looks B s (snd (rd E r s))" "only_looks B s s" "only_looks B s (kcall e s)"
    "only_looks B s (kcall e (wr E command CAN_COMMAND_CLR_OVERRUN s))"
proof -
  note L = bus_lawsD [OF assms]
  show "only_looks B s s" unfolding only_looks_def by (intro exI [of _ "reg s"] exI [of _ "ktrace s"]) simp
  show "only_looks B s (snd (rd E r s))"
    unfolding only_looks_def by (intro exI [of _ "snd (reg_read E r (reg s))"] exI [of _ "ktrace s"]) (simp add: rd_eq L)
  show "only_looks B s (kcall e s)"
    unfolding only_looks_def by (intro exI [of _ "reg s"] exI [of _ "ktrace s @ [e]"]) (simp add: kcall_def)
  show "only_looks B s (kcall e (wr E command CAN_COMMAND_CLR_OVERRUN s))"
    unfolding only_looks_def
    by (intro exI [of _ "reg_write E command CAN_COMMAND_CLR_OVERRUN (reg s)"] exI [of _ "ktrace s @ [e]"])
      (simp add: kcall_def wr_def L)
qed

lemma intr_looks:
  assumes "bus_laws E B"
  shows "\<exists>t. only_looks B s t \<and> can_intr E n s
    = (case try_recv E n t of None \<Rightarrow> None | Some u \<Rightarrow> Some (snd (rd E interrupt (try_xmit E u))))"
proof -
  note o = only_looks_steps [OF assms]
  define s1 where "s1 = snd (rd E status s)"
  define s2 where "s2 = (if fst (rd E status s) AND CAN_STATUS_OVERRUN \<noteq> 0
     then kcall (Printk ''can: overrun cleared'' []) (wr E command CAN_COMMAND_CLR_OVERRUN s1) else s1)"
  define s3 where "s3 = snd (rd E status s2)"
  define s4 where "s4 = (if fst (rd E status s2) AND CAN_STATUS_ERROR_STAT \<noteq> 0 then kcall (Printk ''can: error detected'' []) s3 else s3)"
  define s5 where "s5 = snd (rd E control s4)"
  define s6 where "s6 = (if fst (rd E control s4) AND CAN_CONTROL_RESET \<noteq> 0 then kcall (Printk ''can: reset is active'' []) s5 else s5)"
  define s7 where "s7 = snd (rd E status s6)"
  define s8 where "s8 = (if fst (rd E status s6) AND CAN_STATUS_BUS_STAT \<noteq> 0 then kcall (Printk ''can: bus stat'' []) s7 else s7)"
  have "only_looks B s s1" "only_looks B s1 s2" "only_looks B s2 s3" "only_looks B s3 s4" "only_looks B s4 s5" "only_looks B s5 s6"
    "only_looks B s6 s7" "only_looks B s7 s8"
    by (simp_all add: s1_def s2_def s3_def s4_def s5_def s6_def s7_def s8_def o)
  then have "only_looks B s s8" by (blast intro: only_looks_trans)
  moreover have "can_intr E n s = (case try_recv E n s8 of None \<Rightarrow> None | Some u \<Rightarrow> Some (snd (rd E interrupt (try_xmit E u))))"
    by (simp add: can_intr_def split_beta Let_def s1_def s2_def s3_def s4_def s5_def s6_def s7_def s8_def)
  ultimately show ?thesis by blast
qed

lemma recv_takes:
  assumes L: "bus_laws E B" and wf: "ring_wf (inq s)" and fits: "length (pend B (reg s)) < n"
  shows "\<exists>i c k. try_recv E n s = Some (s\<lparr>inq := i, reg := c, ktrace := k\<rparr>) \<and> ring_wf i
    \<and> ring_list i = ring_list (inq s) @ take (MAXRING - 1 - length (ring_list (inq s))) (map (incoming_fixup s) (pend B (reg s)))
    \<and> pend B c = [] \<and> sending B c = sending B (reg s) \<and> accepts B c = accepts B (reg s)"
proof -
  note l = bus_lawsD [OF L]
  obtain q c where t: "try_recv_loop E n 0 s = Some (0 + length (pend B (reg s)), s\<lparr>inq := q, reg := c\<rparr>)" "ring_wf q" "pend B c = []"
      "q = enq_list pkt_to_ring (map (incoming_fixup s) (pend B (reg s))) (inq s)"
    using try_recv_loop_spec [OF l(1) wf fits, of 0] by blast
  have "sending B c = sending B (reg s)" "accepts B c = accepts B (reg s)"
    using try_recv_loop_keeps [of "sending B" E, OF l(4,6) t(1)] try_recv_loop_keeps [of "accepts B" E, OF l(5,7) t(1)] by simp_all
  moreover have "ring_list q = ring_list (inq s) @ take (MAXRING - 1 - length (ring_list (inq s))) (map (incoming_fixup s) (pend B (reg s)))"
    using pktq.enq_list_spec [OF wf, of "map (incoming_fixup s) (pend B (reg s))"] t(4) by simp
  ultimately show ?thesis
    using t(1-3)
    by (intro exI [of _ q] exI [of _ c] exI [of _ "if length (pend B (reg s)) > 0 then ktrace s @ [QueueBh] else ktrace s"])
      (simp add: try_recv_def kcall_def)
qed

lemma intr_takes:
  assumes L: "bus_laws E B" and wf: "queues_wf s" and out: "ring_list (outq s) = []"
    and room: "length (ring_list (inq s)) + length (pend B (reg s)) < MAXRING" "length (pend B (reg s)) < n"
  shows "\<exists>i q c k. can_intr E n s = Some (s\<lparr>inq := i, outq := q, reg := c, ktrace := k\<rparr>) \<and> ring_wf i \<and> ring_wf q
    \<and> ring_list i = ring_list (inq s) @ map (incoming_fixup s) (pend B (reg s)) \<and> ring_list q = []
    \<and> pend B c = [] \<and> sending B c = sending B (reg s) \<and> accepts B c = accepts B (reg s)"
proof -
  note l = bus_lawsD [OF L]
  have w: "ring_wf (inq s)" "ring_wf (outq s)" using wf by (simp_all add: queues_wf_def)
  obtain c k where t: "pend B c = pend B (reg s)" "sending B c = sending B (reg s)" "accepts B c = accepts B (reg s)"
    "can_intr E n s = (case try_recv E n (s\<lparr>reg := c, ktrace := k\<rparr>) of None \<Rightarrow> None | Some u \<Rightarrow> Some (snd (rd E interrupt (try_xmit E u))))"
    using intr_looks [OF L, of s n] by (auto simp: only_looks_def)
  let ?t = "s\<lparr>reg := c, ktrace := k\<rparr>"
  have fx: "incoming_fixup ?t = incoming_fixup s" by (simp add: incoming_fixup_def fun_eq_iff)
  obtain i d m where r: "try_recv E n ?t = Some (?t\<lparr>inq := i, reg := d, ktrace := m\<rparr>)" "ring_wf i" "pend B d = []"
      "sending B d = sending B (reg s)" "accepts B d = accepts B (reg s)"
      "ring_list i = ring_list (inq s) @ take (MAXRING - 1 - length (ring_list (inq s))) (map (incoming_fixup s) (pend B (reg s)))"
    using recv_takes [OF L, of ?t n] w(1) room(2) t(1-3) by (auto simp: fx)
  let ?u = "?t\<lparr>inq := i, reg := d, ktrace := m\<rparr>"
  obtain q e y where x: "try_xmit E ?u = ?u\<lparr>outq := q, reg := e, ktrace := y\<rparr>" using try_xmit_frame [of E ?u] by blast
  have "ring_wf q" "ring_list q = []" "sending B e = sending B d" "pend B e = []" "accepts B e = accepts B d"
    using try_xmit_none [OF L, of ?u] try_xmit_outq(1) [of ?u E] w(2) out r(3) unfolding x by simp_all
  moreover have "ring_list i = ring_list (inq s) @ map (incoming_fixup s) (pend B (reg s))" using r(6) room(1) by simp
  ultimately show ?thesis
    using r(2,4,5)
    by - (rule exI [of _ i], rule exI [of _ q], rule exI [of _ "snd (reg_read E interrupt e)"], rule exI [of _ y],
        simp add: t(4) r(1) x [simplified] rd_eq l)
qed

section \<open>Answering\<close>

text \<open>
  A node answers a request with one packet: up to the moment it sends it, and after that, its handler does not touch the queues, the chip or the address.
\<close>

definition same_bus :: "('c, 'p) driver \<Rightarrow> ('c, 'p) driver \<Rightarrow> bool" where
  "same_bus s t \<longleftrightarrow> inq t = inq s \<and> outq t = outq s \<and> reg t = reg s \<and> can_nodeid t = can_nodeid s \<and> jiffies t = jiffies s"

definition replies :: "('c, 'p) env \<Rightarrow> can_packet \<Rightarrow> ('c, 'p) driver \<Rightarrow> 3 word \<Rightarrow> u32 option \<Rightarrow> bool" where
  "replies E p s ty d \<longleftrightarrow> (\<exists>u. same_bus s u \<and> same_bus (canobj_acknak E ty p d u) (snd (canobj_packet E p s)))"

lemma same_bus_stamp: "same_bus s u \<Longrightarrow> stamp u a = stamp s a"
  by (simp add: same_bus_def stamp_def incoming_fixup_def outgoing_fixup_def)

lemma reply_sent:
  assumes L: "bus_laws E B" and r: "replies E p s ty d" and wf: "queues_wf s" and free: "ring_list (outq s) = []" "sending B (reg s) = None"
    and far: "ucast (src (can p)) \<noteq> UNPACK_NODE (can_nodeid s)" and room: "ring_list (inq s) = []"
  defines "t \<equiv> snd (canobj_packet E p s)"
  shows "ring_list (inq t) = [stamp s (acknak_pkt ty p d)]" "ring_list (outq t) = []" "sending B (reg t) = Some (wire (stamp s (acknak_pkt ty p d)))"
    "pend B (reg t) = pend B (reg s)" "accepts B (reg t) = accepts B (reg s)" "can_nodeid t = can_nodeid s"
proof -
  obtain u where u: "same_bus s u" "same_bus (canobj_acknak E ty p d u) t" using r by (auto simp: replies_def t_def)
  have "queues_wf u" "ring_list (outq u) = []" "sending B (reg u) = None" "\<not> IS_MYPACKET u (acknak_pkt ty p d)"
      "length (ring_list (inq u)) < MAXRING - 1"
    using u(1) wf free far room by (simp_all add: same_bus_def queues_wf_def IS_MYPACKET_def acknak_fields MAXRING_def)
  from send_remote [OF L this] obtain i q c k where
    "send_pkt E (acknak_pkt ty p d) u = (True, stamp u (acknak_pkt ty p d), u\<lparr>inq := i, outq := q, reg := c, ktrace := k\<rparr>)"
    "ring_list i = ring_list (inq u) @ [stamp u (acknak_pkt ty p d)]" "ring_list q = []" "sending B c = Some (wire (stamp u (acknak_pkt ty p d)))"
    "pend B c = pend B (reg u)" "accepts B c = accepts B (reg u)" by blast
  moreover from this(1) have "canobj_acknak E ty p d u = u\<lparr>inq := i, outq := q, reg := c, ktrace := k\<rparr>" by (simp add: canobj_acknak_def)
  ultimately show "ring_list (inq t) = [stamp s (acknak_pkt ty p d)]" "ring_list (outq t) = []"
      "sending B (reg t) = Some (wire (stamp s (acknak_pkt ty p d)))" "pend B (reg t) = pend B (reg s)" "accepts B (reg t) = accepts B (reg s)"
      "can_nodeid t = can_nodeid s"
    using u room same_bus_stamp [OF u(1)] by (simp_all add: same_bus_def)
qed

text \<open>A packet for another node that is in the inbound queue only goes to the files that look at such packets.\<close>

lemma bh_passes:
  assumes "driver_inv s" "ring_list (inq s) = [a]" "\<not> IS_MYPACKET s a"
  shows "\<exists>q F k. can_bh E (Suc (Suc n)) s = Some (s\<lparr>inq := q, fstates := F, ktrace := k\<rparr>) \<and> ring_list q = []"
proof -
  have wf: "ring_wf (inq s)" using drv.I_queues [OF assms(1)] by (simp add: queues_wf_def)
  obtain q where q: "ring_to_pkt (inq s) = Some (a, q)" "ring_wf q" "ring_list q = []"
    using pktq.deq_cases [OF wf] assms(2) by (metis list.distinct(1) list.inject)
  let ?s = "s\<lparr>inq := q\<rparr>"
  obtain k where k: "deliver_fds a [0..<CAN_MAX_USECOUNT] ?s = Some (?s\<lparr>fstates := (\<lambda>x. map_option (accept ?s a) (fstates ?s x)), ktrace := k\<rparr>)"
    using deliver_all [OF inv_inq [OF assms(1) q(2)], of a] by blast
  have "\<not> IS_MYPACKET ?s a" using assms(3) by (simp add: IS_MYPACKET_def)
  then have "deliver_pkt E a ?s = Some (?s\<lparr>fstates := (\<lambda>x. map_option (accept ?s a) (fstates ?s x)), ktrace := k\<rparr>)"
    using k by (simp add: deliver_pkt_def)
  moreover have "ring_to_pkt q = None" using pktq.deq_None_iff [OF q(2)] q(3) by simp
  ultimately show ?thesis
    using q(1,3) by (intro exI [of _ q] exI [of _ "\<lambda>x. map_option (accept ?s a) (fstates ?s x)"] exI [of _ k]) simp
qed

lemma bh_answers:
  assumes L: "bus_laws E B" and inv: "driver_inv s" and p: "ring_list (inq s) = [p]" "IS_MYPACKET s p"
    and far: "ucast (src (can p)) \<noteq> UNPACK_NODE (can_nodeid s)" and free: "ring_list (outq s) = []" "sending B (reg s) = None"
    and r: "\<And>q. replies E p (s\<lparr>inq := q\<rparr>) ty d"
  shows "\<exists>q q' F k. can_bh E 4093 s = Some ((snd (canobj_packet E p (s\<lparr>inq := q\<rparr>)))\<lparr>inq := q', fstates := F, ktrace := k\<rparr>)
    \<and> (let t = snd (canobj_packet E p (s\<lparr>inq := q\<rparr>)) in ring_list q' = [] \<and> ring_list (outq t) = [] \<and> can_nodeid t = can_nodeid s
      \<and> sending B (reg t) = Some (wire (stamp s (acknak_pkt ty p d))) \<and> pend B (reg t) = pend B (reg s) \<and> accepts B (reg t) = accepts B (reg s))"
proof -
  have wf: "ring_wf (inq s)" using drv.I_queues [OF inv] by (simp add: queues_wf_def)
  obtain q where q: "ring_to_pkt (inq s) = Some (p, q)" "ring_wf q" "ring_list q = []"
    using pktq.deq_cases [OF wf] p(1) by (metis list.distinct(1) list.inject)
  let ?s = "s\<lparr>inq := q\<rparr>" and ?a = "stamp s (acknak_pkt ty p d)"
  have inv0: "driver_inv ?s" by (rule inv_inq [OF inv q(2)])
  have st: "stamp ?s = stamp s" by (simp add: stamp_def incoming_fixup_def outgoing_fixup_def fun_eq_iff)
  define t where "t = snd (canobj_packet E p ?s)"
  have t: "ring_list (inq t) = [?a]" "ring_list (outq t) = []" "sending B (reg t) = Some (wire ?a)"
      "pend B (reg t) = pend B (reg s)" "accepts B (reg t) = accepts B (reg s)" "can_nodeid t = can_nodeid s" "driver_inv t"
    using reply_sent [OF L r drv.I_queues [OF inv0]] free far q(3) drv.I_packet [OF inv0] by (simp_all add: t_def st)
  obtain k where k: "deliver_fds p [0..<CAN_MAX_USECOUNT] t = Some (t\<lparr>fstates := (\<lambda>x. map_option (accept t p) (fstates t x)), ktrace := k\<rparr>)"
    using deliver_all [OF t(7), of p] by blast
  let ?t = "t\<lparr>fstates := (\<lambda>x. map_option (accept t p) (fstates t x)), ktrace := k\<rparr>"
  have "IS_MYPACKET ?s p" using p(2) by (simp add: IS_MYPACKET_def)
  then have d: "deliver_pkt E p ?s = Some ?t" using k by (simp add: deliver_pkt_def t_def [symmetric])
  have "driver_inv ?t" by (rule inv_map_fstates [OF t(7)]) simp_all
  moreover have "\<not> IS_MYPACKET ?t ?a" using far by (simp add: IS_MYPACKET_def t(6) stamp_def incoming_fixup_def outgoing_fixup_def acknak_fields)
  ultimately obtain q' F m where b: "can_bh E (Suc (Suc 4090)) ?t = Some (?t\<lparr>inq := q', fstates := F, ktrace := m\<rparr>)" "ring_list q' = []"
    using bh_passes [of ?t ?a E 4090] t(1) by auto
  have "can_bh E 4093 s = can_bh E (Suc (Suc 4090)) ?t" using q(1) d by (simp add: eval_nat_numeral)
  with b t show ?thesis
    by - (rule exI [of _ q], rule exI [of _ q'], rule exI [of _ F], rule exI [of _ m], simp add: t_def [symmetric] Let_def)
qed

section \<open>Reading the answer\<close>

lemma bh_reads:
  assumes inv: "driver_inv s" and ps: "ring_list (inq s) = [r, a]" "\<not> IS_MYPACKET s r" "IS_MYPACKET s a"
    and f: "fstates s f = Some fs" "ring_list (fs_inq fs) = []" "\<not> promiscuous fs" "\<not> snoopy fs"
  shows "\<exists>t u. can_bh E 4093 s = Some t \<and> can_read True (\<lambda>_. False) PKTSIZE [] f t = Some (Inr PKTSIZE, [a], u)"
proof -
  have "bh_potential s < 4093" using bh_potential_bound [OF drv.I_console [OF inv]] by (simp add: MAXRING_def)
  then obtain t where t: "can_bh E 4093 s = Some t" "driver_inv t" using can_bh_ends [OF inv] by blast
  have wf: "ring_wf (inq s)" using drv.I_queues [OF inv] by (simp add: queues_wf_def)
  obtain q where q: "ring_to_pkt (inq s) = Some (r, q)" "ring_wf q" "ring_list q = [a]"
    using pktq.deq_cases [OF wf] ps(1) by (metis list.distinct(1) list.inject)
  let ?s = "s\<lparr>inq := q\<rparr>"
  have my: "IS_MYPACKET ?s x = IS_MYPACKET s x" for x by (simp add: IS_MYPACKET_def)
  obtain v where v: "deliver_pkt E r ?s = Some v" "driver_inv v" "can_nodeid v = can_nodeid s" "inq v = q"
      "fstates v = (\<lambda>x. map_option (accept ?s r) (fstates s x))"
    using deliver_pkt_files [OF inv_inq [OF inv q(2)], of E r] ps(2) by (auto simp: my)
  have fv: "fstates v f = Some fs" using f ps(2) by (simp add: v(5) accept_def my)
  obtain q' where q': "ring_to_pkt q = Some (a, q')" "ring_wf q'"
    using pktq.deq_cases [OF q(2)] q(3) by (metis list.distinct(1) list.inject)
  let ?v = "v\<lparr>inq := q'\<rparr>"
  obtain w where w: "deliver_pkt E a ?v = Some w" "driver_inv w" "fstates w = (\<lambda>x. map_option (accept ?v a) (fstates v x))"
    using deliver_pkt_files [OF inv_inq [OF v(2) q'(2)], of E a] by auto
  have "IS_MYPACKET ?v a" using ps(3) by (simp add: IS_MYPACKET_def v(3))
  then have "ring_list (fs_inq (accept ?v a fs)) = [a]"
    using f(2) pktq.contents_enq [OF inv_fs_wf [OF inv f(1)]] pktq.fst_enq_iff [OF inv_fs_wf [OF inv f(1)]]
    by (simp add: accept_def MAXRING_def)
  moreover have "can_bh E 4091 w = Some t" using t(1) q(1) q'(1) v(1,4) w(1) by (simp add: eval_nat_numeral)
  ultimately obtain fs' xs where "fstates t f = Some fs'" "ring_list (fs_inq fs') = a # xs"
    using bh_extends [OF w(2), of E 4091 t f] fv by (auto simp: w(3))
  then show ?thesis using read_first [OF t(2)] t(1) by blast
qed

section \<open>A transaction across the bus\<close>

text \<open>
  Node \<open>i\<close> writes a packet, the bus carries it, node \<open>j\<close> handles it, the bus carries what \<open>j\<close> sends, and \<open>i\<close> handles that.
\<close>

definition exchange ::
    "('c, 'p) env \<Rightarrow> 'c bus \<Rightarrow> nat \<Rightarrow> nat \<Rightarrow> nat \<Rightarrow> can_packet \<Rightarrow> ('c, 'p) net \<Rightarrow> ('c, 'p) net option" where
  "exchange E B n i j p \<sigma> =
     (case can_write E True (\<lambda>_. Some p) PKTSIZE [] (\<sigma> i) of
        Some (Inr _, s) \<Rightarrow>
          (let \<sigma> = bus_transfer B i (\<sigma>(i := s))
           in case service E n (\<sigma> j) of
                None \<Rightarrow> None
              | Some t \<Rightarrow>
                  (let \<sigma> = bus_transfer B j (\<sigma>(j := t))
                   in case service E n (\<sigma> i) of None \<Rightarrow> None | Some u \<Rightarrow> Some (\<sigma>(i := u))))
      | _ \<Rightarrow> None)"

text \<open>A node with nothing queued, whose chip is idle and lets through the packets for the node.\<close>

definition node_quiet :: "'c bus \<Rightarrow> ('c, 'p) driver \<Rightarrow> bool" where
  "node_quiet B s \<longleftrightarrow> driver_inv s \<and> ring_list (inq s) = [] \<and> ring_list (outq s) = [] \<and> pend B (reg s) = [] \<and> sending B (reg s) = None
     \<and> (\<forall>p. accepts B (reg s) p \<longleftrightarrow> IS_MYPACKET s p)"

definition arrived :: "('c, 'p) driver \<Rightarrow> ('c, 'p) driver \<Rightarrow> can_packet \<Rightarrow> can_packet" where
  "arrived s t p = incoming_fixup t (wire (stamp s p))"

lemma arrived_fields [simp]:
  "ext (arrived s t p) = ext p" "dat (arrived s t p) = dat p" "dest (can (arrived s t p)) = dest (can p)"
  "src (can (arrived s t p)) = ucast (UNPACK_NODE (can_nodeid s))" "clength (can (arrived s t p)) = clength (can p)"
  "timestamp (arrived s t p) = jiffies t"
  by (simp_all add: arrived_def wire_def stamp_def incoming_fixup_def outgoing_fixup_def)

lemma IS_MYPACKET_iff: "IS_MYPACKET s p \<longleftrightarrow> ucast (dest (can p)) = UNPACK_NODE (can_nodeid s)"
  by (simp add: IS_MYPACKET_def)

lemma write_one:
  assumes "send_pkt E p s = (True, p', t)"
  shows "can_write E True (\<lambda>_. Some p) PKTSIZE [] s = Some (Inr PKTSIZE, t)"
  using assms by (simp add: can_write_def user_to_outq_def PKTSIZE_def)

lemma request_leg:
  assumes L: "bus_laws E B" and q: "node_quiet B s" and p: "\<not> IS_MYPACKET s p"
  shows "\<exists>a b c k. can_write E True (\<lambda>_. Some p) PKTSIZE [] s = Some (Inr PKTSIZE, s\<lparr>inq := a, outq := b, reg := c, ktrace := k\<rparr>)
    \<and> ring_wf a \<and> ring_wf b \<and> ring_list a = [stamp s p] \<and> ring_list b = [] \<and> sending B c = Some (wire (stamp s p)) \<and> pend B c = []
    \<and> accepts B c = accepts B (reg s)"
proof -
  have "driver_inv s" "ring_list (inq s) = []" "length (ring_list (inq s)) < MAXRING - 1" "ring_list (outq s) = []" "sending B (reg s) = None"
    "pend B (reg s) = []" using q by (simp_all add: node_quiet_def MAXRING_def)
  with send_remote [OF L drv.I_queues, of s p] p obtain a b c k where
    s: "send_pkt E p s = (True, stamp s p, s\<lparr>inq := a, outq := b, reg := c, ktrace := k\<rparr>)"
    and sq: "ring_wf a" "ring_wf b" "ring_list a = [stamp s p]" "ring_list b = []" "sending B c = Some (wire (stamp s p))" "pend B c = []"
      "accepts B c = accepts B (reg s)"
    by auto
  from write_one [OF s] sq show ?thesis by blast
qed

lemma answer_leg:
  assumes L: "bus_laws E B" and inv: "driver_inv s" and q: "ring_list (inq s) = []" "ring_list (outq s) = []" "sending B (reg s) = None"
    and w: "pend B (reg s) = [w]" "IS_MYPACKET s w" "ucast (src (can w)) \<noteq> UNPACK_NODE (can_nodeid s)" and n: "2 \<le> n"
    and r: "\<And>a b c k. replies E (incoming_fixup s w) (s\<lparr>inq := a, outq := b, reg := c, ktrace := k\<rparr>) ty d"
  shows "\<exists>a b c k q F m. let t = snd (canobj_packet E (incoming_fixup s w) (s\<lparr>inq := a, outq := b, reg := c, ktrace := k\<rparr>)) in
    service E n s = Some (t\<lparr>inq := q, fstates := F, ktrace := m\<rparr>)
    \<and> sending B (reg t) = Some (wire (stamp s (acknak_pkt ty (incoming_fixup s w) d))) \<and> ring_list q = [] \<and> ring_list (outq t) = []
    \<and> pend B (reg t) = [] \<and> accepts B (reg t) = accepts B (reg s) \<and> can_nodeid t = can_nodeid s"
proof -
  let ?p = "incoming_fixup s w"
  have "length (ring_list (inq s)) + length (pend B (reg s)) < MAXRING" "length (pend B (reg s)) < n"
    using q(1) w(1) n by (simp_all add: MAXRING_def)
  from intr_takes [OF L drv.I_queues [OF inv] q(2) this] obtain a b c k where
    i: "can_intr E n s = Some (s\<lparr>inq := a, outq := b, reg := c, ktrace := k\<rparr>)" and iq: "ring_list a = [?p]" "ring_list b = []" "pend B c = []"
      "sending B c = None" "accepts B c = accepts B (reg s)"
    using q w(1) by auto
  let ?t = "s\<lparr>inq := a, outq := b, reg := c, ktrace := k\<rparr>"
  have st: "stamp ?t = stamp s" by (simp add: stamp_def incoming_fixup_def outgoing_fixup_def fun_eq_iff)
  have my: "IS_MYPACKET ?t ?p" "ucast (src (can ?p)) \<noteq> UNPACK_NODE (can_nodeid ?t)"
    using w(2,3) by (simp_all add: IS_MYPACKET_def incoming_fixup_def)
  have eq: "?t\<lparr>inq := x\<rparr> = s\<lparr>inq := x, outq := b, reg := c, ktrace := k\<rparr>" for x by simp
  have rr: "replies E ?p (?t\<lparr>inq := x\<rparr>) ty d" for x unfolding eq by (rule r)
  have "driver_inv ?t" by (rule inv_intr [OF inv i])
  from bh_answers [OF L this _ my _ _ rr] iq obtain x q F m where
    b: "can_bh E 4093 ?t = Some ((snd (canobj_packet E ?p (?t\<lparr>inq := x\<rparr>)))\<lparr>inq := q, fstates := F, ktrace := m\<rparr>)"
      "sending B (reg (snd (canobj_packet E ?p (?t\<lparr>inq := x\<rparr>)))) = Some (wire (stamp s (acknak_pkt ty ?p d)))"
      "ring_list q = []" "ring_list (outq (snd (canobj_packet E ?p (?t\<lparr>inq := x\<rparr>)))) = []" "pend B (reg (snd (canobj_packet E ?p (?t\<lparr>inq := x\<rparr>)))) = []"
      "accepts B (reg (snd (canobj_packet E ?p (?t\<lparr>inq := x\<rparr>)))) = accepts B (reg s)" "can_nodeid (snd (canobj_packet E ?p (?t\<lparr>inq := x\<rparr>))) = can_nodeid s"
    by (auto simp: Let_def st)
  from b [unfolded eq] i show ?thesis
    unfolding Let_def service_def
    by - (rule exI [of _ x], rule exI [of _ b], rule exI [of _ c], rule exI [of _ k], rule exI [of _ q], rule exI [of _ F], rule exI [of _ m], simp)
qed

lemma return_leg:
  assumes L: "bus_laws E B" and inv: "driver_inv s" and q: "ring_list (inq s) = [r]" "\<not> IS_MYPACKET s r" "ring_list (outq s) = []"
    and w: "pend B (reg s) = [w]" "IS_MYPACKET s w" and n: "2 \<le> n"
    and f: "fstates s f = Some fs" "ring_list (fs_inq fs) = []" "\<not> promiscuous fs" "\<not> snoopy fs"
  shows "\<exists>t u. service E n s = Some t \<and> can_read True (\<lambda>_. False) PKTSIZE [] f t = Some (Inr PKTSIZE, [incoming_fixup s w], u)"
proof -
  have "length (ring_list (inq s)) + length (pend B (reg s)) < MAXRING" "length (pend B (reg s)) < n"
    using q(1) w(1) n by (simp_all add: MAXRING_def)
  from intr_takes [OF L drv.I_queues [OF inv] q(3) this] obtain a b c k where
    i: "can_intr E n s = Some (s\<lparr>inq := a, outq := b, reg := c, ktrace := k\<rparr>)" and iq: "ring_list a = [r, incoming_fixup s w]"
    using q w(1) by auto
  have "driver_inv (s\<lparr>inq := a, outq := b, reg := c, ktrace := k\<rparr>)" by (rule inv_intr [OF inv i])
  from bh_reads [OF this, of r "incoming_fixup s w" f fs E] iq q(2) w(2) f show ?thesis
    by (simp add: service_def i IS_MYPACKET_def incoming_fixup_def)
qed

text \<open>
  The requesting node when the answer has reached its chip: the request is still in its inbound queue, for the files that look at such packets.
\<close>

definition awaiting :: "'c bus \<Rightarrow> ('c, 'p) driver \<Rightarrow> can_packet \<Rightarrow> can_packet \<Rightarrow> ('c, 'p) driver \<Rightarrow> bool" where
  "awaiting B s r w t \<longleftrightarrow> driver_inv t \<and> ring_list (inq t) = [r] \<and> \<not> IS_MYPACKET t r \<and> ring_list (outq t) = [] \<and> pend B (reg t) = [w] \<and> IS_MYPACKET t w
     \<and> sending B (reg t) = None \<and> accepts B (reg t) = accepts B (reg s) \<and> fstates t = fstates s \<and> can_nodeid t = can_nodeid s \<and> jiffies t = jiffies s
     \<and> cancon_rmt t = cancon_rmt s"

lemma service_inv: "driver_inv s \<Longrightarrow> service E n s = Some t \<Longrightarrow> driver_inv t"
  by (auto simp: service_def intro: inv_intr inv_bh split: option.splits)

lemma exchange_legs:
  assumes L: "bus_laws E B" and ij: "i \<noteq> j" "2 \<le> n" and qi: "node_quiet B (\<sigma> i)" and qj: "node_quiet B (\<sigma> j)"
    and p: "\<not> IS_MYPACKET (\<sigma> i) p" "IS_MYPACKET (\<sigma> j) p"
    and r: "\<And>a b c k. replies E (arrived (\<sigma> i) (\<sigma> j) p) ((\<sigma> j)\<lparr>inq := a, outq := b, reg := c, ktrace := k\<rparr>) ty d"
  shows "\<exists>\<tau>. (\<forall>g. service E n (\<tau> i) = Some g \<longrightarrow> exchange E B n i j p \<sigma> = Some (\<tau>(i := g)))
    \<and> awaiting B (\<sigma> i) (stamp (\<sigma> i) p) (wire (stamp (\<sigma> j) (acknak_pkt ty (arrived (\<sigma> i) (\<sigma> j) p) d))) (\<tau> i)
    \<and> node_quiet B (\<tau> j) \<and> can_nodeid (\<tau> j) = can_nodeid (\<sigma> j)
    \<and> (\<exists>a b c k q F m x. \<tau> j = (snd (canobj_packet E (arrived (\<sigma> i) (\<sigma> j) p)
        ((\<sigma> j)\<lparr>inq := a, outq := b, reg := c, ktrace := k\<rparr>)))\<lparr>inq := q, fstates := F, ktrace := m, reg := x\<rparr>)"
proof -
  note l = bus_lawsD [OF L]
  let ?p = "arrived (\<sigma> i) (\<sigma> j) p" and ?w = "wire (stamp (\<sigma> i) p)"
  have far: "UNPACK_NODE (can_nodeid (\<sigma> i)) \<noteq> UNPACK_NODE (can_nodeid (\<sigma> j))" using p by (auto simp: IS_MYPACKET_def)
  have qi': "driver_inv (\<sigma> i)" "\<And>x. accepts B (reg (\<sigma> i)) x \<longleftrightarrow> IS_MYPACKET (\<sigma> i) x" using qi by (simp_all add: node_quiet_def)
  obtain a b c k where
    s: "can_write E True (\<lambda>_. Some p) PKTSIZE [] (\<sigma> i) = Some (Inr PKTSIZE, (\<sigma> i)\<lparr>inq := a, outq := b, reg := c, ktrace := k\<rparr>)"
    and sq: "ring_list a = [stamp (\<sigma> i) p]" "ring_list b = []" "sending B c = Some ?w" "pend B c = []" "accepts B c = accepts B (reg (\<sigma> i))"
    using request_leg [OF L qi p(1)] by blast
  let ?s = "(\<sigma> i)\<lparr>inq := a, outq := b, reg := c, ktrace := k\<rparr>"
  have inv: "driver_inv ?s" by (rule inv_write [OF qi'(1) s])
  define \<sigma>1 where "\<sigma>1 = bus_transfer B i (\<sigma>(i := ?s))"
  have 1: "\<sigma>1 i = ?s\<lparr>reg := sent B c\<rparr>" "\<sigma>1 j = (\<sigma> j)\<lparr>reg := hear B ?w (reg (\<sigma> j))\<rparr>"
    using ij sq(3) by (simp_all add: \<sigma>1_def bus_transfer_def)
  have my: "IS_MYPACKET (\<sigma>1 j) ?w" "ucast (src (can ?w)) \<noteq> UNPACK_NODE (can_nodeid (\<sigma>1 j))"
    using p(2) far by (simp_all add: 1 IS_MYPACKET_def wire_def stamp_def incoming_fixup_def outgoing_fixup_def)
  have fx: "incoming_fixup (\<sigma>1 j) ?w = ?p" "stamp (\<sigma>1 j) = stamp (\<sigma> j)"
    by (simp_all add: 1 arrived_def stamp_def incoming_fixup_def outgoing_fixup_def fun_eq_iff)
  have j1: "driver_inv (\<sigma>1 j)" "ring_list (inq (\<sigma>1 j)) = []" "ring_list (outq (\<sigma>1 j)) = []" "sending B (reg (\<sigma>1 j)) = None"
    "pend B (reg (\<sigma>1 j)) = [?w]"
    using qj my(1) by (simp_all add: 1 node_quiet_def l drv.I_reg IS_MYPACKET_def)
  have eq: "(\<sigma>1 j)\<lparr>inq := x, outq := y, reg := z, ktrace := v\<rparr> = (\<sigma> j)\<lparr>inq := x, outq := y, reg := z, ktrace := v\<rparr>" for x y z v
    by (simp add: 1)
  have rr: "replies E (incoming_fixup (\<sigma>1 j) ?w) ((\<sigma>1 j)\<lparr>inq := x, outq := y, reg := z, ktrace := v\<rparr>) ty d" for x y z v
    unfolding eq fx(1) by (rule r)
  from answer_leg [OF L j1(1-5) my ij(2) rr, unfolded Let_def fx eq] obtain x y z v q F m where
    t: "service E n (\<sigma>1 j) = Some ((snd (canobj_packet E ?p ((\<sigma> j)\<lparr>inq := x, outq := y, reg := z, ktrace := v\<rparr>)))\<lparr>inq := q, fstates := F, ktrace := m\<rparr>)"
      "sending B (reg (snd (canobj_packet E ?p ((\<sigma> j)\<lparr>inq := x, outq := y, reg := z, ktrace := v\<rparr>)))) = Some (wire (stamp (\<sigma> j) (acknak_pkt ty ?p d)))"
      "ring_list q = []" "ring_list (outq (snd (canobj_packet E ?p ((\<sigma> j)\<lparr>inq := x, outq := y, reg := z, ktrace := v\<rparr>)))) = []"
      "pend B (reg (snd (canobj_packet E ?p ((\<sigma> j)\<lparr>inq := x, outq := y, reg := z, ktrace := v\<rparr>)))) = []"
      "accepts B (reg (snd (canobj_packet E ?p ((\<sigma> j)\<lparr>inq := x, outq := y, reg := z, ktrace := v\<rparr>)))) = accepts B (reg (\<sigma>1 j))"
      "can_nodeid (snd (canobj_packet E ?p ((\<sigma> j)\<lparr>inq := x, outq := y, reg := z, ktrace := v\<rparr>))) = can_nodeid (\<sigma>1 j)"
    by blast
  let ?t = "snd (canobj_packet E ?p ((\<sigma> j)\<lparr>inq := x, outq := y, reg := z, ktrace := v\<rparr>))" and ?a = "wire (stamp (\<sigma> j) (acknak_pkt ty ?p d))"
  define \<sigma>2 where "\<sigma>2 = bus_transfer B j (\<sigma>1(j := ?t\<lparr>inq := q, fstates := F, ktrace := m\<rparr>))"
  have 2: "\<sigma>2 i = ?s\<lparr>reg := hear B ?a (sent B c)\<rparr>" "\<sigma>2 j = ?t\<lparr>inq := q, fstates := F, ktrace := m, reg := sent B (reg ?t)\<rparr>"
    using ij(1) t(2) by (simp_all add: \<sigma>2_def bus_transfer_def 1)
  have "IS_MYPACKET (\<sigma> i) ?a"
    by (simp add: IS_MYPACKET_def wire_def stamp_def [of "\<sigma> j"] incoming_fixup_def [of "\<sigma> j"] outgoing_fixup_def [of "\<sigma> j"] acknak_fields)
  then have i2: "IS_MYPACKET (\<sigma>2 i) ?a" "pend B (reg (\<sigma>2 i)) = [?a]" "driver_inv (\<sigma>2 i)"
      "sending B (reg (\<sigma>2 i)) = None" "accepts B (reg (\<sigma>2 i)) = accepts B (reg (\<sigma> i))"
    using drv.I_reg [OF inv] sq(4,5) qi'(2) by (simp_all add: 2 l IS_MYPACKET_def)
  have "ring_list (inq (\<sigma>2 i)) = [stamp (\<sigma> i) p]" "\<not> IS_MYPACKET (\<sigma>2 i) (stamp (\<sigma> i) p)" "ring_list (outq (\<sigma>2 i)) = []"
    using sq p(1) by (simp_all add: 2 IS_MYPACKET_def stamp_def incoming_fixup_def outgoing_fixup_def)
  with i2 have "awaiting B (\<sigma> i) (stamp (\<sigma> i) p) ?a (\<sigma>2 i)" by (simp add: awaiting_def) (simp add: 2)
  moreover have "node_quiet B (\<sigma>2 j)"
  proof -
    have "driver_inv (?t\<lparr>inq := q, fstates := F, ktrace := m\<rparr>)" by (rule service_inv [OF j1(1) t(1)])
    from drv.I_reg [OF this, of "sent B (reg ?t)"] show ?thesis
      using t(3-7) qj unfolding 2(2) by (simp add: node_quiet_def l 1 IS_MYPACKET_def)
  qed
  moreover have "exchange E B n i j p \<sigma> = Some (\<sigma>2(i := g))" if "service E n (\<sigma>2 i) = Some g" for g
    using s t(1) that by (simp add: exchange_def \<sigma>1_def [symmetric] \<sigma>2_def [symmetric] Let_def)
  moreover have "can_nodeid (\<sigma>2 j) = can_nodeid (\<sigma> j)" using t(7) by (simp add: 2(2) 1)
  ultimately show ?thesis using 2(2) by (intro exI [of _ \<sigma>2] conjI allI impI) (assumption | blast)+
qed

lemma awaiting_fixup: "awaiting B s r (wire (stamp t a)) u \<Longrightarrow> incoming_fixup u (wire (stamp t a)) = arrived t s a"
  by (simp add: awaiting_def arrived_def incoming_fixup_def)

lemma exchange_answered:
  assumes L: "bus_laws E B" and ij: "i \<noteq> j" "2 \<le> n" and qi: "node_quiet B (\<sigma> i)" and qj: "node_quiet B (\<sigma> j)"
    and p: "\<not> IS_MYPACKET (\<sigma> i) p" "IS_MYPACKET (\<sigma> j) p"
    and f: "fstates (\<sigma> i) f = Some fs" "ring_list (fs_inq fs) = []" "\<not> promiscuous fs" "\<not> snoopy fs"
    and r: "\<And>a b c k. replies E (arrived (\<sigma> i) (\<sigma> j) p) ((\<sigma> j)\<lparr>inq := a, outq := b, reg := c, ktrace := k\<rparr>) ty d"
  shows "\<exists>\<tau> u. exchange E B n i j p \<sigma> = Some \<tau>
    \<and> can_read True (\<lambda>_. False) PKTSIZE [] f (\<tau> i)
        = Some (Inr PKTSIZE, [arrived (\<sigma> j) (\<sigma> i) (acknak_pkt ty (arrived (\<sigma> i) (\<sigma> j) p) d)], u)
    \<and> (\<exists>a b c k q F m x. \<tau> j = (snd (canobj_packet E (arrived (\<sigma> i) (\<sigma> j) p)
        ((\<sigma> j)\<lparr>inq := a, outq := b, reg := c, ktrace := k\<rparr>)))\<lparr>inq := q, fstates := F, ktrace := m, reg := x\<rparr>)"
proof -
  let ?a = "acknak_pkt ty (arrived (\<sigma> i) (\<sigma> j) p) d"
  from exchange_legs [OF L ij qi qj p r] obtain \<tau> where
    x: "\<And>g. service E n (\<tau> i) = Some g \<Longrightarrow> exchange E B n i j p \<sigma> = Some (\<tau>(i := g))"
    and w: "awaiting B (\<sigma> i) (stamp (\<sigma> i) p) (wire (stamp (\<sigma> j) ?a)) (\<tau> i)"
    and j: "\<exists>a b c k q F m x. \<tau> j = (snd (canobj_packet E (arrived (\<sigma> i) (\<sigma> j) p)
        ((\<sigma> j)\<lparr>inq := a, outq := b, reg := c, ktrace := k\<rparr>)))\<lparr>inq := q, fstates := F, ktrace := m, reg := x\<rparr>" by blast
  obtain g u where "service E n (\<tau> i) = Some g" "can_read True (\<lambda>_. False) PKTSIZE [] f g = Some (Inr PKTSIZE, [arrived (\<sigma> j) (\<sigma> i) ?a], u)"
    using return_leg [OF L, of "\<tau> i" "stamp (\<sigma> i) p" "wire (stamp (\<sigma> j) ?a)" n f fs] w f ij(2) awaiting_fixup [OF w]
    by (auto simp: awaiting_def)
  with x j ij(1) show ?thesis by (intro exI [of _ "\<tau>(i := g)"] exI [of _ u]) simp
qed

section \<open>Requests of the programs\<close>

lemma same_bus_refl [simp]: "same_bus s s"
  by (simp add: same_bus_def)

lemma testrw_replies:
  assumes "object (ext p) = CANOBJ_TESTRW" "ctype (ext p) = CANTYPE_RO \<or> ctype (ext p) = CANTYPE_WO"
  shows "replies E p s CANTYPE_ACK (Some (testrw_val s))"
    and "testrw_val (snd (canobj_packet E p s)) = (if ctype (ext p) = CANTYPE_WO then dat p else testrw_val s)"
proof -
  have "snd (canobj_packet E p s) = snd (canobj_testrw E p s)"
    using assms(1) by (simp add: node_request [OF assms(2)] canobj_switch_def Let_def CANOBJ_defs)
  then show "replies E p s CANTYPE_ACK (Some (testrw_val s))"
      "testrw_val (snd (canobj_packet E p s)) = (if ctype (ext p) = CANTYPE_WO then dat p else testrw_val s)"
    using assms(2) unfolding replies_def
    by (auto simp: canobj_testrw_def Let_def same_bus_def CANTYPE_defs intro!: exI [of _ s])
qed

lemma connect_bus: "same_bus s (canobj_cancon_host E SET (cancon_setcon x s))"
  by (simp add: same_bus_def canobj_cancon_host_def cancon_setcon_def Let_def split: option.split)

lemma rmt_acknak [simp]: "cancon_rmt (canobj_acknak E ty p d s) = cancon_rmt s"
  using send_frame [of E "acknak_pkt ty p d" s] by (auto simp: canobj_acknak_def)

lemma connect_replies:
  assumes "object (ext p) = CANOBJ_CONSOLE_CONNECT" "ctype (ext p) = CANTYPE_WO"
  shows "replies E p s (if CANCON_UNCONNECTED (cancon_rmt s) then CANTYPE_ACK else CANTYPE_NAK)
      (if CANCON_UNCONNECTED (cancon_rmt s) then Some (dat p) else None)"
    and "cancon_rmt (snd (canobj_packet E p s)) = (if CANCON_UNCONNECTED (cancon_rmt s) then dat_ext (dat p) else cancon_rmt s)"
proof -
  have c: "cancon_rmt (canobj_cancon_host E SET (cancon_setcon (Some p) s)) = dat_ext (dat p)"
    by (simp add: canobj_cancon_host_def setcon_queues Let_def)
  have "snd (canobj_packet E p s) = snd (canobj_connect E p s)"
    using assms by (simp add: node_request node_objects)
  then show "replies E p s (if CANCON_UNCONNECTED (cancon_rmt s) then CANTYPE_ACK else CANTYPE_NAK)
      (if CANCON_UNCONNECTED (cancon_rmt s) then Some (dat p) else None)"
      "cancon_rmt (snd (canobj_packet E p s)) = (if CANCON_UNCONNECTED (cancon_rmt s) then dat_ext (dat p) else cancon_rmt s)"
    using assms(2) connect_bus [of s E "Some p"] unfolding replies_def
    by (auto simp: canobj_connect_def Let_def c setcon_queues CANTYPE_defs intro: exI [of _ s])
qed

text \<open>The answer, as it is read on the requesting node.\<close>

definition is_answer :: "('c, 'p) driver \<Rightarrow> ('c, 'p) driver \<Rightarrow> 3 word \<Rightarrow> can_packet \<Rightarrow> can_packet \<Rightarrow> bool" where
  "is_answer s t ty p a \<longleftrightarrow> ctype (ext a) = ty \<and> same_addr (ext a) (ext p) \<and> src (can a) = ucast (UNPACK_NODE (can_nodeid t))
     \<and> dest (can a) = ucast (UNPACK_NODE (can_nodeid s)) \<and> timestamp a = jiffies s"

lemma is_answer_arrived: "is_answer s t ty p (arrived t s (acknak_pkt ty (arrived s t p) d))"
  by (simp add: is_answer_def acknak_fields) (simp add: acknak_pkt_def same_addr_def Let_def split: option.split)

text \<open>
  C9 (test_across_bus): a program writes a read or write request for the \<^verbatim>\<open>TESTRW\<close> object of another node of its module. Both nodes are quiet: nothing is queued
  in the driver, the chip holds no packet and is not transmitting, and its filter lets through exactly the packets for the node. The program's file is empty and neither
  promiscuous nor snoopy. Then the program reads back, as the first
  packet of its file and with the other node as the source, an acknowledgement of this request with the value the object had; after a write request
  the object has the value of the request. The chips and the bus obey \<open>bus_laws\<close>: a chip buffers at most two received packets and loses more, and a packet that is sent arrives.
\<close>

theorem test_across_bus:
  assumes "bus_laws E B" "i \<noteq> j" "node_quiet B (\<sigma> i)" "node_quiet B (\<sigma> j)"
    and "ucast (dest (can p)) = UNPACK_NODE (can_nodeid (\<sigma> j))" "UNPACK_NODE (can_nodeid (\<sigma> j)) \<noteq> UNPACK_NODE (can_nodeid (\<sigma> i))"
    and "fstates (\<sigma> i) f = Some fs" "ring_list (fs_inq fs) = []" "\<not> promiscuous fs" "\<not> snoopy fs"
    and "object (ext p) = CANOBJ_TESTRW" "ctype (ext p) = CANTYPE_RO \<or> ctype (ext p) = CANTYPE_WO"
  shows "\<exists>\<tau> a u. exchange E B 2 i j p \<sigma> = Some \<tau>
    \<and> can_read True (\<lambda>_. False) PKTSIZE [] f (\<tau> i) = Some (Inr PKTSIZE, [a], u)
    \<and> is_answer (\<sigma> i) (\<sigma> j) CANTYPE_ACK p a \<and> dat a = testrw_val (\<sigma> j)
    \<and> testrw_val (\<tau> j) = (if ctype (ext p) = CANTYPE_WO then dat p else testrw_val (\<sigma> j))"
proof -
  let ?p = "arrived (\<sigma> i) (\<sigma> j) p"
  have o: "object (ext ?p) = CANOBJ_TESTRW" "ctype (ext ?p) = CANTYPE_RO \<or> ctype (ext ?p) = CANTYPE_WO" using assms(11,12) by simp_all
  have r: "replies E ?p ((\<sigma> j)\<lparr>inq := a, outq := b, reg := c, ktrace := k\<rparr>) CANTYPE_ACK (Some (testrw_val (\<sigma> j)))" for a b c k
    using testrw_replies(1) [OF o, of E "(\<sigma> j)\<lparr>inq := a, outq := b, reg := c, ktrace := k\<rparr>"] by simp
  have my: "\<not> IS_MYPACKET (\<sigma> i) p" "IS_MYPACKET (\<sigma> j) p" using assms(5,6) by (simp_all add: IS_MYPACKET_def)
  from exchange_answered [OF assms(1,2) order_refl assms(3,4) my assms(7-10) r] obtain \<tau> u where
    "exchange E B 2 i j p \<sigma> = Some \<tau>"
    "can_read True (\<lambda>_. False) PKTSIZE [] f (\<tau> i) = Some (Inr PKTSIZE, [arrived (\<sigma> j) (\<sigma> i) (acknak_pkt CANTYPE_ACK ?p (Some (testrw_val (\<sigma> j))))], u)"
    "testrw_val (\<tau> j) = (if ctype (ext p) = CANTYPE_WO then dat p else testrw_val (\<sigma> j))"
    by (auto simp: testrw_replies(2) [OF o])
  moreover have "dat (arrived (\<sigma> j) (\<sigma> i) (acknak_pkt CANTYPE_ACK ?p (Some (testrw_val (\<sigma> j))))) = testrw_val (\<sigma> j)"
    by (simp add: acknak_fields)
  ultimately show ?thesis using is_answer_arrived by blast
qed

text \<open>
  A console program's request to connect to another node of its module is answered across the bus. If the node's console was free, the answer acknowledges it and
  the console is connected to the address in the request; if not, it refuses and the connection stays.
\<close>

theorem connect_across_bus:
  assumes "bus_laws E B" "i \<noteq> j" "node_quiet B (\<sigma> i)" "node_quiet B (\<sigma> j)"
    and "ucast (dest (can p)) = UNPACK_NODE (can_nodeid (\<sigma> j))" "UNPACK_NODE (can_nodeid (\<sigma> j)) \<noteq> UNPACK_NODE (can_nodeid (\<sigma> i))"
    and "fstates (\<sigma> i) f = Some fs" "ring_list (fs_inq fs) = []" "\<not> promiscuous fs" "\<not> snoopy fs"
    and "object (ext p) = CANOBJ_CONSOLE_CONNECT" "ctype (ext p) = CANTYPE_WO"
  shows "\<exists>\<tau> a u. exchange E B 2 i j p \<sigma> = Some \<tau>
    \<and> can_read True (\<lambda>_. False) PKTSIZE [] f (\<tau> i) = Some (Inr PKTSIZE, [a], u)
    \<and> is_answer (\<sigma> i) (\<sigma> j) (if CANCON_UNCONNECTED (cancon_rmt (\<sigma> j)) then CANTYPE_ACK else CANTYPE_NAK) p a
    \<and> cancon_rmt (\<tau> j) = (if CANCON_UNCONNECTED (cancon_rmt (\<sigma> j)) then dat_ext (dat p) else cancon_rmt (\<sigma> j))"
proof -
  let ?p = "arrived (\<sigma> i) (\<sigma> j) p" and ?free = "CANCON_UNCONNECTED (cancon_rmt (\<sigma> j))"
  let ?ty = "if ?free then CANTYPE_ACK else CANTYPE_NAK" and ?d = "if ?free then Some (dat p) else None"
  have o: "object (ext ?p) = CANOBJ_CONSOLE_CONNECT" "ctype (ext ?p) = CANTYPE_WO" using assms(11,12) by simp_all
  have r: "replies E ?p ((\<sigma> j)\<lparr>inq := a, outq := b, reg := c, ktrace := k\<rparr>) ?ty ?d" for a b c k
    using connect_replies(1) [OF o, of E "(\<sigma> j)\<lparr>inq := a, outq := b, reg := c, ktrace := k\<rparr>"] by (auto split: if_splits)
  have my: "\<not> IS_MYPACKET (\<sigma> i) p" "IS_MYPACKET (\<sigma> j) p" using assms(5,6) by (simp_all add: IS_MYPACKET_def)
  from exchange_answered [OF assms(1,2) order_refl assms(3,4) my assms(7-10) r] obtain \<tau> u where
    "exchange E B 2 i j p \<sigma> = Some \<tau>"
    "can_read True (\<lambda>_. False) PKTSIZE [] f (\<tau> i) = Some (Inr PKTSIZE, [arrived (\<sigma> j) (\<sigma> i) (acknak_pkt ?ty ?p ?d)], u)"
    "cancon_rmt (\<tau> j) = (if ?free then dat_ext (dat p) else cancon_rmt (\<sigma> j))"
    by (auto simp: connect_replies(2) [OF o])
  then show ?thesis using is_answer_arrived by blast
qed

section \<open>A concrete bus\<close>

text \<open>A chip that keeps what is written to its transmit registers, with packets for one of the nodes of the module.\<close>

record chip82 =
  ch_rx :: "can_packet list"
  ch_tx :: "can_packet option"
  ch_regs :: "creg \<Rightarrow> u8"
  ch_node :: "5 word"

definition staged :: "(creg \<Rightarrow> u8) \<Rightarrow> can_packet" where
  "staged r = \<lparr>timestamp = 0, can = of_can_b (r txdb1) (r txdb2), ext = of_ext_dat (of_bytes (r tx0) (r tx1) (r tx2) (r tx3)),
     dat = of_bytes (r tx4) (r tx5) (r tx6) (r tx7)\<rparr>"

definition chip_env :: "(chip82, ram) env" where
  "chip_env =
     \<lparr>reg_read = (\<lambda>r c. (let p = (case ch_rx c of [] \<Rightarrow> no_pkt | p # _ \<Rightarrow> p) in
        case r of
           status \<Rightarrow> (if ch_rx c = [] then 0 else CAN_STATUS_RECV_AVAIL) OR (if ch_tx c = None then CAN_STATUS_XMIT_AVAIL else 0)
         | rxdb1 \<Rightarrow> fst (can_b (can p)) | rxdb2 \<Rightarrow> snd (can_b (can p))
         | rx0 \<Rightarrow> byte_of (ext_dat (ext p)) 0 | rx1 \<Rightarrow> byte_of (ext_dat (ext p)) 1
         | rx2 \<Rightarrow> byte_of (ext_dat (ext p)) 2 | rx3 \<Rightarrow> byte_of (ext_dat (ext p)) 3
         | rx4 \<Rightarrow> byte_of (dat p) 0 | rx5 \<Rightarrow> byte_of (dat p) 1 | rx6 \<Rightarrow> byte_of (dat p) 2 | rx7 \<Rightarrow> byte_of (dat p) 3
         | _ \<Rightarrow> ch_regs c r, c)),
      reg_write = (\<lambda>r v c. if r = command then
          (if v = CAN_COMMAND_CLR_RECV then c\<lparr>ch_rx := tl (ch_rx c)\<rparr>
           else if v = CAN_COMMAND_TRANSMIT then c\<lparr>ch_tx := Some (staged (ch_regs c))\<rparr> else c)
        else c\<lparr>ch_regs := (ch_regs c)(r := v)\<rparr>),
      prom_of = ram_prom, stack_pkt = no_pkt, stack_buf = [], stack_u32 = 0, after_pkt = (\<lambda>_. 0), HZ = 100,
      TTY_FLIPBUF_SIZE = 512, request_irq = 0, tty_register_driver = 0, misc_register = 0, map_82c200 = True, offset_of = (\<lambda>_. 0)\<rparr>"

definition chip_bus :: "chip82 bus" where
  "chip_bus = \<lparr>pend = ch_rx, sending = ch_tx, accepts = (\<lambda>c p. dest (can p) = ch_node c), sent = (\<lambda>c. c\<lparr>ch_tx := None\<rparr>),
     hear = (\<lambda>p c. if dest (can p) = ch_node c \<and> length (ch_rx c) < RXBUFS then c\<lparr>ch_rx := ch_rx c @ [p]\<rparr> else c)\<rparr>"

lemma chip_bus_laws: "bus_laws chip_env chip_bus"
proof -
  have rx: "rx_fifo chip_env ch_rx"
    by (auto simp: rx_fifo_def chip_env_def CAN_STATUS_RECV_AVAIL_def CAN_STATUS_XMIT_AVAIL_def CAN_COMMAND_CLR_RECV_def Let_def split: list.split)
  have tx: "fst (reg_read chip_env status c) AND CAN_STATUS_XMIT_AVAIL \<noteq> 0 \<longleftrightarrow> ch_tx c = None" for c
    by (simp add: chip_env_def CAN_STATUS_RECV_AVAIL_def CAN_STATUS_XMIT_AVAIL_def Let_def)
  have x: "ch_tx (xmit_pkt chip_env p c) = Some (wire p) \<and> ch_rx (xmit_pkt chip_env p c) = ch_rx c \<and> ch_node (xmit_pkt chip_env p c) = ch_node c" for p c
    by (simp add: xmit_pkt_def chip_env_def staged_def wire_def Let_def CAN_COMMAND_TRANSMIT_def CAN_COMMAND_CLR_RECV_def)
  show ?thesis
    unfolding bus_laws_def using rx tx x
    by (simp add: chip_bus_def) (simp add: chip_env_def Let_def CAN_COMMAND_TRANSMIT_def CAN_COMMAND_CLR_RECV_def CAN_COMMAND_CLR_OVERRUN_def)
qed

text \<open>Two nodes, 5 with a file open at address 8 and 6 with a value in its test object.\<close>

definition node_at :: "5 word \<Rightarrow> u32 \<Rightarrow> (chip82, ram) driver" where
  "node_at n v =
     \<lparr>inq = pkt_ring, outq = pkt_ring, can_debug = False, can_usecount = 1, reg = \<lparr>ch_rx = [], ch_tx = None, ch_regs = (\<lambda>_. 0), ch_node = n\<rparr>,
      promiscuous_usecount = 0, openfd = (\<lambda>_. 0)(0 := 8), fstates = [8 \<mapsto> fresh_file], consobj_reserved = (\<lambda>_. 0),
      can_nodeid = ucast n, first_time = False, jiffies = 0, mod_usecount = 1, ktrace = [],
      cancon_outbuf = char_ring, cancon_inbuf = char_ring, cancon_ack_pending = False,
      cancon_rmt = no_ext, ttyp = None, cantty_myrefcount = 0, cantty_registered = True, ack_timer = None,
      hb_timer = None, can_boardtype = 0, can_hb_val = 0, hb_count = 0, testrw_val = v, promdata = prom0\<rparr>"

definition two_nodes :: "(chip82, ram) net" where
  "two_nodes i = (if i = 0 then node_at 5 0 else node_at 6 77)"

lemma UNPACK_NODE_small [simp]: "UNPACK_NODE (ucast (n :: 5 word)) = ucast n"
  by (rule bit_word_eqI) (auto simp: bit_UNPACK_NODE bit_simps dest: bit_imp_le_length)

lemma ucast_small: "ucast (ucast (n :: 5 word) :: u32) = n"
  by (rule bit_word_eqI) (simp add: bit_simps)

lemma quiet_node: "node_quiet chip_bus (node_at n v)"
proof -
  have "res_ok (\<lambda>_. 0) ((\<lambda>a. None)(8 \<mapsto> -1))"
    by (rule res_ok_idle) (auto intro: res_okI simp: held_def)
  moreover have "(\<lambda>a. map_option consobj ([8 \<mapsto> fresh_file] a)) = (\<lambda>a :: nat. None)(8 \<mapsto> -1)"
    by (auto simp: fresh_file_def fun_eq_iff)
  ultimately have "driver_inv (node_at n v)"
    by (simp add: inv_defs node_at_def used_one) (simp add: fresh_file_def)
  moreover have "(dest (can p) = n) = (ucast (dest (can p)) = (ucast n :: u32))" for p :: can_packet
    by (metis ucast_small)
  ultimately show ?thesis by (simp add: node_quiet_def chip_bus_def node_at_def IS_MYPACKET_def)
qed

lemma two_nodes_file: "fstates (two_nodes 0) 8 = Some fresh_file" "ring_list (fs_inq fresh_file) = []" "\<not> promiscuous fresh_file" "\<not> snoopy fresh_file"
  by (simp_all add: two_nodes_def node_at_def fresh_file_def)

lemma two_nodes_addr: "UNPACK_NODE (can_nodeid (two_nodes 0)) = 5" "UNPACK_NODE (can_nodeid (two_nodes 1)) = 6"
  by (simp_all add: two_nodes_def node_at_def UNPACK_NODE_def)

lemma two_nodes_quiet: "node_quiet chip_bus (two_nodes i)"
  by (simp add: two_nodes_def quiet_node)

theorem test_across_bus_witness:
  "\<exists>\<tau> a u. exchange chip_env chip_bus 2 0 1 (no_pkt\<lparr>can := (can no_pkt)\<lparr>dest := 6\<rparr>, ext := no_ext\<lparr>ctype := CANTYPE_WO, object := CANOBJ_TESTRW\<rparr>, dat := 99\<rparr>)
      two_nodes = Some \<tau>
    \<and> can_read True (\<lambda>_. False) PKTSIZE [] 8 (\<tau> 0) = Some (Inr PKTSIZE, [a], u) \<and> dat a = 77 \<and> testrw_val (\<tau> 1) = 99"
proof -
  let ?p = "no_pkt\<lparr>can := (can no_pkt)\<lparr>dest := 6\<rparr>, ext := no_ext\<lparr>ctype := CANTYPE_WO, object := CANOBJ_TESTRW\<rparr>, dat := 99\<rparr>"
  have "testrw_val (two_nodes 1) = 77" by (simp add: two_nodes_def node_at_def)
  moreover have "ucast (dest (can ?p)) = UNPACK_NODE (can_nodeid (two_nodes 1))"
    "UNPACK_NODE (can_nodeid (two_nodes 1)) \<noteq> UNPACK_NODE (can_nodeid (two_nodes 0))" unfolding two_nodes_addr by simp_all
  ultimately show ?thesis
    using test_across_bus [where \<sigma> = two_nodes and i = 0 and j = 1 and p = ?p, OF chip_bus_laws _ two_nodes_quiet two_nodes_quiet _ _ two_nodes_file] by (auto simp: CANTYPE_defs)
qed

theorem connect_across_bus_witness:
  "\<exists>\<tau> a u. exchange chip_env chip_bus 2 0 1
      (no_pkt\<lparr>can := (can no_pkt)\<lparr>dest := 6\<rparr>, ext := no_ext\<lparr>ctype := CANTYPE_WO, object := CANOBJ_CONSOLE_CONNECT\<rparr>, dat := 99\<rparr>) two_nodes = Some \<tau>
    \<and> can_read True (\<lambda>_. False) PKTSIZE [] 8 (\<tau> 0) = Some (Inr PKTSIZE, [a], u) \<and> ctype (ext a) = CANTYPE_ACK \<and> cancon_rmt (\<tau> 1) = dat_ext 99"
proof -
  let ?p = "no_pkt\<lparr>can := (can no_pkt)\<lparr>dest := 6\<rparr>, ext := no_ext\<lparr>ctype := CANTYPE_WO, object := CANOBJ_CONSOLE_CONNECT\<rparr>, dat := 99\<rparr>"
  have "CANCON_UNCONNECTED (cancon_rmt (two_nodes 1))" by (simp add: two_nodes_def node_at_def CANCON_UNCONNECTED_def no_ext_def)
  moreover have "ucast (dest (can ?p)) = UNPACK_NODE (can_nodeid (two_nodes 1))"
    "UNPACK_NODE (can_nodeid (two_nodes 1)) \<noteq> UNPACK_NODE (can_nodeid (two_nodes 0))" unfolding two_nodes_addr by simp_all
  ultimately show ?thesis
    using connect_across_bus [where \<sigma> = two_nodes and i = 0 and j = 1 and p = ?p, OF chip_bus_laws _ two_nodes_quiet two_nodes_quiet _ _ two_nodes_file] by (auto simp: is_answer_def)
qed

end
