(* ===== verification/BusPeer.thy ===== *)
theory BusPeer
  imports Network
begin

text \<open>
  Sessions across the bus: the node that the programs of \<open>CanconNet\<close> and \<open>Commands\<close> talk to, which answers at once, is what two drivers on a bus are to each other, request after request.
\<close>

section \<open>A bottom half without answers\<close>

text \<open>A packet that the objects of this node do not react to, however the queues and files look.\<close>

definition inert :: "('c, 'p) env \<Rightarrow> ('c, 'p) driver \<Rightarrow> can_packet \<Rightarrow> bool" where
  "inert E s p \<longleftrightarrow> (\<forall>q F k. snd (canobj_packet E p (s\<lparr>inq := q, fstates := F, ktrace := k\<rparr>)) = s\<lparr>inq := q, fstates := F, ktrace := k\<rparr>)"

lemma accept_cong: "can_nodeid t = can_nodeid s \<Longrightarrow> accept t p = accept s p"
  by (simp add: accept_def IS_MYPACKET_def fun_eq_iff)

lemma bh_inert:
  "driver_inv s \<Longrightarrow> \<forall>p \<in> set (ring_list (inq s)). IS_MYPACKET s p \<longrightarrow> inert E s p \<Longrightarrow> length (ring_list (inq s)) < n \<Longrightarrow>
   \<exists>q k. can_bh E n s = Some (s\<lparr>inq := q, fstates := (\<lambda>x. map_option (fold (accept s) (ring_list (inq s))) (fstates s x)), ktrace := k\<rparr>)
     \<and> ring_list q = []"
proof (induction n arbitrary: s)
  case (Suc n)
  have wf: "ring_wf (inq s)" using drv.I_queues [OF Suc.prems(1)] by (simp add: queues_wf_def)
  then show ?case
  proof (cases rule: pktq.deq_cases)
    case none
    then show ?thesis by (intro exI [of _ "inq s"] exI [of _ "ktrace s"]) (simp add: option.map_id0 [unfolded id_def])
  next
    case (some p q)
    let ?s = "s\<lparr>inq := q\<rparr>"
    obtain k where k: "deliver_fds p [0..<CAN_MAX_USECOUNT] ?s = Some (?s\<lparr>fstates := (\<lambda>x. map_option (accept ?s p) (fstates ?s x)), ktrace := k\<rparr>)"
      using deliver_all [OF inv_inq [OF Suc.prems(1) some(2)], of p] by blast
    let ?t = "s\<lparr>inq := q, fstates := (\<lambda>x. map_option (accept s p) (fstates s x)), ktrace := k\<rparr>"
    have "snd (canobj_packet E p (s\<lparr>inq := q, fstates := fstates s, ktrace := ktrace s\<rparr>)) = s\<lparr>inq := q, fstates := fstates s, ktrace := ktrace s\<rparr>"
      if my: "IS_MYPACKET s p"
    proof -
      have "inert E s p" using Suc.prems(2) some(3) my by simp
      then show ?thesis unfolding inert_def by blast
    qed
    then have "deliver_pkt E p ?s = Some ?t"
      using k by (auto simp: deliver_pkt_def Let_def accept_cong [of ?s s] IS_MYPACKET_def)
    moreover have "driver_inv ?t"
      using inv_map_fstates [OF inv_inq [OF Suc.prems(1) some(2)], of "accept s p" k] by (simp add: accept_def pktq.wf_enq)
    moreover have "\<forall>p \<in> set (ring_list (inq ?t)). IS_MYPACKET ?t p \<longrightarrow> inert E ?t p"
      using Suc.prems(2) some(3) by (simp add: inert_def IS_MYPACKET_def)
    ultimately obtain r m where "can_bh E n ?t = Some (?t\<lparr>inq := r, fstates := (\<lambda>x. map_option (fold (accept ?t) (ring_list q)) (fstates ?t x)), ktrace := m\<rparr>)"
        "ring_list r = []"
      using Suc.IH [of ?t] Suc.prems(3) some(3) by auto
    moreover have "accept ?t = accept s" by (simp add: accept_def IS_MYPACKET_def fun_eq_iff)
    moreover have "can_bh E (Suc n) s = can_bh E n ?t" using some(1) \<open>deliver_pkt E p ?s = Some ?t\<close> by simp
    ultimately show ?thesis
      by (intro exI [of _ r] exI [of _ m]) (simp add: some(3) option.map_comp comp_def)
  qed
qed simp

section \<open>The requesting node is quiet again\<close>

text \<open>A file that is empty and only gets the packets for its node.\<close>

definition file_ready :: "('c, 'p) driver \<Rightarrow> nat \<Rightarrow> bool" where
  "file_ready s f \<longleftrightarrow> (\<exists>fs. fstates s f = Some fs \<and> ring_list (fs_inq fs) = [] \<and> \<not> promiscuous fs \<and> \<not> snoopy fs)"

lemma return_quiet:
  assumes L: "bus_laws E B" and w: "awaiting B s r w t" and n: "2 \<le> n" and f: "file_ready s f" and q: "node_quiet B s"
    and i: "\<And>b c q F k. snd (canobj_packet E (incoming_fixup t w) (t\<lparr>inq := q, outq := b, reg := c, fstates := F, ktrace := k\<rparr>))
      = t\<lparr>inq := q, outq := b, reg := c, fstates := F, ktrace := k\<rparr>"
  shows "\<exists>g u. service E n t = Some g \<and> can_read True (\<lambda>_. False) PKTSIZE [] f g = Some (Inr PKTSIZE, [incoming_fixup t w], u)
    \<and> node_quiet B u \<and> file_ready u f \<and> can_nodeid u = can_nodeid s \<and> cancon_rmt u = cancon_rmt s"
proof -
  have t: "driver_inv t" "ring_list (inq t) = [r]" "\<not> IS_MYPACKET t r" "ring_list (outq t) = []" "pend B (reg t) = [w]" "IS_MYPACKET t w"
    "sending B (reg t) = None" "accepts B (reg t) = accepts B (reg s)" "fstates t = fstates s" "can_nodeid t = can_nodeid s" "cancon_rmt t = cancon_rmt s"
    using w by (simp_all add: awaiting_def)
  obtain fs where fs: "fstates t f = Some fs" "ring_list (fs_inq fs) = []" "\<not> promiscuous fs" "\<not> snoopy fs" using f t(9) by (auto simp: file_ready_def)
  have "length (ring_list (inq t)) + length (pend B (reg t)) < MAXRING" "length (pend B (reg t)) < n"
    using t(2,5) n by (simp_all add: MAXRING_def)
  from intr_takes [OF L drv.I_queues [OF t(1)] t(4) this] obtain a b c k where
    it: "can_intr E n t = Some (t\<lparr>inq := a, outq := b, reg := c, ktrace := k\<rparr>)" and iq: "ring_list a = [r, incoming_fixup t w]" "ring_list b = []"
      "pend B c = []" "sending B c = None" "accepts B c = accepts B (reg s)"
    using t by auto
  let ?t = "t\<lparr>inq := a, outq := b, reg := c, ktrace := k\<rparr>" and ?w = "incoming_fixup t w"
  have my: "IS_MYPACKET ?t ?w" "\<not> IS_MYPACKET ?t r" using t(3,6) by (simp_all add: IS_MYPACKET_def incoming_fixup_def)
  have inv: "driver_inv ?t" by (rule inv_intr [OF t(1) it])
  have eq: "?t\<lparr>inq := x, fstates := F, ktrace := y\<rparr> = t\<lparr>inq := x, outq := b, reg := c, fstates := F, ktrace := y\<rparr>" for x F y by simp
  have "inert E ?t ?w" unfolding inert_def eq using i by blast
  then have "\<forall>p \<in> set (ring_list (inq ?t)). IS_MYPACKET ?t p \<longrightarrow> inert E ?t p" using my(2) by (simp add: iq)
  from bh_inert [OF inv this, of 4093] obtain q m where
    g: "can_bh E 4093 ?t = Some (?t\<lparr>inq := q, fstates := (\<lambda>x. map_option (fold (accept ?t) [r, ?w]) (fstates t x)), ktrace := m\<rparr>)" "ring_list q = []"
    by (auto simp: iq)
  let ?g = "?t\<lparr>inq := q, fstates := (\<lambda>x. map_option (fold (accept ?t) [r, ?w]) (fstates t x)), ktrace := m\<rparr>"
  have ginv: "driver_inv ?g" by (rule inv_bh [OF inv g(1)])
  let ?fs = "accept ?t ?w (accept ?t r fs)"
  have "ring_list (fs_inq ?fs) = [?w]"
    using fs my pktq.contents_enq [OF inv_fs_wf [OF t(1) fs(1)]] pktq.fst_enq_iff [OF inv_fs_wf [OF t(1) fs(1)]]
    by (simp add: accept_def MAXRING_def)
  then obtain x where x: "can_read True (\<lambda>_. False) PKTSIZE [] f ?g = Some (Inr PKTSIZE, [?w], set_fs f (?fs\<lparr>fs_inq := x\<rparr>) ?g)" "ring_list x = []"
    using read_first [OF ginv, of f ?fs ?w "[]"] fs(1) by auto
  let ?u = "set_fs f (?fs\<lparr>fs_inq := x\<rparr>) ?g"
  have "node_quiet B ?u"
    using q inv_read [OF ginv x(1)] iq(2-5) g(2) t(10) by (simp add: node_quiet_def set_fs_def IS_MYPACKET_def)
  moreover have "file_ready ?u f" using fs x(2) by (simp add: file_ready_def set_fs_def)
  ultimately show ?thesis
    using it g(1) x(1) t(10,11) by (intro exI [of _ ?g] exI [of _ ?u]) (simp add: service_def set_fs_def)
qed

section \<open>The objects as a machine of their own\<close>

text \<open>
  What a node answers to a request for its console or its test object, and what it keeps: who the console is connected to, and the value of the test object.
\<close>

type_synonym objects = "can_header_ext \<times> u32"

definition objects_of :: "('c, 'p) driver \<Rightarrow> objects" where
  "objects_of s = (cancon_rmt s, testrw_val s)"

definition is_request :: "can_header_ext \<Rightarrow> bool" where
  "is_request x \<longleftrightarrow> (object x = CANOBJ_TESTRW \<or> object x = CANOBJ_CONSOLE_CONNECT) \<and> (ctype x = CANTYPE_RO \<or> ctype x = CANTYPE_WO)
     \<or> object x = CANOBJ_CONSOLE_DISCONN \<and> ctype x = CANTYPE_WO"

definition reply_of :: "can_packet \<Rightarrow> objects \<Rightarrow> 3 word \<times> u32 option" where
  "reply_of p ob =
     (case ob of (con, val) \<Rightarrow>
        if object (ext p) = CANOBJ_TESTRW then (CANTYPE_ACK, Some val)
        else if object (ext p) = CANOBJ_CONSOLE_CONNECT then
          (if ctype (ext p) = CANTYPE_RO then (CANTYPE_ACK, Some (ext_dat con))
           else if CANCON_UNCONNECTED con then (CANTYPE_ACK, Some (dat p)) else (CANTYPE_NAK, None))
        else if CANCON_UNCONNECTED con then (CANTYPE_NAK, None) else (CANTYPE_ACK, None))"

definition next_of :: "can_packet \<Rightarrow> objects \<Rightarrow> objects" where
  "next_of p ob =
     (case ob of (con, val) \<Rightarrow>
        if object (ext p) = CANOBJ_TESTRW then (con, if ctype (ext p) = CANTYPE_WO then dat p else val)
        else if object (ext p) = CANOBJ_CONSOLE_CONNECT then
          (if ctype (ext p) = CANTYPE_WO \<and> CANCON_UNCONNECTED con then dat_ext (dat p) else con, val)
        else (if CANCON_UNCONNECTED con then con else con\<lparr>cluster := 0x3f, module := 0x3f, node := 0x3f, object := 0x3f\<rparr>, val))"

definition answer_of :: "can_packet \<Rightarrow> objects \<Rightarrow> can_header_ext \<times> u32" where
  "answer_of p ob = (case reply_of p ob of (ty, d) \<Rightarrow> ((ext p)\<lparr>ctype := ty\<rparr>, case d of None \<Rightarrow> dat p | Some v \<Rightarrow> v))"

lemma acknak_view: "(ext (acknak_pkt ty p d), dat (acknak_pkt ty p d)) = ((ext p)\<lparr>ctype := ty\<rparr>, case d of None \<Rightarrow> dat p | Some v \<Rightarrow> v)"
  by (simp add: acknak_pkt_def Let_def split: option.split)

lemma testrw_acknak [simp]: "testrw_val (canobj_acknak E ty p d s) = testrw_val s"
  using send_frame [of E "acknak_pkt ty p d" s] by (auto simp: canobj_acknak_def)

lemma host_objects [simp]:
  "cancon_rmt (canobj_cancon_host E SET s) = cancon_rmt s" "testrw_val (canobj_cancon_host E SET s) = testrw_val s"
  "testrw_val (cancon_setcon x s) = testrw_val s" "cancon_rmt (cantty_hangup s) = cancon_rmt s" "testrw_val (cantty_hangup s) = testrw_val s"
  by (simp_all add: canobj_cancon_host_def cancon_setcon_def cantty_hangup_def kcall_def Let_def split: option.split)

lemma hangup_bus: "same_bus s (cantty_hangup s)"
  by (simp add: same_bus_def cantty_hangup_def kcall_def Let_def)

lemma request_packet:
  assumes "is_request (ext p)"
  shows "snd (canobj_packet E p s) =
    (if object (ext p) = CANOBJ_TESTRW then snd (canobj_testrw E p s)
     else if object (ext p) = CANOBJ_CONSOLE_CONNECT then snd (canobj_connect E p s) else snd (canobj_disconnect E p s))"
  using assms node_request [of p E s] by (auto simp: is_request_def canobj_switch_def Let_def CANOBJ_defs)

lemma repliesI: "same_bus s u \<Longrightarrow> snd (canobj_packet E p s) = t \<Longrightarrow> same_bus (canobj_acknak E ty p d u) t \<Longrightarrow> replies E p s ty d"
  unfolding replies_def by blast

lemma read_connect_replies:
  assumes "object (ext p) = CANOBJ_CONSOLE_CONNECT" "ctype (ext p) = CANTYPE_RO"
  shows "replies E p s CANTYPE_ACK (Some (ext_dat (cancon_rmt s)))"
  by (rule repliesI [OF same_bus_refl _ same_bus_refl]) (simp add: assms node_request node_objects canobj_connect_def)

lemma disconnect_replies:
  assumes "object (ext p) = CANOBJ_CONSOLE_DISCONN" "ctype (ext p) = CANTYPE_WO"
  shows "replies E p s (if CANCON_UNCONNECTED (cancon_rmt s) then CANTYPE_NAK else CANTYPE_ACK) None"
proof (cases "CANCON_UNCONNECTED (cancon_rmt s)")
  case True
  then show ?thesis by (simp add: repliesI [OF same_bus_refl _ same_bus_refl] assms node_request node_objects canobj_disconnect_def)
next
  case False
  let ?d = "canobj_cancon_host E SET (cancon_setcon None s)"
  have "snd (canobj_packet E p s) = cantty_hangup (canobj_acknak E CANTYPE_ACK p None ?d)"
    using False by (simp add: assms node_request node_objects canobj_disconnect_def Let_def)
  then show ?thesis using False by (simp add: repliesI [OF connect_bus _ hangup_bus])
qed

lemma objects_reply: "is_request (ext p) \<Longrightarrow> replies E p s (fst (reply_of p (objects_of s))) (snd (reply_of p (objects_of s)))"
  using testrw_replies(1) [of p E s] connect_replies(1) [of p E s] read_connect_replies [of p E s] disconnect_replies [of p E s]
  by (auto simp: is_request_def reply_of_def objects_of_def CANOBJ_defs CANTYPE_defs)

lemma objects_next:
  assumes "is_request (ext p)"
  shows "objects_of (snd (canobj_packet E p s)) = next_of p (objects_of s)"
  unfolding request_packet [OF assms]
  using assms
  by (auto simp: is_request_def next_of_def objects_of_def canobj_testrw_def canobj_connect_def canobj_disconnect_def Let_def CANOBJ_defs CANTYPE_defs
      setcon_queues) (auto simp: cancon_setcon_def)

section \<open>Sessions\<close>

text \<open>A request with the reading of its answer, and a sequence of them; the same with a node that answers at once.\<close>

definition bus_request ::
    "('c, 'p) env \<Rightarrow> 'c bus \<Rightarrow> nat \<Rightarrow> nat \<Rightarrow> nat \<Rightarrow> can_packet \<Rightarrow> ('c, 'p) net \<Rightarrow> (can_packet \<times> ('c, 'p) net) option" where
  "bus_request E B i j f p \<sigma> =
     (case exchange E B 2 i j p \<sigma> of
        None \<Rightarrow> None
      | Some \<tau> \<Rightarrow>
          (case can_read True (\<lambda>_. False) PKTSIZE [] f (\<tau> i) of
             Some (Inr _, [a], u) \<Rightarrow> Some (a, \<tau>(i := u))
           | _ \<Rightarrow> None))"

fun bus_session ::
    "('c, 'p) env \<Rightarrow> 'c bus \<Rightarrow> nat \<Rightarrow> nat \<Rightarrow> nat \<Rightarrow> can_packet list \<Rightarrow> ('c, 'p) net \<Rightarrow> (can_packet list \<times> ('c, 'p) net) option" where
  "bus_session E B i j f [] \<sigma> = Some ([], \<sigma>)"
| "bus_session E B i j f (p # ps) \<sigma> =
     (case bus_request E B i j f p \<sigma> of
        None \<Rightarrow> None
      | Some (a, \<tau>) \<Rightarrow> map_option (\<lambda>(as, \<tau>). (a # as, \<tau>)) (bus_session E B i j f ps \<tau>))"

fun peer_session :: "(can_packet \<Rightarrow> 's \<Rightarrow> can_packet list \<times> 's) \<Rightarrow> can_packet list \<Rightarrow> 's \<Rightarrow> can_packet list \<times> 's" where
  "peer_session peer [] s = ([], s)"
| "peer_session peer (p # ps) s = (case peer p s of (as, s) \<Rightarrow> case peer_session peer ps s of (bs, t) \<Rightarrow> (as @ bs, t))"

fun object_session :: "can_packet list \<Rightarrow> objects \<Rightarrow> (can_header_ext \<times> u32) list \<times> objects" where
  "object_session [] ob = ([], ob)"
| "object_session (p # ps) ob = (case object_session ps (next_of p ob) of (xs, ob') \<Rightarrow> (answer_of p ob # xs, ob'))"

text \<open>
  Two nodes that can go on: both quiet, with different addresses, the file of the program empty, and the requesting node's own console not connected to one of the objects
  that are asked for, since an acknowledgement from such a console object would be taken for one of the console.
\<close>

definition console_clear :: "('c, 'p) driver \<Rightarrow> bool" where
  "console_clear s \<longleftrightarrow> CANCON_UNCONNECTED (cancon_rmt s)
     \<or> object (cancon_rmt s) \<notin> {CANOBJ_TESTRW, CANOBJ_CONSOLE_CONNECT, CANOBJ_CONSOLE_DISCONN}"

definition bus_ready :: "'c bus \<Rightarrow> nat \<Rightarrow> nat \<Rightarrow> nat \<Rightarrow> ('c, 'p) net \<Rightarrow> bool" where
  "bus_ready B i j f \<sigma> \<longleftrightarrow> node_quiet B (\<sigma> i) \<and> node_quiet B (\<sigma> j) \<and> UNPACK_NODE (can_nodeid (\<sigma> j)) \<noteq> UNPACK_NODE (can_nodeid (\<sigma> i))
     \<and> file_ready (\<sigma> i) f \<and> console_clear (\<sigma> i)"

lemma answer_inert:
  assumes "ctype (ext a) = CANTYPE_ACK \<or> ctype (ext a) = CANTYPE_NAK" "object (ext a) \<in> {CANOBJ_TESTRW, CANOBJ_CONSOLE_CONNECT, CANOBJ_CONSOLE_DISCONN}"
    and "console_clear s"
  shows "snd (canobj_packet E a s) = s"
proof -
  have ty: "ctype (ext a) \<noteq> CANTYPE_RO" "ctype (ext a) \<noteq> CANTYPE_WO" using assms(1) by (auto simp: CANTYPE_defs)
  have "canobj_switch E a s = (False, s)"
    using assms(2) by (auto simp: node_objects canobj_connect_def canobj_disconnect_def ty) (simp add: canobj_switch_def Let_def CANOBJ_defs canobj_testrw_def ty)
  moreover have "CANCON_UNCONNECTED (cancon_rmt s) \<or> object (ext a) \<noteq> object (cancon_rmt s)" using assms(2,3) by (auto simp: console_clear_def)
  ultimately show ?thesis by (auto simp: canobj_packet_def)
qed

lemma reply_type: "fst (reply_of p ob) = CANTYPE_ACK \<or> fst (reply_of p ob) = CANTYPE_NAK"
  by (auto simp: reply_of_def split: prod.splits)

lemma view_arrived: "reply_of (arrived s t p) = reply_of p" "next_of (arrived s t p) = next_of p" "answer_of (arrived s t p) = answer_of p"
  unfolding answer_of_def reply_of_def next_of_def arrived_fields by (rule refl)+

lemma objects_of_upd [simp]:
  "objects_of (s\<lparr>inq := a, outq := b, reg := c, ktrace := k\<rparr>) = objects_of s"
  "objects_of (s\<lparr>inq := q, fstates := F, ktrace := k, reg := c\<rparr>) = objects_of s"
  by (simp_all add: objects_of_def)

lemma request_step:
  assumes L: "bus_laws E B" and ij: "i \<noteq> j" and ready: "bus_ready B i j f \<sigma>"
    and p: "is_request (ext p)" "ucast (dest (can p)) = UNPACK_NODE (can_nodeid (\<sigma> j))"
  shows "\<exists>a \<tau>. bus_request E B i j f p \<sigma> = Some (a, \<tau>) \<and> (ext a, dat a) = answer_of p (objects_of (\<sigma> j))
    \<and> objects_of (\<tau> j) = next_of p (objects_of (\<sigma> j)) \<and> bus_ready B i j f \<tau> \<and> can_nodeid (\<tau> j) = can_nodeid (\<sigma> j)"
proof -
  let ?p = "arrived (\<sigma> i) (\<sigma> j) p" and ?r = "reply_of p (objects_of (\<sigma> j))"
  have q: "node_quiet B (\<sigma> i)" "node_quiet B (\<sigma> j)" "file_ready (\<sigma> i) f" "console_clear (\<sigma> i)"
    and my: "\<not> IS_MYPACKET (\<sigma> i) p" "IS_MYPACKET (\<sigma> j) p" using ready p(2) by (simp_all add: bus_ready_def IS_MYPACKET_def)
  have rq: "is_request (ext ?p)" using p(1) by simp
  have "replies E ?p ((\<sigma> j)\<lparr>inq := a, outq := b, reg := c, ktrace := k\<rparr>) (fst ?r) (snd ?r)" for a b c k
    using objects_reply [OF rq, of E "(\<sigma> j)\<lparr>inq := a, outq := b, reg := c, ktrace := k\<rparr>"] by (simp add: view_arrived)
  from exchange_legs [OF L ij order_refl q(1,2) my this] obtain \<tau> a b c k x F m y where
    x: "\<And>g. service E 2 (\<tau> i) = Some g \<Longrightarrow> exchange E B 2 i j p \<sigma> = Some (\<tau>(i := g))"
    and w: "awaiting B (\<sigma> i) (stamp (\<sigma> i) p) (wire (stamp (\<sigma> j) (acknak_pkt (fst ?r) ?p (snd ?r)))) (\<tau> i)"
    and j: "node_quiet B (\<tau> j)" "can_nodeid (\<tau> j) = can_nodeid (\<sigma> j)"
      "\<tau> j = (snd (canobj_packet E ?p ((\<sigma> j)\<lparr>inq := a, outq := b, reg := c, ktrace := k\<rparr>)))\<lparr>inq := x, fstates := F, ktrace := m, reg := y\<rparr>" by blast
  let ?w = "wire (stamp (\<sigma> j) (acknak_pkt (fst ?r) ?p (snd ?r)))" and ?a = "arrived (\<sigma> j) (\<sigma> i) (acknak_pkt (fst ?r) ?p (snd ?r))"
  have fx: "incoming_fixup (\<tau> i) ?w = ?a" by (rule awaiting_fixup [OF w])
  have "snd (canobj_packet E ?a ((\<tau> i)\<lparr>inq := q, outq := b, reg := c, fstates := F, ktrace := k\<rparr>)) = (\<tau> i)\<lparr>inq := q, outq := b, reg := c, fstates := F, ktrace := k\<rparr>"
    for b c q F k
  proof (rule answer_inert)
    show "ctype (ext ?a) = CANTYPE_ACK \<or> ctype (ext ?a) = CANTYPE_NAK" using reply_type [of p "objects_of (\<sigma> j)"] by (simp add: acknak_fields)
    show "object (ext ?a) \<in> {CANOBJ_TESTRW, CANOBJ_CONSOLE_CONNECT, CANOBJ_CONSOLE_DISCONN}" using p(1) by (auto simp: acknak_fields is_request_def)
    show "console_clear ((\<tau> i)\<lparr>inq := q, outq := b, reg := c, fstates := F, ktrace := k\<rparr>)" using q(4) w by (simp add: console_clear_def awaiting_def)
  qed
  from return_quiet [OF L w order_refl q(3,1) this [folded fx]] obtain g u where
    g: "service E 2 (\<tau> i) = Some g" "can_read True (\<lambda>_. False) PKTSIZE [] f g = Some (Inr PKTSIZE, [?a], u)"
    and u: "node_quiet B u" "file_ready u f" "can_nodeid u = can_nodeid (\<sigma> i)" "cancon_rmt u = cancon_rmt (\<sigma> i)" unfolding fx by blast
  have "bus_request E B i j f p \<sigma> = Some (?a, \<tau>(i := u))" using x [OF g(1)] g(2) by (simp add: bus_request_def)
  moreover have "(ext ?a, dat ?a) = answer_of p (objects_of (\<sigma> j))"
    using acknak_view [of "fst ?r" ?p "snd ?r"] by (simp add: answer_of_def split_beta split: option.split)
  moreover have "objects_of (\<tau> j) = next_of p (objects_of (\<sigma> j))" unfolding j(3) by (simp add: objects_next [OF rq] view_arrived)
  moreover have "bus_ready B i j f (\<tau>(i := u))" using ready u j(1,2) ij by (simp add: bus_ready_def console_clear_def)
  ultimately show ?thesis using ij j(2) by (intro exI [of _ ?a] exI [of _ "\<tau>(i := u)"]) simp
qed

lemma bus_session_objects:
  assumes L: "bus_laws E B" and ij: "i \<noteq> j"
  shows "bus_ready B i j f \<sigma> \<Longrightarrow> \<forall>p \<in> set ps. is_request (ext p) \<and> ucast (dest (can p)) = UNPACK_NODE (can_nodeid (\<sigma> j)) \<Longrightarrow>
    \<exists>as \<tau>. bus_session E B i j f ps \<sigma> = Some (as, \<tau>) \<and> bus_ready B i j f \<tau>
      \<and> object_session ps (objects_of (\<sigma> j)) = (map (\<lambda>a. (ext a, dat a)) as, objects_of (\<tau> j))"
proof (induction ps arbitrary: \<sigma>)
  case (Cons p ps)
  obtain a \<tau> where t: "bus_request E B i j f p \<sigma> = Some (a, \<tau>)" "(ext a, dat a) = answer_of p (objects_of (\<sigma> j))"
      "objects_of (\<tau> j) = next_of p (objects_of (\<sigma> j))" "bus_ready B i j f \<tau>" "can_nodeid (\<tau> j) = can_nodeid (\<sigma> j)"
    using request_step [OF L ij Cons.prems(1), of p] Cons.prems(2) by auto
  from Cons.IH [OF t(4)] Cons.prems(2) t(5) obtain as \<upsilon> where
    "bus_session E B i j f ps \<tau> = Some (as, \<upsilon>)" "bus_ready B i j f \<upsilon>"
    "object_session ps (objects_of (\<tau> j)) = (map (\<lambda>a. (ext a, dat a)) as, objects_of (\<upsilon> j))" by auto
  with t show ?case by simp
qed simp

lemma peer_answers:
  assumes "is_request (ext p)"
  shows "\<exists>a t. node_peer E p s = ([a], t) \<and> (ext a, dat a) = answer_of p (objects_of s) \<and> objects_of t = next_of p (objects_of s)"
proof -
  let ?s = "s\<lparr>inq := RING_CLEAR (inq s), outq := RING_CLEAR (outq s)\<rparr>" and ?r = "reply_of p (objects_of s)"
  have ob: "objects_of ?s = objects_of s" by (simp add: objects_of_def)
  obtain u where u: "same_bus ?s u" "same_bus (canobj_acknak E (fst ?r) p (snd ?r) u) (snd (canobj_packet E p ?s))"
    using objects_reply [OF assms, of E ?s] by (auto simp: replies_def ob)
  have "queues_wf u" "inq u = RING_CLEAR (inq s)" "outq u = RING_CLEAR (outq s)"
    using u(1) drained_queues(1) [of s] by (simp_all add: same_bus_def queues_wf_def)
  then have "ring_list (inq (snd (canobj_packet E p ?s))) = [incoming_fixup u (outgoing_fixup u (acknak_pkt (fst ?r) p (snd ?r)))]"
    using acknak_queued(1) [of u E "fst ?r" p "snd ?r"] u(2) by (simp add: drained_queues same_bus_def)
  moreover have "objects_of (snd (canobj_packet E p ?s)) = next_of p (objects_of s)" using objects_next [OF assms, of E ?s] by (simp add: ob)
  moreover have "(ext (incoming_fixup u (outgoing_fixup u (acknak_pkt (fst ?r) p (snd ?r)))), dat (incoming_fixup u (outgoing_fixup u (acknak_pkt (fst ?r) p (snd ?r)))))
      = answer_of p (objects_of s)"
    using acknak_view [of "fst ?r" p "snd ?r"] by (simp add: answer_of_def split_beta)
  ultimately show ?thesis by (simp add: node_peer_def Let_def)
qed

lemma peer_session_objects:
  "\<forall>p \<in> set ps. is_request (ext p) \<Longrightarrow>
   object_session ps (objects_of s) = (map (\<lambda>a. (ext a, dat a)) (fst (peer_session (node_peer E) ps s)), objects_of (snd (peer_session (node_peer E) ps s)))"
proof (induction ps arbitrary: s)
  case (Cons p ps)
  obtain a t where "node_peer E p s = ([a], t)" "(ext a, dat a) = answer_of p (objects_of s)" "objects_of t = next_of p (objects_of s)"
    using peer_answers [of p E s] Cons.prems by auto
  with Cons.IH [of t] Cons.prems show ?case by (simp add: split_beta)
qed simp

text \<open>
  C8 (bus_refines_peer): a program on one node writes requests for the console and the test object of another node of its module, any sequence of them, and reads each answer before it writes
  the next request. At the start both nodes are quiet (nothing queued in the driver, the chip holding no packet and not transmitting, its filter letting through exactly the packets for the node),
  the program's file is empty and neither promiscuous nor snoopy, and the requesting node's own console is not connected to an object of the kinds that are asked for.
  Then the requests are answered across the bus, between two drivers with their interrupts and bottom halves and chips that buffer at most two received packets, exactly as by the node
  that answers at once (\<open>node_peer\<close>), which the properties of the programs use: the
  answers have the same headers and data, and the objects end in the same state. The same conditions hold again at the end, so that the session can go on.
\<close>

theorem bus_refines_peer:
  assumes "bus_laws E B" "i \<noteq> j" "bus_ready B i j f \<sigma>"
    and "\<forall>p \<in> set ps. is_request (ext p) \<and> ucast (dest (can p)) = UNPACK_NODE (can_nodeid (\<sigma> j))"
  shows "\<exists>as \<tau>. bus_session E B i j f ps \<sigma> = Some (as, \<tau>) \<and> bus_ready B i j f \<tau>
    \<and> map (\<lambda>a. (ext a, dat a)) as = map (\<lambda>a. (ext a, dat a)) (fst (peer_session (node_peer E) ps (\<sigma> j)))
    \<and> cancon_rmt (\<tau> j) = cancon_rmt (snd (peer_session (node_peer E) ps (\<sigma> j)))
    \<and> testrw_val (\<tau> j) = testrw_val (snd (peer_session (node_peer E) ps (\<sigma> j)))"
proof -
  obtain as \<tau> where "bus_session E B i j f ps \<sigma> = Some (as, \<tau>)" "bus_ready B i j f \<tau>"
    "object_session ps (objects_of (\<sigma> j)) = (map (\<lambda>a. (ext a, dat a)) as, objects_of (\<tau> j))"
    using bus_session_objects [OF assms] by blast
  moreover have "\<forall>p \<in> set ps. is_request (ext p)" using assms(4) by blast
  ultimately show ?thesis using peer_session_objects [of ps "\<sigma> j" E] by (auto simp: objects_of_def)
qed

text \<open>A program connects, writes the test object, reads it, and disconnects.\<close>

definition req_to :: "3 word \<Rightarrow> 10 word \<Rightarrow> u32 \<Rightarrow> can_packet" where
  "req_to ty ob v = no_pkt\<lparr>can := (can no_pkt)\<lparr>dest := 6\<rparr>, ext := no_ext\<lparr>ctype := ty, object := ob\<rparr>, dat := v\<rparr>"

theorem bus_refines_peer_witness:
  "\<exists>as \<tau>. bus_session chip_env chip_bus 0 1 8
      [req_to CANTYPE_WO CANOBJ_CONSOLE_CONNECT 99, req_to CANTYPE_WO CANOBJ_TESTRW 5, req_to CANTYPE_RO CANOBJ_TESTRW 0, req_to CANTYPE_WO CANOBJ_CONSOLE_DISCONN 0]
      two_nodes = Some (as, \<tau>)
    \<and> map (\<lambda>a. (ctype (ext a), dat a)) as = [(CANTYPE_ACK, 99), (CANTYPE_ACK, 77), (CANTYPE_ACK, 5), (CANTYPE_ACK, 0)]
    \<and> CANCON_UNCONNECTED (cancon_rmt (\<tau> 1)) \<and> testrw_val (\<tau> 1) = 5"
proof -
  define ps where "ps = [req_to CANTYPE_WO CANOBJ_CONSOLE_CONNECT 99, req_to CANTYPE_WO CANOBJ_TESTRW 5, req_to CANTYPE_RO CANOBJ_TESTRW 0, req_to CANTYPE_WO CANOBJ_CONSOLE_DISCONN 0]"
  have o: "objects_of (two_nodes 1) = (no_ext, 77)" by (simp add: two_nodes_def node_at_def objects_of_def)
  have "bus_ready chip_bus 0 1 8 two_nodes"
    using two_nodes_file unfolding bus_ready_def two_nodes_addr
    by (simp add: two_nodes_quiet file_ready_def console_clear_def) (simp add: two_nodes_def node_at_def CANCON_UNCONNECTED_def no_ext_def)
  moreover have q: "\<forall>p \<in> set ps. is_request (ext p) \<and> ucast (dest (can p)) = UNPACK_NODE (can_nodeid (two_nodes 1))"
    unfolding two_nodes_addr by (simp add: ps_def req_to_def is_request_def)
  ultimately obtain as \<tau> where s: "bus_session chip_env chip_bus 0 1 8 ps two_nodes = Some (as, \<tau>)"
    "map (\<lambda>a. (ext a, dat a)) as = map (\<lambda>a. (ext a, dat a)) (fst (peer_session (node_peer chip_env) ps (two_nodes 1)))"
    "cancon_rmt (\<tau> 1) = cancon_rmt (snd (peer_session (node_peer chip_env) ps (two_nodes 1)))"
    "testrw_val (\<tau> 1) = testrw_val (snd (peer_session (node_peer chip_env) ps (two_nodes 1)))"
    using bus_refines_peer [OF chip_bus_laws, of 0 1 8 two_nodes ps] by auto
  have "object_session ps (no_ext, 77) = (map (\<lambda>a. (ext a, dat a)) as, cancon_rmt (\<tau> 1), testrw_val (\<tau> 1))"
    using peer_session_objects [of ps "two_nodes 1" chip_env] q unfolding o s(2-4) objects_of_def [of "snd p" for p] by blast
  then have e: "map (\<lambda>a. (ext a, dat a)) as = fst (object_session ps (no_ext, 77))" "cancon_rmt (\<tau> 1) = fst (snd (object_session ps (no_ext, 77)))"
    "testrw_val (\<tau> 1) = snd (snd (object_session ps (no_ext, 77)))" by simp_all
  have "map (\<lambda>a. (ctype (ext a), dat a)) as = map (\<lambda>(x, d). (ctype x, d)) (map (\<lambda>a. (ext a, dat a)) as)" by (simp add: comp_def)
  also have "\<dots> = [(CANTYPE_ACK, 99), (CANTYPE_ACK, 77), (CANTYPE_ACK, 5), (CANTYPE_ACK, 0)]"
    unfolding e(1) ps_def by code_simp
  finally have "map (\<lambda>a. (ctype (ext a), dat a)) as = [(CANTYPE_ACK, 99), (CANTYPE_ACK, 77), (CANTYPE_ACK, 5), (CANTYPE_ACK, 0)]" .
  moreover have "CANCON_UNCONNECTED (cancon_rmt (\<tau> 1))" unfolding e(2) ps_def by code_simp
  moreover have "testrw_val (\<tau> 1) = 5" unfolding e(3) ps_def by code_simp
  ultimately show ?thesis using s(1) unfolding ps_def by - (rule exI [of _ as], rule exI [of _ \<tau>], simp only: simp_thms)
qed

end
