(* ===== verification/Bargraph.thy ===== *)
theory Bargraph
  imports Prelude
begin

text \<open>
  The bargraph driver (\<^verbatim>\<open>kernel/drivers/meiko/bargraph.c\<close>): sixteen lights that show a moving pattern as long as no
  process has the device open.

  The state has the register, the static variables of the driver and what the kernel keeps
  for it: the pending timer, the use count of the module, and whether the device is
  registered. \<open>timer_damaged\<close> records that the timer was initialised again while it was pending, which
  breaks the kernel's list of timers. The results of the calls into the kernel are arguments.
\<close>

section \<open>State\<close>

record bargraph =
  reg_mapped :: bool
  leds :: u16
  bg_usecount :: int
  bg_which_io :: int
  bg_phys_addr :: u32
  bg_timer :: "u32 option"
  timer_damaged :: bool
  next_pattern :: u32
  module_count :: int
  bg_registered :: bool

text \<open>The driver before \<^verbatim>\<open>bg_init\<close>; the lights are in an arbitrary state.\<close>

definition bg_cold :: "u16 \<Rightarrow> bargraph" where
  "bg_cold w = \<lparr>reg_mapped = False, leds = w, bg_usecount = 0, bg_which_io = 0, bg_phys_addr = 0, bg_timer = None,
     timer_damaged = False, next_pattern = 0, module_count = 0, bg_registered = False\<rparr>"

text \<open>\<^verbatim>\<open>HZ\<close> is 100.\<close>

definition HZ_DELAY :: u32 where "HZ_DELAY = 100 div 10"

datatype bg_cmd = BGSET | BGGET | OtherCmd

datatype vm_flag = VM_WRITE | VM_MAYWRITE | VM_SHM | VM_LOCKED | VM_IO

record vm_area =
  vm_start :: u32
  vm_end :: u32
  vm_offset :: u32
  vm_flags :: "vm_flag set"

section \<open>The pattern\<close>

definition bg_start_pattern :: "u32 \<Rightarrow> bargraph \<Rightarrow> bargraph" where
  "bg_start_pattern jiffies s =
     s\<lparr>bg_timer := Some (jiffies + HZ_DELAY), timer_damaged := timer_damaged s \<or> bg_timer s \<noteq> None\<rparr>"

definition bg_stop_pattern :: "bargraph \<Rightarrow> bargraph" where
  "bg_stop_pattern s = s\<lparr>bg_timer := None, leds := NOT 0\<rparr>"

definition patterns :: "u16 list" where
  "patterns = [0x040f, 0x0417, 0x0513, 0x1151, 0x3150, 0x7140, 0xf020, 0xe820, 0xc8a0, 0x8a88, 0x0a8c, 0x028e]"

text \<open>\<open>None\<close> is an access outside the table of patterns.\<close>

definition bg_update_pattern :: "u32 \<Rightarrow> bargraph \<Rightarrow> bargraph option" where
  "bg_update_pattern jiffies s =
     (if \<not> reg_mapped s then Some s
      else if \<not> unat (next_pattern s) < length patterns then None
      else
        (let s = s\<lparr>leds := NOT (patterns ! unat (next_pattern s)), next_pattern := next_pattern s + 1\<rparr>;
             s = (if next_pattern s = of_nat (length patterns) then s\<lparr>next_pattern := 0\<rparr> else s)
         in Some (bg_start_pattern jiffies s)))"

section \<open>File operations\<close>

definition bg_mmap :: "bool \<Rightarrow> vm_area \<Rightarrow> (errno + unit) \<times> vm_area" where
  "bg_mmap remap_ok vma =
     (let len = vm_end vma - vm_start vma
      in if PAGE_SIZE < len then (Inl EINVAL, vma)
         else if vm_offset vma \<noteq> 0 then (Inl EINVAL, vma)
         else
           (let vma = vma\<lparr>vm_flags := vm_flags vma \<union> {VM_SHM, VM_LOCKED}\<rparr>;
                vma = vma\<lparr>vm_flags := vm_flags vma \<union> {VM_IO}\<rparr>
            in if \<not> remap_ok then (Inl EAGAIN, vma) else (Inr (), vma)))"

text \<open>
  \<open>arg\<close> is the memory at the address the caller passes; fewer than two bytes there are a
  fault. The node is big endian.
\<close>

definition half_of :: "u8 \<Rightarrow> u8 \<Rightarrow> u16" where
  "half_of h l = push_bit 8 (ucast h) OR ucast l"

definition bytes_of_half :: "u16 \<Rightarrow> u8 list" where
  "bytes_of_half w = [ucast (drop_bit 8 w), ucast w]"

definition bg_ioctl :: "bg_cmd \<Rightarrow> u8 list \<Rightarrow> bargraph \<Rightarrow> (errno + u8 list) \<times> bargraph" where
  "bg_ioctl cmd arg s =
     (if \<not> reg_mapped s then (Inl ENXIO, s)
      else (case cmd of
              BGGET \<Rightarrow> if length arg < 2 then (Inl EFAULT, s) else (Inr (bytes_of_half (leds s) @ drop 2 arg), s)
            | BGSET \<Rightarrow> if length arg < 2 then (Inl EFAULT, s) else (Inr arg, s\<lparr>leds := half_of (arg ! 0) (arg ! 1)\<rparr>)
            | OtherCmd \<Rightarrow> (Inl EINVAL, s)))"

definition bg_open :: "bargraph \<Rightarrow> (errno + unit) \<times> bargraph" where
  "bg_open s =
     (if bg_usecount s > 0 then (Inl EBUSY, s)
      else if \<not> reg_mapped s then (Inl ENXIO, s)
      else
        (let s = bg_stop_pattern s;
             s = s\<lparr>bg_usecount := bg_usecount s + 1\<rparr>;
             s = s\<lparr>module_count := module_count s + 1\<rparr>
         in (Inr (), s)))"

definition bg_release :: "u32 \<Rightarrow> bargraph \<Rightarrow> bargraph" where
  "bg_release jiffies s =
     (let s = bg_start_pattern jiffies s;
          s = s\<lparr>bg_usecount := bg_usecount s - 1\<rparr>
      in s\<lparr>module_count := module_count s - 1\<rparr>)"

section \<open>Start and end\<close>

text \<open>
  \<open>which_io\<close> and \<open>phys\<close> are the PROM's first register range of the lights, \<open>alloc_ok\<close> says whether
  \<^verbatim>\<open>sparc_alloc_io\<close> maps it.
\<close>

definition bg_map :: "int \<Rightarrow> u32 \<Rightarrow> bool \<Rightarrow> bargraph \<Rightarrow> bargraph" where
  "bg_map which_io phys alloc_ok s =
     s\<lparr>bg_which_io := which_io, bg_phys_addr := phys AND PAGE_MASK, reg_mapped := alloc_ok\<rparr>"

definition bg_init :: "int \<Rightarrow> u32 \<Rightarrow> bool \<Rightarrow> int \<Rightarrow> u32 \<Rightarrow> bargraph \<Rightarrow> int \<times> bargraph" where
  "bg_init which_io phys alloc_ok misc_error jiffies s =
     (let s = bg_map which_io phys alloc_ok s
      in if \<not> reg_mapped s then (-1, s)
         else if misc_error \<noteq> 0 then (misc_error, s)
         else (0, bg_start_pattern jiffies (s\<lparr>bg_registered := True\<rparr>)))"

definition bg_cleanup :: "bargraph \<Rightarrow> bargraph" where
  "bg_cleanup s = (bg_stop_pattern s)\<lparr>bg_registered := False\<rparr>"

section \<open>The device at work\<close>

text \<open>
  What the kernel does with a registered device: open and close it, pass requests on, run
  the timer (which it takes off its list first). A file is released once, when it was opened;
  \<open>n\<close> counts the open files.
\<close>

inductive bg_step :: "bargraph \<times> nat \<Rightarrow> bargraph \<times> nat \<Rightarrow> bool" where
  Open: "bg_open s = (Inr (), t) \<Longrightarrow> bg_step (s, n) (t, Suc n)"
| Open_fails: "bg_open s = (Inl e, t) \<Longrightarrow> bg_step (s, n) (t, n)"
| Release: "bg_step (s, Suc n) (bg_release j s, n)"
| Ioctl: "0 < n \<Longrightarrow> bg_ioctl cmd arg s = (r, t) \<Longrightarrow> bg_step (s, n) (t, n)"
| Tick: "bg_timer s = Some e \<Longrightarrow> bg_update_pattern j (s\<lparr>bg_timer := None\<rparr>) = Some t \<Longrightarrow> bg_step (s, n) (t, n)"

inductive_cases bg_stepE: "bg_step (s, n) (t, m)"

inductive bg_reach :: "bargraph \<times> nat \<Rightarrow> bool" where
  init: "bg_init io phys ok err j (bg_cold w) = (0, s) \<Longrightarrow> bg_reach (s, 0)"
| step: "bg_reach a \<Longrightarrow> bg_step a b \<Longrightarrow> bg_reach b"

definition bg_inv :: "bargraph \<times> nat \<Rightarrow> bool" where
  "bg_inv a = (case a of (s, n) \<Rightarrow>
     reg_mapped s \<and> bg_registered s \<and> n \<le> 1 \<and> bg_usecount s = int n \<and> module_count s = int n
     \<and> (bg_timer s = None \<longleftrightarrow> n = 1) \<and> \<not> timer_damaged s \<and> unat (next_pattern s) < length patterns)"

lemma length_patterns [simp]: "length patterns = 12"
  by (simp add: patterns_def)

lemma next_pattern_cycle:
  assumes "unat (w :: u32) < 12"
  shows "unat (if w + 1 = 12 then 0 else w + 1) = Suc (unat w) mod 12"
proof -
  have "unat (w + 1) = Suc (unat w)"
    using assms by (simp add: unat_word_ariths take_bit_nat_eq_self)
  moreover have "w + 1 = 12 \<longleftrightarrow> unat (w + 1) = 12"
    by (simp add: word_unat_eq_iff)
  ultimately show ?thesis using assms by auto
qed

lemma update_pattern_eq:
  assumes "reg_mapped s" "unat (next_pattern s) < 12"
  shows "bg_update_pattern j s = Some (bg_start_pattern j
    (s\<lparr>leds := NOT (patterns ! unat (next_pattern s)),
       next_pattern := of_nat (Suc (unat (next_pattern s)) mod 12)\<rparr>))"
proof -
  let ?w = "next_pattern s"
  have "of_nat (Suc (unat ?w) mod 12) = (if ?w + 1 = 12 then 0 else ?w + 1)"
    unfolding next_pattern_cycle [OF assms(2), symmetric] by simp
  with assms show ?thesis by (simp add: bg_update_pattern_def Let_def)
qed

lemma bg_inv_step:
  assumes "bg_step a b" "bg_inv a"
  shows "bg_inv b"
  using assms
proof cases
  case (Tick s e j t n)
  have "unat (of_nat (Suc m mod 12) :: u32) < 12" for m
    by (simp add: unat_of_nat take_bit_nat_eq_self)
  with Tick assms(2) show ?thesis
    by (auto simp: bg_inv_def update_pattern_eq bg_start_pattern_def)
qed (auto simp: bg_inv_def bg_open_def bg_release_def bg_ioctl_def bg_stop_pattern_def bg_start_pattern_def
      split: if_splits bg_cmd.splits)

text \<open>
  C34 (bargraph_exclusive): whatever is done with the device, at most one file is open; the timer of the pattern
  runs exactly when none is; it is never started while it runs; the count of the module is
  that of the open files; the pattern never leaves its table; and a further open fails with
  \<^verbatim>\<open>EBUSY\<close> exactly while the device is open.
\<close>

theorem bargraph_exclusive:
  assumes "bg_reach (s, n)"
  shows "n \<le> 1 \<and> module_count s = int n \<and> (bg_timer s = None \<longleftrightarrow> n = 1) \<and> \<not> timer_damaged s
    \<and> (\<forall>j. bg_update_pattern j s \<noteq> None) \<and> (fst (bg_open s) = Inl EBUSY \<longleftrightarrow> n = 1) \<and> (n = 0 \<longrightarrow> fst (bg_open s) = Inr ())"
proof -
  have "bg_inv a" if "bg_reach a" for a
    using that
  proof induction
    case (init io phys ok err j w s)
    then show ?case
      by (auto simp: bg_init_def bg_cold_def bg_map_def bg_inv_def bg_start_pattern_def Let_def split: if_splits)
  qed (rule bg_inv_step)
  from this [OF assms] show ?thesis
    by (auto simp: bg_inv_def update_pattern_eq bg_open_def Let_def)
qed

theorem bargraph_exclusive_witness:
  "\<exists>s. bg_reach (s, 1) \<and> bg_timer s = None \<and> leds s = 0xffff \<and> fst (bg_open s) = Inl EBUSY"
proof -
  define s where "s = snd (bg_init 2 0xf0600 True 0 7 (bg_cold 0))"
  have s: "bg_init 2 0xf0600 True 0 7 (bg_cold 0) = (0, s)" by (simp add: s_def bg_init_def bg_map_def)
  define t where "t = snd (bg_open s)"
  have "bg_open s = (Inr (), t)"
    by (simp add: t_def s_def bg_open_def bg_init_def bg_map_def bg_cold_def bg_start_pattern_def bg_stop_pattern_def)
  with bg_reach.init [OF s] have r: "bg_reach (t, 1)" by (metis bg_reach.step bg_step.Open One_nat_def)
  have "leds t = 0xffff"
    by (simp add: t_def s_def bg_open_def bg_init_def bg_map_def bg_cold_def bg_start_pattern_def bg_stop_pattern_def)
  with r bargraph_exclusive [OF r] show ?thesis by auto
qed

section \<open>The lights\<close>

fun bg_ticks :: "u32 list \<Rightarrow> bargraph \<Rightarrow> bargraph option" where
  "bg_ticks [] s = Some s"
| "bg_ticks (j # js) s =
     (case bg_update_pattern j (s\<lparr>bg_timer := None\<rparr>) of None \<Rightarrow> None | Some t \<Rightarrow> bg_ticks js t)"

text \<open>
  As long as nobody opens the device, the timer shows the twelve patterns in turn, starting
  again after the last; a light is on where the pattern has a 1, since a set bit turns it
  off. Each call arms the timer once, a tenth of a second later.
\<close>

theorem bargraph_cycle:
  assumes "reg_mapped s" "unat (next_pattern s) < 12" "js \<noteq> []"
  shows "\<exists>t. bg_ticks js s = Some t \<and> leds t = NOT (patterns ! ((unat (next_pattern s) + length js - 1) mod 12))
    \<and> unat (next_pattern t) = (unat (next_pattern s) + length js) mod 12
    \<and> bg_timer t = Some (last js + 10) \<and> timer_damaged t = timer_damaged s"
  using assms
proof (induction js arbitrary: s)
  case (Cons j js)
  let ?w = "unat (next_pattern s)"
  define t where "t = bg_start_pattern j (s\<lparr>bg_timer := None, leds := NOT (patterns ! ?w),
    next_pattern := of_nat (Suc ?w mod 12)\<rparr>)"
  have u: "bg_update_pattern j (s\<lparr>bg_timer := None\<rparr>) = Some t"
    using Cons.prems(1,2) by (simp add: update_pattern_eq t_def)
  have t: "reg_mapped t" "unat (next_pattern t) = Suc ?w mod 12" "timer_damaged t = timer_damaged s"
    "leds t = NOT (patterns ! ?w)" "bg_timer t = Some (j + 10)"
    using Cons.prems(1) by (simp_all add: t_def bg_start_pattern_def HZ_DELAY_def unat_of_nat take_bit_nat_eq_self)
  show ?case
  proof (cases "js = []")
    case True
    then show ?thesis using u t Cons.prems(2) by simp
  next
    case False
    then obtain m where m: "length js = Suc m" by (cases js) auto
    have n: "(Suc ?w mod 12 + length js - 1) mod 12 = (?w + length (j # js) - 1) mod 12"
      "(Suc ?w mod 12 + length js) mod 12 = (?w + length (j # js)) mod 12"
      using mod_add_left_eq [of "Suc ?w" 12 m] mod_add_left_eq [of "Suc ?w" 12 "Suc m"] m by simp_all
    have "unat (next_pattern t) < 12" unfolding t(2) by simp
    from Cons.IH [OF t(1) this False] obtain r where
      "bg_ticks js t = Some r" "leds r = NOT (patterns ! ((?w + length (j # js) - 1) mod 12))"
      "unat (next_pattern r) = (?w + length (j # js)) mod 12" "bg_timer r = Some (last js + 10)"
      "timer_damaged r = timer_damaged s"
      unfolding t(2,3) n by blast
    then show ?thesis using u False by (intro exI [of _ r]) (simp only: bg_ticks.simps option.case last.simps if_False simp_thms)
  qed
qed simp

theorem bargraph_cycle_witness:
  "\<exists>t. bg_ticks [10, 20] (snd (bg_init 2 0xf0600 True 0 0 (bg_cold 0))) = Some t \<and> leds t = NOT 0x0417"
proof -
  let ?s = "snd (bg_init 2 0xf0600 True 0 0 (bg_cold 0))"
  have "reg_mapped ?s" "unat (next_pattern ?s) = 0"
    by (simp_all add: bg_init_def bg_map_def bg_cold_def bg_start_pattern_def)
  with bargraph_cycle [of ?s "[10, 20]"] show ?thesis by (auto simp: patterns_def)
qed

lemma half_bytes [simp]: "bytes_of_half (half_of h l) = [h, l]"
  by (auto simp: bytes_of_half_def half_of_def bit_eq_iff bit_simps not_bit_beyond)

text \<open>
  What \<^verbatim>\<open>BGSET\<close> stores, \<^verbatim>\<open>BGGET\<close> reads back, and both move only the first two bytes at the address
  they are given. On this big-endian machine these are the high half of a 32-bit
  variable: the example in the head of the driver, which passes the address of a \<^verbatim>\<open>uint32_t\<close> with the value
  \<^verbatim>\<open>0xffff\<close> to turn all lights off, stores 0 and turns all lights on.
\<close>

theorem bargraph_set_get:
  assumes "reg_mapped s"
  shows "bg_ioctl BGSET (h # l # xs) s = (Inr (h # l # xs), s\<lparr>leds := half_of h l\<rparr>)
    \<and> bg_ioctl BGGET (a # b # ys) (s\<lparr>leds := half_of h l\<rparr>) = (Inr (h # l # ys), s\<lparr>leds := half_of h l\<rparr>)
    \<and> leds (snd (bg_ioctl BGSET [0x00, 0x00, 0xff, 0xff] s)) = 0"
proof -
  have "half_of 0 0 = 0" by (simp add: half_of_def)
  with assms show ?thesis by (simp add: bg_ioctl_def)
qed

theorem bargraph_set_get_witness:
  "bg_ioctl BGGET [1, 1, 1, 1] ((bg_cold 0)\<lparr>reg_mapped := True, leds := half_of 0x12 0x34\<rparr>)
     = (Inr [0x12, 0x34, 1, 1], (bg_cold 0)\<lparr>reg_mapped := True, leds := half_of 0x12 0x34\<rparr>)"
  using bargraph_set_get [of "(bg_cold 0)\<lparr>reg_mapped := True\<rparr>" "0x12" "0x34" "[]" 1 1 "[1, 1]"] by simp

end
