(* ===== verification/Clock.thy ===== *)
theory Clock
  imports Bargraph
begin

text \<open>
  The clocks: the nanosecond clock of the Elan chip and the driver that maps it
  (\<^verbatim>\<open>include/asm-sparc/meiko/elan.h\<close>, \<^verbatim>\<open>drivers/meiko/elan.c\<close>), and the interval timers with the time of day
  (\<^verbatim>\<open>arch/sparc/meiko/timer.c\<close>).

  A reading of the 64-bit clock register is an argument. A \<^verbatim>\<open>long\<close> has 32 bits and wraps around.
  Locks are not modelled; the fixing of the trap table is in \<open>PromRegs\<close>.
\<close>

section \<open>The Elan clock\<close>

record timespec =
  ts_sec :: "32 word"
  ts_nsec :: "32 word"

text \<open>The two halves of the register are the seconds and the nanoseconds, as signed numbers.\<close>

definition clock_spec :: "u64 \<Rightarrow> timespec" where
  "clock_spec r = \<lparr>ts_sec = ucast (drop_bit 32 r), ts_nsec = ucast r\<rparr>"

definition elan_getclock :: "u64 \<Rightarrow> u64" where
  "elan_getclock r = scast (ts_sec (clock_spec r)) * 1000000000 + scast (ts_nsec (clock_spec r))"

text \<open>The busy wait: the readings of the clock it makes, in order; the result is the rest of them.\<close>

fun udelay_loop :: "u64 \<Rightarrow> u64 \<Rightarrow> u64 list \<Rightarrow> u64 list option" where
  "udelay_loop start d [] = None"
| "udelay_loop start d (r # rs) = (if elan_getclock r - start < d then udelay_loop start d rs else Some rs)"

definition elan_udelay :: "u32 \<Rightarrow> u64 list \<Rightarrow> u64 list option" where
  "elan_udelay usec rs =
     (case rs of [] \<Rightarrow> None | r # rs \<Rightarrow> udelay_loop (elan_getclock r) (ucast usec * 1000) rs)"

section \<open>The device of the Elan clock\<close>

definition elan_ioctl :: "errno + unit" where
  "elan_ioctl = Inl EINVAL"

definition elan_open :: "int \<Rightarrow> (errno + unit) \<times> int" where
  "elan_open use_count = (Inr (), use_count + 1)"

definition elan_release :: "int \<Rightarrow> (errno + unit) \<times> int" where
  "elan_release use_count = (Inr (), use_count - 1)"

definition elan_mmap :: "bool \<Rightarrow> vm_area \<Rightarrow> (errno + unit) \<times> vm_area" where
  "elan_mmap remap_ok vma =
     (let len = vm_end vma - vm_start vma
      in if PAGE_SIZE < len then (Inl EINVAL, vma)
         else if vm_offset vma \<noteq> 0 then (Inl EINVAL, vma)
         else
           (let vma = vma\<lparr>vm_flags := vm_flags vma \<union> {VM_SHM, VM_LOCKED}\<rparr>;
                vma = vma\<lparr>vm_flags := vm_flags vma \<union> {VM_IO}\<rparr>
            in if VM_WRITE \<in> vm_flags vma \<or> VM_MAYWRITE \<in> vm_flags vma then (Inl EPERM, vma)
               else if \<not> remap_ok then (Inl EAGAIN, vma)
               else (Inr (), vma)))"

record elan_dev =
  elan_registered :: bool
  reg_which_io :: int
  reg_phys_addr :: u32

text \<open>\<open>reg\<close> is the PROM's first register range after \<^verbatim>\<open>prom_apply_obio_ranges\<close>, \<open>None\<close> if the property is missing.\<close>

definition elan_getphys :: "(int \<times> u32) option \<Rightarrow> elan_dev \<Rightarrow> int \<times> elan_dev" where
  "elan_getphys reg d =
     (case reg of
        None \<Rightarrow> (-1, d)
      | Some (which_io, phys) \<Rightarrow> (0, d\<lparr>reg_which_io := which_io, reg_phys_addr := phys AND PAGE_MASK\<rparr>))"

definition elan_init :: "bool \<Rightarrow> (int \<times> u32) option \<Rightarrow> elan_dev \<Rightarrow> int \<times> elan_dev" where
  "elan_init chrdev_ok reg d =
     (if \<not> chrdev_ok then (- errno_code ENXIO, d)
      else
        (let d = d\<lparr>elan_registered := True\<rparr>;
             (r, d) = elan_getphys reg d
         in if r < 0 then (-1, d\<lparr>elan_registered := False\<rparr>) else (0, d)))"

definition elan_cleanup :: "elan_dev \<Rightarrow> elan_dev" where
  "elan_cleanup d = d\<lparr>elan_registered := False\<rparr>"

section \<open>The interval timers\<close>

datatype timer_write = Control nat u8 | Limit10 nat u8 | Limit14 nat u8

definition HZ :: nat where "HZ = 100"
definition DINO1_TIMER_10_TICK :: nat where "DINO1_TIMER_10_TICK = 3200"
definition DINO1_TIMER_14_TICK :: nat where "DINO1_TIMER_14_TICK = 800"
definition DINO1_TIMER_10_SELECT :: u16 where "DINO1_TIMER_10_SELECT = 0x0"
definition DINO1_TIMER_14_SELECT :: u16 where "DINO1_TIMER_14_SELECT = 0x40"
definition DINO1_TIMER_RW_SHORT :: u16 where "DINO1_TIMER_RW_SHORT = push_bit 4 3"
definition DINO1_TIMER_MODE_COUNT :: u16 where "DINO1_TIMER_MODE_COUNT = push_bit 1 0"
definition DINO1_TIMER_MODE_RATE :: u16 where "DINO1_TIMER_MODE_RATE = push_bit 1 2"

definition L10_TIMER_COUNT :: nat where
  "L10_TIMER_COUNT = 1000000000 div (HZ * DINO1_TIMER_10_TICK)"
definition L14_TIMER_COUNT :: nat where
  "L14_TIMER_COUNT = 1000000000 div (HZ * DINO1_TIMER_14_TICK)"

definition dino1_load_l10 :: "u16 \<Rightarrow> u16 \<Rightarrow> timer_write list" where
  "dino1_load_l10 val mode =
     [Control 0 (ucast (DINO1_TIMER_10_SELECT OR DINO1_TIMER_RW_SHORT OR mode)),
      Limit10 0 (ucast (val AND 0xff)),
      Limit10 0 (ucast (drop_bit 8 val))]"

text \<open>\<open>None\<close> is a failed assertion.\<close>

definition dino1_load_l14 :: "int \<Rightarrow> u16 \<Rightarrow> u16 \<Rightarrow> timer_write list option" where
  "dino1_load_l14 cpu val mode =
     (if \<not> (cpu = 0 \<or> cpu = 1) then None
      else Some [Control (nat cpu) (ucast (DINO1_TIMER_14_SELECT OR DINO1_TIMER_RW_SHORT OR mode)),
                 Limit14 (nat cpu) (ucast (val AND 0xff)),
                 Limit14 (nat cpu) (ucast (drop_bit 8 val))])"

definition dino1_load_profile_irq :: "int \<Rightarrow> u32 \<Rightarrow> timer_write list option" where
  "dino1_load_profile_irq cpu limit = dino1_load_l14 cpu (ucast limit) DINO1_TIMER_MODE_RATE"

text \<open>The count in a counter that is written low byte first.\<close>

definition counter :: "u8 \<Rightarrow> u8 \<Rightarrow> nat" where
  "counter lsb msb = unat lsb + 256 * unat msb"

lemma counter_bytes: "counter (ucast (val AND 0xff)) (ucast (drop_bit 8 val)) = unat (val :: u16)"
proof -
  have m: "(0xff :: u16) = mask 8" by (simp add: mask_eq_exp_minus_1)
  have "unat (ucast (val AND 0xff) :: u8) = unat val mod 256"
    unfolding m take_bit_eq_mask [symmetric] unsigned_ucast_eq unsigned_take_bit_eq by (simp add: take_bit_eq_mod)
  moreover have u: "unat val < 2 ^ LENGTH(16)" by (rule unsigned_less)
  have "unat (drop_bit 8 val) = unat val div 256"
    by (simp only: unat_drop_bit_eq) (simp add: drop_bit_eq_div)
  then have "unat (ucast (drop_bit 8 val) :: u8) = unat val div 256"
    using u by (simp add: unsigned_ucast_eq take_bit_nat_eq_self)
  ultimately show ?thesis by (simp add: counter_def)
qed

text \<open>
  The two bytes written for a count of the interval timers make up this count; with the
  counts the kernel uses, the level 10 and the level 14 timers both expire after exactly
  1/\<^verbatim>\<open>HZ\<close> seconds, and both counts fit the 16 bits of a counter; the level 14 count reaches
  the counter of either CPU unchanged, and any other CPU is refused.
\<close>

theorem timer_period:
  "(\<forall>val mode. map_option (\<lambda>l. counter (fst l) (snd l))
       (case dino1_load_l10 val mode of [Control c w, Limit10 c1 lsb, Limit10 c2 msb] \<Rightarrow>
          if c = 0 \<and> c1 = 0 \<and> c2 = 0 then Some (lsb, msb) else None | _ \<Rightarrow> None) = Some (unat val))
   \<and> L10_TIMER_COUNT * DINO1_TIMER_10_TICK * HZ = 1000000000 \<and> L10_TIMER_COUNT < 2 ^ 16
   \<and> L14_TIMER_COUNT * DINO1_TIMER_14_TICK * HZ = 1000000000 \<and> L14_TIMER_COUNT < 2 ^ 16
   \<and> (\<forall>cpu. map_option (\<lambda>l. counter (fst l) (snd l))
       (case dino1_load_profile_irq cpu (of_nat L14_TIMER_COUNT) of
          Some [Control c w, Limit14 c1 lsb, Limit14 c2 msb] \<Rightarrow>
          if int c = cpu \<and> c1 = c \<and> c2 = c \<and> w = 0x74 then Some (lsb, msb) else None | _ \<Rightarrow> None)
       = (if cpu = 0 \<or> cpu = 1 then Some L14_TIMER_COUNT else None))"
proof -
  have n: "L10_TIMER_COUNT = 3125" "L14_TIMER_COUNT = 12500"
    by (simp_all add: L10_TIMER_COUNT_def L14_TIMER_COUNT_def HZ_def DINO1_TIMER_10_TICK_def DINO1_TIMER_14_TICK_def)
  have c: "counter (ucast ((12500 :: u16) AND 0xff)) (ucast (drop_bit 8 (12500 :: u16))) = 12500"
    unfolding counter_bytes by simp
  show ?thesis
    using counter_bytes c
    by (auto simp: n dino1_load_l10_def dino1_load_profile_irq_def dino1_load_l14_def HZ_def DINO1_TIMER_10_TICK_def
        DINO1_TIMER_14_TICK_def DINO1_TIMER_14_SELECT_def DINO1_TIMER_RW_SHORT_def DINO1_TIMER_MODE_RATE_def)
qed

section \<open>The time of day\<close>

definition wrap32 :: "int \<Rightarrow> int" where
  "wrap32 x = signed_take_bit 31 x"

record timeval =
  tv_sec :: int
  tv_usec :: int

record clock_state =
  xtime :: timeval
  elan_lasttick :: u64
  xtime_lasttick :: timeval

text \<open>The loop that both functions end with; it runs once for each second in the microseconds.\<close>

function normalise :: "timeval \<Rightarrow> timeval" where
  "normalise tv =
     (if tv_usec tv \<ge> 1000000
      then normalise (tv\<lparr>tv_usec := tv_usec tv - 1000000, tv_sec := wrap32 (tv_sec tv + 1)\<rparr>) else tv)"
  by pat_completeness auto
termination
  by (relation "measure (\<lambda>tv. nat (tv_usec tv))") auto

declare normalise.simps [simp del]

text \<open>\<open>r\<close> is the clock register; \<open>None\<close> is a failed assertion.\<close>

definition dino1_gettimeofday :: "u64 \<Rightarrow> clock_state \<Rightarrow> timeval option" where
  "dino1_gettimeofday r s =
     (if elan_lasttick s > 0 then
        (let tv = xtime_lasttick s;
             delta = wrap32 (uint ((elan_getclock r - elan_lasttick s) div 1000))
         in if \<not> delta \<ge> 0 then None
            else Some (normalise (tv\<lparr>tv_usec := wrap32 (tv_usec tv + delta)\<rparr>)))
      else Some (xtime s))"

definition dino1_gettimeoffset :: u32 where
  "dino1_gettimeoffset = 0"

definition dino1_timer_intr :: "u64 \<Rightarrow> clock_state \<Rightarrow> clock_state" where
  "dino1_timer_intr r s =
     (let tv = xtime s;
          tv = tv\<lparr>tv_usec := wrap32 (tv_usec tv + int (1000000 div HZ))\<rparr>;
          tv = normalise tv
      in s\<lparr>xtime_lasttick := tv, elan_lasttick := elan_getclock r\<rparr>)"

definition usecs :: "timeval \<Rightarrow> int" where
  "usecs tv = tv_sec tv * 1000000 + tv_usec tv"

definition tv_ok :: "timeval \<Rightarrow> bool" where
  "tv_ok tv \<longleftrightarrow> 0 \<le> tv_usec tv \<and> tv_usec tv < 1000000"

lemma wrap32_id [simp]: "- (2 ^ 31) \<le> x \<Longrightarrow> x < 2 ^ 31 \<Longrightarrow> wrap32 x = x"
  by (simp add: wrap32_def signed_take_bit_int_eq_self)

lemma wrap32_nonneg: "0 \<le> x \<Longrightarrow> x < 2147483648 \<Longrightarrow> wrap32 x = x"
  by simp

lemma wrap32_high:
  assumes "2147483648 \<le> x" "x < 4294967296"
  shows "wrap32 x = x - 4294967296"
proof -
  have "(x + 2147483648) mod 4294967296 = x + 2147483648 - 4294967296"
    using assms by (simp add: mod_pos_geq)
  then show ?thesis by (simp add: wrap32_def signed_take_bit_eq_take_bit_shift take_bit_eq_mod)
qed

lemma normalise_ok:
  assumes "0 \<le> tv_usec tv" "- (2 ^ 31) \<le> tv_sec tv" "tv_sec tv + tv_usec tv div 1000000 < 2 ^ 31"
  shows "tv_ok (normalise tv) \<and> usecs (normalise tv) = usecs tv"
  using assms
proof (induction tv rule: normalise.induct)
  case (1 tv)
  show ?case
  proof (cases "tv_usec tv \<ge> 1000000")
    case True
    then have d: "tv_usec tv div 1000000 = (tv_usec tv - 1000000) div 1000000 + 1"
      by (simp add: div_pos_geq)
    have "0 \<le> (tv_usec tv - 1000000) div 1000000" using True by (simp add: pos_imp_zdiv_nonneg_iff)
    with d 1 True have w: "wrap32 (tv_sec tv + 1) = tv_sec tv + 1" by (intro wrap32_id) linarith+
    have "tv_ok (normalise (tv\<lparr>tv_usec := tv_usec tv - 1000000, tv_sec := wrap32 (tv_sec tv + 1)\<rparr>))
      \<and> usecs (normalise (tv\<lparr>tv_usec := tv_usec tv - 1000000, tv_sec := wrap32 (tv_sec tv + 1)\<rparr>))
        = usecs (tv\<lparr>tv_usec := tv_usec tv - 1000000, tv_sec := wrap32 (tv_sec tv + 1)\<rparr>)"
      by (rule 1(1) [OF True]) (use True 1 d w in auto)
    with True show ?thesis by (subst (1 2) normalise.simps) (simp add: w usecs_def)
  next
    case False
    with 1 show ?thesis by (subst (1 2) normalise.simps) (simp add: tv_ok_def)
  qed
qed

text \<open>
  C33 (time_of_day): the time of day after a timer interrupt is the time the interrupt announced plus the whole
  microseconds the Elan clock has counted since, in normal form, if that is less than
  35 minutes. When more microseconds than a positive \<^verbatim>\<open>long\<close> holds, and less than twice as many,
  went by without a tick, the assertion stops the kernel instead.
\<close>

theorem time_of_day:
  assumes "tv_ok (xtime s)" "0 \<le> tv_sec (xtime s)" "tv_sec (xtime s) < 2 ^ 31 - 4000"
    "elan_getclock r0 \<noteq> 0"
  shows "case (uint ((elan_getclock r - elan_getclock r0) div 1000)) of d \<Rightarrow>
    (d < 2146000000 \<longrightarrow> (\<exists>tv. dino1_gettimeofday r (dino1_timer_intr r0 s) = Some tv \<and> tv_ok tv
        \<and> usecs tv = usecs (xtime s) + 10000 + d))
    \<and> (2147483648 \<le> d \<and> d < 4294967296 \<longrightarrow> dino1_gettimeofday r (dino1_timer_intr r0 s) = None)"
proof -
  let ?d = "uint ((elan_getclock r - elan_getclock r0) div 1000)" and ?u = "tv_usec (xtime s)"
  define a where "a = normalise ((xtime s)\<lparr>tv_usec := ?u + 10000\<rparr>)"
  have u: "0 \<le> ?u" "?u < 1000000" using assms(1) by (simp_all add: tv_ok_def)
  then have w: "wrap32 (?u + 10000) = ?u + 10000" by (intro wrap32_id) auto
  have "(?u + 10000) div 1000000 \<le> 1" using u by simp
  then have a: "tv_ok a" "usecs a = usecs (xtime s) + 10000"
    using normalise_ok [of "(xtime s)\<lparr>tv_usec := ?u + 10000\<rparr>"] assms(2,3) u by (simp_all add: a_def usecs_def)
  then have au: "0 \<le> tv_usec a" "tv_usec a < 1000000" by (simp_all add: tv_ok_def)
  then have as: "0 \<le> tv_sec a" "tv_sec a < 2 ^ 31 - 3000"
    using a(2) assms(2,3) u by (auto simp: usecs_def)
  have t: "dino1_timer_intr r0 s = s\<lparr>xtime_lasttick := a, elan_lasttick := elan_getclock r0\<rparr>"
    by (simp add: dino1_timer_intr_def HZ_def a_def w Let_def)
  have pos: "0 < elan_getclock r0" using assms(4) by (simp add: word_neq_0_conv)
  have "\<exists>tv. dino1_gettimeofday r (dino1_timer_intr r0 s) = Some tv \<and> tv_ok tv \<and> usecs tv = usecs (xtime s) + 10000 + ?d"
    if "?d < 2146000000"
  proof -
    have d0: "0 \<le> ?d" by (rule uint_ge_0)
    have d: "wrap32 ?d = ?d" using that d0 by (intro wrap32_nonneg) linarith+
    define b where "b = a\<lparr>tv_usec := tv_usec a + ?d\<rparr>"
    have "wrap32 (tv_usec a + ?d) = tv_usec a + ?d" using au that d0 by (intro wrap32_nonneg) linarith+
    then have g: "dino1_gettimeofday r (dino1_timer_intr r0 s) = Some (normalise b)"
      using pos d by (simp add: dino1_gettimeofday_def t b_def Let_def)
    have "(tv_usec a + ?d) div 1000000 < 2149" using au that by (simp add: div_less_iff_less_mult)
    then have "tv_ok (normalise b) \<and> usecs (normalise b) = usecs b"
      using au as d0 by (intro normalise_ok) (auto simp: b_def)
    with g a(2) show ?thesis by (auto simp: b_def usecs_def)
  qed
  moreover have "dino1_gettimeofday r (dino1_timer_intr r0 s) = None" if "2147483648 \<le> ?d" "?d < 4294967296"
  proof -
    have "wrap32 ?d < 0"
      using that wrap32_high [of ?d] by linarith
    then show ?thesis using pos by (simp add: dino1_gettimeofday_def t Let_def)
  qed
  ultimately show ?thesis by simp
qed

theorem time_of_day_witness:
  "\<exists>tv. dino1_gettimeofday 0x500001388 (dino1_timer_intr 0x500000000
      \<lparr>xtime = \<lparr>tv_sec = 7, tv_usec = 995000\<rparr>, elan_lasttick = 0, xtime_lasttick = \<lparr>tv_sec = 0, tv_usec = 0\<rparr>\<rparr>)
    = Some tv \<and> usecs tv = 8005005"
proof -
  have e: "elan_getclock 0x500000000 = 5000000000" "elan_getclock 0x500001388 = 5000005000"
    by (simp_all add: elan_getclock_def clock_spec_def)
  show ?thesis
    using time_of_day [of "\<lparr>xtime = \<lparr>tv_sec = 7, tv_usec = 995000\<rparr>, elan_lasttick = 0,
        xtime_lasttick = \<lparr>tv_sec = 0, tv_usec = 0\<rparr>\<rparr>" "0x500000000" "0x500001388"]
    by (auto simp: e tv_ok_def usecs_def)
qed

section \<open>Waiting\<close>

text \<open>
  \<^verbatim>\<open>elan_udelay\<close> returns at the first reading of the clock that lies the requested time or more after
  the one it started with, and at none before; if such a reading comes it returns.
\<close>

theorem udelay_waits:
  "elan_udelay usec (r # rs) = Some rest \<longleftrightarrow>
    (\<exists>xs x. rs = xs @ x # rest \<and> (\<forall>y\<in>set xs. elan_getclock y - elan_getclock r < ucast usec * 1000)
      \<and> ucast usec * 1000 \<le> elan_getclock x - elan_getclock r)"
proof -
  have "udelay_loop st d rs = Some rest \<longleftrightarrow>
    (\<exists>xs x. rs = xs @ x # rest \<and> (\<forall>y\<in>set xs. elan_getclock y - st < d) \<and> d \<le> elan_getclock x - st)" for st d
  proof (induction rs)
    case (Cons a rs)
    show ?case
    proof (cases "elan_getclock a - st < d")
      case True
      then have "(\<exists>xs x. a # rs = xs @ x # rest \<and> (\<forall>y\<in>set xs. elan_getclock y - st < d) \<and> d \<le> elan_getclock x - st)
        \<longleftrightarrow> (\<exists>xs x. rs = xs @ x # rest \<and> (\<forall>y\<in>set xs. elan_getclock y - st < d) \<and> d \<le> elan_getclock x - st)"
        by (auto simp: Cons_eq_append_conv)
      with True Cons show ?thesis by simp
    next
      case False
      then show ?thesis by (auto simp: Cons_eq_append_conv not_less)
    qed
  qed simp
  then show ?thesis by (simp add: elan_udelay_def)
qed

theorem udelay_waits_witness: "elan_udelay 1 [0x500000000, 0x500000010, 0x500000400, 9] = Some [9]"
proof -
  have e: "elan_getclock 0x500000000 = 5000000000" "elan_getclock 0x500000010 = 5000000016"
    "elan_getclock 0x500000400 = 5000001024"
    by (simp_all add: elan_getclock_def clock_spec_def)
  show ?thesis
    unfolding udelay_waits by (intro exI [of _ "[0x500000010]"] exI [of _ "0x500000400"]) (simp add: e)
qed

end
