(* ===== verification/Options.thy ===== *)
theory Options
  imports UserLib
begin

text \<open>
  What the commands use of the C library to read their arguments: \<^verbatim>\<open>getopt\<close>, \<^verbatim>\<open>sscanf\<close> of a decimal number, \<^verbatim>\<open>atoi\<close>.
\<close>

section \<open>Numbers\<close>

text \<open>\<^verbatim>\<open>sscanf(s, "%ld")\<close> with the limits of a \<^verbatim>\<open>long\<close>.\<close>

definition is_digit :: "char \<Rightarrow> bool" where
  "is_digit c \<longleftrightarrow> 48 \<le> (of_char c :: nat) \<and> (of_char c :: nat) \<le> 57"

definition dec_value :: "string \<Rightarrow> nat" where
  "dec_value ds = foldl (\<lambda>v c. 10 * v + (of_char c - 48)) 0 ds"

definition scan_ld :: "string \<Rightarrow> (u32 \<times> string) option" where
  "scan_ld cs =
     (let r = dropWhile is_space cs;
          neg = (r \<noteq> [] \<and> hd r = CHR ''-'');
          r = (if r \<noteq> [] \<and> (hd r = CHR ''-'' \<or> hd r = CHR ''+'') then tl r else r);
          ds = takeWhile is_digit r;
          n = int (dec_value ds);
          v = (if neg then max (- (2 ^ 31)) (- n) else min (2 ^ 31 - 1) n)
      in if ds = [] then None else Some (word_of_int v, dropWhile is_digit r))"

definition atoi :: "string \<Rightarrow> int" where
  "atoi s = (case scan_ld s of None \<Rightarrow> 0 | Some (v, _) \<Rightarrow> sint v)"

section \<open>getopt\<close>

text \<open>
  The library's \<^verbatim>\<open>getopt\<close>, which moves the operands behind the options: \<open>spec c\<close> says whether \<open>c\<close> is an
  option and, if it is, whether it has an argument. The result is what the calls return, in
  order, and the operands.
\<close>

datatype opt = Opt char "string option" | BadOpt

fun getopt_word :: "(char \<Rightarrow> bool option) \<Rightarrow> string \<Rightarrow> string list \<Rightarrow> opt list \<times> string list" where
  "getopt_word spec [] rest = ([], rest)"
| "getopt_word spec (c # cs) rest =
     (case spec c of
        None \<Rightarrow> (case getopt_word spec cs rest of (os, rest) \<Rightarrow> (BadOpt # os, rest))
      | Some False \<Rightarrow> (case getopt_word spec cs rest of (os, rest) \<Rightarrow> (Opt c None # os, rest))
      | Some True \<Rightarrow>
          if cs \<noteq> [] then ([Opt c (Some cs)], rest)
          else (case rest of [] \<Rightarrow> ([BadOpt], []) | a # rest \<Rightarrow> ([Opt c (Some a)], rest)))"

lemma getopt_word_length: "length (snd (getopt_word spec cs rest)) \<le> length rest"
  by (induction spec cs rest rule: getopt_word.induct) (auto split: option.splits bool.splits list.splits prod.splits)

function getopt :: "(char \<Rightarrow> bool option) \<Rightarrow> string list \<Rightarrow> opt list \<times> string list" where
  "getopt spec [] = ([], [])"
| "getopt spec (a # as) =
     (if a = ''--'' then ([], as)
      else if length a > 1 \<and> hd a = CHR ''-''
      then (let (os, rest) = getopt_word spec (tl a) as; (os', ops) = getopt spec rest in (os @ os', ops))
      else (let (os, ops) = getopt spec as in (os, a # ops)))"
  by pat_completeness auto
termination
proof (relation "measure (\<lambda>(_, as). length as)")
  fix spec a as x os rest
  assume "x = getopt_word spec (tl a) as" "(os, rest) = x"
  then show "((spec, rest), spec, a # as) \<in> measure (\<lambda>(_, as). length as)"
    using getopt_word_length [of spec "tl a" as] by (metis case_prod_conv in_measure le_imp_less_Suc length_Cons snd_conv)
qed auto

end
