(* ===== verification/Commands.thy ===== *)
theory Commands
  imports CanconNet Clock Options
begin

text \<open>
  Two of the commands: \<^verbatim>\<open>canctrl\<close> (one transaction) and \<^verbatim>\<open>canping\<close> (\<^verbatim>\<open>cmd/canctrl.c\<close>, \<^verbatim>\<open>cmd/canping.c\<close>).
  What they print is a value; the alarm shows as a read that is interrupted, which
  \<open>intr\<close> tells from the world. The databases are the contents of their files, as in the library.
\<close>

section \<open>canctrl\<close>

text \<open>\<^verbatim>\<open>sscanf(s, "0x%x")\<close>.\<close>

definition scan_0x :: "string \<Rightarrow> (u32 \<times> string) option" where
  "scan_0x s = (if take 2 s = ''0x'' then scan_x (drop 2 s) else None)"

definition str_to_type :: "string \<Rightarrow> can_header_ext \<Rightarrow> can_header_ext option" where
  "str_to_type s x = (let t = can_str2type s in if t \<ge> 0 then Some (x\<lparr>ctype := word_of_int t\<rparr>) else None)"

definition str_to_obj :: "string option \<Rightarrow> string \<Rightarrow> can_header_ext \<Rightarrow> lib_error + can_header_ext option" where
  "str_to_obj objs s x =
     (case can_getobjbyname objs s of
        Inl e \<Rightarrow> Inl e
      | Inr (Some obj) \<Rightarrow> Inr (Some (x\<lparr>object := word_of_int (obj_id obj)\<rparr>))
      | Inr None \<Rightarrow>
          (case scan_0x s of
             Some (ob, _) \<Rightarrow> Inr (Some (x\<lparr>object := ucast ob\<rparr>))
           | None \<Rightarrow> Inr None))"

datatype ctrl_msg =
  CtrlUsage | CtrlNoDevice | CtrlUnknownType | CtrlUnknownObject | CtrlUnknownHost | CtrlBadData
| CtrlSendTimeout | CtrlSendError | CtrlRecvTimeout | CtrlRecvError | CtrlSent | CtrlAnswer bool "u8 list"

text \<open>
  The command line, without the name of the program, to the request: the header, whose other fields
  are those of the uninitialised \<open>x\<close>, and the data with its length. A left result is what the command prints
  before it exits with status 1, or an error of the library.
\<close>

definition canctrl_data :: "string \<Rightarrow> can_dat option" where
  "canctrl_data s =
     (case scan_0x s of
        None \<Rightarrow> None
      | Some _ \<Rightarrow> (case scan_ld s of None \<Rightarrow> None | Some (v, _) \<Rightarrow> Some v))"

definition canctrl_args ::
    "string option \<Rightarrow> string option \<Rightarrow> bool \<Rightarrow> string list \<Rightarrow> can_header_ext \<Rightarrow>
     lib_error + (ctrl_msg + can_header_ext \<times> can_dat option \<times> int)" where
  "canctrl_args objs hosts dev argv x =
     (if length argv \<noteq> 4 \<and> length argv \<noteq> 3 then Inr (Inl CtrlUsage)
      else if \<not> dev then Inr (Inl CtrlNoDevice)
      else (case str_to_type (argv ! 0) x of
              None \<Rightarrow> Inr (Inl CtrlUnknownType)
            | Some x \<Rightarrow>
        (case str_to_obj objs (argv ! 1) x of
           Inl e \<Rightarrow> Inl e
         | Inr None \<Rightarrow> Inr (Inl CtrlUnknownObject)
         | Inr (Some x) \<Rightarrow>
        (case can_gethostbyname hosts (argv ! 2) of
           Inl e \<Rightarrow> Inl e
         | Inr None \<Rightarrow> Inr (Inl CtrlUnknownHost)
         | Inr (Some ch) \<Rightarrow>
             (let x = x\<lparr>cluster := word_of_int (h_cluster ch), module := word_of_int (h_module ch),
                        node := word_of_int (h_node ch)\<rparr>
              in if length argv = 4
                 then (case canctrl_data (argv ! 3) of
                         None \<Rightarrow> Inr (Inl CtrlBadData)
                       | Some d \<Rightarrow> Inr (Inr (x, Some d, 4)))
                 else Inr (Inr (x, None, 0)))))))"

text \<open>
  The transaction; \<open>n\<close> bounds the packets that are looked at for the answer, \<open>d\<close> is the uninitialised variable
  for its data. An answer that announces more bytes than the data has is read past its end.
\<close>

definition canctrl_run ::
    "'w os \<Rightarrow> ('w \<Rightarrow> bool) \<Rightarrow> nat \<Rightarrow> can_header_ext \<Rightarrow> can_dat option \<Rightarrow> int \<Rightarrow> can_dat \<Rightarrow> 'w lib \<Rightarrow>
     (lib_error + int \<times> ctrl_msg \<times> 'w lib) option" where
  "canctrl_run os intr n x d len a l =
     (case can_send os x d len l of
        Inl e \<Rightarrow> Some (Inl e)
      | Inr (bytes, l) \<Rightarrow>
          if bytes < 0 \<and> intr (world l) then Some (Inr (1, CtrlSendTimeout, l))
          else if bytes \<noteq> PKTSIZE_user then Some (Inr (1, CtrlSendError, l))
          else if ctype x \<in> {CANTYPE_WNA, CANTYPE_ACK, CANTYPE_NAK, CANTYPE_SIG} then Some (Inr (0, CtrlSent, l))
          else (case can_recv_ack os n x a 0 l of
                  None \<Rightarrow> None
                | Some (Inl e) \<Rightarrow> Some (Inl e)
                | Some (Inr (bytes, x, a, alen, l)) \<Rightarrow>
                    if bytes < 0 \<and> intr (world l) then Some (Inr (1, CtrlRecvTimeout, l))
                    else if bytes \<noteq> PKTSIZE_user then Some (Inr (1, CtrlRecvError, l))
                    else if alen > 4 then Some (Inl BufferOverflow)
                    else Some (Inr (0, CtrlAnswer (ctype x = CANTYPE_ACK) (map (byte_of a) [0..<nat alen]), l))))"

lemma zero_x_scan: "scan_ld (CHR ''0'' # CHR ''x'' # cs) = Some (0, CHR ''x'' # cs)"
  by (simp add: scan_ld_def is_space_def is_digit_def dec_value_def)

text \<open>
  \<^verbatim>\<open>canctrl\<close> takes its data as a hexadecimal number and then reads the same argument again as a
  decimal one: every argument that it accepts gives 0, and a decimal number is refused, so that
  no value but 0 can be sent.
\<close>

theorem canctrl_data_zero:
  "(case canctrl_args objs hosts dev argv x of
      Inr (Inr (y, d, len)) \<Rightarrow> if length argv = 4 then d = Some 0 \<and> len = 4 else d = None \<and> len = 0
    | _ \<Rightarrow> True)
   \<and> canctrl_data ''0x12'' = Some 0 \<and> canctrl_data ''12'' = None"
proof -
  have z: "canctrl_data s = None \<or> canctrl_data s = Some 0" for s
  proof (cases "scan_0x s")
    case (Some r)
    then have "take 2 s = ''0x''" by (simp add: scan_0x_def split: if_splits)
    then obtain cs where "s = CHR ''0'' # CHR ''x'' # cs" by (cases s; cases "tl s") auto
    with Some show ?thesis by (simp add: canctrl_data_def zero_x_scan)
  qed (simp add: canctrl_data_def)
  have "case canctrl_args objs hosts dev argv x of
      Inr (Inr (y, d, len)) \<Rightarrow> if length argv = 4 then d = Some 0 \<and> len = 4 else d = None \<and> len = 0
    | _ \<Rightarrow> True"
    using z [of "argv ! 3"] by (auto simp: canctrl_args_def Let_def split: if_splits option.splits sum.splits)
  moreover have "canctrl_data ''0x12'' = Some 0"
    by (simp add: canctrl_data_def zero_x_scan scan_0x_def scan_x_def is_space_def hex_digit_def Let_def)
  moreover have "canctrl_data ''12'' = None" by (simp add: canctrl_data_def scan_0x_def)
  ultimately show ?thesis by blast
qed

section \<open>canping\<close>

datatype ping_note = PingGood | PingWrongValue u32 u32 | PingWrongSize int

datatype ping_line = PingLine bool u32 u64 ping_note

datatype ping_end = PingAnswered ping_line | PingTimeout | PingFailed

text \<open>
  One round: \<open>clk\<close> is the reading of the Elan clock in a state of the world, \<open>oid\<close> the number of the
  \<^verbatim>\<open>TESTRW\<close> object, \<open>x\<close> the header variable and \<open>r\<close> the variable for the answer as the round before left them.
\<close>

definition canping_round ::
    "'w os \<Rightarrow> ('w \<Rightarrow> u64) \<Rightarrow> ('w \<Rightarrow> bool) \<Rightarrow> nat \<Rightarrow> canhostname \<Rightarrow> int \<Rightarrow> u32 \<Rightarrow> can_header_ext \<Rightarrow> can_dat \<Rightarrow> 'w lib \<Rightarrow>
     (lib_error + ping_end \<times> can_header_ext \<times> can_dat \<times> 'w lib) option" where
  "canping_round os clk intr n ch oid seq x r l =
     (let x = x\<lparr>cluster := word_of_int (h_cluster ch), module := word_of_int (h_module ch), node := word_of_int (h_node ch),
                ctype := CANTYPE_WO, object := word_of_int oid\<rparr>;
          t1 = elan_getclock (clk (world l))
      in (case can_send os x (Some seq) 4 l of
            Inl e \<Rightarrow> Some (Inl e)
          | Inr (bytes, l) \<Rightarrow>
              if bytes < 0 then Some (Inr (PingFailed, x, r, l))
              else (case can_recv_ack os n x r 0 l of
                      None \<Rightarrow> None
                    | Some (Inl e) \<Rightarrow> Some (Inl e)
                    | Some (Inr (bytes, x, r, alen, l)) \<Rightarrow>
                        if bytes < 0 \<and> intr (world l) then Some (Inr (PingTimeout, x, r, l))
                        else
                          (let t2 = elan_getclock (clk (world l))
                           in if bytes \<noteq> PKTSIZE_user then Some (Inr (PingFailed, x, r, l))
                              else
                                (let note = (if ctype x = CANTYPE_ACK \<and> seq \<noteq> 0 \<and> r \<noteq> seq - 1 then PingWrongValue r (seq - 1)
                                             else if alen \<noteq> 4 then PingWrongSize alen else PingGood)
                                 in Some (Inr (PingAnswered (PingLine (ctype x = CANTYPE_ACK) seq (t2 - t1) note), x, r, l)))))))"

text \<open>
  The loop, with the count of the option \<^verbatim>\<open>-c\<close> or \<open>None\<close> without it; \<open>k\<close> bounds the rounds. The result is
  the exit status and the lines that were printed.
\<close>

fun canping_loop ::
    "nat \<Rightarrow> 'w os \<Rightarrow> ('w \<Rightarrow> u64) \<Rightarrow> ('w \<Rightarrow> bool) \<Rightarrow> nat \<Rightarrow> canhostname \<Rightarrow> int \<Rightarrow> int option \<Rightarrow> u32 \<Rightarrow> nat \<Rightarrow> can_header_ext \<Rightarrow> can_dat
     \<Rightarrow> 'w lib \<Rightarrow> (lib_error + int \<times> ping_line list \<times> 'w lib) option" where
  "canping_loop 0 os clk intr n ch oid count seq responses x r l = None"
| "canping_loop (Suc k) os clk intr n ch oid count seq responses x r l =
     (if \<not> (case count of None \<Rightarrow> True | Some c \<Rightarrow> c > 0) then Some (Inr (if responses > 0 then 0 else 1, [], l))
      else (case canping_round os clk intr n ch oid seq x r l of
              None \<Rightarrow> None
            | Some (Inl e) \<Rightarrow> Some (Inl e)
            | Some (Inr (PingFailed, x, r, l)) \<Rightarrow> Some (Inr (1, [], l))
            | Some (Inr (PingTimeout, x, r, l)) \<Rightarrow>
                canping_loop k os clk intr n ch oid (map_option (\<lambda>c. c - 1) count) (seq + 1) responses x r l
            | Some (Inr (PingAnswered line, x, r, l)) \<Rightarrow>
                (case canping_loop k os clk intr n ch oid (map_option (\<lambda>c. c - 1) count) (seq + 1) (Suc responses) x r l of
                   Some (Inr (st, lines, l)) \<Rightarrow> Some (Inr (st, line # lines, l))
                 | res \<Rightarrow> res)))"

definition canping :: "nat \<Rightarrow> 'w os \<Rightarrow> ('w \<Rightarrow> u64) \<Rightarrow> ('w \<Rightarrow> bool) \<Rightarrow> nat \<Rightarrow> canhostname \<Rightarrow> int \<Rightarrow> int option \<Rightarrow> 'w lib \<Rightarrow>
    (lib_error + int \<times> ping_line list \<times> 'w lib) option" where
  "canping k os clk intr n ch oid count l = canping_loop k os clk intr n ch oid count 0 0 (ext (uninit os)) (dat (uninit os)) l"

text \<open>
  \<^verbatim>\<open>main\<close>: the options (flooding only leaves out the pause between rounds), the number of the object, the devices, the address of the
  host, and the loop. \<open>elan_ok\<close>, \<open>map_ok\<close> and \<open>can_ok\<close> say whether the devices open and the clock maps.
\<close>

datatype ping_stop = PingUsage | PingNoObject | PingNoElan | PingNoMap | PingNoCan | PingNoHost

definition fc_opts :: "char \<Rightarrow> bool option" where
  "fc_opts c = (if c = CHR ''f'' then Some False else if c = CHR ''c'' then Some True else None)"

fun ping_opts :: "opt list \<Rightarrow> bool \<times> int option \<Rightarrow> (bool \<times> int option) option" where
  "ping_opts [] r = Some r"
| "ping_opts (BadOpt # os) r = None"
| "ping_opts (Opt c arg # os) (flood, count) =
     (if c = CHR ''f'' then ping_opts os (True, count)
      else ping_opts os (flood, Some (atoi (case arg of None \<Rightarrow> [] | Some a \<Rightarrow> a))))"

definition canping_args :: "string list \<Rightarrow> (bool \<times> int option \<times> string) option" where
  "canping_args argv =
     (case getopt fc_opts argv of (os, operands) \<Rightarrow>
        (case ping_opts os (False, None) of
           None \<Rightarrow> None
         | Some (flood, count) \<Rightarrow> if length operands \<noteq> 1 then None else Some (flood, count, hd operands)))"

definition canping_main ::
    "nat \<Rightarrow> 'w os \<Rightarrow> ('w \<Rightarrow> u64) \<Rightarrow> ('w \<Rightarrow> bool) \<Rightarrow> nat \<Rightarrow> string option \<Rightarrow> string option \<Rightarrow> bool \<Rightarrow> bool \<Rightarrow> bool \<Rightarrow> string list \<Rightarrow> 'w lib \<Rightarrow>
     (lib_error + int \<times> (ping_stop + ping_line list) \<times> 'w lib) option" where
  "canping_main k os clk intr n objs hosts elan_ok map_ok can_ok argv l =
     (case canping_args argv of
        None \<Rightarrow> Some (Inr (1, Inl PingUsage, l))
      | Some (flood, count, target_host) \<Rightarrow>
          (case can_getobjbyname objs ''TESTRW'' of
             Inl e \<Rightarrow> Some (Inl e)
           | Inr None \<Rightarrow> Some (Inr (1, Inl PingNoObject, l))
           | Inr (Some obj) \<Rightarrow>
               if \<not> elan_ok then Some (Inr (1, Inl PingNoElan, l))
               else if \<not> map_ok then Some (Inr (1, Inl PingNoMap, l))
               else if \<not> can_ok then Some (Inr (1, Inl PingNoCan, l))
               else (case can_gethostbyname hosts target_host of
                       Inl e \<Rightarrow> Some (Inl e)
                     | Inr None \<Rightarrow> Some (Inr (1, Inl PingNoHost, l))
                     | Inr (Some ch) \<Rightarrow>
                         map_option (map_sum id (\<lambda>(st, lines, l). (st, Inr lines, l)))
                           (canping k os clk intr n ch (obj_id obj) count l))))"

text \<open>What \<^verbatim>\<open>canping\<close> expects of the object it writes to: a write is acknowledged with the value before it.\<close>

locale rw_object =
  fixes peer :: "can_packet \<Rightarrow> 's \<Rightarrow> can_packet list \<times> 's" and val :: "'s \<Rightarrow> u32" and ob :: "10 word"
  assumes write_rw: "object (ext p) = ob \<Longrightarrow> ctype (ext p) = CANTYPE_WO \<Longrightarrow>
    val (snd (peer p s)) = dat p
    \<and> (\<exists>a. fst (peer p s) = [a] \<and> answers_as CANTYPE_ACK p a \<and> dat a = val s \<and> clength (can a) = 8)"

definition ready_lib :: "'s \<Rightarrow> ('s \<times> can_packet list) lib \<Rightarrow> bool" where
  "ready_lib v l \<longleftrightarrow> initialized l \<and> world l = (v, [])"

context rw_object
begin

lemma rw_transaction:
  assumes "ready_lib v l" "object x = ob" "ctype x = CANTYPE_WO"
  shows "\<exists>v' l1 l2. can_send (peer_os peer u) x (Some d) 4 l = Inr (PKTSIZE_user, l1)
    \<and> (\<forall>n r. can_recv_ack (peer_os peer u) (Suc n) x r 0 l1 = Some (Inr (PKTSIZE_user, x\<lparr>ctype := CANTYPE_ACK\<rparr>, val v, 4, l2)))
    \<and> ready_lib v' l2 \<and> val v' = d"
proof -
  define p where "p = sent_pkt u x (Some d) 4 (nodeid l)"
  have p: "ext p = x" "dat p = d" by (simp_all add: p_def)
  define v' where "v' = snd (peer p v)"
  obtain a where a: "peer p v = ([a], v')" "val v' = d" "answers_as CANTYPE_ACK p a" "dat a = val v" "clength (can a) = 8"
    using write_rw [of p v] assms(2,3) p by (auto simp: v'_def prod_eq_iff)
  have "can_send (peer_os peer u) x (Some d) 4 l = Inr (PKTSIZE_user, l\<lparr>world := (v', [a])\<rparr>)"
    using assms(1) a(1)
    by (simp add: can_send_def lib_ready_def write_pkt_def peer_os_def ready_lib_def PKTSIZE_user_def Let_def p_def sent_pkt_def)
  moreover have "ISACKNAK CANTYPE_ACK" by (simp add: ISACKNAK_def)
  then have "can_recv_ack (peer_os peer u) (Suc n) x r 0 (l\<lparr>world := (v', [a])\<rparr>)
      = Some (Inr (PKTSIZE_user, x\<lparr>ctype := CANTYPE_ACK\<rparr>, val v, 4, l\<lparr>world := (v', [])\<rparr>))" for n r
    using assms(1) a(3-5) p(1)
    by (simp add: can_recv_def lib_ready_def peer_os_def ready_lib_def PKTSIZE_user_def Let_def answers_as_def)
  moreover have "ready_lib v' (l\<lparr>world := (v', [])\<rparr>)" using assms(1) by (simp add: ready_lib_def)
  ultimately show ?thesis using a(2) by blast
qed

lemma ctrl_write:
  assumes "ready_lib v l" "object x = ob" "ctype x = CANTYPE_WO"
  shows "\<exists>l' v'. canctrl_run (peer_os peer u) intr (Suc n) x (Some d) 4 r l =
      Some (Inr (0, CtrlAnswer True (map (byte_of (val v)) [0, 1, 2, 3]), l')) \<and> ready_lib v' l' \<and> val v' = d"
proof -
  obtain v' l1 l2 where s: "can_send (peer_os peer u) x (Some d) 4 l = Inr (PKTSIZE_user, l1)"
    "can_recv_ack (peer_os peer u) (Suc n) x r 0 l1 = Some (Inr (PKTSIZE_user, x\<lparr>ctype := CANTYPE_ACK\<rparr>, val v, 4, l2))"
    "ready_lib v' l2" "val v' = d"
    using rw_transaction [OF assms, of u d] by blast
  have "[0..<4] = [0, 1, 2, 3]" by (simp add: upt_rec)
  then have "canctrl_run (peer_os peer u) intr (Suc n) x (Some d) 4 r l = Some (Inr (0, CtrlAnswer True (map (byte_of (val v)) [0, 1, 2, 3]), l2))"
    using s(1,2) assms(3) by (simp add: canctrl_run_def PKTSIZE_user_def CANTYPE_defs del: can_recv_ack.simps upt_Suc)
  with s(3,4) show ?thesis by blast
qed

lemma ping_round:
  assumes "ready_lib v l" "word_of_int oid = ob"
  shows "\<exists>t x' l' v'. canping_round (peer_os peer u) clk intr (Suc n) ch oid seq x r l =
      Some (Inr (PingAnswered (PingLine True seq t (if seq \<noteq> 0 \<and> val v \<noteq> seq - 1 then PingWrongValue (val v) (seq - 1) else PingGood)),
        x', val v, l'))
    \<and> ready_lib v' l' \<and> val v' = seq"
proof -
  define y where "y = x\<lparr>cluster := word_of_int (h_cluster ch), module := word_of_int (h_module ch), node := word_of_int (h_node ch),
                ctype := CANTYPE_WO, object := word_of_int oid\<rparr>"
  have "object y = ob" "ctype y = CANTYPE_WO" using assms(2) by (simp_all add: y_def)
  from rw_transaction [OF assms(1) this, of u seq] obtain v' l1 l2 where
    s: "can_send (peer_os peer u) y (Some seq) 4 l = Inr (PKTSIZE_user, l1)"
    "can_recv_ack (peer_os peer u) (Suc n) y r 0 l1 = Some (Inr (PKTSIZE_user, y\<lparr>ctype := CANTYPE_ACK\<rparr>, val v, 4, l2))"
    "ready_lib v' l2" "val v' = seq" by blast
  then show ?thesis
    unfolding canping_round_def y_def [symmetric]
    by (auto simp: Let_def PKTSIZE_user_def simp del: can_recv_ack.simps)
qed

lemma ping_loop:
  assumes "word_of_int oid = ob"
  shows "ready_lib v l \<Longrightarrow> (seq \<noteq> 0 \<longrightarrow> val v = seq - 1) \<Longrightarrow> unat seq + k < 2 ^ 32 \<Longrightarrow> 0 < k + resp \<Longrightarrow>
    \<exists>lines l'. canping_loop (Suc k) (peer_os peer u) clk intr (Suc n) ch oid (Some (int k)) seq resp x r l = Some (Inr (0, lines, l'))
      \<and> length lines = k \<and> (\<forall>i<k. \<exists>t. lines ! i = PingLine True (seq + of_nat i) t PingGood)"
proof (induction k arbitrary: v l seq resp x r)
  case (Suc k)
  have ok: "\<not> (seq \<noteq> 0 \<and> val v \<noteq> seq - 1)" using Suc.prems(2) by blast
  obtain t x' l' v' where R: "canping_round (peer_os peer u) clk intr (Suc n) ch oid seq x r l =
      Some (Inr (PingAnswered (PingLine True seq t PingGood), x', val v, l'))" "ready_lib v' l'" "val v' = seq"
    using ping_round [OF Suc.prems(1) assms, of u clk intr n ch seq x r] unfolding if_not_P [OF ok] by blast
  have "unat (seq + 1) = Suc (unat seq)"
    using Suc.prems(3) by (simp add: unat_word_ariths take_bit_nat_eq_self)
  then have "unat (seq + 1) + k < 2 ^ 32" using Suc.prems(3) by simp
  then obtain lines m where L: "canping_loop (Suc k) (peer_os peer u) clk intr (Suc n) ch oid (Some (int k)) (seq + 1) (Suc resp) x' (val v) l'
      = Some (Inr (0, lines, m))" "length lines = k" "\<forall>i<k. \<exists>t. lines ! i = PingLine True (seq + 1 + of_nat i) t PingGood"
    using Suc.IH [OF R(2), of "seq + 1" "Suc resp" x' "val v"] R(3) by auto
  have "\<exists>t'. (PingLine True seq t PingGood # lines) ! i = PingLine True (seq + of_nat i) t' PingGood" if "i < Suc k" for i
    using that L(3) by (cases i) (auto simp: add.assoc)
  moreover have "canping_loop (Suc (Suc k)) (peer_os peer u) clk intr (Suc n) ch oid (Some (int (Suc k))) seq resp x r l
      = Some (Inr (0, PingLine True seq t PingGood # lines, m))"
    using R(1) L(1) by (subst canping_loop.simps) (simp del: canping_loop.simps)
  ultimately show ?case using L(2) by auto
qed simp

end

interpretation testrw: rw_object "node_peer E" testrw_val CANOBJ_TESTRW for E :: "('c, 'p) env"
proof
  fix p :: can_packet and s :: "('c, 'p) driver"
  assume p: "object (ext p) = CANOBJ_TESTRW" "ctype (ext p) = CANTYPE_WO"
  let ?t = "s\<lparr>inq := RING_CLEAR (inq s), outq := RING_CLEAR (outq s)\<rparr>"
  have "canobj_switch E p ?t = canobj_testrw E p ?t" using p(1) by (simp add: canobj_switch_def Let_def CANOBJ_defs)
  then have "snd (canobj_packet E p ?t) = (canobj_acknak E CANTYPE_ACK p (Some (testrw_val s)) ?t)\<lparr>testrw_val := dat p\<rparr>"
    using p(2) node_request [of p E ?t] by (simp add: canobj_testrw_def Let_def)
  with acknak_answer [OF drained_queues(1) [of s], of "inq s" "outq s" E CANTYPE_ACK p "Some (testrw_val s)"]
  show "testrw_val (snd (node_peer E p s)) = dat p
    \<and> (\<exists>a. fst (node_peer E p s) = [a] \<and> answers_as CANTYPE_ACK p a \<and> dat a = testrw_val s \<and> clength (can a) = 8)"
    by (simp add: node_peer_def Let_def)
qed

text \<open>
  A write to the \<^verbatim>\<open>TESTRW\<close> object with \<^verbatim>\<open>canctrl\<close> against the driver of a node: the command prints the acknowledgement
  with the four bytes the object held before, ends with success, and the object holds the
  data of the request.
\<close>

theorem canctrl_driver:
  assumes "ready_lib v l" "object x = CANOBJ_TESTRW" "ctype x = CANTYPE_WO"
  shows "\<exists>l' v'. canctrl_run (peer_os (node_peer E) u) intr (Suc n) x (Some d) 4 r l =
      Some (Inr (0, CtrlAnswer True (map (byte_of (testrw_val v)) [0, 1, 2, 3]), l')) \<and> ready_lib v' l' \<and> testrw_val v' = d"
  by (rule testrw.ctrl_write [OF assms])

theorem canctrl_driver_witness:
  "\<exists>l' v'. canctrl_run (peer_os (node_peer regs_env) no_pkt) (\<lambda>w. False) 1 (no_ext\<lparr>ctype := CANTYPE_WO, object := CANOBJ_TESTRW\<rparr>)
      (Some 7) 4 0 \<lparr>nodeid = 7, initialized = True, world = (idle, [])\<rparr> = Some (Inr (0, CtrlAnswer True [0, 0, 0, 0], l'))
    \<and> ready_lib v' l' \<and> testrw_val v' = 7"
proof -
  have "map (byte_of (testrw_val idle)) [0, 1, 2, 3] = [0, 0, 0, 0]" by (simp add: idle_def cold_def byte_of_def)
  moreover have "ready_lib idle \<lparr>nodeid = 7, initialized = True, world = (idle, [])\<rparr>" by (simp add: ready_lib_def)
  ultimately show ?thesis
    using canctrl_driver [of idle "\<lparr>nodeid = 7, initialized = True, world = (idle, [])\<rparr>"
        "no_ext\<lparr>ctype := CANTYPE_WO, object := CANOBJ_TESTRW\<rparr>" regs_env no_pkt "\<lambda>w. False" 0 7 0] by simp
qed

text \<open>
  C35 (canping_driver): \<^verbatim>\<open>canping\<close> with a count, from its command line on, against the driver of a node, when no packet is lost and the files of names
  have the host and the object: every round is answered with
  an acknowledgement, the sequence numbers are printed in order, no line has a complaint
  about the value or the size of the answer, and the status is that of success. Whatever the object
  held before does not matter.
\<close>

theorem canping_driver:
  assumes "canping_args argv = Some (flood, Some (int k), host)" "0 < k" "k < 2 ^ 32"
    and "can_getobjbyname objs ''TESTRW'' = Inr (Some obj)" "word_of_int (obj_id obj) = CANOBJ_TESTRW"
    and "can_gethostbyname hosts host = Inr (Some ch)" "ready_lib v l"
  shows "\<exists>lines l'. canping_main (Suc k) (peer_os (node_peer E) u) clk intr (Suc n) objs hosts True True True argv l
      = Some (Inr (0, Inr lines, l'))
    \<and> length lines = k \<and> (\<forall>i<k. \<exists>t. lines ! i = PingLine True (of_nat i) t PingGood)"
proof -
  obtain lines l' where c: "canping (Suc k) (peer_os (node_peer E) u) clk intr (Suc n) ch (obj_id obj) (Some (int k)) l
      = Some (Inr (0, lines, l'))"
    and g: "length lines = k" "\<forall>i<k. \<exists>t. lines ! i = PingLine True (of_nat i) t PingGood"
    using testrw.ping_loop [OF assms(5,7), of 0 k 0 E u clk intr n ch "ext u" "dat u"] assms(2,3)
    unfolding canping_def by (auto simp: peer_os_def)
  have "canping_main (Suc k) (peer_os (node_peer E) u) clk intr (Suc n) objs hosts True True True argv l = Some (Inr (0, Inr lines, l'))"
    using assms(1,4,6) c by (simp add: canping_main_def)
  with g show ?thesis by blast
qed

lemma ping_files:
  "can_getobjbyname (Some ''3ff testrw'') ''TESTRW'' = Inr (Some \<lparr>obj_id = 0x3ff, obj_name = ''testrw''\<rparr>)"
  "can_gethostbyname (Some ''1,2,3 cs2'') ''cs2'' = Inr (Some \<lparr>h_cluster = 1, h_module = 2, h_node = 3, hostname = ''cs2''\<rparr>)"
proof -
  have l: "fgets_all ''3ff testrw'' = [''3ff testrw'']"
    by (simp add: fgets_all.simps BSIZE_def NL_def numeral_eq_Suc)
  have o: "obj_line ''3ff testrw'' = Some (0x3ff, ''testrw'')"
    by (simp add: obj_line_def cstr_def scan_x_def scan_s_def is_space_def hex_digit_def hex_value_def)
  have "strcaseeq ''testrw'' ''TESTRW''"
    by (simp add: strcaseeq_def tolower_def char_of_def bit_numeral_rec bit_Suc_0_iff)
  then show "can_getobjbyname (Some ''3ff testrw'') ''TESTRW'' = Inr (Some \<lparr>obj_id = 0x3ff, obj_name = ''testrw''\<rparr>)"
    using object_lookups [of "''3ff testrw''" "''TESTRW''"] by (simp add: l o List.map_filter_simps)
  show "can_gethostbyname (Some ''1,2,3 cs2'') ''cs2''
      = Inr (Some \<lparr>h_cluster = 1, h_module = 2, h_node = 3, hostname = ''cs2''\<rparr>)"
    by (simp add: can_gethostbyname_def one_host one_host_line MAXHOSTNAMELEN_def)
qed

theorem canping_driver_witness:
  "\<exists>t0 t1 l'. canping_main 3 (peer_os (node_peer regs_env) no_pkt) (\<lambda>w. 0) (\<lambda>w. False) 1 (Some ''3ff testrw'') (Some ''1,2,3 cs2'')
      True True True [''cs2'', ''-fc2''] \<lparr>nodeid = 7, initialized = True, world = (idle, [])\<rparr>
    = Some (Inr (0, Inr [PingLine True 0 t0 PingGood, PingLine True 1 t1 PingGood], l'))"
proof -
  have a: "canping_args [''cs2'', ''-fc2''] = Some (True, Some (int 2), ''cs2'')"
    by (simp add: canping_args_def fc_opts_def atoi_def scan_ld_def is_space_def is_digit_def dec_value_def)
  have o: "word_of_int (obj_id \<lparr>obj_id = 0x3ff, obj_name = ''testrw''\<rparr>) = CANOBJ_TESTRW" by (simp add: CANOBJ_TESTRW_def)
  have "ready_lib idle \<lparr>nodeid = 7, initialized = True, world = (idle, [])\<rparr>" by (simp add: ready_lib_def)
  from canping_driver [OF a _ _ ping_files(1) o ping_files(2) this, where E = regs_env and u = no_pkt and clk = "\<lambda>w. 0"
      and intr = "\<lambda>w. False" and n = 0]
  obtain lines l' where c: "canping_main (Suc 2) (peer_os (node_peer regs_env) no_pkt) (\<lambda>w. 0) (\<lambda>w. False) (Suc 0)
      (Some ''3ff testrw'') (Some ''1,2,3 cs2'') True True True [''cs2'', ''-fc2''] \<lparr>nodeid = 7, initialized = True, world = (idle, [])\<rparr>
      = Some (Inr (0, Inr lines, l'))"
    and n: "length lines = 2" and g: "\<forall>i<2. \<exists>t. lines ! i = PingLine True (of_nat i) t PingGood"
    by auto
  obtain a b where ab: "lines = [a, b]" using n by (auto simp: numeral_2_eq_2 length_Suc_conv)
  from g [rule_format, of 0] g [rule_format, of 1] ab obtain t0 t1 where "a = PingLine True 0 t0 PingGood" "b = PingLine True 1 t1 PingGood"
    by auto
  moreover have "Suc 2 = 3" "Suc 0 = 1" by simp_all
  ultimately show ?thesis using c ab by metis
qed

end
