(* ===== verification/Tools.thy ===== *)
theory Tools
  imports Commands CanFiles
begin

text \<open>
  The small commands: \<^verbatim>\<open>canhb\<close>, \<^verbatim>\<open>candebug\<close>, \<^verbatim>\<open>canwhack\<close> and \<^verbatim>\<open>cansnoop\<close> (under \<^verbatim>\<open>cmd/\<close>), on \<^verbatim>\<open>/dev/can\<close> as an
  interface whose laws the driver keeps.
\<close>

section \<open>The device\<close>

text \<open>
  \<^verbatim>\<open>/dev/can\<close> for a command: open, ioctl (with the value of its argument before and after), read of one
  packet, close. \<open>None\<close> is a kernel that does not come back. Whatever way a command exits, the kernel closes its file.
\<close>

record 'w dev =
  dev_open :: "'w \<Rightarrow> ((errno + nat) \<times> 'w) option"
  dev_ioctl :: "nat \<Rightarrow> ioctl_cmd \<Rightarrow> u32 \<Rightarrow> 'w \<Rightarrow> ((errno + u32) \<times> 'w) option"
  dev_read :: "nat \<Rightarrow> 'w \<Rightarrow> ((errno + can_packet list) \<times> 'w) option"
  dev_close :: "nat \<Rightarrow> 'w \<Rightarrow> 'w option"

datatype tool_msg =
  OpenFailed errno | IoctlFailed errno | ToolUsage "string list" | HeartbeatIs string
| DebuggingOn | DebuggingOff | ChipReset

definition exit_closing :: "'w dev \<Rightarrow> nat \<Rightarrow> int \<Rightarrow> tool_msg list \<Rightarrow> 'w \<Rightarrow> (int \<times> tool_msg list \<times> 'w) option" where
  "exit_closing D f st out w = map_option (\<lambda>w. (st, out, w)) (dev_close D f w)"

section \<open>canhb\<close>

fun usage_names :: "nat \<Rightarrow> nat \<Rightarrow> string list" where
  "usage_names i 0 = []"
| "usage_names i (Suc n) =
     (case can_hb2str (push_bit 2 (of_nat i)) of None \<Rightarrow> [] | Some str \<Rightarrow> str # usage_names (Suc i) n)"

text \<open>\<open>argv\<close> is the command line without the name of the program, \<open>val\<close> the uninitialised variable.\<close>

definition canhb :: "'w dev \<Rightarrow> u32 \<Rightarrow> string list \<Rightarrow> 'w \<Rightarrow> (int \<times> tool_msg list \<times> 'w) option" where
  "canhb D val argv w =
     (case dev_open D w of
        None \<Rightarrow> None
      | Some (Inl e, w) \<Rightarrow> Some (1, [OpenFailed e], w)
      | Some (Inr f, w) \<Rightarrow>
          if argv = [] then
            (case dev_ioctl D f CAN_GET_HEARTBEAT val w of
               None \<Rightarrow> None
             | Some (Inl e, w) \<Rightarrow> exit_closing D f 1 [IoctlFailed e] w
             | Some (Inr val, w) \<Rightarrow>
                 exit_closing D f 0
                   [HeartbeatIs (case can_hb2str val of Some str \<Rightarrow> str | None \<Rightarrow> ''bad heartbeat val'')] w)
          else
            (case (if length argv = 1 then can_str2hb (hd argv) else None) of
               Some val \<Rightarrow>
                 (case dev_ioctl D f CAN_SET_HEARTBEAT val w of
                    None \<Rightarrow> None
                  | Some (Inl e, w) \<Rightarrow> exit_closing D f 1 [IoctlFailed e] w
                  | Some (Inr val, w) \<Rightarrow> exit_closing D f 0 [] w)
             | None \<Rightarrow> exit_closing D f 1 [ToolUsage (usage_names 0 0x20)] w))"

section \<open>candebug and canwhack\<close>

definition yn :: "char \<Rightarrow> bool option" where
  "yn c = (if c = CHR ''y'' \<or> c = CHR ''n'' then Some False else None)"

text \<open>The loop of \<^verbatim>\<open>candebug\<close> leaves at the first option.\<close>

definition candebug :: "'w dev \<Rightarrow> string list \<Rightarrow> 'w \<Rightarrow> (int \<times> tool_msg list \<times> 'w) option" where
  "candebug D argv w =
     (case dev_open D w of
        None \<Rightarrow> None
      | Some (Inl e, w) \<Rightarrow> Some (1, [OpenFailed e], w)
      | Some (Inr f, w) \<Rightarrow>
          (case fst (getopt yn argv) of
             Opt c _ # _ \<Rightarrow>
               (case dev_ioctl D f (if c = CHR ''y'' then CAN_SET_DEBUG else CAN_CLR_DEBUG) 0 w of
                  None \<Rightarrow> None
                | Some (Inl e, w) \<Rightarrow> exit_closing D f 0 [IoctlFailed e] w
                | Some (Inr _, w) \<Rightarrow> exit_closing D f 0 [if c = CHR ''y'' then DebuggingOn else DebuggingOff] w)
           | _ \<Rightarrow> exit_closing D f 1 [ToolUsage []] w))"

definition canwhack :: "'w dev \<Rightarrow> 'w \<Rightarrow> (int \<times> tool_msg list \<times> 'w) option" where
  "canwhack D w =
     (case dev_open D w of
        None \<Rightarrow> None
      | Some (Inl e, w) \<Rightarrow> Some (1, [OpenFailed e], w)
      | Some (Inr f, w) \<Rightarrow>
          (case dev_ioctl D f CAN_SET_RESET 0 w of
             None \<Rightarrow> None
           | Some (Inl e, w) \<Rightarrow> exit_closing D f 1 [IoctlFailed e] w
           | Some (Inr _, w) \<Rightarrow> exit_closing D f 0 [ChipReset] w))"

section \<open>cansnoop\<close>

text \<open>
  What \<^verbatim>\<open>printf\<close> makes of a string with a width and a precision, \<^verbatim>\<open>%-w.ps\<close> with \<open>w = p\<close>, and of a number, \<^verbatim>\<open>%p.px\<close>.
\<close>

definition fmt_s :: "nat \<Rightarrow> string \<Rightarrow> string" where
  "fmt_s w s = take w s @ replicate (w - length s) CHR '' ''"

definition hex_char :: "nat \<Rightarrow> char" where
  "hex_char d = char_of (if d < 10 then 48 + d else 87 + d)"

fun hex_digits :: "nat \<Rightarrow> string" where
  "hex_digits n = (if n < 16 then [hex_char n] else hex_digits (n div 16) @ [hex_char (n mod 16)])"

declare hex_digits.simps [simp del]

definition fmt_x :: "nat \<Rightarrow> nat \<Rightarrow> string" where
  "fmt_x p n = replicate (p - length (hex_digits n)) CHR ''0'' @ hex_digits n"

definition CHR_of :: "u8 \<Rightarrow> char" where
  "CHR_of c = (if 0x20 \<le> c \<and> c \<le> 0x7e then char_of (unat c) else CHR ''.'')"

definition obj_to_str :: "string option \<Rightarrow> 3 word \<Rightarrow> 10 word \<Rightarrow> lib_error + string" where
  "obj_to_str objs type oid =
     (let numericName = fmt_x 4 (unat oid)
      in if type = CANTYPE_ACK \<or> type = CANTYPE_NAK \<or> type = CANTYPE_DAT then Inr numericName
         else (case can_getobjbyid objs (uint oid) of
                 Inl e \<Rightarrow> Inl e
               | Inr None \<Rightarrow> Inr numericName
               | Inr (Some obj) \<Rightarrow> Inr (obj_name obj)))"

text \<open>
  The static variables of \<^verbatim>\<open>decode\<close>, and a line of output: the time stamp in ticks since the first one (the
  program prints it divided by \<^verbatim>\<open>HZ\<close>, as a float) and the rest of the line.
\<close>

record snoop =
  last_stamp :: u32
  first_stamp :: u32

type_synonym snoop_line = "u32 \<times> string"

definition snoop_header :: "can_packet \<Rightarrow> string" where
  "snoop_header pkt = fmt_x 3 (unat (src (can pkt))) @ ''->'' @ fmt_x 3 (unat (dest (can pkt))) @ ''  ''"

definition snoop_host :: "can_packet \<Rightarrow> canhostname option \<Rightarrow> string" where
  "snoop_host pkt ch =
     (case ch of
        None \<Rightarrow> fmt_x 2 (unat (cluster (ext pkt))) @ '','' @ fmt_x 2 (unat (module (ext pkt))) @ '','' @
                fmt_x 2 (unat (node (ext pkt))) @ '' ''
      | Some ch \<Rightarrow> fmt_s 8 (hostname ch) @ '' '')"

definition snoop_data :: "u8 list \<Rightarrow> string" where
  "snoop_data bs =
     (let tmp1 = concat (map (\<lambda>b. fmt_x 2 (unat b) @ '' '') bs); tmp2 = map CHR_of bs
      in ''  '' @ fmt_s 11 tmp1 @ '' '' @ fmt_s 4 tmp2)"

text \<open>
  Time stamps are compared as unsigned numbers. The bytes printed are those that the length of the packet announces, of which
  the payload has four.
\<close>

definition decode ::
    "string option \<Rightarrow> string option \<Rightarrow> bool \<Rightarrow> can_packet \<Rightarrow> snoop \<Rightarrow> lib_error + snoop_line option \<times> snoop" where
  "decode hosts objs no_heartbeat pkt st =
     (if no_heartbeat \<and> object (ext pkt) = CANOBJ_HEARTBEAT then Inr (None, st)
      else
        (let st = (if first_stamp st = 0 then st\<lparr>first_stamp := timestamp pkt\<rparr> else st);
             ticks = timestamp pkt - first_stamp st;
             len = unat (clength (can pkt))
         in if len < 4
            then Inr (Some (ticks, snoop_header pkt @ ''len='' @ hex_digits len @ '' - ERROR bad packet length''), st)
            else if timestamp pkt < last_stamp st then Inl AssertFail
            else
              (let st = st\<lparr>last_stamp := timestamp pkt\<rparr>
               in case can_gethostbyaddr hosts (uint (cluster (ext pkt))) (uint (module (ext pkt))) (uint (node (ext pkt))) of
                    Inl e \<Rightarrow> Inl e
                  | Inr ch \<Rightarrow>
                      (case obj_to_str objs (ctype (ext pkt)) (object (ext pkt)) of
                         Inl e \<Rightarrow> Inl e
                       | Inr ob \<Rightarrow>
                           if len > 8 then Inl BufferOverflow
                           else Inr (Some (ticks, snoop_header pkt @ fmt_s 3 (can_type2str (uint (ctype (ext pkt)))) @ '' '' @
                                  snoop_host pkt ch @ fmt_s 12 ob @ snoop_data (map (byte_of (dat pkt)) [0..<len - 4])),
                                  st)))))"

text \<open>
  The loop: \<open>bytes / PKTSIZE\<close> and \<open>bytes % PKTSIZE\<close> are computed with unsigned numbers, since \<^verbatim>\<open>sizeof\<close> is unsigned. \<open>n\<close> bounds
  the number of reads. The result is what was printed, how the program stopped, and the device.
\<close>

datatype snoop_end = SnoopMore | SnoopStuck | SnoopExit int | SnoopAbort lib_error | SnoopUsage | SnoopPerror errno

fun decode_all ::
    "string option \<Rightarrow> string option \<Rightarrow> bool \<Rightarrow> can_packet list \<Rightarrow> snoop \<Rightarrow> snoop_line list \<times> (lib_error + snoop)" where
  "decode_all hosts objs nh [] st = ([], Inr st)"
| "decode_all hosts objs nh (p # ps) st =
     (case decode hosts objs nh p st of
        Inl e \<Rightarrow> ([], Inl e)
      | Inr (line, st) \<Rightarrow>
          (case decode_all hosts objs nh ps st of
             (ls, r) \<Rightarrow> (case line of None \<Rightarrow> (ls, r) | Some l \<Rightarrow> (l # ls, r))))"

definition bytes_read :: "errno + can_packet list \<Rightarrow> u32" where
  "bytes_read r = (case r of Inl _ \<Rightarrow> - 1 | Inr ps \<Rightarrow> of_nat (16 * length ps))"

fun snoop_loop ::
    "nat \<Rightarrow> 'w dev \<Rightarrow> string option \<Rightarrow> string option \<Rightarrow> bool \<Rightarrow> nat \<Rightarrow> snoop \<Rightarrow> 'w \<Rightarrow> snoop_line list \<times> snoop_end \<times> snoop \<times> 'w" where
  "snoop_loop 0 D hosts objs nh f st w = ([], SnoopMore, st, w)"
| "snoop_loop (Suc n) D hosts objs nh f st w =
     (case dev_read D f w of
        None \<Rightarrow> ([], SnoopStuck, st, w)
      | Some (r, w) \<Rightarrow>
          (let bytes = bytes_read r; packets = sint (bytes div 16)
           in if bytes mod 16 \<noteq> 0 then ([], SnoopAbort AssertFail, st, w)
              else (case decode_all hosts objs nh (case r of Inl _ \<Rightarrow> [] | Inr ps \<Rightarrow> ps) st of
                      (ls, Inl e) \<Rightarrow> (ls, SnoopAbort e, st, w)
                    | (ls, Inr st) \<Rightarrow>
                        if packets \<ge> 1
                        then (case snoop_loop n D hosts objs nh f st w of (ls', rest) \<Rightarrow> (ls @ ls', rest))
                        else (ls, SnoopExit 0, st, w))))"

text \<open>The options: \<^verbatim>\<open>-p\<close> asks for all packets of the bus (and goes on if it may not), \<^verbatim>\<open>-h\<close> hides heartbeats.\<close>

fun snoop_args :: "'w dev \<Rightarrow> nat \<Rightarrow> string list \<Rightarrow> bool \<Rightarrow> 'w \<Rightarrow> (snoop_end + bool) \<times> 'w" where
  "snoop_args D f [] nh w = (Inr nh, w)"
| "snoop_args D f (a # as) nh w =
     (if a = ''-p'' then
        (case dev_ioctl D f CAN_SET_PROMISCUOUS 0 w of
           None \<Rightarrow> (Inl SnoopStuck, w)
         | Some (_, w) \<Rightarrow> snoop_args D f as nh w)
      else if a = ''-h'' then snoop_args D f as True w
      else (Inl SnoopUsage, w))"

definition cansnoop ::
    "nat \<Rightarrow> 'w dev \<Rightarrow> string option \<Rightarrow> string option \<Rightarrow> string list \<Rightarrow> 'w \<Rightarrow> snoop_line list \<times> snoop_end \<times> snoop \<times> 'w" where
  "cansnoop n D hosts objs argv w =
     (let st = \<lparr>last_stamp = 0, first_stamp = 0\<rparr>
      in case dev_open D w of
           None \<Rightarrow> ([], SnoopStuck, st, w)
         | Some (Inl e, w) \<Rightarrow> ([], SnoopPerror e, st, w)
         | Some (Inr f, w) \<Rightarrow>
             (case dev_ioctl D f CAN_SET_SNOOPY 0 w of
                None \<Rightarrow> ([], SnoopStuck, st, w)
              | Some (Inl e, w) \<Rightarrow> ([], SnoopPerror e, st, w)
              | Some (Inr _, w) \<Rightarrow>
                  (case snoop_args D f argv False w of
                     (Inl e, w) \<Rightarrow> ([], e, st, w)
                   | (Inr nh, w) \<Rightarrow> snoop_loop n D hosts objs nh f st w)))"

section \<open>The interface\<close>

text \<open>
  \<open>ok\<close> are the states in which a file can be opened, \<open>live f\<close> those in which \<open>f\<close> is open. Besides the laws of
  open, ioctl and close, the heartbeat value is kept by all but the ioctl that sets it, and a read takes the oldest
  packet of the file's queue.
\<close>

locale can_device =
  fixes D :: "'w dev" and ok :: "'w \<Rightarrow> bool" and live :: "nat \<Rightarrow> 'w \<Rightarrow> bool"
  assumes open_ok: "ok w \<Longrightarrow> \<exists>f t. dev_open D w = Some (Inr f, t) \<and> live f t"
    and ioctl_live: "live f w \<Longrightarrow> \<exists>r t. dev_ioctl D f c v w = Some (r, t) \<and> live f t"
    and close_ok: "live f w \<Longrightarrow> \<exists>t. dev_close D f w = Some t \<and> ok t"

locale hb_device = can_device D ok live for D :: "'w dev" and ok live +
  fixes hb :: "'w \<Rightarrow> u32"
  assumes open_hb: "dev_open D w = Some (Inr f, t) \<Longrightarrow> hb t = hb w"
    and get_hb: "live f w \<Longrightarrow> dev_ioctl D f CAN_GET_HEARTBEAT v w = Some (Inr (hb w), w)"
    and set_hb: "live f w \<Longrightarrow> dev_ioctl D f CAN_SET_HEARTBEAT v w = Some (r, t) \<Longrightarrow> r = Inr v \<and> hb t = v"
    and close_hb: "live f w \<Longrightarrow> dev_close D f w = Some t \<Longrightarrow> hb t = hb w"
begin

lemma exit_live:
  assumes "live f w"
  obtains t where "exit_closing D f st out w = Some (st, out, t)" "ok t" "hb t = hb w"
  using close_ok [OF assms] close_hb [OF assms] by (auto simp: exit_closing_def)

lemma open_live:
  assumes "ok w"
  obtains f t where "dev_open D w = Some (Inr f, t)" "live f t" "hb t = hb w"
  using open_ok [OF assms] open_hb by blast

lemma canhb_show:
  assumes "ok w"
  shows "\<exists>t. canhb D v [] w = Some (0, [HeartbeatIs (case can_hb2str (hb w) of Some str \<Rightarrow> str | None \<Rightarrow> ''bad heartbeat val'')], t)
    \<and> ok t \<and> hb t = hb w"
proof -
  obtain f w1 where o: "dev_open D w = Some (Inr f, w1)" "live f w1" "hb w1 = hb w" using assms by (rule open_live)
  let ?out = "[HeartbeatIs (case can_hb2str (hb w) of Some str \<Rightarrow> str | None \<Rightarrow> ''bad heartbeat val'')]"
  obtain t where "exit_closing D f 0 ?out w1 = Some (0, ?out, t)" "ok t" "hb t = hb w1"
    using o(2) by (rule exit_live)
  with o get_hb [OF o(2), of v] show ?thesis by (simp add: canhb_def)
qed

lemma canhb_set:
  assumes "ok w" "can_str2hb str = Some val"
  shows "\<exists>t. canhb D v [str] w = Some (0, [], t) \<and> ok t \<and> hb t = val"
proof -
  obtain f w1 where o: "dev_open D w = Some (Inr f, w1)" "live f w1" using open_ok [OF assms(1)] by blast
  obtain r w2 where i: "dev_ioctl D f CAN_SET_HEARTBEAT val w1 = Some (r, w2)" "live f w2"
    using ioctl_live [OF o(2)] by blast
  have r: "r = Inr val" "hb w2 = val" using set_hb [OF o(2) i(1)] by simp_all
  obtain t where "exit_closing D f 0 [] w2 = Some (0, [], t)" "ok t" "hb t = hb w2"
    using i(2) by (rule exit_live)
  with o i r assms(2) show ?thesis by (simp add: canhb_def)
qed

lemma canhb_usage:
  assumes "ok w" "argv \<noteq> []" "length argv = 1 \<longrightarrow> can_str2hb (hd argv) = None"
  shows "\<exists>t. canhb D v argv w = Some (1, [ToolUsage (usage_names 0 0x20)], t) \<and> ok t \<and> hb t = hb w"
proof -
  obtain f w1 where o: "dev_open D w = Some (Inr f, w1)" "live f w1" "hb w1 = hb w" using assms(1) by (rule open_live)
  obtain t where "exit_closing D f 1 [ToolUsage (usage_names 0 0x20)] w1 = Some (1, [ToolUsage (usage_names 0 0x20)], t)"
    "ok t" "hb t = hb w1"
    using o(2) by (rule exit_live)
  with o assms(2,3) show ?thesis by (auto simp: canhb_def split: option.split)
qed

end

locale snoop_device = can_device D ok live for D :: "'w dev" and ok live +
  fixes queue :: "nat \<Rightarrow> 'w \<Rightarrow> can_packet list"
  assumes read_queue: "live f w \<Longrightarrow> queue f w = p # ps \<Longrightarrow>
      \<exists>t. dev_read D f w = Some (Inr [p], t) \<and> live f t \<and> queue f t = ps"
begin

lemma snoop_reads:
  "live f w \<Longrightarrow> queue f w = ps @ qs \<Longrightarrow> decode_all hosts objs nh ps st = (ls, Inr st') \<Longrightarrow>
   \<exists>t. snoop_loop (length ps) D hosts objs nh f st w = (ls, SnoopMore, st', t) \<and> live f t \<and> queue f t = qs"
proof (induction ps arbitrary: w st ls)
  case (Cons p ps)
  obtain w1 where w1: "dev_read D f w = Some (Inr [p], w1)" "live f w1" "queue f w1 = ps @ qs"
    using read_queue [OF Cons.prems(1)] Cons.prems(2) by force
  obtain line st1 where d: "decode hosts objs nh p st = Inr (line, st1)"
    using Cons.prems(3) by (auto split: sum.splits)
  obtain ls1 where rest: "decode_all hosts objs nh ps st1 = (ls1, Inr st')"
      "ls = (case line of None \<Rightarrow> ls1 | Some l \<Rightarrow> l # ls1)"
    using Cons.prems(3) by (auto simp: d split: prod.splits option.splits)
  from Cons.IH [OF w1(2,3) rest(1)] w1(1) d rest(2) show ?case
    by (auto simp: bytes_read_def Let_def split: option.splits)
qed auto

end

section \<open>The driver provides the interface\<close>

text \<open>
  The device of the driver: \<open>alloc\<close> is the address \<^verbatim>\<open>kmalloc\<close> returns in a state, \<open>g\<close> what the memory there holds, \<open>naps\<close>
  what happens while a read sleeps.
\<close>

definition driver_dev ::
    "('c, 'p) env \<Rightarrow> (('c, 'p) driver \<Rightarrow> nat) \<Rightarrow> file_state \<Rightarrow> (('c, 'p) driver \<Rightarrow> ('c, 'p) nap list) \<Rightarrow> ('c, 'p) driver dev" where
  "driver_dev E alloc g naps =
     \<lparr>dev_open = (\<lambda>s. can_open (alloc s) g s),
      dev_ioctl = (\<lambda>f c v s.
        case can_ioctl E c (Some v) True f s of
          None \<Rightarrow> None
        | Some (Inl e, t) \<Rightarrow> Some (Inl e, t)
        | Some (Inr None, t) \<Rightarrow> Some (Inr v, t)
        | Some (Inr (Some x), t) \<Rightarrow> Some (Inr (word_of_int x), t)),
      dev_read = (\<lambda>f s.
        case can_read False (\<lambda>_. False) PKTSIZE (naps s) f s of
          None \<Rightarrow> None
        | Some (Inl e, _, t) \<Rightarrow> Some (Inl e, t)
        | Some (Inr _, ps, t) \<Rightarrow> Some (Inr ps, t)),
      dev_close = (\<lambda>f s. can_release E f s)\<rparr>"

definition kmalloc_ok :: "(('c, 'p) driver \<Rightarrow> nat) \<Rightarrow> bool" where
  "kmalloc_ok alloc \<longleftrightarrow> (\<forall>s. driver_inv s \<longrightarrow> alloc s \<noteq> 0 \<and> fstates s (alloc s) = None)"

definition dev_ok :: "(('c, 'p) driver \<Rightarrow> nat) \<Rightarrow> ('c, 'p) driver \<Rightarrow> bool" where
  "dev_ok alloc s \<longleftrightarrow> kmalloc_ok alloc \<and> driver_inv s \<and> can_usecount s < 256"

definition dev_live :: "(('c, 'p) driver \<Rightarrow> nat) \<Rightarrow> nat \<Rightarrow> ('c, 'p) driver \<Rightarrow> bool" where
  "dev_live alloc f s \<longleftrightarrow> kmalloc_ok alloc \<and> driver_inv s \<and> fstates s f \<noteq> None"

definition file_queue :: "nat \<Rightarrow> ('c, 'p) driver \<Rightarrow> can_packet list" where
  "file_queue f s = (case fstates s f of None \<Rightarrow> [] | Some fs \<Rightarrow> ring_list (fs_inq fs))"

lemma usecount_le: assumes "driver_inv s" shows "can_usecount s \<le> 256"
proof -
  have "used (openfd s) \<subseteq> {..<CAN_MAX_USECOUNT}" by (auto simp: used_def)
  then have "card (used (openfd s)) \<le> 256" using card_mono [OF finite_lessThan] by (fastforce simp: CAN_MAX_USECOUNT_def)
  with assms card_used [of s] show ?thesis by (simp add: driver_inv_def)
qed

lemma can_init_keeps [simp]:
  "fstates (snd (can_init_82c200 E p s)) = fstates s" "can_hb_val (snd (can_init_82c200 E p s)) = can_hb_val s" for s :: "('c, 'p) driver"
  using init_82c200_frame [of E p s] by auto

lemma ioctl_keeps_file:
  assumes "driver_inv s" "fstates s f \<noteq> None"
  shows "\<exists>r t. can_ioctl E c x ok f s = Some (r, t) \<and> driver_inv t \<and> fstates t f \<noteq> None"
proof (cases "c = CAN_GET_CONSOBJ")
  case True
  with assms get_consobj_spec [OF assms(1), of f _ E x ok] show ?thesis by blast
next
  case False
  obtain fs where fs: "fstates s f = Some fs" using assms(2) by auto
  have "\<exists>r t. can_ioctl E c x ok f s = Some (r, t) \<and> fstates t f \<noteq> None"
    using False fs
    by (cases c) (auto simp: can_ioctl_def Let_def set_fs_def canobj_sethbval_def can_dump_info_def cancon_dump_info_def
        cancon_dump_debug_def kcall_def split: option.splits)
  with inv_ioctl [OF assms(1) fs] show ?thesis by blast
qed

lemma release_live:
  assumes "driver_inv s" "fstates s f \<noteq> None"
  shows "\<exists>t. can_release E f s = Some t \<and> driver_inv t \<and> can_usecount t = can_usecount s - 1 \<and> can_hb_val t = can_hb_val s"
proof -
  obtain fs where fs: "fstates s f = Some fs" using assms(2) by auto
  obtain i where i: "find_openfd f s = Some i" using inv_slot [OF assms(1) fs] by blast
  then obtain t where t: "can_release E f s = Some t"
    using fs by (simp add: can_release_def can_release_openfd_def Let_def)
  moreover have "can_usecount t = can_usecount s - 1 \<and> can_hb_val t = can_hb_val s"
  proof -
    obtain c b n R where "t = s\<lparr>consobj_reserved := R, promiscuous_usecount := n, reg := c, first_time := b,
        fstates := (fstates s)(f := None), openfd := (openfd s)(i := 0),
        can_usecount := can_usecount s - 1, mod_usecount := mod_usecount s - 1\<rparr>"
      using can_release_cases [OF t i fs] free_held_frame [of fs s] by fastforce
    then show ?thesis by simp
  qed
  ultimately show ?thesis using inv_release [OF assms(1) fs] by blast
qed

interpretation dev: can_device "driver_dev E alloc g naps" "dev_ok alloc" "dev_live alloc"
proof
  fix w :: "('a, 'b) driver" assume ok: "dev_ok alloc w"
  then have "find_openfd 0 w \<noteq> None" "alloc w \<noteq> 0" "fstates w (alloc w) = None"
    using find_free_iff [of w] by (auto simp: dev_ok_def kmalloc_ok_def)
  then obtain t where t: "can_open (alloc w) g w = Some (Inr (alloc w), t)" "fstates t (alloc w) \<noteq> None"
    by (auto simp: can_open_def can_alloc_openfd_def Let_def)
  moreover have "driver_inv t" using inv_open [OF _ _ t(1)] ok by (auto simp: dev_ok_def kmalloc_ok_def)
  ultimately show "\<exists>f t. dev_open (driver_dev E alloc g naps) w = Some (Inr f, t) \<and> dev_live alloc f t"
    using ok by (auto simp: driver_dev_def dev_live_def dev_ok_def)
next
  fix f c v and w :: "('a, 'b) driver" assume "dev_live alloc f w"
  then show "\<exists>r t. dev_ioctl (driver_dev E alloc g naps) f c v w = Some (r, t) \<and> dev_live alloc f t"
    using ioctl_keeps_file [of w f E c "Some v" True]
    by (auto simp: driver_dev_def dev_live_def split: sum.splits option.splits)
next
  fix f and w :: "('a, 'b) driver" assume "dev_live alloc f w"
  then show "\<exists>t. dev_close (driver_dev E alloc g naps) f w = Some t \<and> dev_ok alloc t"
    using release_live [of w f E] usecount_le [of w] by (auto simp: driver_dev_def dev_live_def dev_ok_def)
qed

interpretation hbdev: hb_device "driver_dev E alloc g naps" "dev_ok alloc" "dev_live alloc" can_hb_val
proof
  fix f t and w :: "('a, 'b) driver" assume "dev_open (driver_dev E alloc g naps) w = Some (Inr f, t)"
  then have "can_open (alloc w) g w = Some (Inr f, t)" by (simp add: driver_dev_def)
  then show "can_hb_val t = can_hb_val w" by (rule can_open_cases) simp_all
next
  fix f v and w :: "('a, 'b) driver" assume "dev_live alloc f w"
  then show "dev_ioctl (driver_dev E alloc g naps) f CAN_GET_HEARTBEAT v w = Some (Inr (can_hb_val w), w)"
    by (simp add: driver_dev_def can_ioctl_def to_user_def canobj_gethbval_def)
next
  fix f v r t and w :: "('a, 'b) driver"
  assume "dev_live alloc f w" "dev_ioctl (driver_dev E alloc g naps) f CAN_SET_HEARTBEAT v w = Some (r, t)"
  then show "r = Inr v \<and> can_hb_val t = v" by (auto simp: driver_dev_def can_ioctl_def canobj_sethbval_def)
next
  fix f t and w :: "('a, 'b) driver"
  assume "dev_live alloc f w" "dev_close (driver_dev E alloc g naps) f w = Some t"
  then show "can_hb_val t = can_hb_val w" using release_live [of w f E] by (auto simp: driver_dev_def dev_live_def)
qed

interpretation snoopdev: snoop_device "driver_dev E alloc g naps" "dev_ok alloc" "dev_live alloc" file_queue
proof
  fix f p ps and w :: "('a, 'b) driver"
  assume l: "dev_live alloc f w" and q: "file_queue f w = p # ps"
  then obtain fs where fs: "fstates w f = Some fs" "ring_list (fs_inq fs) = p # ps"
    by (auto simp: dev_live_def file_queue_def)
  have inv: "driver_inv w" using l by (simp add: dev_live_def)
  obtain r where r: "can_read False (\<lambda>_. False) PKTSIZE (naps w) f w =
      Some (Inr PKTSIZE, [p], set_fs f (fs\<lparr>fs_inq := r\<rparr>) w)" "ring_wf r" "ring_list r = ps"
    using read_returns_fifo [OF inv fs(1), of "\<lambda>_. False" PKTSIZE False "naps w"] fs(2) by (auto simp: PKTSIZE_def)
  moreover have "driver_inv (set_fs f (fs\<lparr>fs_inq := r\<rparr>) w)"
    by (rule inv_set_fs [OF inv fs(1)]) (use r(2) in simp_all)
  ultimately show "\<exists>t. dev_read (driver_dev E alloc g naps) f w = Some (Inr [p], t) \<and> dev_live alloc f t \<and> file_queue f t = ps"
    using l by (auto simp: driver_dev_def dev_live_def file_queue_def set_fs_def)
qed

section \<open>Setting and showing the heartbeat\<close>

lemma usage_names_eq: "i + n = 32 \<Longrightarrow> usage_names i n = drop i hb_names"
proof (induction n arbitrary: i)
  case 0
  then show ?case by (simp add: hbstr_shape)
next
  case (Suc n)
  have "can_hb2str (push_bit 2 (of_nat i)) = (if i < 21 then Some (hb_names ! i) else None)"
    using hb2str_eq [of i] Suc.prems by (simp add: STATUS_TO_HB_def)
  then show ?case
    using Suc.IH [of "Suc i"] Suc.prems by (auto simp: hbstr_shape Cons_nth_drop_Suc)
qed

text \<open>
  On a driver with a free file, \<^verbatim>\<open>canhb\<close> with the name of a heartbeat state, in any mixture of upper and
  lower case, stores the value of that state, and \<^verbatim>\<open>canhb\<close> without argument then prints that name; any other
  argument prints the names of all states and changes nothing. All three leave the device usable.
\<close>

theorem canhb_set_show:
  assumes "dev_ok alloc s" "st < 21" "strcaseeq str (hb_names ! st)" "can_str2hb other = None"
  shows "(\<exists>t u. canhb (driver_dev E alloc g naps) v [str] s = Some (0, [], t) \<and> can_hb_val t = STATUS_TO_HB st
            \<and> canhb (driver_dev E alloc g naps) v' [] t = Some (0, [HeartbeatIs (hb_names ! st)], u)
            \<and> can_hb_val u = STATUS_TO_HB st \<and> dev_ok alloc u)
    \<and> (\<exists>t. canhb (driver_dev E alloc g naps) v [other] s = Some (1, [ToolUsage hb_names], t)
          \<and> can_hb_val t = can_hb_val s \<and> dev_ok alloc t)"
proof -
  obtain t where t: "canhb (driver_dev E alloc g naps) v [str] s = Some (0, [], t)" "dev_ok alloc t"
      "can_hb_val t = STATUS_TO_HB st"
    using hbdev.canhb_set [OF assms(1) str2hb_eq [OF assms(2,3)]] by blast
  have "can_hb2str (can_hb_val t) = Some (hb_names ! st)" using hb2str_eq [of st] assms(2) by (simp add: t(3))
  with hbdev.canhb_show [OF t(2), of E g naps v']
  obtain u where "canhb (driver_dev E alloc g naps) v' [] t = Some (0, [HeartbeatIs (hb_names ! st)], u)"
      "dev_ok alloc u" "can_hb_val u = can_hb_val t" by auto
  moreover have "usage_names 0 0x20 = hb_names" using usage_names_eq [of 0 32] by simp
  ultimately show ?thesis
    using t hbdev.canhb_usage [OF assms(1), of "[other]" E g naps v] assms(4) by auto
qed

definition first_free :: "('c, 'p) driver \<Rightarrow> nat" where
  "first_free s = the (find (\<lambda>a. fstates s a = None) [1..<258])"

lemma first_free_ok: "kmalloc_ok first_free"
  unfolding kmalloc_ok_def
proof (intro allI impI)
  fix s :: "('c, 'p) driver" assume inv: "driver_inv s"
  have fin: "finite (dom (fstates s))" using inv by (simp add: driver_inv_def fd_wf_def)
  have "int (card (dom (fstates s))) = can_usecount s" using inv by (simp add: driver_inv_def fd_wf_def)
  with usecount_le [OF inv] have "card (dom (fstates s)) < card {1..<258::nat}" by simp
  then have "\<not> {1..<258} \<subseteq> dom (fstates s)" using card_mono [OF fin] by (metis leD)
  then obtain a where "find (\<lambda>a. fstates s a = None) [1..<258] = Some a"
    by (cases "find (\<lambda>a. fstates s a = None) [1..<258]") (auto simp: find_None_iff)
  moreover from this have "a \<in> {1..<258}" "fstates s a = None" by (auto simp: find_Some_iff)
  ultimately show "first_free s \<noteq> 0 \<and> fstates s (first_free s) = None" by (simp add: first_free_def)
qed

lemma idle_dev_ok: "dev_ok first_free idle"
  using idle_inv first_free_ok by (simp add: dev_ok_def idle_def cold_def)

theorem canhb_set_show_witness:
  "\<exists>t. canhb (driver_dev regs_env first_free fresh_file (\<lambda>_. [])) 0 [''at OK''] idle = Some (0, [], t)
     \<and> can_hb_val t = 4"
proof -
  have "hb_names ! 1 = ''at OK''" "can_str2hb [] = None"
    by (simp_all add: hb_names_def can_str2hb_def hbstr_def HB_NUMSTATES_def strcaseeq_def numeral_eq_Suc)
  with canhb_set_show [OF idle_dev_ok, of 1 "''at OK''" "[]" regs_env fresh_file "\<lambda>_. []" 0 0]
  show ?thesis by (auto simp: strcaseeq_def STATUS_TO_HB_def)
qed

section \<open>What cansnoop prints\<close>

lemma hex_char_inj: "i < 16 \<Longrightarrow> j < 16 \<Longrightarrow> hex_char i = hex_char j \<Longrightarrow> i = j"
proof -
  assume "i < 16" "j < 16" "hex_char i = hex_char j"
  then have "(of_char (hex_char i) :: nat) = of_char (hex_char j)" by simp
  with \<open>i < 16\<close> \<open>j < 16\<close> show ?thesis by (auto simp: hex_char_def split: if_splits)
qed

lemma hex_char_blank: "i < 16 \<Longrightarrow> hex_char i \<noteq> CHR '' ''"
proof
  assume "i < 16" "hex_char i = CHR '' ''"
  then have "(of_char (hex_char i) :: nat) = of_char (CHR '' '')" by simp
  with \<open>i < 16\<close> show False by (auto simp: hex_char_def split: if_splits)
qed

lemma unat_u8: "unat (b :: u8) < 256"
  using unsigned_less [of b] by simp

lemma fmt_byte: "fmt_x 2 (unat (b :: u8)) = [hex_char (unat b div 16), hex_char (unat b mod 16)]"
proof -
  have "unat b div 16 < 16" using unat_u8 [of b] by simp
  then show ?thesis
    by (cases "unat b < 16")
      (simp_all add: fmt_x_def hex_digits.simps [of "unat b"] hex_digits.simps [of "unat b div 16"] hex_char_def char_of_def bit_numeral_rec bit_Suc_0_iff)
qed

definition hex_column :: "u8 list \<Rightarrow> string" where
  "hex_column bs = concat (map (\<lambda>b. fmt_x 2 (unat b) @ '' '') bs)"

lemma hex_column_simps [simp]:
  "hex_column [] = []"
  "hex_column (b # bs) = [hex_char (unat b div 16), hex_char (unat b mod 16), CHR '' ''] @ hex_column bs"
  "length (hex_column bs) = 3 * length bs"
  by (simp_all add: hex_column_def fmt_byte length_concat o_def sum_list_triv)

lemma hex_column_inj:
  "length bs \<le> n \<Longrightarrow> length cs \<le> n \<Longrightarrow>
   hex_column bs @ replicate (3 * (n - length bs)) CHR '' '' = hex_column cs @ replicate (3 * (n - length cs)) CHR '' '' \<Longrightarrow>
   bs = cs"
proof (induction bs arbitrary: cs n)
  case Nil
  then show ?case
  proof (cases cs)
    case (Cons c cs')
    then have "replicate (3 * n) CHR '' '' ! 0 = hex_char (unat c div 16)" using Nil.prems(2,3) by simp
    then show ?thesis using hex_char_blank [of "unat c div 16"] unat_u8 [of c] Cons Nil.prems(2) by (simp add: div_less_iff_less_mult)
  qed simp
next
  case (Cons b bs)
  have lt: "unat b div 16 < 16" "unat b mod 16 < 16" for b :: u8 using unat_u8 [of b] by auto
  show ?case
  proof (cases cs)
    case Nil
    then have "replicate (3 * n) CHR '' '' ! 0 = hex_char (unat b div 16)" using Cons.prems(1,3) by (metis hex_column_simps(2) append_Cons append_Nil hex_column_simps(1) diff_zero list.size(3) nth_Cons_0)
    then show ?thesis using hex_char_blank [OF lt(1) [of b]] Cons.prems(1) by simp
  next
    case (Cons c ds)
    with Cons.prems have e: "hex_char (unat b div 16) = hex_char (unat c div 16)" "hex_char (unat b mod 16) = hex_char (unat c mod 16)"
      "hex_column bs @ replicate (3 * (n - 1 - length bs)) CHR '' '' = hex_column ds @ replicate (3 * (n - 1 - length ds)) CHR '' ''"
      by simp_all
    have "unat b div 16 = unat c div 16" "unat b mod 16 = unat c mod 16"
      using hex_char_inj [OF lt(1) lt(1) e(1)] hex_char_inj [OF lt(2) lt(2) e(2)] by simp_all
    then have "unat b = unat c" by (metis div_mult_mod_eq)
    moreover have "bs = ds" using Cons.IH [OF _ _ e(3)] Cons.prems(1,2) Cons by simp
    ultimately show ?thesis using Cons by (simp add: word_unat_eq_iff)
  qed
qed

lemma snoop_data_eq:
  assumes "length bs \<le> 4"
  shows "snoop_data bs = ''  '' @ (hex_column bs @ replicate (3 * (4 - length bs)) CHR '' '') @ fmt_s 4 (map CHR_of bs)"
proof (cases "length bs = 4")
  case True
  then obtain a b c d where "bs = [a, b, c, d]" by (auto simp: length_Suc_conv eval_nat_numeral)
  then have "take 11 (hex_column bs) @ [CHR '' ''] = hex_column bs" by simp
  with True show ?thesis by (simp add: snoop_data_def hex_column_def [symmetric] fmt_s_def)
next
  case False
  then have "length bs \<le> 3" using assms by simp
  moreover have "replicate (11 - 3 * length bs) CHR '' '' @ [CHR '' ''] = replicate (3 * (4 - length bs)) CHR '' ''"
    using calculation by (simp add: replicate_append_same flip: replicate_Suc)
  ultimately show ?thesis by (simp add: snoop_data_def hex_column_def [symmetric] fmt_s_def)
qed

lemma snoop_data_inj:
  assumes "length bs \<le> 4" "length cs \<le> 4" "snoop_data bs = snoop_data cs"
  shows "bs = cs"
proof (rule hex_column_inj [OF assms(1,2)])
  have "length (hex_column xs @ replicate (3 * (4 - length xs)) CHR '' '') = 12" if "length xs \<le> 4" for xs :: "u8 list"
    using that by simp
  with assms show "hex_column bs @ replicate (3 * (4 - length bs)) CHR '' '' = hex_column cs @ replicate (3 * (4 - length cs)) CHR '' ''"
    unfolding snoop_data_eq [OF assms(1)] snoop_data_eq [OF assms(2)] by (metis append_eq_append_conv same_append_eq)
qed

text \<open>The packets \<^verbatim>\<open>cansnoop\<close> shows, their payload, and the files of names being readable for them.\<close>

definition shown :: "bool \<Rightarrow> can_packet \<Rightarrow> bool" where
  "shown nh p \<longleftrightarrow> \<not> (nh \<and> object (ext p) = CANOBJ_HEARTBEAT)"

definition payload :: "can_packet \<Rightarrow> u8 list" where
  "payload p = map (byte_of (dat p)) [0..<unat (clength (can p)) - 4]"

definition names_ok :: "string option \<Rightarrow> string option \<Rightarrow> can_packet \<Rightarrow> bool" where
  "names_ok hosts objs p \<longleftrightarrow>
     (\<exists>ch. can_gethostbyaddr hosts (uint (cluster (ext p))) (uint (module (ext p))) (uint (node (ext p))) = Inr ch)
     \<and> (\<exists>ob. obj_to_str objs (ctype (ext p)) (object (ext p)) = Inr ob)"

definition good_pkt :: "string option \<Rightarrow> string option \<Rightarrow> can_packet \<Rightarrow> bool" where
  "good_pkt hosts objs p \<longleftrightarrow>
     timestamp p \<noteq> 0 \<and> 4 \<le> unat (clength (can p)) \<and> unat (clength (can p)) \<le> 8 \<and> names_ok hosts objs p"

definition line_for :: "u32 \<Rightarrow> can_packet \<Rightarrow> snoop_line \<Rightarrow> bool" where
  "line_for t0 p l \<longleftrightarrow> fst l = timestamp p - t0 \<and> (\<exists>names. snd l = snoop_header p @ names @ snoop_data (payload p))"

lemma decode_good:
  assumes "good_pkt hosts objs p" "shown nh p" "last_stamp st \<le> timestamp p" "first_stamp st = 0 \<or> first_stamp st = t0"
    and "first_stamp st = 0 \<Longrightarrow> timestamp p = t0"
  shows "\<exists>l. decode hosts objs nh p st = Inr (Some l, \<lparr>last_stamp = timestamp p, first_stamp = t0\<rparr>) \<and> line_for t0 p l"
proof -
  have st: "(if first_stamp st = 0 then st\<lparr>first_stamp := timestamp p\<rparr> else st)\<lparr>last_stamp := timestamp p\<rparr>
      = \<lparr>last_stamp = timestamp p, first_stamp = t0\<rparr>"
    "first_stamp (if first_stamp st = 0 then st\<lparr>first_stamp := timestamp p\<rparr> else st) = t0"
    "last_stamp (if first_stamp st = 0 then st\<lparr>first_stamp := timestamp p\<rparr> else st) = last_stamp st"
    using assms(4,5) by (cases st; auto)+
  obtain ch ob where n: "can_gethostbyaddr hosts (uint (cluster (ext p))) (uint (module (ext p))) (uint (node (ext p))) = Inr ch"
      "obj_to_str objs (ctype (ext p)) (object (ext p)) = Inr ob"
    using assms(1) by (auto simp: good_pkt_def names_ok_def)
  have d: "decode hosts objs nh p st =
      Inr (Some (timestamp p - t0, snoop_header p @ (fmt_s 3 (can_type2str (uint (ctype (ext p)))) @ '' '' @
         snoop_host p ch @ fmt_s 12 ob) @ snoop_data (payload p)), \<lparr>last_stamp = timestamp p, first_stamp = t0\<rparr>)"
    using assms(1-3) n by (simp add: decode_def Let_def st good_pkt_def shown_def payload_def)
  show ?thesis unfolding d line_for_def by auto
qed

lemma decode_hidden: "\<not> shown nh p \<Longrightarrow> decode hosts objs nh p st = Inr (None, st)"
  by (simp add: decode_def shown_def)

lemma decode_all_good:
  "\<forall>p \<in> set ps. good_pkt hosts objs p \<Longrightarrow> sorted (map timestamp ps) \<Longrightarrow> \<forall>p \<in> set ps. last_stamp st \<le> timestamp p \<Longrightarrow>
   first_stamp st = 0 \<or> first_stamp st = t0 \<Longrightarrow>
   (\<And>p qs. first_stamp st = 0 \<Longrightarrow> filter (shown nh) ps = p # qs \<Longrightarrow> timestamp p = t0) \<Longrightarrow>
   \<exists>ls st'. decode_all hosts objs nh ps st = (ls, Inr st') \<and> list_all2 (line_for t0) (filter (shown nh) ps) ls"
proof (induction ps arbitrary: st)
  case (Cons p ps)
  show ?case
  proof (cases "shown nh p")
    case True
    obtain l where l: "decode hosts objs nh p st = Inr (Some l, \<lparr>last_stamp = timestamp p, first_stamp = t0\<rparr>)" "line_for t0 p l"
      using decode_good [of hosts objs p nh st t0] True Cons.prems by auto
    obtain ls st' where "decode_all hosts objs nh ps \<lparr>last_stamp = timestamp p, first_stamp = t0\<rparr> = (ls, Inr st')"
        "list_all2 (line_for t0) (filter (shown nh) ps) ls"
    proof -
      have "timestamp p \<noteq> 0" using Cons.prems(1) by (simp add: good_pkt_def)
      then have "t0 \<noteq> 0" using Cons.prems(4) Cons.prems(5) [of p] True by auto
      then show ?thesis using that Cons.IH [of "\<lparr>last_stamp = timestamp p, first_stamp = t0\<rparr>"] Cons.prems(1,2) by auto
    qed
    with True l show ?thesis by simp
  next
    case False
    obtain ls st' where "decode_all hosts objs nh ps st = (ls, Inr st')" "list_all2 (line_for t0) (filter (shown nh) ps) ls"
      using Cons.IH [of st] Cons.prems(1-4) Cons.prems(5) False by auto
    with False show ?thesis by (simp add: decode_hidden)
  qed
qed simp

text \<open>
  C36 (cansnoop_prints_queue): the program \<^verbatim>\<open>cansnoop\<close>, reading a file that holds the packets \<open>ps\<close>, prints, in their order, one line for each of
  them, heartbeats left out if so asked: with the time since the first packet shown, source, destination and payload. (The manual page says that the time is that since \<^verbatim>\<open>cansnoop\<close> was started;
  the program takes the time stamp of the first packet it shows for zero.) The data column
  tells different payloads apart. This needs packets of proper length (4 to 8) with time stamps that are not zero and do not decrease, and host and object tables in which the
  search for the packets' names does not fail.
\<close>

theorem cansnoop_prints_queue:
  assumes "dev_live alloc f s" "file_queue f s = ps @ qs" "\<forall>p \<in> set ps. good_pkt hosts objs p" "sorted (map timestamp ps)"
    and "filter (shown nh) ps = p0 # rest"
  shows "(\<exists>ls st t. snoop_loop (length ps) (driver_dev E alloc g naps) hosts objs nh f \<lparr>last_stamp = 0, first_stamp = 0\<rparr> s
            = (ls, SnoopMore, st, t)
          \<and> list_all2 (line_for (timestamp p0)) (filter (shown nh) ps) ls \<and> dev_live alloc f t \<and> file_queue f t = qs)
    \<and> (\<forall>p \<in> set ps. \<forall>q \<in> set ps. snoop_data (payload p) = snoop_data (payload q) \<longrightarrow> payload p = payload q)"
proof -
  obtain ls st where d: "decode_all hosts objs nh ps \<lparr>last_stamp = 0, first_stamp = 0\<rparr> = (ls, Inr st)"
      "list_all2 (line_for (timestamp p0)) (filter (shown nh) ps) ls"
  proof -
    have "\<exists>ls st. decode_all hosts objs nh ps \<lparr>last_stamp = 0, first_stamp = 0\<rparr> = (ls, Inr st)
        \<and> list_all2 (line_for (timestamp p0)) (filter (shown nh) ps) ls"
      by (rule decode_all_good [OF assms(3,4)]) (simp_all add: assms(5))
    then show ?thesis using that by blast
  qed
  moreover have "length (payload p) \<le> 4" if "p \<in> set ps" for p
    using assms(3) that by (auto simp: payload_def good_pkt_def)
  ultimately have "payload p = payload q"
    if "p \<in> set ps" "q \<in> set ps" "snoop_data (payload p) = snoop_data (payload q)" for p q
    using that by (intro snoop_data_inj) simp_all
  moreover obtain t where "snoop_loop (length ps) (driver_dev E alloc g naps) hosts objs nh f \<lparr>last_stamp = 0, first_stamp = 0\<rparr> s
      = (ls, SnoopMore, st, t)" "dev_live alloc f t" "file_queue f t = qs"
    using snoopdev.snoop_reads [OF assms(1,2) d(1), of E g naps] by blast
  ultimately show ?thesis using d(2) by auto
qed

definition snooped :: "can_packet list" where
  "snooped = [no_pkt\<lparr>timestamp := 5\<rparr>, no_pkt\<lparr>timestamp := 7, can := (can no_pkt)\<lparr>clength := 8\<rparr>, dat := 0x41424344\<rparr>]"

definition snoop_file :: file_state where
  "snoop_file = fresh_file\<lparr>fs_inq := pkt_ring\<lparr>buf := (\<lambda>i. if i = 0 then snooped ! 0 else snooped ! 1), head := 2\<rparr>\<rparr>"

theorem cansnoop_prints_queue_witness:
  "\<exists>t. (\<exists>ls st. snoop_loop 2 (driver_dev regs_env first_free fresh_file (\<lambda>_. [])) None None False 8
      \<lparr>last_stamp = 0, first_stamp = 0\<rparr> (set_fs 8 snoop_file one_file) = (ls, SnoopMore, st, t)
      \<and> list_all2 (line_for 5) snooped ls) \<and> file_queue 8 t = []"
proof -
  have wf: "ring_wf (fs_inq snoop_file)" "ring_list (fs_inq snoop_file) = snooped"
    by (simp_all add: snoop_file_def pkt_ring_def ring_wf_def ring_list_def cdist_def MAXRING_def snooped_def numeral_2_eq_2)
  have o: "fstates one_file 8 = Some fresh_file" by (simp add: one_file_def)
  have "driver_inv (set_fs 8 snoop_file one_file)"
    by (rule inv_set_fs [OF one_file_inv o]) (simp_all add: wf, simp add: snoop_file_def)
  then have l: "dev_live first_free 8 (set_fs 8 snoop_file one_file)"
    using first_free_ok by (simp add: dev_live_def set_fs_def)
  have q: "file_queue 8 (set_fs 8 snoop_file one_file) = snooped @ []" by (simp add: file_queue_def set_fs_def wf)
  have g: "\<forall>p \<in> set snooped. good_pkt None None p"
    by (auto simp: snooped_def good_pkt_def names_ok_def can_gethostbyaddr_def obj_to_str_def can_getobjbyid_def no_pkt_def Let_def)
  have "filter (shown False) snooped = snooped ! 0 # tl snooped" by (simp add: shown_def snooped_def)
  then have sh: "filter (shown False) snooped = snooped ! 0 # tl snooped" "filter (shown False) snooped = snooped"
    by (simp_all add: shown_def)
  have "length snooped = 2" "timestamp (snooped ! 0) = 5" "sorted (map timestamp snooped)" by (simp_all add: snooped_def)
  with cansnoop_prints_queue [OF l q g _ sh(1), of regs_env fresh_file "\<lambda>_. []"] show ?thesis
    unfolding sh(2) by auto
qed

lemma ring_to_user_count: "ring_to_user_loop fault i n r = (Inr k, out, r') \<Longrightarrow> k = i + length out \<and> length out \<le> n"
  by (induction fault i n r arbitrary: k out r' rule: ring_to_user_loop.induct)
    (auto split: option.splits prod.splits if_splits)

lemma read_count:
  "can_read_loop nb fault n naps f s = Some (Inr k, out, t) \<Longrightarrow> k = PKTSIZE * length out \<and> 0 < length out \<and> length out \<le> n"
proof (induction naps arbitrary: s)
  case Nil
  then show ?case
    by (subst (asm) can_read_loop.simps)
      (auto simp: Let_def ring_to_user_def split: option.splits prod.splits sum.splits if_splits dest: ring_to_user_count)
next
  case (Cons nap naps)
  obtain fs where fs: "fstates s f = Some fs"
    using Cons.prems by (subst (asm) can_read_loop.simps) (auto split: option.splits)
  obtain got o' r where r: "ring_to_user fault n (fs_inq fs) = (got, o', r)" by (cases "ring_to_user fault n (fs_inq fs)")
  show ?case
  proof (cases "got = Inr 0 \<and> \<not> nb")
    case True
    then show ?thesis
      using Cons.prems Cons.IH fs r
      by (subst (asm) can_read_loop.simps) (auto simp: Let_def split: prod.splits if_splits)
  next
    case False
    then show ?thesis
      using Cons.prems fs r ring_to_user_count [of fault 0 n "fs_inq fs"]
      by (subst (asm) can_read_loop.simps) (auto simp: Let_def ring_to_user_def split: sum.splits if_splits)
  qed
qed

lemma driver_read_size:
  assumes "dev_read (driver_dev E alloc g naps) f s = Some (Inr ps, t)"
  shows "length ps = 1"
proof -
  obtain k where "can_read_loop False (\<lambda>_. False) (PKTSIZE div PKTSIZE) (naps s) f s = Some (Inr k, ps, t)"
    using assms by (auto simp: driver_dev_def can_read_def simp del: can_read_loop.simps split: option.splits sum.splits)
  from read_count [OF this] have "0 < length ps" "length ps \<le> 1" by (simp_all add: PKTSIZE_def)
  then show ?thesis by linarith
qed

lemma driver_snoop_no_exit: "fst (snd (snoop_loop n (driver_dev E alloc g naps) hosts objs nh f st s)) \<noteq> SnoopExit k"
proof (induction n arbitrary: st s)
  case (Suc n)
  show ?case
  proof (cases "dev_read (driver_dev E alloc g naps) f s")
    case (Some rt)
    obtain r t where rt: "rt = (r, t)" by fastforce
    show ?thesis
    proof (cases r)
      case (Inr ps)
      then obtain p where "ps = [p]"
        using driver_read_size Some rt by (metis One_nat_def length_0_conv length_Suc_conv)
      then show ?thesis
        using Some rt Inr Suc.IH
        by (cases "decode hosts objs nh p st") (auto simp: bytes_read_def Let_def split_beta split: option.split)
    qed (simp add: Some rt bytes_read_def Let_def)
  qed simp
qed simp

text \<open>
  A read that fails makes \<^verbatim>\<open>cansnoop\<close> abort: the result -1 is divided as an unsigned number, and the
  assertion on the remainder fails. On the driver, whose reads return a packet or fail, the loop therefore never reaches the exit after
  it, however often it reads.
\<close>

theorem cansnoop_ends:
  "(\<forall>e t. dev_read D f w = Some (Inl e, t) \<longrightarrow>
      snoop_loop (Suc n) D hosts objs nh f st w = ([], SnoopAbort AssertFail, st, t))
   \<and> fst (snd (cansnoop n (driver_dev E alloc g naps) hosts objs argv s)) \<noteq> SnoopExit k"
proof -
  have args: "fst (snoop_args (driver_dev E alloc g naps) f as nh s) \<noteq> Inl (SnoopExit k)" for f as nh s
    by (induction "driver_dev E alloc g naps" f as nh s rule: snoop_args.induct) (auto split: option.splits)
  have "fst (snd (cansnoop n (driver_dev E alloc g naps) hosts objs argv s)) \<noteq> SnoopExit k"
  proof (cases "dev_open (driver_dev E alloc g naps) s")
    case (Some rt)
    obtain r t where rt: "rt = (r, t)" by fastforce
    show ?thesis
    proof (cases r)
      case (Inr f)
      show ?thesis
      proof (cases "dev_ioctl (driver_dev E alloc g naps) f CAN_SET_SNOOPY 0 t")
        case (Some ru)
        obtain r' u where ru: "ru = (r', u)" by fastforce
        obtain a v where av: "snoop_args (driver_dev E alloc g naps) f argv False u = (a, v)" by fastforce
        have "a \<noteq> Inl (SnoopExit k)" using args [of f argv False u] av by simp
        with Some ru av \<open>dev_open _ _ = _\<close> rt Inr driver_snoop_no_exit show ?thesis
          by (cases r'; cases a) (simp_all add: cansnoop_def Let_def)
      qed (simp add: \<open>dev_open _ _ = _\<close> rt Inr cansnoop_def Let_def)
    qed (simp add: Some rt cansnoop_def Let_def)
  qed (simp add: cansnoop_def Let_def)
  then show ?thesis by (simp add: bytes_read_def Let_def)
qed

theorem cansnoop_ends_witness:
  "snoop_loop 1 (driver_dev regs_env first_free fresh_file (\<lambda>_. [\<lambda>s. (s, True)])) None None False 8
     \<lparr>last_stamp = 0, first_stamp = 0\<rparr> one_file = ([], SnoopAbort AssertFail, \<lparr>last_stamp = 0, first_stamp = 0\<rparr>, one_file)"
proof -
  have "can_read False (\<lambda>_. False) PKTSIZE [\<lambda>s. (s, True)] 8 one_file = Some (Inl EINTR, [], one_file)"
    using read_returns_fifo [OF one_file_inv one_file_state, of "\<lambda>_. False" PKTSIZE False "[\<lambda>s. (s, True)]"]
    by (simp add: fresh_file_def)
  then have "dev_read (driver_dev regs_env first_free fresh_file (\<lambda>_. [\<lambda>s. (s, True)])) 8 one_file = Some (Inl EINTR, one_file)"
    by (simp add: driver_dev_def)
  with cansnoop_ends [THEN conjunct1, rule_format] show ?thesis by (simp add: One_nat_def del: snoop_loop.simps)
qed

end
