(* ===== verification/CanconThreads.thy ===== *)
theory CanconThreads
  imports CanconNet Tools
begin

text \<open>
  The console program as a process (\<^verbatim>\<open>main\<close>, \<^verbatim>\<open>disconnect\<close> and the terminal modes of \<^verbatim>\<open>cmd/cancon.c\<close>): its start, its threads, the signals, and
  how it ends. A step of a thread is one round of its loop (theory \<open>Cancon\<close>); what the other threads hand it while it waits is in the environment of the
  round, as there.

  \<^verbatim>\<open>pthread_kill\<close> to a thread that does not run yet, or no longer, does nothing. A signal that the program does not handle has its default
  action, which for \<^verbatim>\<open>SIGTERM\<close>, \<^verbatim>\<open>SIGINT\<close> and \<^verbatim>\<open>SIGHUP\<close> is to end the process, whichever thread it is sent to.
\<close>

section \<open>Terminal modes\<close>

record 'f termios =
  c_flags :: 'f
  cc_vmin :: u8
  cc_vtime :: u8

text \<open>A descriptor that is not a terminal has no mode. \<open>cfmakeraw\<close> is the library's function on the flags.\<close>

record 'f ttys =
  tty_mode :: "nat \<Rightarrow> 'f termios option"
  tty_saved :: "nat \<Rightarrow> 'f termios"

definition MAXFD :: nat where "MAXFD = 8"

definition set_tty_mode :: "('f \<Rightarrow> 'f) \<Rightarrow> nat \<Rightarrow> bool \<Rightarrow> 'f ttys \<Rightarrow> lib_error + 'f ttys" where
  "set_tty_mode cfmakeraw fd raw t =
     (case tty_mode t fd of
        None \<Rightarrow> Inr t
      | Some m \<Rightarrow>
          if \<not> fd < MAXFD then Inl AssertFail
          else if raw
          then Inr (t\<lparr>tty_saved := (tty_saved t)(fd := m),
                      tty_mode := (tty_mode t)(fd \<mapsto> m\<lparr>c_flags := cfmakeraw (c_flags m), cc_vmin := 4, cc_vtime := 1\<rparr>)\<rparr>)
          else Inr (t\<lparr>tty_mode := (tty_mode t)(fd \<mapsto> tty_saved t fd)\<rparr>))"

section \<open>Names of addresses\<close>

text \<open>A failed look-up leaves the name empty; \<open>ch\<close> is the variable before the call.\<close>

definition can_gethostbyext :: "string option \<Rightarrow> can_header_ext \<Rightarrow> canhostname \<Rightarrow> lib_error + int \<times> canhostname" where
  "can_gethostbyext hosts x ch =
     (case can_gethostbyaddr hosts (uint (cluster x)) (uint (module x)) (uint (node x)) of
        Inl e \<Rightarrow> Inl e
      | Inr None \<Rightarrow> Inr (-1, ch\<lparr>hostname := []\<rparr>)
      | Inr (Some ch) \<Rightarrow> Inr (0, ch))"

definition extaddr_to_str :: "string option \<Rightarrow> can_header_ext \<Rightarrow> canhostname \<Rightarrow> lib_error + string" where
  "extaddr_to_str hosts x ch =
     (case can_gethostbyext hosts x ch of
        Inl e \<Rightarrow> Inl e
      | Inr (_, ch) \<Rightarrow>
          (let s = hostname ch @ '' ('' @ fmt_x 2 (unat (cluster x)) @ '','' @ fmt_x 2 (unat (module x)) @ '','' @
                   fmt_x 2 (unat (node x)) @ '')''
           in if length s < 255 then Inr s else Inl BufferOverflow))"

section \<open>Start\<close>

text \<open>
  \<^verbatim>\<open>main\<close> up to the first thread: \<open>addr\<close> and \<open>cons\<close> are what the two ioctls return, \<open>None\<close> on failure. A left result is the exit status with the
  name the message shows, which for an unknown host is the first argument.
\<close>

datatype cc_stop = CcUsage | CcNoReset | CcNoDevice | CcNoAddr | CcNoConsobj | CcUnknownHost string

definition f_opt :: "char \<Rightarrow> bool option" where
  "f_opt c = (if c = CHR ''f'' then Some False else None)"

definition cancon_start ::
    "string option \<Rightarrow> string option \<Rightarrow> bool \<Rightarrow> u32 option \<Rightarrow> int option \<Rightarrow> string list \<Rightarrow> 'w cancon \<Rightarrow>
     lib_error + ((int \<times> cc_stop) + 'w cancon)" where
  "cancon_start objs hosts can_ok addr cons argv s =
     (case getopt f_opt argv of (os, operands) \<Rightarrow>
        if BadOpt \<in> set os \<or> length operands \<noteq> 1 then Inr (Inl (1, CcUsage))
        else (case can_getobjbyname objs ''RESET'' of
                Inl e \<Rightarrow> Inl e
              | Inr None \<Rightarrow> Inr (Inl (1, CcNoReset))
              | Inr (Some obj) \<Rightarrow>
                  if \<not> can_ok then Inr (Inl (1, CcNoDevice))
                  else (case addr of
                          None \<Rightarrow> Inr (Inl (-1, CcNoAddr))
                        | Some i \<Rightarrow>
                  (case cons of
                     None \<Rightarrow> Inr (Inl (-1, CcNoConsobj))
                   | Some c \<Rightarrow>
                  (case can_gethostbyname hosts (hd operands) of
                     Inl e \<Rightarrow> Inl e
                   | Inr None \<Rightarrow> Inr (Inl (1, CcUnknownHost (hd argv)))
                   | Inr (Some ch) \<Rightarrow>
                       Inr (Inr (s\<lparr>fopt := (os \<noteq> []), resetobj := obj, my_nodeid := i, my_consobj := c, target_ch := ch\<rparr>)))))))"

section \<open>Threads\<close>

datatype thread = NotStarted | Running | Ended

datatype main_pc =
  MakeReader | Connect | CatchInt | CatchHup | RawMode | MakeTty | MakeWriter | JoinTty | CookedMode | JoinWriter | JoinReader | ExitNow

datatype disc_pc = KillTty | KillWriter | SendDisconnect | KillReader | DiscDone

datatype sig = SIGINT | SIGHUP | SIGTERM

datatype proc_end = ExitStatus int | KilledBy sig | Aborted lib_error

record ('w, 'f) proc =
  pdata :: "'w cancon"
  main_at :: main_pc
  reader_th :: thread
  tty_th :: thread
  writer_th :: thread
  disc_ths :: "disc_pc list"
  ptty :: "'f ttys"
  caught :: "sig set"
  hist :: "u8 \<times> u8"
  said_goodbye :: bool
  pended :: "proc_end option"

text \<open>Threads that a round has started: \<^verbatim>\<open>start_disconnect\<close> counts in \<open>disconnects\<close>.\<close>

definition with_data :: "'w cancon \<Rightarrow> ('w, 'f) proc \<Rightarrow> ('w, 'f) proc" where
  "with_data d s = s\<lparr>pdata := d, disc_ths := disc_ths s @ replicate (disconnects d - disconnects (pdata s)) KillTty\<rparr>"

definition send_sigterm :: "thread \<Rightarrow> ('w, 'f) proc \<Rightarrow> ('w, 'f) proc" where
  "send_sigterm th s = (if th = Running then s\<lparr>pended := Some (KilledBy SIGTERM)\<rparr> else s)"

definition main_to :: "main_pc \<Rightarrow> ('w, 'f) proc \<Rightarrow> ('w, 'f) proc" where
  "main_to pc s = s\<lparr>main_at := pc\<rparr>"

definition xsignal :: "sig \<Rightarrow> ('w, 'f) proc \<Rightarrow> ('w, 'f) proc" where
  "xsignal sg s = s\<lparr>caught := insert sg (caught s)\<rparr>"

definition sighandler :: "('w, 'f) proc \<Rightarrow> ('w, 'f) proc" where
  "sighandler s = with_data (start_disconnect (pdata s)) s"

inductive proc_step :: "'w cc_env \<Rightarrow> nat \<Rightarrow> ('f \<Rightarrow> 'f) \<Rightarrow> ('w, 'f) proc \<Rightarrow> ('w, 'f) proc \<Rightarrow> bool" for C n raw where
  make_reader: "pended s = None \<Longrightarrow> main_at s = MakeReader \<Longrightarrow> proc_step C n raw s (main_to Connect (s\<lparr>reader_th := Running\<rparr>))"
| connected: "pended s = None \<Longrightarrow> main_at s = Connect \<Longrightarrow> connect_protocol C n (pdata s) = Ret (r, d) \<Longrightarrow> r \<noteq> -1 \<Longrightarrow>
    proc_step C n raw s (main_to CatchInt (with_data d s))"
| not_connected: "pended s = None \<Longrightarrow> main_at s = Connect \<Longrightarrow> connect_protocol C n (pdata s) = Ret (-1, d) \<Longrightarrow>
    proc_step C n raw s (main_to ExitNow (with_data d s))"
| catch_int: "pended s = None \<Longrightarrow> main_at s = CatchInt \<Longrightarrow> proc_step C n raw s (main_to CatchHup (xsignal SIGINT s))"
| catch_hup: "pended s = None \<Longrightarrow> main_at s = CatchHup \<Longrightarrow> proc_step C n raw s (main_to RawMode (xsignal SIGHUP s))"
| raw_mode: "pended s = None \<Longrightarrow> main_at s = RawMode \<Longrightarrow> set_tty_mode raw 0 True (ptty s) = Inr t \<Longrightarrow>
    proc_step C n raw s (main_to MakeTty (s\<lparr>ptty := t\<rparr>))"
| make_tty: "pended s = None \<Longrightarrow> main_at s = MakeTty \<Longrightarrow> proc_step C n raw s (main_to MakeWriter (s\<lparr>tty_th := Running, hist := tty_hist\<rparr>))"
| make_writer: "pended s = None \<Longrightarrow> main_at s = MakeWriter \<Longrightarrow> proc_step C n raw s (main_to JoinTty (s\<lparr>writer_th := Running\<rparr>))"
| join_tty: "pended s = None \<Longrightarrow> main_at s = JoinTty \<Longrightarrow> tty_th s = Ended \<Longrightarrow> proc_step C n raw s (main_to CookedMode s)"
| cooked_mode: "pended s = None \<Longrightarrow> main_at s = CookedMode \<Longrightarrow> set_tty_mode raw 0 False (ptty s) = Inr t \<Longrightarrow>
    proc_step C n raw s (main_to JoinWriter (s\<lparr>ptty := t\<rparr>))"
| join_writer: "pended s = None \<Longrightarrow> main_at s = JoinWriter \<Longrightarrow> writer_th s = Ended \<Longrightarrow> proc_step C n raw s (main_to JoinReader s)"
| join_reader: "pended s = None \<Longrightarrow> main_at s = JoinReader \<Longrightarrow> reader_th s = Ended \<Longrightarrow> proc_step C n raw s (main_to ExitNow s)"
| exit_now: "pended s = None \<Longrightarrow> main_at s = ExitNow \<Longrightarrow> proc_step C n raw s (s\<lparr>pended := Some (ExitStatus 0)\<rparr>)"
| reader_round: "pended s = None \<Longrightarrow> reader_th s = Running \<Longrightarrow> reader_iter C out ack (pdata s) = Ret (go, ack', d) \<Longrightarrow>
    proc_step C n raw s ((with_data d s)\<lparr>reader_th := (if go then Running else Ended)\<rparr>)"
| reader_fails: "pended s = None \<Longrightarrow> reader_th s = Running \<Longrightarrow> reader_iter C out ack (pdata s) = Fail e \<Longrightarrow>
    proc_step C n raw s (s\<lparr>pended := Some (Aborted e)\<rparr>)"
| tty_round: "pended s = None \<Longrightarrow> tty_th s = Running \<Longrightarrow> 0 < length cs \<Longrightarrow> length cs \<le> 4 \<Longrightarrow>
    tty_reader_iter C n cs (hist s) (pdata s) = Ret (h, d) \<Longrightarrow> proc_step C n raw s ((with_data d s)\<lparr>hist := h\<rparr>)"
| tty_fails: "pended s = None \<Longrightarrow> tty_th s = Running \<Longrightarrow> 0 < length cs \<Longrightarrow> length cs \<le> 4 \<Longrightarrow>
    tty_reader_iter C n cs (hist s) (pdata s) = Fail e \<Longrightarrow> proc_step C n raw s (s\<lparr>pended := Some (Aborted e)\<rparr>)"
| tty_eof: "pended s = None \<Longrightarrow> tty_th s = Running \<Longrightarrow> proc_step C n raw s (s\<lparr>tty_th := Ended\<rparr>)"
| writer_round: "pended s = None \<Longrightarrow> writer_th s = Running \<Longrightarrow> writer_iter C n (pdata s) = Ret d \<Longrightarrow> proc_step C n raw s (with_data d s)"
| writer_fails: "pended s = None \<Longrightarrow> writer_th s = Running \<Longrightarrow> writer_iter C n (pdata s) = Fail e \<Longrightarrow>
    proc_step C n raw s (s\<lparr>pended := Some (Aborted e)\<rparr>)"
| signal_caught: "pended s = None \<Longrightarrow> sg \<in> caught s \<Longrightarrow> proc_step C n raw s (sighandler s)"
| signal_kills: "pended s = None \<Longrightarrow> sg \<notin> caught s \<Longrightarrow> proc_step C n raw s (s\<lparr>pended := Some (KilledBy sg)\<rparr>)"
| kill_tty: "pended s = None \<Longrightarrow> disc_ths s = us @ KillTty # vs \<Longrightarrow>
    proc_step C n raw s (send_sigterm (tty_th s) (s\<lparr>disc_ths := us @ KillWriter # vs, pdata := say CleaningUp (pdata s)\<rparr>))"
| kill_writer: "pended s = None \<Longrightarrow> disc_ths s = us @ KillWriter # vs \<Longrightarrow>
    proc_step C n raw s (send_sigterm (writer_th s) (s\<lparr>disc_ths := us @ SendDisconnect # vs\<rparr>))"
| say_goodbye: "pended s = None \<Longrightarrow> disc_ths s = us @ SendDisconnect # vs \<Longrightarrow> send_disconnect C n (console_object (pdata s)) (pdata s) = Ret (r, d) \<Longrightarrow>
    proc_step C n raw s (s\<lparr>pdata := d, disc_ths := us @ KillReader # vs, said_goodbye := True\<rparr>)"
| kill_reader: "pended s = None \<Longrightarrow> disc_ths s = us @ KillReader # vs \<Longrightarrow>
    proc_step C n raw s (send_sigterm (reader_th s) (s\<lparr>disc_ths := us @ DiscDone # vs\<rparr>))"

abbreviation proc_steps :: "'w cc_env \<Rightarrow> nat \<Rightarrow> ('f \<Rightarrow> 'f) \<Rightarrow> ('w, 'f) proc \<Rightarrow> ('w, 'f) proc \<Rightarrow> bool" where
  "proc_steps C n raw \<equiv> (proc_step C n raw)\<^sup>*\<^sup>*"

section \<open>How a session ends\<close>

text \<open>
  A session: the program is connected, its terminal in raw mode (\<open>t0\<close> were the modes before), its threads run, nobody has asked it to end.
\<close>

definition session :: "('f \<Rightarrow> 'f) \<Rightarrow> 'f ttys \<Rightarrow> ('w, 'f) proc \<Rightarrow> bool" where
  "session raw t0 s \<longleftrightarrow> pended s = None \<and> main_at s = JoinTty \<and> reader_th s = Running \<and> tty_th s = Running \<and> writer_th s = Running
     \<and> disc_ths s = [] \<and> \<not> said_goodbye s \<and> caught s = {SIGINT, SIGHUP} \<and> set_tty_mode raw 0 True t0 = Inr (ptty s)"

text \<open>A connection that is made leads to a session, when nothing else happens meanwhile.\<close>

lemma raw_mode_works: "\<exists>t. set_tty_mode raw 0 True t0 = Inr t"
  by (simp add: set_tty_mode_def MAXFD_def split: option.split)

lemma connect_starts_session:
  assumes "pended s = None" "main_at s = MakeReader" "disc_ths s = []" "\<not> said_goodbye s" "caught s = {}"
    and "connect_protocol C n (pdata s) = Ret (r, d)" "r \<noteq> -1" "disconnects d = disconnects (pdata s)"
  shows "\<exists>t. proc_steps C n raw s t \<and> session raw (ptty s) t \<and> pdata t = d"
proof -
  obtain tt where tt: "set_tty_mode raw 0 True (ptty s) = Inr tt" using raw_mode_works by blast
  let ?s1 = "main_to Connect (s\<lparr>reader_th := Running\<rparr>)"
  let ?s2 = "main_to CatchInt (with_data d ?s1)"
  let ?s3 = "main_to CatchHup (xsignal SIGINT ?s2)"
  let ?s4 = "main_to RawMode (xsignal SIGHUP ?s3)"
  let ?s5 = "main_to MakeTty (?s4\<lparr>ptty := tt\<rparr>)"
  let ?s6 = "main_to MakeWriter (?s5\<lparr>tty_th := Running, hist := tty_hist\<rparr>)"
  let ?s7 = "main_to JoinTty (?s6\<lparr>writer_th := Running\<rparr>)"
  note f = main_to_def with_data_def xsignal_def
  have c1: "proc_step C n raw s ?s1" by (rule proc_step.make_reader) (simp_all add: assms)
  have c2: "proc_step C n raw ?s1 ?s2" by (rule proc_step.connected [where r = r]) (simp_all add: assms f)
  have c3: "proc_step C n raw ?s2 ?s3" by (rule proc_step.catch_int) (simp_all add: assms f)
  have c4: "proc_step C n raw ?s3 ?s4" by (rule proc_step.catch_hup) (simp_all add: assms f)
  have c5: "proc_step C n raw ?s4 ?s5" by (rule proc_step.raw_mode) (simp_all add: assms f tt)
  have c6: "proc_step C n raw ?s5 ?s6" by (rule proc_step.make_tty) (simp_all add: assms f)
  have c7: "proc_step C n raw ?s6 ?s7" by (rule proc_step.make_writer) (simp_all add: assms f)
  note star = converse_rtranclp_into_rtranclp [of "proc_step C n raw"]
  have "proc_steps C n raw s ?s7"
    by (rule star [OF c1], rule star [OF c2], rule star [OF c3], rule star [OF c4], rule star [OF c5], rule star [OF c6], rule r_into_rtranclp [of "proc_step C n raw", OF c7])
  moreover have "session raw (ptty s) ?s7" using assms tt by (auto simp: session_def f)
  moreover have "pdata ?s7 = d" by (simp add: f)
  ultimately show ?thesis by blast
qed

definition session_inv :: "('f \<Rightarrow> 'f) \<Rightarrow> 'f ttys \<Rightarrow> ('w, 'f) proc \<Rightarrow> bool" where
  "session_inv raw t0 s \<longleftrightarrow>
     \<not> said_goodbye s \<and> writer_th s = Running \<and> caught s = {SIGINT, SIGHUP} \<and> tty_th s \<noteq> NotStarted
     \<and> main_at s \<in> {JoinTty, CookedMode, JoinWriter} \<and> (tty_th s = Running \<longrightarrow> main_at s = JoinTty)
     \<and> (main_at s \<noteq> JoinWriter \<longrightarrow> set_tty_mode raw 0 True t0 = Inr (ptty s)) \<and> (main_at s = JoinWriter \<longrightarrow> tty_mode (ptty s) = tty_mode t0)
     \<and> (case pended s of
          None \<Rightarrow> set (disc_ths s) \<subseteq> {KillTty, KillWriter} \<and> (KillWriter \<in> set (disc_ths s) \<longrightarrow> tty_th s = Ended)
        | Some e \<Rightarrow> e = KilledBy SIGTERM \<or> (\<exists>x. e = Aborted x))"

lemma tty_mode_roundtrip:
  assumes "set_tty_mode raw fd True t0 = Inr t" "set_tty_mode raw fd False t = Inr u"
  shows "tty_mode u = tty_mode t0"
  using assms by (auto simp: set_tty_mode_def fun_eq_iff split: option.splits if_splits)

lemma session_inv_start: "session raw t0 s \<Longrightarrow> session_inv raw t0 s"
  by (simp add: session_def session_inv_def)

lemma session_inv_step:
  assumes "proc_step C n raw s t" "session_inv raw t0 s"
  shows "session_inv raw t0 t"
  using assms
proof (induction rule: proc_step.induct)
  case (cooked_mode s t)
  then show ?case using tty_mode_roundtrip [of raw 0 t0 "ptty s" t] by (auto simp: session_inv_def main_to_def)
next
  case (signal_kills s sg)
  then have "sg = SIGTERM" by (cases sg) (auto simp: session_inv_def)
  with signal_kills show ?case by (auto simp: session_inv_def)
next
  case (kill_tty s us vs)
  then show ?case by (cases "tty_th s") (auto simp: session_inv_def send_sigterm_def)
next
  case (kill_writer s us vs)
  then show ?case by (auto simp: session_inv_def send_sigterm_def)
next
  case (say_goodbye s us vs r d)
  then have "SendDisconnect \<in> {KillTty, KillWriter}" by (auto simp: session_inv_def)
  then show ?case by simp
next
  case (kill_reader s us vs)
  then have "KillReader \<in> {KillTty, KillWriter}" by (auto simp: session_inv_def)
  then show ?case by simp
qed (auto simp: session_inv_def main_to_def with_data_def xsignal_def sighandler_def)

lemma session_inv_reach: "proc_steps C n raw s t \<Longrightarrow> session_inv raw t0 s \<Longrightarrow> session_inv raw t0 t"
  by (induction rule: rtranclp_induct) (auto intro: session_inv_step)

lemma kill_writer_ends:
  assumes "session_inv raw t0 t" "pended t = None" "KillWriter \<in> set (disc_ths t)"
  shows "\<exists>u. proc_steps C n raw t u \<and> pended u = Some (KilledBy SIGTERM) \<and> ptty u = ptty t"
proof -
  obtain us vs where d: "disc_ths t = us @ KillWriter # vs" using assms(3) by (auto simp: in_set_conv_decomp)
  have "writer_th t = Running" using assms(1) by (simp add: session_inv_def)
  then show ?thesis
    using r_into_rtranclp [of "proc_step C n raw", OF proc_step.kill_writer [OF assms(2) d]]
    by (intro exI [of _ "send_sigterm (writer_th t) (t\<lparr>disc_ths := us @ SendDisconnect # vs\<rparr>)"]) (simp add: send_sigterm_def)
qed

lemma disconnect_ends:
  assumes "session_inv raw t0 t" "pended t = None" "disc_ths t \<noteq> []"
  shows "\<exists>u. proc_steps C n raw t u \<and> pended u = Some (KilledBy SIGTERM) \<and> ptty u = ptty t"
proof (cases "KillWriter \<in> set (disc_ths t)")
  case False
  then have "hd (disc_ths t) = KillTty" using assms by (cases "disc_ths t") (auto simp: session_inv_def)
  then obtain vs where d: "disc_ths t = [] @ KillTty # vs" using assms(3) by (cases "disc_ths t") auto
  let ?u = "send_sigterm (tty_th t) (t\<lparr>disc_ths := [] @ KillWriter # vs, pdata := say CleaningUp (pdata t)\<rparr>)"
  have st: "proc_step C n raw t ?u" by (rule proc_step.kill_tty [OF assms(2) d])
  show ?thesis
  proof (cases "tty_th t = Running")
    case True
    then show ?thesis using r_into_rtranclp [of "proc_step C n raw", OF st] by (intro exI [of _ ?u]) (simp add: send_sigterm_def)
  next
    case False
    then have u: "pended ?u = None" "KillWriter \<in> set (disc_ths ?u)" "ptty ?u = ptty t" using assms(2) by (simp_all add: send_sigterm_def)
    from kill_writer_ends [OF session_inv_step [OF st assms(1)] u(1,2), of C n] u(3) st show ?thesis
      by (metis converse_rtranclp_into_rtranclp)
  qed
qed (rule kill_writer_ends [OF assms(1,2)])

text \<open>
  C14 (session_ends_by_signal): a session never ends the way the program means it to. Once the session runs, the console is never disconnected and the final exit is never reached: the first
  request to end starts a thread whose first signal, sent to a thread whose only action on \<^verbatim>\<open>SIGTERM\<close> is the default one, ends the whole process. While the
  thread that reads the terminal runs, the terminal is in raw mode, and stays so when the process is killed; only if that thread has
  ended before are the modes set back.
\<close>

theorem session_ends_by_signal:
  assumes "session raw t0 s" "proc_steps C n raw s t"
  shows "\<not> said_goodbye t \<and> pended t \<noteq> Some (ExitStatus k)
    \<and> (tty_th t = Running \<longrightarrow> set_tty_mode raw 0 True t0 = Inr (ptty t)) \<and> (main_at t = JoinWriter \<longrightarrow> tty_mode (ptty t) = tty_mode t0)
    \<and> (pended t = None \<and> disc_ths t \<noteq> [] \<longrightarrow>
        (\<exists>u. proc_steps C n raw t u \<and> pended u = Some (KilledBy SIGTERM) \<and> ptty u = ptty t))"
proof -
  have inv: "session_inv raw t0 t" using session_inv_reach [OF assms(2)] session_inv_start [OF assms(1)] by blast
  then have "\<not> said_goodbye t" "main_at t = JoinWriter \<longrightarrow> tty_mode (ptty t) = tty_mode t0"
    "tty_th t = Running \<longrightarrow> set_tty_mode raw 0 True t0 = Inr (ptty t)"
    unfolding session_inv_def by simp_all
  moreover have "pended t \<noteq> Some (ExitStatus k)"
    using inv unfolding session_inv_def by (cases "pended t") auto
  moreover have "pended t = None \<and> disc_ths t \<noteq> [] \<longrightarrow>
      (\<exists>u. proc_steps C n raw t u \<and> pended u = Some (KilledBy SIGTERM) \<and> ptty u = ptty t)"
    by (intro impI, elim conjE) (rule disconnect_ends [OF inv])
  ultimately show ?thesis by (intro conjI)
qed

definition plain_ttys :: "nat ttys" where
  "plain_ttys = \<lparr>tty_mode = [0 \<mapsto> \<lparr>c_flags = 5, cc_vmin = 1, cc_vtime = 0\<rparr>], tty_saved = (\<lambda>_. \<lparr>c_flags = 0, cc_vmin = 0, cc_vtime = 0\<rparr>)\<rparr>"

definition in_session :: "(can_packet list, nat) proc" where
  "in_session =
     \<lparr>pdata = quiet, main_at = JoinTty, reader_th = Running, tty_th = Running, writer_th = Running, disc_ths = [],
      ptty = projr (set_tty_mode (\<lambda>_. 0) 0 True plain_ttys), caught = {SIGINT, SIGHUP}, hist = tty_hist, said_goodbye = False, pended = None\<rparr>"

theorem session_ends_by_signal_witness:
  "\<exists>u. proc_steps (dead_env request_pkt) 1 (\<lambda>_. 0) in_session u \<and> pended u = Some (KilledBy SIGTERM) \<and> \<not> said_goodbye u
     \<and> tty_mode (ptty u) 0 = Some \<lparr>c_flags = 0, cc_vmin = 4, cc_vtime = 1\<rparr>"
proof -
  have p: "set_tty_mode (\<lambda>_. 0) 0 True plain_ttys = Inr (ptty in_session)"
    by (simp add: in_session_def set_tty_mode_def plain_ttys_def MAXFD_def)
  then have s: "session (\<lambda>_. 0) plain_ttys in_session" unfolding session_def by (simp add: in_session_def)
  let ?t = "(with_data (start_disconnect quiet) in_session)\<lparr>hist := (0x26, 0x2e)\<rparr>"
  have i: "tty_reader_iter (dead_env request_pkt) 1 [0x26, 0x2e] (hist in_session) (pdata in_session) = Ret ((0x26, 0x2e), start_disconnect quiet)"
  proof -
    have "tty_scan tty_hist [0x26, 0x2e] = ([ADisconnect], [], (0x26, 0x2e))"
      by (simp add: tty_hist_def tty_char_def ISCRNL_def ESCAPE_CHAR_def)
    then show ?thesis by (simp add: tty_reader_iter_def in_session_def start_disconnect_def quiet_def)
  qed
  have "proc_step (dead_env request_pkt) 1 (\<lambda>_. 0) in_session ?t"
    by (rule proc_step.tty_round [OF _ _ _ _ i]) (simp_all add: in_session_def)
  then have st: "proc_steps (dead_env request_pkt) 1 (\<lambda>_. 0) in_session ?t" by simp
  have t: "pended ?t = None" "disc_ths ?t \<noteq> []" "ptty ?t = ptty in_session"
    by (simp_all add: with_data_def in_session_def start_disconnect_def)
  obtain u where u: "proc_steps (dead_env request_pkt) 1 (\<lambda>_. 0) ?t u" "pended u = Some (KilledBy SIGTERM)" "ptty u = ptty ?t"
    using session_ends_by_signal [OF s st] t(1,2) by blast
  moreover have "proc_steps (dead_env request_pkt) 1 (\<lambda>_. 0) in_session u" using st u(1) by simp
  moreover from this have "\<not> said_goodbye u" using session_ends_by_signal [OF s] by blast
  moreover have "tty_mode (ptty in_session) 0 = Some \<lparr>c_flags = 0, cc_vmin = 4, cc_vtime = 1\<rparr>"
    by (simp add: in_session_def set_tty_mode_def plain_ttys_def MAXFD_def)
  ultimately show ?thesis using t(3) by metis
qed

end
