(* ===== verification/TestProgs.thy ===== *)
theory TestProgs
  imports Clock
begin

text \<open>
  The test programs \<^verbatim>\<open>testled\<close> and \<^verbatim>\<open>testclock\<close> (under \<^verbatim>\<open>cmd/\<close>): the first on the driver of the lights, the second on readings of the
  two clocks. \<^verbatim>\<open>testled\<close> is modelled as it is compiled, with \<^verbatim>\<open>USE_MMAP\<close> 0.
\<close>

section \<open>testled\<close>

definition led_patterns :: "u16 list" where
  "led_patterns = [0x1000, 0x2000, 0x4000, 0x8000, 0x4000, 0x2000]"

definition update :: "u16 \<Rightarrow> bargraph \<Rightarrow> (errno + unit) \<times> bargraph" where
  "update val s = (case bg_ioctl BGSET (bytes_of_half val) s of (Inl e, s) \<Rightarrow> (Inl e, s) | (Inr _, s) \<Rightarrow> (Inr (), s))"

text \<open>The loop for \<open>n\<close> rounds: what the lights show after each of them, and how it stopped.\<close>

fun testled_loop :: "nat \<Rightarrow> u16 \<Rightarrow> bargraph \<Rightarrow> u16 list \<times> errno option \<times> bargraph" where
  "testled_loop 0 next s = ([], None, s)"
| "testled_loop (Suc n) next s =
     (let val = NOT (led_patterns ! unat next); next = next + 1
      in case update val s of
           (Inl e, s) \<Rightarrow> ([], Some e, s)
         | (Inr _, s) \<Rightarrow>
             (let next = (if unat next = length led_patterns then 0 else next)
              in case testled_loop n next s of (shown, r) \<Rightarrow> (leds s # shown, r)))"

definition testled :: "nat \<Rightarrow> bargraph \<Rightarrow> u16 list \<times> errno option \<times> bargraph" where
  "testled n s = (case bg_open s of (Inl e, s) \<Rightarrow> ([], Some e, s) | (Inr _, s) \<Rightarrow> testled_loop n 0 s)"

lemma half_of_bytes: "half_of (ucast (drop_bit 8 v)) (ucast v) = v"
proof (rule bit_word_eqI)
  fix n assume "n < LENGTH(16)"
  then show "bit (half_of (ucast (drop_bit 8 v)) (ucast v)) n = bit v n"
    by (cases "n < 8") (auto simp: half_of_def bit_simps)
qed

lemma update_mapped: "reg_mapped s \<Longrightarrow> update v s = (Inr (), s\<lparr>leds := v\<rparr>)"
  by (simp add: update_def bg_ioctl_def bytes_of_half_def half_of_bytes)

lemma testled_loop_eq:
  "reg_mapped s \<Longrightarrow> k < 6 \<Longrightarrow>
   \<exists>t. testled_loop n (of_nat k) s = (map (\<lambda>i. NOT (led_patterns ! ((k + i) mod 6))) [0..<n], None, t) \<and> reg_mapped t"
proof (induction n arbitrary: k s)
  case (Suc n)
  let ?v = "NOT (led_patterns ! k)" and ?k = "if k = 5 then 0 else Suc k"
  have u: "unat (of_nat k :: u16) = k" "unat (of_nat k + 1 :: u16) = Suc k"
    using Suc.prems(2) by (simp_all add: unsigned_of_nat take_bit_eq_mod unat_word_ariths)
  have "(if unat (of_nat k + 1 :: u16) = length led_patterns then 0 else of_nat k + 1) = (of_nat ?k :: u16)"
    using Suc.prems(2) by (simp add: u led_patterns_def)
  moreover have "map (\<lambda>i. NOT (led_patterns ! ((k + i) mod 6))) [0..<Suc n] =
      ?v # map (\<lambda>i. NOT (led_patterns ! ((?k + i) mod 6))) [0..<n]"
    using Suc.prems(2) mod_add_self1 [of 6] by (simp add: map_upt_Suc del: upt_Suc)
  ultimately show ?case
    using Suc.IH [of "s\<lparr>leds := ?v\<rparr>" ?k] Suc.prems by (auto simp: update_mapped u Let_def)
qed auto

text \<open>
  On lights that are mapped and that nobody has opened, \<^verbatim>\<open>testled\<close> never fails: its round \<open>i\<close> turns
  on exactly the lights of pattern \<open>i mod 6\<close>, a light being on where the register has a 0. On a device that is open it stops at once.
\<close>

theorem testled_cycle:
  assumes "reg_mapped s"
  shows "if bg_usecount s > 0 then testled n s = ([], Some EBUSY, s)
    else \<exists>t. testled n s = (map (\<lambda>i. NOT (led_patterns ! (i mod 6))) [0..<n], None, t)"
proof (cases "bg_usecount s > 0")
  case False
  then have o: "fst (bg_open s) = Inr ()" "reg_mapped (snd (bg_open s))"
    using assms by (simp_all add: bg_open_def bg_stop_pattern_def Let_def)
  with testled_loop_eq [OF o(2), of 0 n] False show ?thesis by (auto simp: testled_def split: prod.split)
qed (simp add: testled_def bg_open_def)

theorem testled_cycle_witness:
  "\<exists>t. testled 7 ((bg_cold 0)\<lparr>reg_mapped := True\<rparr>) = ([0xefff, 0xdfff, 0xbfff, 0x7fff, 0xbfff, 0xdfff, 0xefff], None, t)"
proof -
  have "map (\<lambda>i. NOT (led_patterns ! (i mod 6))) [0..<7] = [0xefff, 0xdfff, 0xbfff, 0x7fff, 0xbfff, 0xdfff, 0xefff]"
    by (simp add: led_patterns_def upt_rec)
  with testled_cycle [of "(bg_cold 0)\<lparr>reg_mapped := True\<rparr>" 7] show ?thesis by (simp add: bg_cold_def)
qed

section \<open>testclock\<close>

text \<open>
  What the program gets from the system: whether the device opens and maps, the memory locks and the scheduler obeys, and the
  readings of the clocks in the order in which they are made; a reading \<open>None\<close> of the time of day is a failed call.
\<close>

datatype policy = SCHED_OTHER | SCHED_FIFO

record tc_sys =
  tc_open :: bool
  tc_mmap :: bool
  tc_munmap :: bool
  tc_mlock :: bool
  tc_sched :: "policy \<Rightarrow> int \<Rightarrow> bool"

record tc_world =
  elan_readings :: "u64 list"
  tod_readings :: "timeval option list"

definition SAMPLES :: nat where "SAMPLES = 100000"
definition EVENT_DELAY_US :: u32 where "EVENT_DELAY_US = 100"

datatype tc_line = TcBanner nat u32 | TcLatency int | TcStats u64 u64 | TcElapsed u64 u64 | TcPerror

text \<open>A result \<open>None\<close> needs more readings than there are; a left one is the exit of the program with that status.\<close>

definition read_elan :: "tc_world \<Rightarrow> (u64 \<times> tc_world) option" where
  "read_elan w = (case elan_readings w of [] \<Rightarrow> None | r # rs \<Rightarrow> Some (elan_getclock r, w\<lparr>elan_readings := rs\<rparr>))"

definition sys_getusec :: "tc_world \<Rightarrow> (int + u64 \<times> tc_world) option" where
  "sys_getusec w =
     (case tod_readings w of
        [] \<Rightarrow> None
      | None # _ \<Rightarrow> Some (Inl 1)
      | Some tv # tvs \<Rightarrow> Some (Inr (word_of_int (tv_sec tv * 1000000 + tv_usec tv), w\<lparr>tod_readings := tvs\<rparr>)))"

definition rtprio_init :: "tc_sys \<Rightarrow> policy \<Rightarrow> int + unit" where
  "rtprio_init S policy =
     (if \<not> tc_mlock S then Inl 1
      else if \<not> tc_sched S policy (if policy = SCHED_FIFO then 99 else 0) then Inl 1
      else Inr ())"

definition tc_elan_init :: "tc_sys \<Rightarrow> int + unit" where
  "tc_elan_init S = (if \<not> tc_open S then Inl 1 else if \<not> tc_mmap S then Inl 1 else Inr ())"

definition tc_elan_fini :: "tc_sys \<Rightarrow> int + unit" where
  "tc_elan_fini S = (if \<not> tc_munmap S then Inl 1 else Inr ())"

text \<open>The samples: readings of the two clocks (\<open>t_elan\<close>, \<open>t_sys\<close>) and the delay.\<close>

fun samples :: "nat \<Rightarrow> tc_world \<Rightarrow> (int + (u64 \<times> u64) list \<times> tc_world) option" where
  "samples 0 w = Some (Inr ([], w))"
| "samples (Suc n) w =
     (case read_elan w of
        None \<Rightarrow> None
      | Some (e, w) \<Rightarrow>
          (case sys_getusec w of
             None \<Rightarrow> None
           | Some (Inl st) \<Rightarrow> Some (Inl st)
           | Some (Inr (t, w)) \<Rightarrow>
               (case elan_udelay EVENT_DELAY_US (elan_readings w) of
                  None \<Rightarrow> None
                | Some rs \<Rightarrow>
                    (case samples n (w\<lparr>elan_readings := rs\<rparr>) of
                       None \<Rightarrow> None
                     | Some (Inl st) \<Rightarrow> Some (Inl st)
                     | Some (Inr (dat, w)) \<Rightarrow> Some (Inr ((e, t) # dat, w))))))"

fun tally_loop :: "u64 \<Rightarrow> u64 list \<Rightarrow> u64 \<times> u64 \<Rightarrow> u64 \<times> u64" where
  "tally_loop prev [] acc = acc"
| "tally_loop prev (t # ts) (tot, mx) =
     (let delta = t - prev in tally_loop t ts (tot + delta, if delta > mx then delta else mx))"

definition tally :: "(u64 \<times> u64) list \<Rightarrow> u64 \<times> u64" where
  "tally dat = tally_loop (snd (hd dat)) (map snd (tl dat)) (0, 0)"

text \<open>What is printed, before the program divides by the units, and the exit status.\<close>

definition testclock :: "tc_sys \<Rightarrow> tc_world \<Rightarrow> (int \<times> tc_line list) option" where
  "testclock S w =
     (case tc_elan_init S of
        Inl st \<Rightarrow> Some (st, [TcPerror])
      | Inr _ \<Rightarrow>
          (let banner = TcBanner SAMPLES EVENT_DELAY_US
           in case rtprio_init S SCHED_FIFO of
                Inl st \<Rightarrow> Some (st, [banner, TcPerror])
              | Inr _ \<Rightarrow>
                  (case read_elan w of
                     None \<Rightarrow> None
                   | Some (t1, w) \<Rightarrow>
                  (case sys_getusec w of
                     None \<Rightarrow> None
                   | Some (Inl st) \<Rightarrow> Some (st, [banner, TcPerror])
                   | Some (Inr (_, w)) \<Rightarrow>
                  (case read_elan w of
                     None \<Rightarrow> None
                   | Some (t2, w) \<Rightarrow>
                       (let out = [banner, TcLatency (sint (ucast ((t2 - t1) div 1000) :: u32))]
                        in case samples SAMPLES w of
                             None \<Rightarrow> None
                           | Some (Inl st) \<Rightarrow> Some (st, out @ [TcPerror])
                           | Some (Inr (dat, w)) \<Rightarrow>
                               (let (tot, mx) = tally dat;
                                    out = out @ [TcStats tot mx,
                                                 TcElapsed (fst (last dat) - fst (hd dat)) (snd (last dat) - snd (hd dat))]
                                in case tc_elan_fini S of
                                     Inl st \<Rightarrow> Some (st, out @ [TcPerror])
                                   | Inr _ \<Rightarrow>
                                       (case rtprio_init S SCHED_OTHER of
                                          Inl st \<Rightarrow> Some (st, out @ [TcPerror])
                                        | Inr _ \<Rightarrow> Some (0, out)))))))))"

fun deltas :: "u64 \<Rightarrow> u64 list \<Rightarrow> u64 list" where
  "deltas prev [] = []"
| "deltas prev (t # ts) = (t - prev) # deltas t ts"

lemma tally_loop_eq:
  "tally_loop prev ts (tot, mx) = (tot + (last (prev # ts) - prev), fold max (deltas prev ts) mx)"
  by (induction ts arbitrary: prev tot mx) (auto simp: Let_def max_def not_less)

lemma elan_udelay_clock:
  assumes "elan_udelay usec rs = Some rest" "sorted (map elan_getclock rs)"
  obtains r xs x where "rs = r # xs @ x # rest" "ucast usec * 1000 \<le> elan_getclock x - elan_getclock r"
proof -
  obtain r rs' where rs: "rs = r # rs'" using assms(1) by (cases rs) (simp_all add: elan_udelay_def)
  with assms(1) obtain xs x where "rs' = xs @ x # rest" "ucast usec * 1000 \<le> elan_getclock x - elan_getclock r"
    using udelay_waits [of usec r rs' rest] by auto
  with rs that show ?thesis by blast
qed

lemma samples_spec:
  "samples n w = Some (Inr (dat, w')) \<Longrightarrow> sorted (map elan_getclock (elan_readings w)) \<Longrightarrow>
   length dat = n \<and> set (map fst dat) \<subseteq> elan_getclock ` set (elan_readings w)
   \<and> sorted_wrt (\<lambda>a b. unat a + 100000 \<le> unat b) (map fst dat)"
proof (induction n arbitrary: w dat)
  case (Suc n)
  obtain r0 rs where r0: "elan_readings w = r0 # rs"
    using Suc.prems(1) by (auto simp: read_elan_def split: option.splits list.splits)
  obtain t w1 where w1: "sys_getusec (w\<lparr>elan_readings := rs\<rparr>) = Some (Inr (t, w1))"
    using Suc.prems(1) r0 by (auto simp: read_elan_def split: option.splits sum.splits)
  then have rs: "elan_readings w1 = rs" by (auto simp: sys_getusec_def split: list.splits option.splits)
  obtain rest where rest: "elan_udelay EVENT_DELAY_US rs = Some rest"
    using Suc.prems(1) r0 w1 rs by (auto simp: read_elan_def split: option.splits)
  obtain dat' where dat: "samples n (w1\<lparr>elan_readings := rest\<rparr>) = Some (Inr (dat', w'))" "dat = (elan_getclock r0, t) # dat'"
    using Suc.prems(1) r0 w1 rs rest by (auto simp: read_elan_def split: option.splits sum.splits)
  have srt: "sorted (map elan_getclock rs)" using Suc.prems(2) r0 by simp
  obtain r xs x where x: "rs = r # xs @ x # rest" "ucast EVENT_DELAY_US * 1000 \<le> elan_getclock x - elan_getclock r"
    using elan_udelay_clock [OF rest srt] .
  have IH: "length dat' = n" "set (map fst dat') \<subseteq> elan_getclock ` set rest"
      "sorted_wrt (\<lambda>a b. unat a + 100000 \<le> unat b) (map fst dat')"
    using Suc.IH [OF dat(1)] srt by (simp_all add: x(1) sorted_append)
  have rx: "elan_getclock r0 \<le> elan_getclock r" "elan_getclock r \<le> elan_getclock x"
    using Suc.prems(2) by (simp_all add: r0 x(1) sorted_append)
  have "(100000 :: u64) \<le> elan_getclock x - elan_getclock r" using x(2) by (simp add: EVENT_DELAY_US_def)
  then have "100000 \<le> unat (elan_getclock x - elan_getclock r)" by (simp add: word_le_nat_alt)
  then have gap: "unat (elan_getclock r0) + 100000 \<le> unat (elan_getclock x)"
    using rx by (simp add: word_le_nat_alt unat_sub)
  have "unat (elan_getclock r0) + 100000 \<le> unat b" if b: "b \<in> set (map fst dat')" for b
  proof -
    obtain y where "y \<in> set rest" "b = elan_getclock y" using subsetD [OF IH(2) b] by blast
    then have "elan_getclock x \<le> b" using srt by (auto simp: x(1) sorted_append)
    then show ?thesis using gap by (simp add: word_le_nat_alt)
  qed
  with IH show ?case by (auto simp: dat(2) r0 x(1))
qed simp

text \<open>
  If the Elan clock does not run backwards, the samples \<^verbatim>\<open>testclock\<close> takes are 100 microseconds or more apart
  on it. Of the times of day it takes with them, the sum it prints is the difference of the last and the first (modulo 2^64), and the maximum that
  of the differences of neighbours.
\<close>

theorem testclock_samples:
  assumes "samples (Suc n) w = Some (Inr (dat, w'))" "sorted (map elan_getclock (elan_readings w))"
  shows "length dat = Suc n \<and> (\<forall>i j. i < j \<and> j < Suc n \<longrightarrow> unat (fst (dat ! i)) + (j - i) * 100000 \<le> unat (fst (dat ! j)))
    \<and> tally dat = (snd (last dat) - snd (hd dat), fold max (deltas (snd (hd dat)) (map snd (tl dat))) 0)"
proof -
  have len: "length dat = Suc n" and srt: "sorted_wrt (\<lambda>a b. unat a + 100000 \<le> unat b) (map fst dat)"
    using samples_spec [OF assms] by simp_all
  have "unat (fst (dat ! i)) + k * 100000 \<le> unat (fst (dat ! (i + k)))" if "i + k < Suc n" for i k
    using that
  proof (induction k)
    case (Suc k)
    have "unat (fst (dat ! (i + k))) + 100000 \<le> unat (fst (dat ! (i + Suc k)))"
      using srt Suc.prems len by (simp add: sorted_wrt_iff_nth_less)
    with Suc show ?case by simp
  qed simp
  then have "\<forall>i j. i < j \<and> j < Suc n \<longrightarrow> unat (fst (dat ! i)) + (j - i) * 100000 \<le> unat (fst (dat ! j))"
    by (metis le_add_diff_inverse less_imp_le_nat)
  moreover obtain d ds where "dat = d # ds" using len by (cases dat) auto
  then have "tally dat = (snd (last dat) - snd (hd dat), fold max (deltas (snd (hd dat)) (map snd (tl dat))) 0)"
    by (auto simp: tally_def tally_loop_eq last_map)
  ultimately show ?thesis using len by blast
qed

definition tc_readings :: tc_world where
  "tc_readings = \<lparr>elan_readings = [0x500000000, 0x500000010, 0x500020000, 0x500020010, 0x500020020, 0x500050000],
     tod_readings = [Some \<lparr>tv_sec = 9, tv_usec = 5\<rparr>, Some \<lparr>tv_sec = 9, tv_usec = 140\<rparr>]\<rparr>"

theorem testclock_samples_witness:
  "\<exists>dat w. samples 2 tc_readings = Some (Inr (dat, w)) \<and> tally dat = (135, 135)
     \<and> unat (fst (dat ! 0)) + 100000 \<le> unat (fst (dat ! 1))"
proof -
  have e: "elan_getclock 0x500000000 = 5000000000" "elan_getclock 0x500000010 = 5000000016"
    "elan_getclock 0x500020000 = 5000131072" "elan_getclock 0x500020010 = 5000131088"
    "elan_getclock 0x500020020 = 5000131104" "elan_getclock 0x500050000 = 5000327680"
    by (simp_all add: elan_getclock_def clock_spec_def)
  have s: "samples (Suc 1) tc_readings = Some (Inr ([(5000000000, 9000005), (5000131088, 9000140)], \<lparr>elan_readings = [], tod_readings = []\<rparr>))"
    by (simp add: tc_readings_def read_elan_def sys_getusec_def elan_udelay_def EVENT_DELAY_US_def e)
  have "sorted (map elan_getclock (elan_readings tc_readings))" by (simp add: tc_readings_def e)
  note t = testclock_samples [OF s this]
  have "samples 2 tc_readings = samples (Suc 1) tc_readings" by (simp add: numeral_2_eq_2)
  moreover have "unat (fst ([(5000000000, 9000005), (5000131088, 9000140)] ! 0) :: u64) + 100000
      \<le> unat (fst ([(5000000000, 9000005), (5000131088, 9000140)] ! 1) :: u64)"
    using t [THEN conjunct2, THEN conjunct1, rule_format, of 0 1] by simp
  moreover have "tally [(5000000000, 9000005), (5000131088, 9000140)] = (135, 135)"
    using t [THEN conjunct2, THEN conjunct2] by simp
  ultimately show ?thesis unfolding s by blast
qed

end
