(* ===== verification/Iommu.thy ===== *)
theory Iommu
  imports Prelude
begin

text \<open>
  The IOMMU of the Meiko nodes (\<^verbatim>\<open>kernel/arch/sparc/meiko/iommu.c\<close>): the page table that maps
  the 32 MByte of addresses devices use to physical pages, the allocator of the SCSI
  segment, and the mapping of the segment for other DMA.

  A failed \<^verbatim>\<open>ASSERT\<close>, a call of \<^verbatim>\<open>panic\<close> and an access outside the page table or a scatter list are
  the left results. The address translation of the
  CPU (\<^verbatim>\<open>mmu_v2p\<close>), the bounds of the segments (\<^verbatim>\<open>IOMMU_VADDR\<close>, \<^verbatim>\<open>IOMMU_END\<close>) and the pages that
  \<^verbatim>\<open>get_free_page\<close> returns are parameters. Flushes are recorded as events.
\<close>

section \<open>Constants and state\<close>

datatype panic = AssertFailed | Panic | BadAccess

definition IOMMU40_ADDR_TLB :: u32 where "IOMMU40_ADDR_TLB = 0x000000ff"
definition IOMMU40_CTRL_ENABLE :: u32 where "IOMMU40_CTRL_ENABLE = 0x00000001"
definition IOMMU40_CTRL_2TO1 :: u32 where "IOMMU40_CTRL_2TO1 = 0x00000008"
definition IOMMU40_ID_VENDOR :: u32 where "IOMMU40_ID_VENDOR = 0x0000000f"
definition IOMMU40_ID_DEVNO :: u32 where "IOMMU40_ID_DEVNO = 0x0000ff00"
definition IOMMU40_BASE_ADDR :: u32 where "IOMMU40_BASE_ADDR = 0xfe000000"
definition IOPTE40_PAGE :: u32 where "IOPTE40_PAGE = 0xffffff00"
definition IOPTE40_WRITE :: u32 where "IOPTE40_WRITE = 0x00000007"
definition IOPTE40_VALID :: u32 where "IOPTE40_VALID = 0x00000008"

definition IOPERM :: u32 where "IOPERM = IOPTE40_WRITE OR IOPTE40_VALID"

definition MKIOPTE :: "u32 \<Rightarrow> u32" where
  "MKIOPTE phys = (drop_bit 4 phys AND IOPTE40_PAGE) OR IOPERM"

datatype io_event = InvalidateTlb u32 | FlushCacheAll | FlushTlbAll | SetPte u32 u32

record iommu40 =
  io_tlb :: u32
  page_table :: "u32 list"
  io_start :: u32
  io_end :: u32
  base_reg :: u32
  control_reg :: u32
  io_events :: "io_event list"

record iommu_env =
  mmu_v2p :: "u32 \<Rightarrow> u32"
  IOMMU_VADDR :: u32
  IOMMU_END :: u32

definition io_event :: "io_event \<Rightarrow> iommu40 \<Rightarrow> iommu40" where
  "io_event e io = io\<lparr>io_events := io_events io @ [e]\<rparr>"

definition iommu40_invalidate :: "iommu40 \<Rightarrow> iommu40" where
  "iommu40_invalidate io = io_event (InvalidateTlb (io_tlb io)) io"

section \<open>Start\<close>

text \<open>
  \<open>regs\<close> says whether the registers could be mapped, \<open>ident\<close> and \<open>address\<close> are what the identification and address
  registers hold, \<open>table\<close> is the address \<^verbatim>\<open>kmalloc\<close> returns for the page table (0 if it fails).
\<close>

definition iommu40_init ::
    "iommu_env \<Rightarrow> bool \<Rightarrow> u32 \<Rightarrow> u32 \<Rightarrow> u32 \<Rightarrow> iommu40 \<Rightarrow> panic + iommu40" where
  "iommu40_init V regs ident address table io =
     (if \<not> regs then Inl Panic
      else
        (let devno = drop_bit 8 (ident AND IOMMU40_ID_DEVNO); vendor = ident AND IOMMU40_ID_VENDOR
         in if devno \<noteq> 0x52 \<or> vendor \<noteq> 0x03 then Inl Panic
            else
              (let io = io\<lparr>io_tlb := push_bit 28 (address AND IOMMU40_ADDR_TLB), io_start := IOMMU40_BASE_ADDR,
                           io_end := 0xffffffff, control_reg := IOMMU40_CTRL_ENABLE OR IOMMU40_CTRL_2TO1\<rparr>;
                   io = iommu40_invalidate io;
                   npages = unat (drop_bit PAGE_SHIFT (io_end io - io_start io + 1));
                   ptsize = of_nat (npages * 4) :: u32
               in if table = 0 \<or> table mod ptsize \<noteq> 0 then Inl AssertFailed
                  else
                    (let io = io_event FlushCacheAll io;
                         io = io\<lparr>page_table := replicate npages 0\<rparr>;
                         io = io_event FlushTlbAll io;
                         io = io\<lparr>base_reg := drop_bit 4 (mmu_v2p V table)\<rparr>
                     in Inr (iommu40_invalidate io)))))"

section \<open>The SCSI segment\<close>

definition iopte_index :: "u32 \<Rightarrow> nat" where
  "iopte_index iov = unat (drop_bit PAGE_SHIFT (iov - IOMMU40_BASE_ADDR))"

definition iopte_valid :: "u32 list \<Rightarrow> nat \<Rightarrow> bool" where
  "iopte_valid pt i \<longleftrightarrow> pt ! i AND IOPTE40_VALID \<noteq> 0"

text \<open>The search for the first empty slot; \<open>n\<close> bounds the pages looked at.\<close>

fun find_iopte :: "iommu_env \<Rightarrow> u32 list \<Rightarrow> nat \<Rightarrow> u32 \<Rightarrow> (panic + u32) option" where
  "find_iopte V pt 0 iovpage = None"
| "find_iopte V pt (Suc n) iovpage =
     (if \<not> iovpage < IOMMU_END V then Some (Inr iovpage)
      else if \<not> iopte_index iovpage < length pt then Some (Inl BadAccess)
      else if \<not> iopte_valid pt (iopte_index iovpage) then Some (Inr iovpage)
      else find_iopte V pt n (iovpage + PAGE_SIZE))"

text \<open>32 MByte are 8192 pages, so that many steps and a last test are enough.\<close>

definition SLOTS :: nat where "SLOTS = 8192"

definition iommu40_get_area ::
    "iommu_env \<Rightarrow> u32 \<Rightarrow> u32 \<Rightarrow> iommu40 \<Rightarrow> (panic + u32 \<times> iommu40) option" where
  "iommu40_get_area V vaddr len io =
     (let offset = vaddr AND NOT PAGE_MASK; physpage = mmu_v2p V vaddr
      in if \<not> len \<le> PAGE_SIZE then Some (Inl AssertFailed)
         else (case find_iopte V (page_table io) (Suc SLOTS) (IOMMU_VADDR V) of
                 None \<Rightarrow> None
               | Some (Inl e) \<Rightarrow> Some (Inl e)
               | Some (Inr iovpage) \<Rightarrow>
                   if \<not> iovpage < IOMMU_END V then Some (Inl AssertFailed)
                   else Some (Inr (iovpage + offset,
                                   io\<lparr>page_table := (page_table io)[iopte_index iovpage := MKIOPTE physpage]\<rparr>))))"

definition iommu40_get_scsi_one ::
    "iommu_env \<Rightarrow> u32 \<Rightarrow> u32 \<Rightarrow> iommu40 \<Rightarrow> (panic + u32 \<times> iommu40) option" where
  "iommu40_get_scsi_one V vaddr len io =
     (case iommu40_get_area V vaddr len io of
        Some (Inr (iova, io)) \<Rightarrow> Some (Inr (iova, iommu40_invalidate (io_event FlushCacheAll io)))
      | r \<Rightarrow> r)"

record mmu_sglist =
  sg_addr :: u32
  sg_len :: u32
  dvma_addr :: u32

text \<open>The scatter lists are handled from the last entry, number \<open>sz\<close>, down to the first.\<close>

fun get_sgl_loop ::
    "iommu_env \<Rightarrow> nat \<Rightarrow> mmu_sglist list \<Rightarrow> iommu40 \<Rightarrow> (panic + mmu_sglist list \<times> iommu40) option" where
  "get_sgl_loop V 0 sg io = Some (Inr (sg, io))"
| "get_sgl_loop V (Suc sz) sg io =
     (if \<not> sz < length sg then Some (Inl BadAccess)
      else case iommu40_get_area V (sg_addr (sg ! sz)) (sg_len (sg ! sz)) io of
        None \<Rightarrow> None
      | Some (Inl e) \<Rightarrow> Some (Inl e)
      | Some (Inr (iova, io)) \<Rightarrow> get_sgl_loop V sz (sg[sz := (sg ! sz)\<lparr>dvma_addr := iova\<rparr>]) io)"

definition iommu40_get_scsi_sgl ::
    "iommu_env \<Rightarrow> mmu_sglist list \<Rightarrow> int \<Rightarrow> iommu40 \<Rightarrow> (panic + mmu_sglist list \<times> iommu40) option" where
  "iommu40_get_scsi_sgl V sg sz io =
     (case get_sgl_loop V (nat (sz + 1)) sg io of
        Some (Inr (sg, io)) \<Rightarrow> Some (Inr (sg, iommu40_invalidate (io_event FlushCacheAll io)))
      | r \<Rightarrow> r)"

definition iommu40_release_scsi_one :: "u32 \<Rightarrow> iommu40 \<Rightarrow> panic + iommu40" where
  "iommu40_release_scsi_one vaddr io =
     (if \<not> iopte_index vaddr < length (page_table io) then Inl BadAccess
      else if \<not> iopte_valid (page_table io) (iopte_index vaddr) then Inl AssertFailed
      else Inr (io\<lparr>page_table := (page_table io)
                    [iopte_index vaddr := page_table io ! iopte_index vaddr AND NOT IOPTE40_VALID]\<rparr>))"

fun release_sgl_loop :: "nat \<Rightarrow> mmu_sglist list \<Rightarrow> iommu40 \<Rightarrow> panic + iommu40" where
  "release_sgl_loop 0 sg io = Inr io"
| "release_sgl_loop (Suc sz) sg io =
     (if \<not> sz < length sg then Inl BadAccess
      else case iommu40_release_scsi_one (dvma_addr (sg ! sz)) io of
        Inl e \<Rightarrow> Inl e
      | Inr io \<Rightarrow> release_sgl_loop sz sg io)"

definition iommu40_release_scsi_sgl :: "mmu_sglist list \<Rightarrow> int \<Rightarrow> iommu40 \<Rightarrow> panic + iommu40" where
  "iommu40_release_scsi_sgl sg sz io = release_sgl_loop (nat (sz + 1)) sg io"

section \<open>The segment for other DMA\<close>

text \<open>
  \<open>pages\<close> are the results of \<^verbatim>\<open>get_free_page\<close>, in order, 0 when it fails; \<open>i\<close> is the index behind the
  pointer \<^verbatim>\<open>iopte\<close>; the list also bounds the loop.
\<close>

fun map_dma_loop ::
    "iommu_env \<Rightarrow> u32 list \<Rightarrow> nat \<Rightarrow> u32 \<Rightarrow> u32 \<Rightarrow> iommu40 \<Rightarrow> (panic + iommu40) option" where
  "map_dma_loop V pages i iovaddr stop io =
     (if \<not> iovaddr < stop then Some (Inr io)
      else (case pages of
              [] \<Rightarrow> None
            | page # pages \<Rightarrow>
                if page = 0 then Some (Inl Panic)
                else if \<not> i < length (page_table io) then Some (Inl BadAccess)
                else map_dma_loop V pages (Suc i) (iovaddr + PAGE_SIZE) stop
                       (io_event (SetPte iovaddr page)
                          (io\<lparr>page_table := (page_table io)[i := MKIOPTE (mmu_v2p V page)]\<rparr>))))"

declare map_dma_loop.simps [simp del]

definition iommu40_map_dma_area ::
    "iommu_env \<Rightarrow> u32 list \<Rightarrow> u32 \<Rightarrow> u32 \<Rightarrow> iommu40 \<Rightarrow> (panic + iommu40) option" where
  "iommu40_map_dma_area V pages iovaddr len io =
     (if \<not> io_start io \<le> iovaddr then Some (Inl AssertFailed)
      else (case map_dma_loop V pages (unat (drop_bit PAGE_SHIFT (iovaddr - io_start io))) iovaddr
                   ((iovaddr + len + PAGE_SIZE - 1) AND PAGE_MASK) io of
              Some (Inr io) \<Rightarrow>
                Some (Inr (iommu40_invalidate (io_event FlushTlbAll (io_event FlushCacheAll io))))
            | r \<Rightarrow> r))"

section \<open>Slots and addresses\<close>

definition slot_addr :: "nat \<Rightarrow> u32" where
  "slot_addr i = IOMMU40_BASE_ADDR + push_bit 12 (of_nat i)"

text \<open>The bounds of the SCSI segment are page addresses in the range of the IOMMU.\<close>

definition segment :: "iommu_env \<Rightarrow> nat \<Rightarrow> nat \<Rightarrow> bool" where
  "segment V a b \<longleftrightarrow> IOMMU_VADDR V = slot_addr a \<and> IOMMU_END V = slot_addr b \<and> a \<le> b \<and> b < SLOTS"

lemma unat_slot: "i < SLOTS \<Longrightarrow> unat (slot_addr i) = 0xfe000000 + 4096 * i"
proof -
  assume i: "i < SLOTS"
  have "slot_addr i = of_nat (0xfe000000 + 4096 * i)"
    by (simp add: slot_addr_def IOMMU40_BASE_ADDR_def push_bit_eq_mult)
  moreover have "0xfe000000 + 4096 * i < 2 ^ 32" using i by (simp add: SLOTS_def)
  ultimately show ?thesis by (simp add: unat_of_nat take_bit_nat_eq_self del: of_nat_add of_nat_mult)
qed

lemma slot_less: "i < SLOTS \<Longrightarrow> j < SLOTS \<Longrightarrow> slot_addr i < slot_addr j \<longleftrightarrow> i < j"
  by (simp add: word_less_nat_alt unat_slot)

lemma slot_next: "slot_addr i + PAGE_SIZE = slot_addr (Suc i)"
  by (simp add: slot_addr_def PAGE_SIZE_def push_bit_eq_mult algebra_simps)

lemma index_slot:
  assumes "i < SLOTS" "k < 4096"
  shows "iopte_index (slot_addr i + of_nat k) = i"
proof -
  have "slot_addr i + of_nat k - IOMMU40_BASE_ADDR = of_nat (4096 * i + k)"
    by (simp add: slot_addr_def push_bit_eq_mult)
  moreover have "4096 * i + k < 2 ^ 32" using assms by (simp add: SLOTS_def)
  ultimately show ?thesis
    using assms(2) unfolding iopte_index_def PAGE_SHIFT_def unat_drop_bit_eq
    by (simp add: drop_bit_eq_div unat_of_nat take_bit_nat_eq_self del: of_nat_add of_nat_mult)
qed


lemma index_slot0 [simp]: "i < SLOTS \<Longrightarrow> iopte_index (slot_addr i) = i"
  using index_slot [of i 0] by simp

section \<open>The allocator refines a set of pages\<close>

definition used_slots :: "iommu40 \<Rightarrow> nat set" where
  "used_slots io = {i. i < SLOTS \<and> iopte_valid (page_table io) i}"

definition io_wf :: "iommu40 \<Rightarrow> bool" where
  "io_wf io \<longleftrightarrow> length (page_table io) = SLOTS"

lemma MKIOPTE_valid: "MKIOPTE p AND IOPTE40_VALID \<noteq> 0"
proof -
  have "bit (MKIOPTE p AND IOPTE40_VALID) 3"
    by (simp add: MKIOPTE_def IOPERM_def IOPTE40_VALID_def IOPTE40_WRITE_def bit_simps bit_numeral_rec)
  then show ?thesis by auto
qed

lemma find_iopte_first:
  assumes "IOMMU_END V = slot_addr b" "b < SLOTS" "length pt = SLOTS"
  shows "i \<le> b \<Longrightarrow> b - i < n \<Longrightarrow>
    \<exists>j. find_iopte V pt n (slot_addr i) = Some (Inr (slot_addr j)) \<and> i \<le> j \<and> j \<le> b
      \<and> (\<forall>k. i \<le> k \<and> k < j \<longrightarrow> iopte_valid pt k) \<and> (j < b \<longrightarrow> \<not> iopte_valid pt j)"
proof (induction n arbitrary: i)
  case (Suc n)
  then have i: "i < SLOTS" using assms(2) by simp
  show ?case
  proof (cases "i < b \<and> iopte_valid pt i")
    case True
    then have "Suc i \<le> b" "b - Suc i < n" using Suc.prems by auto
    from Suc.IH [OF this] obtain j where "find_iopte V pt n (slot_addr (Suc i)) = Some (Inr (slot_addr j))"
        "Suc i \<le> j" "j \<le> b" "\<forall>k. Suc i \<le> k \<and> k < j \<longrightarrow> iopte_valid pt k" "j < b \<longrightarrow> \<not> iopte_valid pt j" by blast
    moreover have "\<forall>k. i \<le> k \<and> k < j \<longrightarrow> iopte_valid pt k"
      using True calculation(4) by (metis le_antisym not_less_eq_eq)
    ultimately show ?thesis
      using True i assms by (auto simp: slot_less slot_next intro!: exI [of _ j])
  next
    case False
    with i assms Suc.prems(1) show ?thesis by (auto simp: slot_less intro!: exI [of _ i])
  qed
qed simp

lemma valid_update:
  "i < length pt \<Longrightarrow> iopte_valid (pt[i := MKIOPTE p]) j \<longleftrightarrow> j = i \<or> iopte_valid pt j"
  using MKIOPTE_valid by (auto simp: iopte_valid_def nth_list_update)

lemma offset_parts: "vaddr AND NOT PAGE_MASK = of_nat (unat vaddr mod 4096)" for vaddr :: u32
proof -
  have "NOT PAGE_MASK = (mask 12 :: u32)" by (simp add: PAGE_MASK_def mask_eq_exp_minus_1)
  then have "vaddr AND NOT PAGE_MASK = take_bit 12 vaddr" by (simp add: take_bit_eq_mask)
  moreover have "unat (take_bit 12 vaddr) = unat vaddr mod 4096"
    unfolding unsigned_take_bit_eq by (simp add: take_bit_eq_mod)
  ultimately show ?thesis by (metis of_nat_unat ucast_id)
qed

text \<open>The specification: the lowest free page of \<open>{a..<b}\<close> is taken.\<close>

definition page_alloc :: "nat \<Rightarrow> nat \<Rightarrow> nat set \<Rightarrow> (nat \<times> nat set) option" where
  "page_alloc a b U = (let F = {a..<b} - U in if F = {} then None else Some (Min F, insert (Min F) U))"

definition page_free :: "nat \<Rightarrow> nat set \<Rightarrow> nat set option" where
  "page_free j U = (if j \<in> U then Some (U - {j}) else None)"

lemma get_area_alloc:
  assumes "segment V a b" "io_wf io" "len \<le> PAGE_SIZE"
  shows "iommu40_get_area V vaddr len io =
    (case page_alloc a b (used_slots io) of
       None \<Rightarrow> Some (Inl AssertFailed)
     | Some (j, U) \<Rightarrow> Some (Inr (slot_addr j + of_nat (unat vaddr mod 4096),
                           io\<lparr>page_table := (page_table io)[j := MKIOPTE (mmu_v2p V vaddr)]\<rparr>)))"
proof -
  have V: "IOMMU_VADDR V = slot_addr a" "IOMMU_END V = slot_addr b" "a \<le> b" "b < SLOTS"
    using assms(1) by (simp_all add: segment_def)
  obtain j where j: "find_iopte V (page_table io) (Suc SLOTS) (slot_addr a) = Some (Inr (slot_addr j))" "a \<le> j" "j \<le> b"
      "\<forall>k. a \<le> k \<and> k < j \<longrightarrow> iopte_valid (page_table io) k" "j < b \<longrightarrow> \<not> iopte_valid (page_table io) j"
  proof -
    have "b - a < Suc SLOTS" using V(4) by simp
    from find_iopte_first [OF V(2,4) _ V(3) this, of "page_table io"] assms(2)[unfolded io_wf_def] show thesis using that by blast
  qed
  have jS: "j < SLOTS" using j(3) V(4) by simp
  show ?thesis
  proof (cases "j < b")
    case True
    have "Min ({a..<b} - used_slots io) = j"
    proof (rule Min_eqI)
      fix k assume "k \<in> {a..<b} - used_slots io"
      then show "j \<le> k" using j(4) V(4) by (auto simp: used_slots_def not_less [symmetric])
    qed (use True j(2,5) in \<open>auto simp: used_slots_def\<close>)
    moreover have "j \<in> {a..<b} - used_slots io" using True j(2,5) by (auto simp: used_slots_def)
    then have "{a..<b} - used_slots io \<noteq> {}" by blast
    ultimately show ?thesis
      using True jS V assms(3) j(1)
      by (simp add: iommu40_get_area_def page_alloc_def Let_def slot_less offset_parts)
  next
    case False
    then have "{a..<b} - used_slots io = {}" using j(3,4) V(4) by (auto simp: used_slots_def)
    then show ?thesis
      using False jS V assms(3) j(1)
      by (simp add: iommu40_get_area_def page_alloc_def Let_def slot_less)
  qed
qed

lemma used_update:
  assumes "io_wf io" "j < SLOTS"
  shows "used_slots (io\<lparr>page_table := (page_table io)[j := MKIOPTE p]\<rparr>) = insert j (used_slots io)"
  using assms by (auto simp: used_slots_def io_wf_def valid_update)

lemma release_eq:
  assumes "io_wf io" "j < SLOTS" "k < 4096"
  shows "iommu40_release_scsi_one (slot_addr j + of_nat k) io =
    (if j \<in> used_slots io
     then Inr (io\<lparr>page_table := (page_table io)[j := page_table io ! j AND NOT IOPTE40_VALID]\<rparr>)
     else Inl AssertFailed)"
  using assms index_slot [OF assms(2,3)] by (simp add: iommu40_release_scsi_one_def used_slots_def io_wf_def)

lemma used_release:
  assumes "io_wf io" "j < SLOTS"
  shows "used_slots (io\<lparr>page_table := (page_table io)[j := page_table io ! j AND NOT IOPTE40_VALID]\<rparr>) = used_slots io - {j}"
proof -
  have "(w AND NOT IOPTE40_VALID) AND IOPTE40_VALID = 0" for w :: u32
    by (simp add: and.assoc)
  then show ?thesis
    using assms by (auto simp: used_slots_def io_wf_def iopte_valid_def nth_list_update split: if_splits)
qed

text \<open>
  C12 (iommu_refines_pages): the SCSI segment of the IOMMU page table is an allocator of pages. \<^verbatim>\<open>iommu40_get_area\<close>,
  called for at most a page as it asserts, takes the lowest free page of the segment, returns its address with the offset of
  the buffer in its page, and marks exactly that page as used, or stops the kernel when
  none is free; \<^verbatim>\<open>iommu40_release_scsi_one\<close> frees exactly the page an address lies in, and stops
  the kernel when it is not used.
\<close>

theorem iommu_refines_pages:
  assumes "segment V a b" "io_wf io" "len \<le> PAGE_SIZE"
  shows "(case page_alloc a b (used_slots io) of
        None \<Rightarrow> iommu40_get_area V vaddr len io = Some (Inl AssertFailed)
      | Some (j, U) \<Rightarrow> \<exists>io'. iommu40_get_area V vaddr len io = Some (Inr (slot_addr j + of_nat (unat vaddr mod 4096), io'))
          \<and> used_slots io' = U \<and> io_wf io' \<and> a \<le> j \<and> j < b)
    \<and> (j < SLOTS \<and> k < 4096 \<longrightarrow>
       (case page_free j (used_slots io) of
          None \<Rightarrow> iommu40_release_scsi_one (slot_addr j + of_nat k) io = Inl AssertFailed
        | Some U \<Rightarrow> \<exists>io'. iommu40_release_scsi_one (slot_addr j + of_nat k) io = Inr io'
            \<and> used_slots io' = U \<and> io_wf io'))"
proof -
  have b: "b < SLOTS" using assms(1) by (simp add: segment_def)
  have fin: "finite ({a..<b} - used_slots io)" by simp
  have alloc: "case page_alloc a b (used_slots io) of
        None \<Rightarrow> iommu40_get_area V vaddr len io = Some (Inl AssertFailed)
      | Some (j, U) \<Rightarrow> \<exists>io'. iommu40_get_area V vaddr len io = Some (Inr (slot_addr j + of_nat (unat vaddr mod 4096), io'))
          \<and> used_slots io' = U \<and> io_wf io' \<and> a \<le> j \<and> j < b"
  proof (cases "{a..<b} - used_slots io = {}")
    case True
    then show ?thesis using get_area_alloc [OF assms, of vaddr] by (simp add: page_alloc_def)
  next
    case False
    let ?j = "Min ({a..<b} - used_slots io)"
    have j: "a \<le> ?j" "?j < b" "?j < SLOTS" using Min_in [OF fin False] b by auto
    have "io_wf (io\<lparr>page_table := (page_table io)[?j := MKIOPTE (mmu_v2p V vaddr)]\<rparr>)"
      using assms(2) by (simp add: io_wf_def)
    then show ?thesis
      using get_area_alloc [OF assms, of vaddr] False j used_update [OF assms(2) j(3), of "mmu_v2p V vaddr"]
      by (simp add: page_alloc_def Let_def)
  qed
  have "case page_free j (used_slots io) of
          None \<Rightarrow> iommu40_release_scsi_one (slot_addr j + of_nat k) io = Inl AssertFailed
        | Some U \<Rightarrow> \<exists>io'. iommu40_release_scsi_one (slot_addr j + of_nat k) io = Inr io' \<and> used_slots io' = U \<and> io_wf io'"
    if "j < SLOTS" "k < 4096"
    using release_eq [OF assms(2) that] used_release [OF assms(2) that(1)] assms(2)
    by (simp add: page_free_def io_wf_def)
  with alloc show ?thesis by blast
qed

theorem iommu_refines_pages_witness:
  "\<exists>io'. iommu40_get_area \<lparr>mmu_v2p = \<lambda>v. v, IOMMU_VADDR = slot_addr 1, IOMMU_END = slot_addr 9\<rparr> 0x8123 16
     \<lparr>io_tlb = 0, page_table = replicate SLOTS 0, io_start = IOMMU40_BASE_ADDR, io_end = 0xffffffff, base_reg = 0,
      control_reg = 0, io_events = []\<rparr> = Some (Inr (0xfe001123, io')) \<and> used_slots io' = {1}"
proof -
  let ?V = "\<lparr>mmu_v2p = \<lambda>v. v, IOMMU_VADDR = slot_addr 1, IOMMU_END = slot_addr 9\<rparr>"
  let ?io = "\<lparr>io_tlb = 0, page_table = replicate SLOTS 0, io_start = IOMMU40_BASE_ADDR, io_end = 0xffffffff,
    base_reg = 0, control_reg = 0, io_events = []\<rparr>"
  have U: "used_slots ?io = {}" by (auto simp: used_slots_def iopte_valid_def)
  have "Min {1::nat..<9} = 1" by (rule Min_eqI) auto
  then have "page_alloc 1 9 (used_slots ?io) = Some (1, {1})" by (simp add: U page_alloc_def)
  moreover have "slot_addr 1 + 291 = 0xfe001123" by (simp add: slot_addr_def IOMMU40_BASE_ADDR_def)
  moreover have "segment ?V 1 9" by (simp add: segment_def SLOTS_def)
  moreover have "io_wf ?io" by (simp add: io_wf_def)
  ultimately show ?thesis
    using conjunct1 [OF iommu_refines_pages [of ?V 1 9 ?io 16 "0x8123"]] by (auto simp: PAGE_SIZE_def)
qed

section \<open>What a device reaches\<close>

text \<open>
  The page an entry names, with the fields of an entry as \<^verbatim>\<open>iommu.h\<close> gives them: an address is
  translated when the entry of its page is valid.
\<close>

definition translate :: "iommu40 \<Rightarrow> u32 \<Rightarrow> u32 option" where
  "translate io iova =
     (let i = iopte_index iova
      in if i < length (page_table io) \<and> iopte_valid (page_table io) i
         then Some (push_bit 4 (page_table io ! i AND IOPTE40_PAGE) OR (iova AND NOT PAGE_MASK)) else None)"

lemma page_bits: "PAGE_MASK = NOT (mask 12)" "IOPTE40_PAGE = NOT (mask 8)" "IOPERM = mask 4"
  by (simp_all add: PAGE_MASK_def IOPTE40_PAGE_def IOPERM_def IOPTE40_WRITE_def IOPTE40_VALID_def mask_eq_exp_minus_1)

lemma MKIOPTE_page: "push_bit 4 (MKIOPTE p AND IOPTE40_PAGE) = p AND PAGE_MASK"
  unfolding MKIOPTE_def page_bits
  by (rule bit_eqI) (auto simp: bit_simps)

lemma page_or: "(p AND PAGE_MASK) OR of_nat k = (p AND PAGE_MASK) + of_nat k" if "k < 4096" for p :: u32
proof -
  have "unat (of_nat k :: u32) < 2 ^ 12" using that by (simp add: unat_of_nat take_bit_nat_eq_self)
  then have "take_bit 12 (of_nat k :: u32) = of_nat k"
    by (metis take_bit_nat_eq_self unsigned_take_bit_eq unsigned_word_eqI)
  then have *: "\<not> bit (of_nat k :: u32) n" if "12 \<le> n" for n using that by (metis bit_take_bit_iff not_le)
  have "(p AND PAGE_MASK) AND of_nat k = 0"
  proof (rule bit_eqI)
    fix n show "bit ((p AND PAGE_MASK) AND of_nat k) n = bit (0 :: u32) n"
      using * [of n] by (cases "12 \<le> n") (simp_all add: page_bits bit_and_iff bit_not_iff bit_mask_iff)
  qed
  then show ?thesis by (simp add: disjunctive_add_eq_or)
qed

lemma unat_page: "k < 4096 \<Longrightarrow> i < SLOTS \<Longrightarrow> unat (slot_addr i + of_nat k) = 0xfe000000 + 4096 * i + k"
proof -
  assume k: "k < 4096" and i: "i < SLOTS"
  have "slot_addr i + of_nat k = of_nat (0xfe000000 + 4096 * i + k)"
    by (simp add: slot_addr_def IOMMU40_BASE_ADDR_def push_bit_eq_mult)
  moreover have "0xfe000000 + 4096 * i + k < 2 ^ 32" using i k by (simp add: SLOTS_def)
  ultimately show ?thesis by (simp add: unat_of_nat take_bit_nat_eq_self del: of_nat_add of_nat_mult)
qed

lemma translate_map:
  assumes "io_wf io" "j < SLOTS" "i < SLOTS" "k < 4096"
  shows "translate (io\<lparr>page_table := (page_table io)[j := MKIOPTE p]\<rparr>) (slot_addr i + of_nat k) =
    (if i = j then Some ((p AND PAGE_MASK) + of_nat k) else translate io (slot_addr i + of_nat k))"
proof -
  have "0xfe000000 + 4096 * i + k = k + 4096 * (1040384 + i)" by simp
  then have "(0xfe000000 + 4096 * i + k) mod 4096 = k" using assms(4) by (simp only: mod_mult_self2 mod_less)
  then have "(slot_addr i + of_nat k) AND NOT PAGE_MASK = of_nat k"
    unfolding offset_parts unat_page [OF assms(4,3)] by simp
  with assms show ?thesis
    by (cases "i = j")
      (simp_all add: translate_def index_slot io_wf_def valid_update MKIOPTE_page page_or Let_def nth_list_update del: push_bit_and)
qed

text \<open>
  C18 (dma_reaches_area): after \<^verbatim>\<open>iommu40_get_area\<close> a device that starts at the returned address reaches the
  bytes of the buffer in physical memory, as long as they lie in the page the buffer
  starts in. Bytes of the buffer beyond that page are translated as before the call,
  although the length passes the test of the routine: an area of at most a page that crosses
  a page boundary is mapped only in its first page.
\<close>

theorem dma_reaches_area:
  assumes "segment V a b" "io_wf io" "iommu40_get_area V vaddr len io = Some (Inr (iova, io'))" "k < unat len"
  shows "translate io' (iova + of_nat k) =
    (if unat vaddr mod 4096 + k < 4096
     then Some ((mmu_v2p V vaddr AND PAGE_MASK) + of_nat (unat vaddr mod 4096 + k))
     else translate io (iova + of_nat k))"
proof -
  have len: "len \<le> PAGE_SIZE" using assms(3) by (auto simp: iommu40_get_area_def Let_def split: if_splits)
  then have k: "k < 4096" using assms(4) by (simp add: word_le_nat_alt PAGE_SIZE_def)
  let ?o = "unat vaddr mod 4096" and ?j = "Min ({a..<b} - used_slots io)"
  have ne: "{a..<b} - used_slots io \<noteq> {}"
    and iova: "iova = slot_addr ?j + of_nat ?o" and io': "io' = io\<lparr>page_table := (page_table io)[?j := MKIOPTE (mmu_v2p V vaddr)]\<rparr>"
    using assms(3) unfolding get_area_alloc [OF assms(1,2) len] by (auto simp: page_alloc_def Let_def split: if_splits)
  have j: "?j < SLOTS" "Suc ?j < SLOTS" using Min_in [OF _ ne] assms(1) by (auto simp: segment_def)
  show ?thesis
  proof (cases "?o + k < 4096")
    case True
    then show ?thesis
      using translate_map [OF assms(2) j(1) j(1), of "?o + k"] by (simp add: iova io' add.assoc)
  next
    case False
    have o: "?o < 4096" by simp
    obtain r where r: "?o + k = 4096 + r" using False by (metis le_Suc_ex not_le)
    with o k have "r < 4096" by linarith
    note r = r this
    have "iova + of_nat k = slot_addr ?j + of_nat (?o + k)" by (simp add: iova add.assoc)
    also have "\<dots> = slot_addr (Suc ?j) + of_nat r" unfolding r(1) slot_next [symmetric] by (simp add: PAGE_SIZE_def)
    finally show ?thesis
      using False translate_map [OF assms(2) j(1) j(2) r(2), of "mmu_v2p V vaddr"] by (simp add: io')
  qed
qed

theorem dma_reaches_area_witness:
  "\<exists>iova io'. iommu40_get_area \<lparr>mmu_v2p = \<lambda>v. v, IOMMU_VADDR = slot_addr 1, IOMMU_END = slot_addr 9\<rparr> 0x8fff 2
     \<lparr>io_tlb = 0, page_table = replicate SLOTS 0, io_start = IOMMU40_BASE_ADDR, io_end = 0xffffffff, base_reg = 0,
      control_reg = 0, io_events = []\<rparr> = Some (Inr (iova, io'))
    \<and> translate io' iova = Some 0x8fff \<and> translate io' (iova + 1) = None"
proof -
  let ?V = "\<lparr>mmu_v2p = \<lambda>v. v, IOMMU_VADDR = slot_addr 1, IOMMU_END = slot_addr 9\<rparr>"
  let ?io = "\<lparr>io_tlb = 0, page_table = replicate SLOTS 0, io_start = IOMMU40_BASE_ADDR, io_end = 0xffffffff,
    base_reg = 0, control_reg = 0, io_events = []\<rparr>"
  have wf: "segment ?V 1 9" "io_wf ?io" by (simp_all add: segment_def io_wf_def SLOTS_def)
  have U: "used_slots ?io = {}" by (auto simp: used_slots_def iopte_valid_def)
  have "Min {1::nat..<9} = 1" by (rule Min_eqI) auto
  then have "page_alloc 1 9 (used_slots ?io) = Some (1, {1})" by (simp add: U page_alloc_def)
  then obtain iova io' where g: "iommu40_get_area ?V 0x8fff 2 ?io = Some (Inr (iova, io'))"
    using get_area_alloc [OF wf, of 2 "0x8fff"] by (simp add: PAGE_SIZE_def)
  have none: "translate ?io (iova + 1) = None" by (simp add: translate_def Let_def iopte_valid_def)
  have "0x8fff AND PAGE_MASK = 0x8000" by (simp add: PAGE_MASK_def)
  with dma_reaches_area [OF wf g, of 0] dma_reaches_area [OF wf g, of 1] none g show ?thesis by auto
qed

section \<open>Scatter lists\<close>

text \<open>\<open>at_slots\<close>: the DMA addresses of the first \<open>n\<close> entries lie in the pages \<open>js\<close>, which are distinct.\<close>

definition at_slots :: "mmu_sglist list \<Rightarrow> nat \<Rightarrow> (nat \<Rightarrow> nat) \<Rightarrow> bool" where
  "at_slots sg n js \<longleftrightarrow> n \<le> length sg \<and> inj_on js {..<n}
     \<and> (\<forall>i<n. js i < SLOTS \<and> (\<exists>k<4096. dvma_addr (sg ! i) = slot_addr (js i) + of_nat k))"

lemma get_sgl_slots:
  assumes "segment V a b"
  shows "io_wf io \<Longrightarrow> n \<le> length sg \<Longrightarrow> (\<forall>i<n. sg_len (sg ! i) \<le> PAGE_SIZE) \<Longrightarrow>
    n \<le> card ({a..<b} - used_slots io) \<Longrightarrow>
    \<exists>sg' io' js. get_sgl_loop V n sg io = Some (Inr (sg', io')) \<and> io_wf io' \<and> length sg' = length sg
      \<and> drop n sg' = drop n sg \<and> at_slots sg' n js \<and> js ` {..<n} \<inter> used_slots io = {}
      \<and> used_slots io' = used_slots io \<union> js ` {..<n}"
proof (induction n arbitrary: sg io)
  case 0
  then show ?case by (simp add: at_slots_def)
next
  case (Suc n)
  let ?F = "{a..<b} - used_slots io" and ?o = "unat (sg_addr (sg ! n)) mod 4096"
  have ne: "?F \<noteq> {}" using Suc.prems(4) by (metis card.empty not_less_eq_eq le0)
  have n: "n < length sg" "sg_len (sg ! n) \<le> PAGE_SIZE" using Suc.prems(2,3) by auto
  define j where "j = Min ?F"
  define io1 where "io1 = io\<lparr>page_table := (page_table io)[j := MKIOPTE (mmu_v2p V (sg_addr (sg ! n)))]\<rparr>"
  define sg1 where "sg1 = sg[n := (sg ! n)\<lparr>dvma_addr := slot_addr j + of_nat ?o\<rparr>]"
  have j: "j \<in> ?F" "j < SLOTS" using Min_in [OF _ ne] assms by (auto simp: j_def segment_def)
  have g: "iommu40_get_area V (sg_addr (sg ! n)) (sg_len (sg ! n)) io = Some (Inr (slot_addr j + of_nat ?o, io1))"
    using get_area_alloc [OF assms Suc.prems(1) n(2), of "sg_addr (sg ! n)"] ne
    by (simp add: page_alloc_def j_def io1_def Let_def)
  have U: "used_slots io1 = insert j (used_slots io)" "io_wf io1"
    using used_update [OF Suc.prems(1) j(2)] Suc.prems(1) by (simp_all add: io1_def io_wf_def)
  have "{a..<b} - used_slots io1 = ?F - {j}" using U by auto
  then have "n \<le> card ({a..<b} - used_slots io1)" using Suc.prems(4) j(1) by simp
  with Suc.IH [OF U(2), of sg1] n Suc.prems(3) obtain sg' io' js where
    r: "get_sgl_loop V n sg1 io1 = Some (Inr (sg', io'))" "io_wf io'" "length sg' = length sg" "drop n sg' = drop n sg1"
      "at_slots sg' n js" "js ` {..<n} \<inter> used_slots io1 = {}" "used_slots io' = used_slots io1 \<union> js ` {..<n}"
    by (auto simp: sg1_def)
  have at: "sg' ! n = sg1 ! n" using r(3,4) n(1) by (metis Cons_nth_drop_Suc length_list_update list.inject sg1_def)
  have dr: "drop (Suc n) sg' = drop (Suc n) sg" using r(4) by (metis drop_Suc tl_drop drop_update_cancel lessI sg1_def)
  define js' where "js' = js(n := j)"
  have im: "js' ` {..<Suc n} = insert j (js ` {..<n})" by (auto simp: js'_def lessThan_Suc)
  have "inj_on js' {..<Suc n}" using r(5,6) U(1) by (auto simp: js'_def at_slots_def lessThan_Suc inj_on_def)
  moreover have "\<exists>k<4096. dvma_addr (sg' ! n) = slot_addr j + of_nat k"
    using n(1) by (auto simp: at sg1_def intro!: exI [of _ ?o])
  ultimately have "at_slots sg' (Suc n) js'" using r(3,5) n(1) j(2) by (auto simp: js'_def at_slots_def less_Suc_eq)
  then show ?case
    using r g n(1) U(1) j(1) dr im
    by (intro exI [of _ sg'] exI [of _ io'] exI [of _ js']) (auto simp: sg1_def)
qed

lemma release_sgl_slots:
  assumes "at_slots sg n js" "js ` {..<n} \<subseteq> used_slots io" "io_wf io"
  shows "\<exists>io'. release_sgl_loop n sg io = Inr io' \<and> io_wf io' \<and> used_slots io' = used_slots io - js ` {..<n}"
  using assms
proof (induction n arbitrary: io)
  case (Suc n)
  obtain k where k: "js n < SLOTS" "k < 4096" "dvma_addr (sg ! n) = slot_addr (js n) + of_nat k" and n: "n < length sg"
    using Suc.prems(1) by (auto simp: at_slots_def)
  define io1 where "io1 = io\<lparr>page_table := (page_table io)[js n := page_table io ! js n AND NOT IOPTE40_VALID]\<rparr>"
  have r: "iommu40_release_scsi_one (dvma_addr (sg ! n)) io = Inr io1"
    using release_eq [OF Suc.prems(3) k(1,2)] Suc.prems(2) k(3) by (auto simp: io1_def)
  have U: "used_slots io1 = used_slots io - {js n}" "io_wf io1"
    using used_release [OF Suc.prems(3) k(1)] Suc.prems(3) by (simp_all add: io1_def io_wf_def)
  have "at_slots sg n js" using Suc.prems(1) by (auto simp: at_slots_def lessThan_Suc)
  moreover have "js n \<notin> js ` {..<n}" using Suc.prems(1) by (auto simp: at_slots_def lessThan_Suc)
  then have "js ` {..<n} \<subseteq> used_slots io1" using Suc.prems(2) unfolding U(1) lessThan_Suc by blast
  ultimately obtain io' where "release_sgl_loop n sg io1 = Inr io'" "io_wf io'"
      "used_slots io' = used_slots io1 - js ` {..<n}"
    using Suc.IH U(2) by blast
  then show ?case using r n U(1) by (auto simp: lessThan_Suc)
qed simp

text \<open>
  C19 (sgl_roundtrip): mapping a scatter list whose entries are each at most a page long, as the routine asserts, succeeds when the segment has as many free pages as the list has
  entries, gives the entries addresses in different pages that were free, and releasing
  the list leaves the segment with exactly the pages that were in use before.
\<close>

theorem sgl_roundtrip:
  assumes "segment V a b" "io_wf io" "\<forall>x\<in>set sg. sg_len x \<le> PAGE_SIZE"
    "length sg \<le> card ({a..<b} - used_slots io)"
  shows "\<exists>sg' io' js. iommu40_get_scsi_sgl V sg (int (length sg) - 1) io = Some (Inr (sg', io'))
    \<and> length sg' = length sg \<and> at_slots sg' (length sg) js \<and> js ` {..<length sg} \<inter> used_slots io = {}
    \<and> used_slots io' = used_slots io \<union> js ` {..<length sg}
    \<and> (\<exists>io''. iommu40_release_scsi_sgl sg' (int (length sg) - 1) io' = Inr io'' \<and> used_slots io'' = used_slots io)"
proof -
  have "\<forall>i<length sg. sg_len (sg ! i) \<le> PAGE_SIZE" using assms(3) by simp
  from get_sgl_slots [OF assms(1,2) order_refl this assms(4)] obtain sg' io' js where
    r: "get_sgl_loop V (length sg) sg io = Some (Inr (sg', io'))" "io_wf io'" "length sg' = length sg"
      "at_slots sg' (length sg) js" "js ` {..<length sg} \<inter> used_slots io = {}"
      "used_slots io' = used_slots io \<union> js ` {..<length sg}" by blast
  let ?io = "iommu40_invalidate (io_event FlushCacheAll io')"
  have same: "used_slots ?io = used_slots io'" "io_wf ?io"
    using r(2) by (simp_all add: used_slots_def io_wf_def iommu40_invalidate_def io_event_def)
  have "js ` {..<length sg} \<subseteq> used_slots ?io" using r(6) same(1) by auto
  from release_sgl_slots [OF r(4) this same(2)] obtain io'' where
    "release_sgl_loop (length sg) sg' ?io = Inr io''" "used_slots io'' = used_slots ?io - js ` {..<length sg}" by blast
  moreover from this have "used_slots io'' = used_slots io" using r(5,6) same(1) by auto
  ultimately show ?thesis
    using r same by (intro exI [of _ sg'] exI [of _ ?io] exI [of _ js])
      (simp add: iommu40_get_scsi_sgl_def iommu40_release_scsi_sgl_def)
qed

theorem sgl_roundtrip_witness:
  "\<exists>sg' io' io''. iommu40_get_scsi_sgl \<lparr>mmu_v2p = \<lambda>v. v, IOMMU_VADDR = slot_addr 1, IOMMU_END = slot_addr 9\<rparr>
      [\<lparr>sg_addr = 0x8000, sg_len = 512, dvma_addr = 0\<rparr>, \<lparr>sg_addr = 0x9000, sg_len = 16, dvma_addr = 0\<rparr>] 1
      \<lparr>io_tlb = 0, page_table = replicate SLOTS 0, io_start = IOMMU40_BASE_ADDR, io_end = 0xffffffff, base_reg = 0,
       control_reg = 0, io_events = []\<rparr> = Some (Inr (sg', io'))
    \<and> iommu40_release_scsi_sgl sg' 1 io' = Inr io'' \<and> used_slots io'' = {}"
proof -
  let ?V = "\<lparr>mmu_v2p = \<lambda>v. v, IOMMU_VADDR = slot_addr 1, IOMMU_END = slot_addr 9\<rparr>"
  let ?io = "\<lparr>io_tlb = 0, page_table = replicate SLOTS 0, io_start = IOMMU40_BASE_ADDR, io_end = 0xffffffff,
    base_reg = 0, control_reg = 0, io_events = []\<rparr>"
  let ?sg = "[\<lparr>sg_addr = 0x8000, sg_len = 512, dvma_addr = 0\<rparr>, \<lparr>sg_addr = 0x9000, sg_len = 16, dvma_addr = 0\<rparr>]"
  have wf: "segment ?V 1 9" "io_wf ?io" by (simp_all add: segment_def io_wf_def SLOTS_def)
  have U: "used_slots ?io = {}" by (auto simp: used_slots_def iopte_valid_def)
  have "\<forall>x\<in>set ?sg. sg_len x \<le> PAGE_SIZE" by (simp add: PAGE_SIZE_def)
  moreover have "length ?sg \<le> card ({1..<9} - used_slots ?io)" unfolding U by simp
  ultimately have "\<exists>sg' io' js. iommu40_get_scsi_sgl ?V ?sg (int (length ?sg) - 1) ?io = Some (Inr (sg', io'))
    \<and> length sg' = length ?sg \<and> at_slots sg' (length ?sg) js \<and> js ` {..<length ?sg} \<inter> used_slots ?io = {}
    \<and> used_slots io' = used_slots ?io \<union> js ` {..<length ?sg}
    \<and> (\<exists>io''. iommu40_release_scsi_sgl sg' (int (length ?sg) - 1) io' = Inr io'' \<and> used_slots io'' = used_slots ?io)"
    by (rule sgl_roundtrip [OF wf])
  moreover have "int (length ?sg) - 1 = 1" by simp
  ultimately show ?thesis unfolding U by metis
qed

section \<open>The pages of a DMA area\<close>

lemma page_align:
  assumes "4096 * n < l + 4096" "l \<le> 4096 * n" "i + n < SLOTS"
  shows "(slot_addr i + of_nat l + PAGE_SIZE - 1) AND PAGE_MASK = slot_addr (i + n)"
proof -
  let ?x = "0xfe000000 + 4096 * i + l + 4095"
  have small: "?x < 2 ^ 32" using assms by (simp add: SLOTS_def)
  have w: "slot_addr i + of_nat l + PAGE_SIZE - 1 = of_nat ?x"
    by (simp add: slot_addr_def IOMMU40_BASE_ADDR_def PAGE_SIZE_def push_bit_eq_mult)
  have and_mask: "w AND PAGE_MASK = push_bit 12 (drop_bit 12 w)" for w :: u32
    unfolding page_bits by (rule bit_eqI) (auto simp: bit_simps)
  have "?x div 4096 = 1040384 + (i + n)" using assms(1,2) by (intro div_nat_eqI) simp_all
  moreover have "unat (of_nat ?x :: u32) = ?x"
    using small by (simp add: unat_of_nat take_bit_nat_eq_self del: of_nat_add of_nat_mult)
  ultimately have "unat (drop_bit 12 (of_nat ?x :: u32)) = 1040384 + (i + n)"
    by (simp only: unat_drop_bit_eq) (simp add: drop_bit_eq_div)
  then have "drop_bit 12 (of_nat ?x :: u32) = of_nat (1040384 + (i + n))" by (metis of_nat_unat ucast_id)
  then show ?thesis unfolding w and_mask
    by (simp add: slot_addr_def IOMMU40_BASE_ADDR_def push_bit_eq_mult)
qed

lemma translate_cong: "page_table io = page_table io' \<Longrightarrow> translate io a = translate io' a"
  unfolding translate_def by (simp only:)

lemma map_dma_loop_pages:
  assumes "io_wf io" "i + n < SLOTS" "n \<le> length pages" "\<forall>p\<in>set (take n pages). p \<noteq> 0"
  shows "\<exists>io'. map_dma_loop V pages i (slot_addr i) (slot_addr (i + n)) io = Some (Inr io') \<and> io_wf io'
    \<and> (\<forall>k<n. page_table io' ! (i + k) = MKIOPTE (mmu_v2p V (pages ! k)))
    \<and> (\<forall>k. k < i \<or> i + n \<le> k \<longrightarrow> page_table io' ! k = page_table io ! k)"
  using assms
proof (induction n arbitrary: io i pages)
  case 0
  then show ?case by (simp add: map_dma_loop.simps)
next
  case (Suc n)
  then obtain p ps where ps: "pages = p # ps" by (cases pages) auto
  define io1 where "io1 = io_event (SetPte (slot_addr i) p) (io\<lparr>page_table := (page_table io)[i := MKIOPTE (mmu_v2p V p)]\<rparr>)"
  have pt: "page_table io1 = (page_table io)[i := MKIOPTE (mmu_v2p V p)]" by (simp add: io1_def io_event_def)
  have "io_wf io1" using Suc.prems(1) by (simp add: pt io_wf_def)
  with Suc.IH [of io1 "Suc i" ps] Suc.prems ps obtain io' where
    r: "map_dma_loop V ps (Suc i) (slot_addr (Suc i)) (slot_addr (Suc i + n)) io1 = Some (Inr io')" "io_wf io'"
      "\<forall>k<n. page_table io' ! (Suc i + k) = MKIOPTE (mmu_v2p V (ps ! k))"
      "\<forall>k. k < Suc i \<or> Suc i + n \<le> k \<longrightarrow> page_table io' ! k = page_table io1 ! k" by auto
  have len: "i < length (page_table io)" using Suc.prems(1,2) by (simp add: io_wf_def)
  have "map_dma_loop V pages i (slot_addr i) (slot_addr (i + Suc n)) io = Some (Inr io')"
    using r(1) Suc.prems(2,4) len
    by (subst map_dma_loop.simps) (simp add: ps slot_less slot_next io1_def [symmetric])
  moreover have "page_table io' ! (i + k) = MKIOPTE (mmu_v2p V (pages ! k))" if "k < Suc n" for k
    using that r(3,4) len by (cases k) (auto simp: ps pt)
  moreover have "page_table io' ! k = page_table io ! k" if "k < i \<or> i + Suc n \<le> k" for k
    using that r(4) by (auto simp: pt)
  ultimately show ?case using r(2) by blast
qed

text \<open>
  \<^verbatim>\<open>iommu40_map_dma_area\<close> of an area that starts on a page, with a page of memory for each of its
  pages, returns with every page of the area mapped to the memory allocated for it, in
  order, and with no other page of the IOMMU touched. If the memory runs out before, the kernel
  panics.
\<close>

theorem dma_area_mapped:
  assumes "io_wf io" "io_start io = IOMMU40_BASE_ADDR" "i + n < SLOTS" "l \<le> 4096 * n" "4096 * n < l + 4096"
    "n \<le> length pages" "\<forall>p\<in>set (take n pages). p \<noteq> 0"
  shows "\<exists>io'. iommu40_map_dma_area V pages (slot_addr i) (of_nat l) io = Some (Inr io') \<and> io_wf io'
    \<and> (\<forall>j k. j < SLOTS \<and> k < 4096 \<longrightarrow> translate io' (slot_addr j + of_nat k) =
        (if i \<le> j \<and> j < i + n then Some ((mmu_v2p V (pages ! (j - i)) AND PAGE_MASK) + of_nat k)
         else translate io (slot_addr j + of_nat k)))"
proof -
  have i: "i < SLOTS" using assms(3) by simp
  then have start: "io_start io \<le> slot_addr i"
    using unat_slot [of i] by (simp add: assms(2) word_le_nat_alt IOMMU40_BASE_ADDR_def)
  have ix: "unat (drop_bit PAGE_SHIFT (slot_addr i - io_start io)) = i"
    using index_slot0 [OF i] by (simp add: iopte_index_def assms(2))
  obtain io' where r: "map_dma_loop V pages i (slot_addr i) (slot_addr (i + n)) io = Some (Inr io')" "io_wf io'"
      "\<forall>k<n. page_table io' ! (i + k) = MKIOPTE (mmu_v2p V (pages ! k))"
      "\<forall>k. k < i \<or> i + n \<le> k \<longrightarrow> page_table io' ! k = page_table io ! k"
    using map_dma_loop_pages [OF assms(1,3,6,7), of V] by blast
  let ?io = "iommu40_invalidate (io_event FlushTlbAll (io_event FlushCacheAll io'))"
  have pt: "page_table ?io = page_table io'" by (simp add: iommu40_invalidate_def io_event_def)
  have "translate ?io (slot_addr j + of_nat k) =
      (if i \<le> j \<and> j < i + n then Some ((mmu_v2p V (pages ! (j - i)) AND PAGE_MASK) + of_nat k)
       else translate io (slot_addr j + of_nat k))" if "j < SLOTS" "k < 4096" for j k
  proof (cases "i \<le> j \<and> j < i + n")
    case True
    then have "j - i < n" by linarith
    with True have e: "page_table io' ! j = MKIOPTE (mmu_v2p V (pages ! (j - i)))"
      using r(3) [rule_format, of "j - i"] by simp
    have "page_table io' = (page_table io')[j := MKIOPTE (mmu_v2p V (pages ! (j - i)))]"
      using e by (metis list_update_id)
    then have "translate io' (slot_addr j + of_nat k) = Some ((mmu_v2p V (pages ! (j - i)) AND PAGE_MASK) + of_nat k)"
      using translate_map [OF r(2) that(1) that, of "mmu_v2p V (pages ! (j - i))"] by simp
    then show ?thesis using True translate_cong [OF pt] by simp
  next
    case False
    then have "page_table io' ! j = page_table io ! j" using r(4) by auto
    then have "translate io' (slot_addr j + of_nat k) = translate io (slot_addr j + of_nat k)"
      using r(2) assms(1) that by (simp add: translate_def index_slot io_wf_def iopte_valid_def)
    then show ?thesis using translate_cong [OF pt] by (simp only: False if_False)
  qed
  moreover have "iommu40_map_dma_area V pages (slot_addr i) (of_nat l) io = Some (Inr ?io)"
    using start r(1) by (simp add: iommu40_map_dma_area_def ix page_align [OF assms(5,4,3)])
  moreover have "io_wf ?io" using r(2) pt by (simp add: io_wf_def)
  ultimately show ?thesis by (intro exI [of _ ?io]) blast
qed

theorem dma_area_mapped_witness:
  "\<exists>io'. iommu40_map_dma_area \<lparr>mmu_v2p = \<lambda>v. v, IOMMU_VADDR = slot_addr 1, IOMMU_END = slot_addr 9\<rparr>
      [0x5000, 0x2000] 0xfe010000 5000
      \<lparr>io_tlb = 0, page_table = replicate SLOTS 0, io_start = IOMMU40_BASE_ADDR, io_end = 0xffffffff, base_reg = 0,
       control_reg = 0, io_events = []\<rparr> = Some (Inr io')
    \<and> translate io' (slot_addr 17 + 8) = Some 0x2008"
proof -
  let ?V = "\<lparr>mmu_v2p = \<lambda>v. v, IOMMU_VADDR = slot_addr 1, IOMMU_END = slot_addr 9\<rparr>"
  let ?io = "\<lparr>io_tlb = 0, page_table = replicate SLOTS 0, io_start = IOMMU40_BASE_ADDR, io_end = 0xffffffff,
    base_reg = 0, control_reg = 0, io_events = []\<rparr>"
  have "io_wf ?io" by (simp add: io_wf_def)
  then obtain io' where r: "iommu40_map_dma_area ?V [0x5000, 0x2000] (slot_addr 16) (of_nat 5000) ?io = Some (Inr io')"
      "\<forall>j k. j < SLOTS \<and> k < 4096 \<longrightarrow> translate io' (slot_addr j + of_nat k) =
        (if 16 \<le> j \<and> j < 16 + 2 then Some ((mmu_v2p ?V ([0x5000, 0x2000] ! (j - 16)) AND PAGE_MASK) + of_nat k)
         else translate ?io (slot_addr j + of_nat k))"
    using dma_area_mapped [of ?io 16 2 5000 "[0x5000, 0x2000]" ?V] by (auto simp: SLOTS_def)
  have "translate io' (slot_addr 17 + of_nat 8) = Some 0x2008"
    using r(2) [rule_format, of 17 8] by (simp add: SLOTS_def PAGE_MASK_def)
  moreover have "slot_addr 16 = 0xfe010000" by (simp add: slot_addr_def IOMMU40_BASE_ADDR_def push_bit_eq_mult)
  ultimately show ?thesis using r(1) by auto
qed

end
