(* ===== verification/IommuTable.thy ===== *)
theory IommuTable
  imports Iommu
begin

text \<open>
  The IOMMU as a state machine: every operation on it, and what each entry of its table can be (\<^verbatim>\<open>arch/sparc/meiko/iommu.c\<close>).
\<close>

section \<open>The table keeps its type\<close>

text \<open>Every use of the IOMMU, as steps from its start; locking an area returns its address and does nothing.\<close>

definition iommu40_lockarea :: "u32 \<Rightarrow> u32 \<Rightarrow> iommu40 \<Rightarrow> u32 \<times> iommu40" where
  "iommu40_lockarea vaddr len io = (vaddr, io)"

definition iommu40_unlockarea :: "u32 \<Rightarrow> u32 \<Rightarrow> iommu40 \<Rightarrow> iommu40" where
  "iommu40_unlockarea vaddr len io = io"

inductive iommu_step :: "iommu_env \<Rightarrow> iommu40 \<Rightarrow> iommu40 \<Rightarrow> bool" for V where
  get_one: "iommu40_get_scsi_one V vaddr len io = Some (Inr (iova, io')) \<Longrightarrow> iommu_step V io io'"
| get_sgl: "iommu40_get_scsi_sgl V sg sz io = Some (Inr (sg', io')) \<Longrightarrow> iommu_step V io io'"
| release_one: "iommu40_release_scsi_one vaddr io = Inr io' \<Longrightarrow> iommu_step V io io'"
| release_sgl: "iommu40_release_scsi_sgl sg sz io = Inr io' \<Longrightarrow> iommu_step V io io'"
| map_area: "iommu40_map_dma_area V pages iovaddr len io = Some (Inr io') \<Longrightarrow> iommu_step V io io'"
| lock: "iommu40_lockarea vaddr len io = (a, io') \<Longrightarrow> iommu_step V io io'"
| unlock: "iommu_step V io (iommu40_unlockarea vaddr len io)"

inductive iommu_reach :: "iommu_env \<Rightarrow> iommu40 \<Rightarrow> bool" for V where
  start: "iommu40_init V regs ident address table io = Inr io' \<Longrightarrow> iommu_reach V io'"
| step: "iommu_reach V io \<Longrightarrow> iommu_step V io io' \<Longrightarrow> iommu_reach V io'"

text \<open>An entry is empty, maps a page, or is that of a page that was given back.\<close>

definition pte_ok :: "u32 \<Rightarrow> bool" where
  "pte_ok e \<longleftrightarrow> e = 0 \<or> (\<exists>p. e = MKIOPTE p \<or> e = MKIOPTE p AND NOT IOPTE40_VALID)"

definition table_ok :: "iommu40 \<Rightarrow> bool" where
  "table_ok io \<longleftrightarrow> length (page_table io) = SLOTS \<and> (\<forall>e \<in> set (page_table io). pte_ok e) \<and> io_start io = IOMMU40_BASE_ADDR
     \<and> control_reg io = IOMMU40_CTRL_ENABLE OR IOMMU40_CTRL_2TO1"

lemma table_ok_simps [simp]: "table_ok (iommu40_invalidate io) = table_ok io" "table_ok (io_event e io) = table_ok io"
  by (simp_all add: table_ok_def iommu40_invalidate_def io_event_def)

lemma table_ok_set:
  assumes "table_ok io" "i < SLOTS \<Longrightarrow> pte_ok e"
  shows "table_ok (io\<lparr>page_table := (page_table io)[i := e]\<rparr>)"
proof (cases "i < SLOTS")
  case True
  with assms set_update_subset_insert [of "page_table io" i e] show ?thesis by (auto simp: table_ok_def)
next
  case False
  with assms(1) show ?thesis by (simp add: table_ok_def list_update_beyond)
qed

lemma pte_ok_new: "pte_ok (MKIOPTE p)" by (auto simp: pte_ok_def)

lemma pte_ok_release: "pte_ok e \<Longrightarrow> pte_ok (e AND NOT IOPTE40_VALID)"
proof -
  have "x AND NOT IOPTE40_VALID AND NOT IOPTE40_VALID = x AND NOT IOPTE40_VALID" for x :: u32 by (simp add: and.assoc)
  then show "pte_ok e \<Longrightarrow> pte_ok (e AND NOT IOPTE40_VALID)" by (auto simp: pte_ok_def)
qed

lemma get_area_ok: "iommu40_get_area V vaddr len io = Some (Inr (iova, io')) \<Longrightarrow> table_ok io \<Longrightarrow> table_ok io'"
  by (auto simp: iommu40_get_area_def Let_def split: if_splits option.splits sum.splits intro: table_ok_set pte_ok_new)

lemma get_sgl_ok: "get_sgl_loop V sz sg io = Some (Inr (sg', io')) \<Longrightarrow> table_ok io \<Longrightarrow> table_ok io'"
  by (induction V sz sg io rule: get_sgl_loop.induct)
    (auto split: if_splits option.splits sum.splits prod.splits dest: get_area_ok)

lemma release_ok:
  assumes "iommu40_release_scsi_one vaddr io = Inr io'" "table_ok io"
  shows "table_ok io'"
proof -
  let ?i = "iopte_index vaddr"
  have i: "?i < length (page_table io)" and io': "io' = io\<lparr>page_table := (page_table io)[?i := page_table io ! ?i AND NOT IOPTE40_VALID]\<rparr>"
    using assms(1) by (simp_all add: iommu40_release_scsi_one_def split: if_splits)
  have "pte_ok (page_table io ! ?i)" using assms(2) i by (simp add: table_ok_def)
  then show ?thesis unfolding io' by (intro table_ok_set [OF assms(2)] pte_ok_release)
qed

lemma release_sgl_ok: "release_sgl_loop sz sg io = Inr io' \<Longrightarrow> table_ok io \<Longrightarrow> table_ok io'"
  by (induction sz sg io rule: release_sgl_loop.induct) (auto split: if_splits sum.splits dest: release_ok)

lemma map_dma_ok: "map_dma_loop V pages i iovaddr stop io = Some (Inr io') \<Longrightarrow> table_ok io \<Longrightarrow> table_ok io'"
proof (induction pages arbitrary: i iovaddr io)
  case (Cons page pages)
  have "table_ok (io\<lparr>page_table := (page_table io)[i := MKIOPTE (mmu_v2p V page)]\<rparr>)"
    by (intro table_ok_set Cons.prems(2) pte_ok_new)
  then show ?case
    using Cons.prems Cons.IH [of "Suc i" "iovaddr + PAGE_SIZE"] map_dma_loop.simps [of V "page # pages" i iovaddr stop io]
    by (auto split: if_splits)
qed (simp add: map_dma_loop.simps split: if_splits)

lemma init_ok: "iommu40_init V regs ident address table io = Inr io' \<Longrightarrow> table_ok io'"
  by (auto simp: iommu40_init_def Let_def table_ok_def iommu40_invalidate_def io_event_def IOMMU40_BASE_ADDR_def PAGE_SHIFT_def SLOTS_def
      pte_ok_def split: if_splits)

lemma table_ok_step: "iommu_step V io io' \<Longrightarrow> table_ok io \<Longrightarrow> table_ok io'"
  by (induction rule: iommu_step.induct)
    (auto simp: iommu40_get_scsi_one_def iommu40_get_scsi_sgl_def iommu40_release_scsi_sgl_def iommu40_map_dma_area_def
      iommu40_lockarea_def iommu40_unlockarea_def split: option.splits sum.splits prod.splits if_splits
      dest: get_area_ok get_sgl_ok release_ok release_sgl_ok map_dma_ok)

text \<open>
  C20 (iommu_table_typed): whatever is done with the IOMMU after its start, its table has 8192 entries, each of which is empty, maps a page, or is a mapping that was given
  back, and the chip stays enabled. A device that reaches memory through it therefore reaches a page that some
  entry was made for, at its own offset in the page.
\<close>

theorem iommu_table_typed:
  assumes "iommu_reach V io"
  shows "length (page_table io) = SLOTS \<and> (\<forall>e \<in> set (page_table io). pte_ok e)
    \<and> control_reg io = IOMMU40_CTRL_ENABLE OR IOMMU40_CTRL_2TO1
    \<and> (\<forall>a x. translate io a = Some x \<longrightarrow>
        (\<exists>p. page_table io ! iopte_index a = MKIOPTE p \<and> x = (p AND PAGE_MASK) OR (a AND NOT PAGE_MASK)))"
proof -
  have ok: "table_ok io" using assms by (induction rule: iommu_reach.induct) (auto intro: init_ok table_ok_step)
  have "\<exists>p. page_table io ! iopte_index a = MKIOPTE p \<and> x = (p AND PAGE_MASK) OR (a AND NOT PAGE_MASK)"
    if "translate io a = Some x" for a x
  proof -
    let ?e = "page_table io ! iopte_index a"
    have i: "iopte_index a < length (page_table io)" "?e AND IOPTE40_VALID \<noteq> 0"
      and x: "x = push_bit 4 (?e AND IOPTE40_PAGE) OR (a AND NOT PAGE_MASK)"
      using that by (simp_all add: translate_def iopte_valid_def Let_def split: if_splits)
    have "pte_ok ?e" using ok i(1) by (simp add: table_ok_def)
    moreover have "(q AND NOT IOPTE40_VALID) AND IOPTE40_VALID = 0" for q :: u32 by (simp add: and.assoc)
    ultimately obtain p where "?e = MKIOPTE p" using i(2) unfolding pte_ok_def by auto
    then show ?thesis using MKIOPTE_page [of p] x by auto
  qed
  with ok show ?thesis by (simp add: table_ok_def)
qed

definition iommu_ex :: "iommu_env" where
  "iommu_ex = \<lparr>mmu_v2p = \<lambda>v. v, IOMMU_VADDR = slot_addr 1, IOMMU_END = slot_addr 9\<rparr>"

theorem iommu_table_typed_witness:
  "\<exists>io. iommu40_init iommu_ex True 0x5203 0 0x8000 \<lparr>io_tlb = 0, page_table = [], io_start = 0, io_end = 0, base_reg = 0,
      control_reg = 0, io_events = []\<rparr> = Inr io \<and> length (page_table io) = SLOTS"
proof -
  obtain io where i: "iommu40_init iommu_ex True 0x5203 0 0x8000 \<lparr>io_tlb = 0, page_table = [], io_start = 0, io_end = 0, base_reg = 0,
      control_reg = 0, io_events = []\<rparr> = Inr io"
    by (simp add: iommu40_init_def Let_def IOMMU40_ID_DEVNO_def IOMMU40_ID_VENDOR_def IOMMU40_BASE_ADDR_def iommu40_invalidate_def io_event_def
        PAGE_SHIFT_def)
  with iommu_table_typed [OF iommu_reach.start [OF i]] show ?thesis by blast
qed

end
