(* ===== verification/Irq.thy ===== *)
theory Irq
  imports Clock
begin

text \<open>
  The interrupt controllers of the node (\<^verbatim>\<open>arch/sparc/meiko/irq.c\<close>) and the start of the timers
  (\<^verbatim>\<open>dino1_init_timers\<close> of \<^verbatim>\<open>timer.c\<close>).

  Each CPU has a PAL. What a write to one of its registers does is taken from the comments in
  \<^verbatim>\<open>include/asm-sparc/meiko/irq.h\<close>: \<^verbatim>\<open>mask\<close> and \<^verbatim>\<open>pend\<close> clear the bits that are written, \<^verbatim>\<open>mset\<close> and
  \<^verbatim>\<open>set_pend\<close> set them, \<^verbatim>\<open>ctr_latch\<close> clears the latch of a timer. A failed assertion and a panic
  are left results; \<open>cpu\<close> is the number of the CPU the code runs on.
\<close>

section \<open>Registers\<close>

datatype stop = StopAssert | StopPanic

record pal =
  pal_mask :: u16
  pal_pend :: u16
  pal_latch :: u16

record platform =
  pals :: "pal list"
  timer_writes :: "timer_write list"
  lvl14_resolution :: u32

definition SUN4M_NCPUS :: nat where "SUN4M_NCPUS = 4"

definition DINO1_INT_TIMER10 :: int where "DINO1_INT_TIMER10 = 10"
definition DINO1_INT_TIMER14 :: int where "DINO1_INT_TIMER14 = 14"
definition DINO1_INT_LATCH_10 :: u16 where "DINO1_INT_LATCH_10 = push_bit 8 1"
definition DINO1_INT_LATCH_14 :: u16 where "DINO1_INT_LATCH_14 = push_bit 15 1"

text \<open>The mask is an \<^verbatim>\<open>int\<close> that is stored in 16 bits.\<close>

definition IRQ_TO_MASK :: "int \<Rightarrow> u16" where
  "IRQ_TO_MASK irq = ucast (push_bit (nat irq) 1 :: u32)"

definition upd_pal :: "int \<Rightarrow> (pal \<Rightarrow> pal) \<Rightarrow> platform \<Rightarrow> platform" where
  "upd_pal cpu f m = m\<lparr>pals := (pals m)[nat cpu := f (pals m ! nat cpu)]\<rparr>"

definition write_mask :: "int \<Rightarrow> u16 \<Rightarrow> platform \<Rightarrow> platform" where
  "write_mask cpu w = upd_pal cpu (\<lambda>p. p\<lparr>pal_mask := pal_mask p AND NOT w\<rparr>)"

definition write_mset :: "int \<Rightarrow> u16 \<Rightarrow> platform \<Rightarrow> platform" where
  "write_mset cpu w = upd_pal cpu (\<lambda>p. p\<lparr>pal_mask := pal_mask p OR w\<rparr>)"

definition write_pend :: "int \<Rightarrow> u16 \<Rightarrow> platform \<Rightarrow> platform" where
  "write_pend cpu w = upd_pal cpu (\<lambda>p. p\<lparr>pal_pend := pal_pend p AND NOT w\<rparr>)"

definition write_set_pend :: "int \<Rightarrow> u16 \<Rightarrow> platform \<Rightarrow> platform" where
  "write_set_pend cpu w = upd_pal cpu (\<lambda>p. p\<lparr>pal_pend := pal_pend p OR w\<rparr>)"

definition write_latch :: "int \<Rightarrow> u16 \<Rightarrow> platform \<Rightarrow> platform" where
  "write_latch cpu w = upd_pal cpu (\<lambda>p. p\<lparr>pal_latch := pal_latch p AND NOT w\<rparr>)"

section \<open>Levels\<close>

definition cpu_ok :: "int \<Rightarrow> bool" where
  "cpu_ok cpu \<longleftrightarrow> cpu = 0 \<or> cpu = 1"

definition irq_ok :: "int \<Rightarrow> bool" where
  "irq_ok irq \<longleftrightarrow> irq \<noteq> 0 \<and> irq \<noteq> 4 \<and> irq \<noteq> 6 \<and> irq \<noteq> 11 \<and> irq \<noteq> 13"

definition ipi_ok :: "int \<Rightarrow> bool" where
  "ipi_ok level \<longleftrightarrow> level = 1 \<or> level = 4 \<or> level = 6 \<or> level = 12 \<or> level = 13 \<or> level = 15"

definition dino1_disable_irq :: "int \<Rightarrow> int \<Rightarrow> platform \<Rightarrow> stop + platform" where
  "dino1_disable_irq cpu irq_nr m =
     (if \<not> cpu_ok cpu then Inl StopAssert
      else if \<not> irq_ok irq_nr then Inl StopAssert
      else Inr (write_mask cpu (IRQ_TO_MASK irq_nr) m))"

definition dino1_enable_irq :: "int \<Rightarrow> int \<Rightarrow> platform \<Rightarrow> stop + platform" where
  "dino1_enable_irq cpu irq_nr m =
     (if \<not> cpu_ok cpu then Inl StopAssert
      else if \<not> irq_ok irq_nr then Inl StopAssert
      else Inr (write_mset cpu (IRQ_TO_MASK irq_nr) m))"

definition dino1_disable_pil_irq :: "int \<Rightarrow> int \<Rightarrow> platform \<Rightarrow> stop + platform" where
  "dino1_disable_pil_irq cpu pil m =
     (if \<not> cpu_ok cpu then Inl StopAssert
      else if \<not> irq_ok pil then Inl StopAssert
      else Inr (write_mask cpu (IRQ_TO_MASK pil) m))"

definition dino1_enable_pil_irq :: "int \<Rightarrow> int \<Rightarrow> platform \<Rightarrow> stop + platform" where
  "dino1_enable_pil_irq cpu pil m =
     (if \<not> cpu_ok cpu then Inl StopAssert
      else if \<not> irq_ok pil then Inl StopAssert
      else Inr (write_mset cpu (IRQ_TO_MASK pil) m))"

definition dino1_send_ipi :: "int \<Rightarrow> int \<Rightarrow> platform \<Rightarrow> stop + platform" where
  "dino1_send_ipi cpu level m =
     (if \<not> cpu_ok cpu then Inl StopAssert
      else if \<not> ipi_ok level then Inl StopAssert
      else Inr (write_set_pend cpu (IRQ_TO_MASK level) m))"

definition dino1_clear_ipi :: "int \<Rightarrow> int \<Rightarrow> platform \<Rightarrow> stop + platform" where
  "dino1_clear_ipi cpu level m =
     (if \<not> cpu_ok cpu then Inl StopAssert
      else if \<not> ipi_ok level then Inl StopAssert
      else Inr (write_pend cpu (IRQ_TO_MASK level) m))"

definition dino1_set_udt :: "int \<Rightarrow> platform \<Rightarrow> platform" where
  "dino1_set_udt cpu m = m"

definition dino1_clear_clock_irq :: "int \<Rightarrow> platform \<Rightarrow> stop + platform" where
  "dino1_clear_clock_irq cpu m =
     (if \<not> cpu_ok cpu then Inl StopAssert else Inr (write_latch cpu DINO1_INT_LATCH_10 m))"

definition dino1_clear_profile_irq :: "int \<Rightarrow> platform \<Rightarrow> stop + platform" where
  "dino1_clear_profile_irq cpu m =
     (if \<not> cpu_ok cpu then Inl StopAssert else Inr (write_latch cpu DINO1_INT_LATCH_14 m))"

section \<open>Start\<close>

fun mask_all :: "nat \<Rightarrow> nat \<Rightarrow> platform \<Rightarrow> platform" where
  "mask_all cpu 0 m = m"
| "mask_all cpu (Suc n) m =
     mask_all (Suc cpu) n (write_pend (int cpu) 0xfffe (write_mask (int cpu) 0xfffe m))"

text \<open>\<open>mapped\<close> says whether the registers could be mapped.\<close>

definition dino1_init_IRQ :: "bool \<Rightarrow> nat \<Rightarrow> platform \<Rightarrow> stop + platform" where
  "dino1_init_IRQ mapped linux_num_cpus m =
     (if \<not> mapped then Inl StopPanic else Inr (mask_all 0 linux_num_cpus m))"

definition add_writes :: "timer_write list \<Rightarrow> platform \<Rightarrow> platform" where
  "add_writes ws m = m\<lparr>timer_writes := timer_writes m @ ws\<rparr>"

fun stop_l14 :: "nat \<Rightarrow> nat \<Rightarrow> platform \<Rightarrow> stop + platform" where
  "stop_l14 cpu 0 m = Inr m"
| "stop_l14 cpu (Suc n) m =
     (case dino1_load_l14 (int cpu) 0 DINO1_TIMER_MODE_COUNT of
        None \<Rightarrow> Inl StopAssert
      | Some ws \<Rightarrow> stop_l14 (Suc cpu) n (add_writes ws m))"

text \<open>
  \<open>mapped\<close> says whether the timer registers could be mapped, \<open>elan_ok\<close> whether the \<^verbatim>\<open>elan_init\<close> of the same directory gets past its assertions;
  \<open>request\<close> is what \<^verbatim>\<open>request_irq\<close> does for the level 10 timer: whether it succeeds, and the state after it. The trap table,
  which is fixed at the end, is in theory \<open>PromRegs\<close>.
\<close>

definition dino1_init_timers ::
    "bool \<Rightarrow> bool \<Rightarrow> (platform \<Rightarrow> bool \<times> platform) \<Rightarrow> nat \<Rightarrow> int \<Rightarrow> platform \<Rightarrow> stop + platform" where
  "dino1_init_timers mapped elan_ok request linux_num_cpus cpu m =
     (if \<not> mapped then Inl StopPanic
      else
        (let m = add_writes (dino1_load_l10 (of_nat L10_TIMER_COUNT) DINO1_TIMER_MODE_RATE) m
         in (case dino1_clear_clock_irq cpu m of
               Inl e \<Rightarrow> Inl e
             | Inr m \<Rightarrow>
                 if \<not> elan_ok then Inl StopAssert
                 else (case request m of
                    (False, m) \<Rightarrow> Inl StopPanic
                  | (True, m) \<Rightarrow>
                      (case stop_l14 0 linux_num_cpus m of
                         Inl e \<Rightarrow> Inl e
                       | Inr m \<Rightarrow>
                           (case dino1_disable_irq cpu DINO1_INT_TIMER14 m of
                              Inl e \<Rightarrow> Inl e
                            | Inr m \<Rightarrow> Inr (m\<lparr>lvl14_resolution := of_nat L14_TIMER_COUNT\<rparr>)))))))"

section \<open>Sets of levels\<close>

text \<open>What a PAL stands for: the levels it lets through, and the soft interrupts that wait.\<close>

definition enabled :: "platform \<Rightarrow> int \<Rightarrow> int set" where
  "enabled m cpu = {l. 0 \<le> l \<and> l < 16 \<and> bit (pal_mask (pals m ! nat cpu)) (nat l)}"

definition waiting :: "platform \<Rightarrow> int \<Rightarrow> int set" where
  "waiting m cpu = {l. 0 \<le> l \<and> l < 16 \<and> bit (pal_pend (pals m ! nat cpu)) (nat l)}"

definition plat_ok :: "platform \<Rightarrow> bool" where
  "plat_ok m \<longleftrightarrow> length (pals m) = SUN4M_NCPUS"

lemma bit_IRQ_TO_MASK: "0 \<le> l \<Longrightarrow> l < 16 \<Longrightarrow> bit (IRQ_TO_MASK l) n \<longleftrightarrow> n = nat l"
  by (auto simp: IRQ_TO_MASK_def bit_simps bit_1_iff)

lemmas pal_writes = write_mask_def write_mset_def write_pend_def write_set_pend_def write_latch_def upd_pal_def

lemma nth_pal:
  assumes "plat_ok m" "cpu_ok c" "cpu_ok d"
  shows "pals (upd_pal c f m) ! nat d = (if d = c then f (pals m ! nat c) else pals m ! nat d)"
  using assms by (auto simp: upd_pal_def plat_ok_def cpu_ok_def SUN4M_NCPUS_def)

lemma plat_ok_upd [simp]: "plat_ok (upd_pal c f m) \<longleftrightarrow> plat_ok m"
  by (simp add: upd_pal_def plat_ok_def)

lemma ipi_levels:
  assumes "plat_ok m" "cpu_ok c" "cpu_ok d" "ipi_ok l"
  shows "\<exists>e. dino1_send_ipi c l m = Inr e \<and> plat_ok e
      \<and> waiting e d = (if d = c then insert l (waiting m d) else waiting m d) \<and> enabled e d = enabled m d"
    "\<exists>f. dino1_clear_ipi c l m = Inr f \<and> plat_ok f
      \<and> waiting f d = (if d = c then waiting m d - {l} else waiting m d) \<and> enabled f d = enabled m d"
proof -
  have l: "0 \<le> l" "l < 16" using assms(4) by (auto simp: ipi_ok_def)
  note b = bit_IRQ_TO_MASK [OF l] nth_pal [OF assms(1-3)]
  show "\<exists>e. dino1_send_ipi c l m = Inr e \<and> plat_ok e
      \<and> waiting e d = (if d = c then insert l (waiting m d) else waiting m d) \<and> enabled e d = enabled m d"
    using assms l by (auto simp: dino1_send_ipi_def write_set_pend_def enabled_def waiting_def b bit_simps)
  show "\<exists>f. dino1_clear_ipi c l m = Inr f \<and> plat_ok f
      \<and> waiting f d = (if d = c then waiting m d - {l} else waiting m d) \<and> enabled f d = enabled m d"
    using assms l by (auto simp: dino1_clear_ipi_def write_pend_def enabled_def waiting_def b bit_simps)
qed

text \<open>
  C32 (irq_refines_levels): on the two CPUs of a node the controller keeps two sets of levels for each CPU. Enabling and
  disabling a level that may be switched adds it to and removes it from the enabled levels of
  this CPU only; sending and clearing an interrupt between processors does so for the
  waiting ones; nothing else changes. After \<^verbatim>\<open>dino1_init_IRQ\<close> all are empty but for level 0.
\<close>

theorem irq_refines_levels:
  assumes "plat_ok m" "cpu_ok c" "cpu_ok d" "0 < l" "l < 16"
  shows "(irq_ok l \<longrightarrow> (\<exists>e f. dino1_enable_irq c l m = Inr e \<and> dino1_disable_irq c l m = Inr f \<and> plat_ok e \<and> plat_ok f
        \<and> enabled e d = (if d = c then insert l (enabled m d) else enabled m d)
        \<and> enabled f d = (if d = c then enabled m d - {l} else enabled m d)
        \<and> waiting e d = waiting m d \<and> waiting f d = waiting m d))
    \<and> (ipi_ok l \<longrightarrow> (\<exists>e f. dino1_send_ipi c l m = Inr e \<and> dino1_clear_ipi c l m = Inr f \<and> plat_ok e \<and> plat_ok f
        \<and> waiting e d = (if d = c then insert l (waiting m d) else waiting m d)
        \<and> waiting f d = (if d = c then waiting m d - {l} else waiting m d)
        \<and> enabled e d = enabled m d \<and> enabled f d = enabled m d))
    \<and> (\<exists>e. dino1_init_IRQ True 2 m = Inr e \<and> enabled e d \<subseteq> {0} \<and> waiting e d \<subseteq> {0})"
proof -
  have b: "bit (IRQ_TO_MASK l) n \<longleftrightarrow> n = nat l" for n using bit_IRQ_TO_MASK assms(4,5) by simp
  note nth = nth_pal [OF assms(1-3)]
  have en: "irq_ok l \<longrightarrow> (\<exists>e f. dino1_enable_irq c l m = Inr e \<and> dino1_disable_irq c l m = Inr f \<and> plat_ok e \<and> plat_ok f
        \<and> enabled e d = (if d = c then insert l (enabled m d) else enabled m d)
        \<and> enabled f d = (if d = c then enabled m d - {l} else enabled m d)
        \<and> waiting e d = waiting m d \<and> waiting f d = waiting m d)"
    using assms
    by (auto simp: dino1_enable_irq_def dino1_disable_irq_def write_mset_def write_mask_def enabled_def waiting_def nth b bit_simps)
  have ip: "ipi_ok l \<longrightarrow> (\<exists>e f. dino1_send_ipi c l m = Inr e \<and> dino1_clear_ipi c l m = Inr f \<and> plat_ok e \<and> plat_ok f
        \<and> waiting e d = (if d = c then insert l (waiting m d) else waiting m d)
        \<and> waiting f d = (if d = c then waiting m d - {l} else waiting m d)
        \<and> enabled e d = enabled m d \<and> enabled f d = enabled m d)"
    using ipi_levels [OF assms(1-3)] by blast
  have "(1 :: u16) + 65535 = 0" by simp
  then have z: "- 65535 = (1 :: u16)" by (simp only: eq_neg_iff_add_eq_0 [symmetric])
  have "cpu_ok 0" "cpu_ok 1" by (simp_all add: cpu_ok_def)
  then have "\<exists>e. dino1_init_IRQ True 2 m = Inr e \<and> enabled e d \<subseteq> {0} \<and> waiting e d \<subseteq> {0}"
    using assms(1,3)
    by (auto simp: dino1_init_IRQ_def numeral_2_eq_2 pal_writes plat_ok_def SUN4M_NCPUS_def enabled_def waiting_def z
        bit_simps bit_1_iff cpu_ok_def)
  with en ip show ?thesis by blast
qed

theorem irq_refines_levels_witness:
  "\<exists>e. dino1_send_ipi 1 15 \<lparr>pals = replicate 4 \<lparr>pal_mask = 0, pal_pend = 0, pal_latch = 0\<rparr>, timer_writes = [], lvl14_resolution = 0\<rparr>
     = Inr e \<and> waiting e 1 = {15} \<and> waiting e 0 = {}"
proof -
  let ?m = "\<lparr>pals = replicate 4 \<lparr>pal_mask = 0, pal_pend = 0, pal_latch = 0\<rparr>, timer_writes = [], lvl14_resolution = 0\<rparr>"
  have h: "plat_ok ?m" "cpu_ok 0" "cpu_ok 1" "ipi_ok 15" by (simp_all add: plat_ok_def SUN4M_NCPUS_def cpu_ok_def ipi_ok_def)
  have w: "waiting ?m 0 = {}" "waiting ?m 1 = {}" by (simp_all add: waiting_def)
  obtain e where e: "dino1_send_ipi 1 15 ?m = Inr e" "waiting e 1 = {15}"
    using irq_refines_levels [OF h(1,3,3), of 15] h(4) w by auto
  moreover have "waiting e 0 = {}"
    using irq_refines_levels [OF h(1,3,2), of 15] h(4) w e(1) by auto
  ultimately show ?thesis by blast
qed

end
