(* ===== verification/IrqName.thy ===== *)
theory IrqName
  imports Irq Options
begin

text \<open>
  The name of an interrupt (\<^verbatim>\<open>dino1_irq_itoa\<close> of \<^verbatim>\<open>arch/sparc/meiko/irq.c\<close>), which is printed into one static buffer of 16 bytes.
\<close>

section \<open>Printing\<close>

text \<open>\<^verbatim>\<open>sprintf(buf, "%d", n)\<close>: the digits, and a sign for a negative \<^verbatim>\<open>int\<close>; an access behind the buffer is \<open>None\<close>.\<close>

definition dec_char :: "nat \<Rightarrow> char" where
  "dec_char d = char_of (48 + d)"

fun dec_digits :: "nat \<Rightarrow> string" where
  "dec_digits n = (if n < 10 then [dec_char n] else dec_digits (n div 10) @ [dec_char (n mod 10)])"

declare dec_digits.simps [simp del]

definition fmt_d :: "int \<Rightarrow> string" where
  "fmt_d i = (if i < 0 then CHR ''-'' # dec_digits (nat (- i)) else dec_digits (nat i))"

definition put_string :: "string \<Rightarrow> string \<Rightarrow> string option" where
  "put_string s b = (if length s < length b then Some (s @ CHR 0x00 # drop (Suc (length s)) b) else None)"

definition c_string :: "string \<Rightarrow> string" where
  "c_string b = takeWhile (\<lambda>c. c \<noteq> CHR 0x00) b"

definition dino1_irq_itoa :: "u32 \<Rightarrow> string \<Rightarrow> string option" where
  "dino1_irq_itoa irq buf = put_string (fmt_d (sint irq)) buf"

section \<open>Digits\<close>

lemma of_dec_char: "d < 10 \<Longrightarrow> (of_char (dec_char d) :: nat) = 48 + d"
  by (simp add: dec_char_def)

lemma is_digit_dec_char: "d < 10 \<Longrightarrow> is_digit (dec_char d)"
  by (simp add: is_digit_def of_dec_char)

lemma dec_digits_all: "\<forall>c \<in> set (dec_digits n). is_digit c"
proof (induction n rule: dec_digits.induct)
  case (1 n)
  then show ?case by (subst dec_digits.simps) (auto simp: is_digit_dec_char)
qed

lemma dec_digits_nonempty [simp]: "dec_digits n \<noteq> []"
  by (subst dec_digits.simps) simp

lemma dec_value_snoc: "dec_value (ds @ [c]) = 10 * dec_value ds + (of_char c - 48)"
  by (simp add: dec_value_def)

lemma dec_value_digits [simp]: "dec_value (dec_digits n) = n"
proof (induction n rule: dec_digits.induct)
  case (1 n)
  then show ?case
    by (subst dec_digits.simps) (auto simp: dec_value_snoc of_dec_char, simp add: dec_value_def of_dec_char)
qed

lemma dec_digits_length: "n < 10 ^ Suc k \<Longrightarrow> length (dec_digits n) \<le> Suc k"
proof (induction k arbitrary: n)
  case 0
  then show ?case by (subst dec_digits.simps) simp
next
  case (Suc k)
  from Suc.prems have "n div 10 < 10 ^ Suc k" by (simp add: less_mult_imp_div_less)
  with Suc.IH [of "n div 10"] show ?case by (subst dec_digits.simps) simp
qed

lemma digit_no_space: "is_digit c \<Longrightarrow> \<not> is_space c \<and> c \<noteq> CHR ''-'' \<and> c \<noteq> CHR ''+'' \<and> c \<noteq> CHR 0x00"
  by (auto simp: is_digit_def is_space_def)

lemma scan_digits:
  assumes "ds \<noteq> []" "\<forall>c \<in> set ds. is_digit c" "int (dec_value ds) < 2 ^ 31"
  shows "scan_ld ds = Some (word_of_int (int (dec_value ds)), [])"
proof -
  obtain c cs where ds: "ds = c # cs" using assms(1) by (cases ds) auto
  with assms(2) have c: "\<not> is_space c" "c \<noteq> CHR ''-''" "c \<noteq> CHR ''+''" using digit_no_space [of c] by auto
  have t: "takeWhile is_digit ds = ds" "dropWhile is_digit ds = []" using assms(2) by simp_all
  have "min (2 ^ 31 - 1) (int (dec_value ds)) = int (dec_value ds)" using assms(3) by simp
  moreover have "dropWhile is_space ds = ds" "hd ds = c" using c(1) by (simp_all add: ds)
  ultimately show ?thesis using assms(1) c(2,3) by (simp add: scan_ld_def Let_def t)
qed

lemma scan_minus:
  assumes "ds \<noteq> []" "\<forall>c \<in> set ds. is_digit c" "int (dec_value ds) \<le> 2 ^ 31"
  shows "scan_ld (CHR ''-'' # ds) = Some (word_of_int (- int (dec_value ds)), [])"
proof -
  have t: "takeWhile is_digit ds = ds" "dropWhile is_digit ds = []" using assms(2) by (simp_all add: takeWhile_eq_all_conv)
  have "max (- (2 ^ 31)) (- int (dec_value ds)) = - int (dec_value ds)" using assms(3) by simp
  moreover have "\<not> is_space CHR ''-''" by (simp add: is_space_def)
  ultimately show ?thesis using assms(1) by (simp add: scan_ld_def Let_def t)
qed

lemma atoi_fmt_d:
  assumes "- (2 ^ 31) \<le> i" "i < 2 ^ 31"
  shows "atoi (fmt_d i) = i"
proof -
  have "scan_ld (fmt_d i) = Some (word_of_int i, [])"
  proof (cases "i < 0")
    case True
    with assms scan_minus [of "dec_digits (nat (- i))"] dec_digits_all show ?thesis by (simp add: fmt_d_def)
  next
    case False
    with assms scan_digits [of "dec_digits (nat i)"] dec_digits_all show ?thesis by (simp add: fmt_d_def)
  qed
  moreover have "sint (word_of_int i :: u32) = i"
    using assms by (simp add: sint_sbintrunc' signed_take_bit_int_eq_self)
  ultimately show ?thesis by (simp add: atoi_def)
qed

lemma fmt_d_length: "- (2 ^ 31) \<le> i \<Longrightarrow> i < 2 ^ 31 \<Longrightarrow> length (fmt_d i) \<le> 11"
  using dec_digits_length [of "nat i" 9] dec_digits_length [of "nat (- i)" 9] by (auto simp: fmt_d_def nat_less_iff)

lemma fmt_d_no_nul: "CHR 0x00 \<notin> set (fmt_d i)"
  using dec_digits_all digit_no_space by (auto simp: fmt_d_def)

lemma put_c_string: "CHR 0x00 \<notin> set s \<Longrightarrow> put_string s b = Some b' \<Longrightarrow> c_string b' = s \<and> length b' = length b"
  by (auto simp: put_string_def c_string_def takeWhile_append split: if_splits)

section \<open>The name of an interrupt\<close>

text \<open>
  The name of every interrupt fits into the buffer with at least four bytes to spare, reads back as the number, and is
  therefore different for different interrupts; numbers from \<open>2\<^sup>3\<^sup>1\<close> on, which no interrupt has, come out negative.
  The buffer is one for all calls: whoever keeps the result of a first call sees the name of the last one.
\<close>

theorem irq_itoa_roundtrip:
  assumes "length buf = 16"
  shows "\<exists>b. dino1_irq_itoa irq buf = Some b \<and> length b = 16 \<and> length (c_string b) \<le> 11 \<and> atoi (c_string b) = sint irq
    \<and> (irq < 0x80000000 \<longrightarrow> atoi (c_string b) = uint irq)
    \<and> (\<forall>irq'. \<exists>b'. dino1_irq_itoa irq' b = Some b' \<and> (c_string b' = c_string b \<longleftrightarrow> irq' = irq))"
proof -
  have r: "- (2 ^ 31) \<le> sint w" "sint w < 2 ^ 31" for w :: u32
    using sint_greater_eq [of w] sint_less [of w] by simp_all
  have call: "\<exists>b. dino1_irq_itoa w c = Some b \<and> c_string b = fmt_d (sint w) \<and> length b = 16" if "length c = 16" for w c
  proof -
    have "length (fmt_d (sint w)) < length c" using fmt_d_length [OF r, of w] that by simp
    then obtain b where "dino1_irq_itoa w c = Some b" by (simp add: dino1_irq_itoa_def put_string_def)
    then show ?thesis using put_c_string [OF fmt_d_no_nul, of "sint w" c b] that by (simp add: dino1_irq_itoa_def)
  qed
  obtain b where b: "dino1_irq_itoa irq buf = Some b" "c_string b = fmt_d (sint irq)" "length b = 16"
    using call [OF assms] by blast
  have inj: "fmt_d (sint v) = fmt_d (sint irq) \<longleftrightarrow> v = irq" for v
    using atoi_fmt_d [OF r, of v] atoi_fmt_d [OF r, of irq] by (metis signed_word_eqI)
  have "sint irq = uint irq" if "irq < 0x80000000"
    using that by (simp add: word_less_alt sint_uint) (simp add: signed_take_bit_int_eq_self order_trans [OF _ uint_ge_0])
  moreover have "\<exists>b'. dino1_irq_itoa v b = Some b' \<and> (c_string b' = c_string b \<longleftrightarrow> v = irq)" for v
    using call [OF b(3), of v] inj [of v] b(2) by auto
  ultimately show ?thesis using b fmt_d_length [OF r, of irq] atoi_fmt_d [OF r, of irq] by auto
qed

theorem irq_itoa_roundtrip_witness:
  "\<exists>b. dino1_irq_itoa 14 (replicate 16 CHR 0x00) = Some b \<and> atoi (c_string b) = 14"
  using irq_itoa_roundtrip [of "replicate 16 CHR 0x00" 14] by auto

end
