(* ===== verification/PromRegs.thy ===== *)
theory PromRegs
  imports Irq CanMain
begin

text \<open>
  How the drivers find their registers: the PROM's list of register ranges of a device, its translation, and the mapping of the first one
  (\<^verbatim>\<open>can_map_82c200\<close> of \<^verbatim>\<open>can_main.c\<close>, \<^verbatim>\<open>bg_map\<close> of \<^verbatim>\<open>bargraph.c\<close>, \<^verbatim>\<open>elan_getphys\<close> and \<^verbatim>\<open>elan_init\<close> of the two files \<^verbatim>\<open>elan.c\<close>, \<^verbatim>\<open>map_irq_regs\<close> of \<^verbatim>\<open>irq.c\<close>,
  \<^verbatim>\<open>map_timer_regs\<close> of \<^verbatim>\<open>timer.c\<close>), and the start of the interrupt controllers and timers on top of it.

  The kernel's \<^verbatim>\<open>prom_apply_obio_ranges\<close>, which translates the first \<open>n\<close> entries of a list, and \<^verbatim>\<open>sparc_alloc_io\<close> are parameters. The buffer of a function is \<open>PROMREG_MAX\<close>
  entries on its stack; \<open>None\<close> is an access outside of it.
\<close>

section \<open>Register ranges\<close>

record prom_reg =
  r_which_io :: u32
  r_phys_addr :: u32
  r_reg_size :: u32

definition PROMREG_MAX :: nat where "PROMREG_MAX = 16"

definition OBP_CAN_REG :: string where "OBP_CAN_REG = ''/obio/can/reg''"
definition OBP_CAN_ELAN_REG :: string where "OBP_CAN_ELAN_REG = ''/obio/can/elan/reg''"
definition OBP_LEDS_REG :: string where "OBP_LEDS_REG = ''/obio/leds/reg''"
definition OBP_TIMER_REG :: string where "OBP_TIMER_REG = ''/obio/counter/reg''"
definition OBP_INTERRUPT_REG :: string where "OBP_INTERRUPT_REG = ''/obio/interrupt/reg''"

record 'p reg_env =
  rg_prom :: "'p prom_ops"
  rg_data :: 'p
  rg_stack :: string
  apply_ranges :: "int \<Rightarrow> prom_reg list \<Rightarrow> prom_reg list option"
  alloc_io :: "u32 \<Rightarrow> u32 \<Rightarrow> u32 \<Rightarrow> u32"

definition reg_at :: "string \<Rightarrow> nat \<Rightarrow> prom_reg" where
  "reg_at cs i =
     \<lparr>r_which_io = u32_of_chars (drop (12 * i) cs), r_phys_addr = u32_of_chars (drop (12 * i + 4) cs),
      r_reg_size = u32_of_chars (drop (12 * i + 8) cs)\<rparr>"

definition promregs :: "string \<Rightarrow> prom_reg list" where
  "promregs cs = map (reg_at cs) [0..<PROMREG_MAX]"

text \<open>\<^verbatim>\<open>size / sizeof(...)\<close> divides as unsigned numbers.\<close>

definition regcount :: "int \<Rightarrow> int" where
  "regcount sz = sint ((word_of_int sz :: u32) div 12)"

text \<open>Reading a property into the buffer and translating it, as every function below does.\<close>

definition obio_regs :: "'p reg_env \<Rightarrow> int \<times> string \<Rightarrow> prom_reg list option" where
  "obio_regs R got = (case got of (sz, cs) \<Rightarrow> apply_ranges R (regcount sz) (promregs cs))"

definition get_regs :: "'p reg_env \<Rightarrow> string \<Rightarrow> int \<times> string" where
  "get_regs R path = obp_getprop (rg_prom R) (rg_data R) path (rg_stack R)"

section \<open>The drivers\<close>

definition can_map_82c200 :: "'p reg_env \<Rightarrow> u32 option" where
  "can_map_82c200 R =
     (case obio_regs R (get_regs R OBP_CAN_REG) of
        None \<Rightarrow> None
      | Some regs \<Rightarrow> Some (alloc_io R (r_phys_addr (regs ! 0)) PAGE_SIZE (r_which_io (regs ! 0))))"

definition bg_map_regs :: "'p reg_env \<Rightarrow> bargraph \<Rightarrow> bargraph option" where
  "bg_map_regs R s =
     (case obio_regs R (get_regs R OBP_LEDS_REG) of
        None \<Rightarrow> None
      | Some regs \<Rightarrow>
          (let io = r_which_io (regs ! 0); phys = r_phys_addr (regs ! 0)
           in Some (bg_map (uint io) phys (alloc_io R (phys AND PAGE_MASK) PAGE_SIZE io \<noteq> 0) s)))"

definition elan_getphys_regs :: "'p reg_env \<Rightarrow> elan_dev \<Rightarrow> (int \<times> elan_dev) option" where
  "elan_getphys_regs R d =
     (case get_regs R OBP_CAN_ELAN_REG of (sz, cs) \<Rightarrow>
        if sz = -1 then Some (elan_getphys None d)
        else (case obio_regs R (sz, cs) of
                None \<Rightarrow> None
              | Some regs \<Rightarrow> Some (elan_getphys (Some (uint (r_which_io (regs ! 0)), r_phys_addr (regs ! 0))) d)))"

text \<open>The \<^verbatim>\<open>elan_init\<close> of \<^verbatim>\<open>arch/sparc/meiko/elan.c\<close>, which maps the clock for the kernel.\<close>

definition arch_elan_init :: "'p reg_env \<Rightarrow> (stop + u32) option" where
  "arch_elan_init R =
     (case get_regs R OBP_CAN_ELAN_REG of (sz, cs) \<Rightarrow>
        if sz = -1 then Some (Inl StopAssert)
        else (case obio_regs R (sz, cs) of
                None \<Rightarrow> None
              | Some regs \<Rightarrow>
                  (let elanreg = alloc_io R (r_phys_addr (regs ! 0) AND PAGE_MASK) PAGE_SIZE (r_which_io (regs ! 0))
                   in Some (if elanreg = 0 then Inl StopAssert else Inr elanreg))))"

text \<open>The entries of the other CPUs are rewritten, from the last entry and from their neighbours.\<close>

definition reg_dance :: "int \<Rightarrow> prom_reg list \<Rightarrow> prom_reg list option" where
  "reg_dance n regs =
     (if n < 1 \<or> n > int (length regs) then None
      else
        (let next = (\<lambda>r. r\<lparr>r_phys_addr := r_phys_addr r + PAGE_SIZE\<rparr>);
             regs = regs[4 := regs ! nat (n - 1)];
             regs = regs[1 := next (regs ! 0)];
             regs = regs[2 := next (regs ! 1)];
             regs = regs[3 := next (regs ! 2)]
         in Some regs))"

definition map_percpu_regs :: "'p reg_env \<Rightarrow> string \<Rightarrow> u32 option" where
  "map_percpu_regs R path =
     (case get_regs R path of (sz, cs) \<Rightarrow>
        if sz = -1 then Some 0
        else (case obio_regs R (sz, cs) of
                None \<Rightarrow> None
              | Some regs \<Rightarrow>
                  (case reg_dance (regcount sz) regs of
                     None \<Rightarrow> None
                   | Some regs \<Rightarrow>
                       Some (alloc_io R (r_phys_addr (regs ! 0)) (PAGE_SIZE * of_nat SUN4M_NCPUS) (r_which_io (regs ! 0))))))"

definition map_irq_regs :: "'p reg_env \<Rightarrow> u32 option" where
  "map_irq_regs R = map_percpu_regs R OBP_INTERRUPT_REG"

definition map_timer_regs :: "'p reg_env \<Rightarrow> u32 option" where
  "map_timer_regs R = map_percpu_regs R OBP_TIMER_REG"

section \<open>Starting the interrupt controllers and the timers\<close>

text \<open>The words of the kernel's text that \<^verbatim>\<open>fix_trap_table\<close> changes: the trap of level 14 is the 14th of the interrupt traps.\<close>

record ktext =
  patchme_maybe_smp_msg :: "u32 list"
  trap_level14 :: "u32 list"
  lvl14_save :: "u32 list"

definition fix_trap_table :: "ktext \<Rightarrow> ktext" where
  "fix_trap_table k =
     k\<lparr>patchme_maybe_smp_msg := (patchme_maybe_smp_msg k)[0 := 0x01000000],
       trap_level14 := (trap_level14 k)[0 := lvl14_save k ! 0, 1 := lvl14_save k ! 1, 2 := lvl14_save k ! 2, 3 := lvl14_save k ! 3]\<rparr>"

definition start_IRQ :: "'p reg_env \<Rightarrow> nat \<Rightarrow> platform \<Rightarrow> (stop + platform) option" where
  "start_IRQ R ncpus m = map_option (\<lambda>va. dino1_init_IRQ (va \<noteq> 0) ncpus m) (map_irq_regs R)"

definition start_timers ::
    "'p reg_env \<Rightarrow> (platform \<Rightarrow> bool \<times> platform) \<Rightarrow> nat \<Rightarrow> int \<Rightarrow> ktext \<Rightarrow> platform \<Rightarrow> (stop + ktext \<times> platform) option" where
  "start_timers R request ncpus cpu k m =
     (case map_timer_regs R of
        None \<Rightarrow> None
      | Some va \<Rightarrow>
          if va = 0 then Some (Inl StopPanic)
          else (case arch_elan_init R of
                  None \<Rightarrow> None
                | Some elan \<Rightarrow>
                    Some (map_sum id (Pair (fix_trap_table k))
                      (dino1_init_timers True (\<not> isl elan) request ncpus cpu m))))"

section \<open>Every driver maps its first range\<close>

definition ranges_ok :: "'p reg_env \<Rightarrow> bool" where
  "ranges_ok R \<longleftrightarrow> (\<forall>n regs. 0 \<le> n \<and> n \<le> int (length regs) \<longrightarrow>
     (\<exists>regs'. apply_ranges R n regs = Some regs' \<and> length regs' = length regs))"

text \<open>The first range of a device, translated; the property has \<open>n\<close> of them.\<close>

definition first_range :: "'p reg_env \<Rightarrow> string \<Rightarrow> prom_reg" where
  "first_range R path = the (obio_regs R (get_regs R path)) ! 0"

definition has_regs :: "'p reg_env \<Rightarrow> string \<Rightarrow> bool" where
  "has_regs R path \<longleftrightarrow> (\<exists>n\<in>{1..PROMREG_MAX}. fst (get_regs R path) = 12 * int n)"

lemma regcount_eq: assumes "n \<le> PROMREG_MAX" shows "regcount (12 * int n) = int n"
proof -
  have n: "n \<le> 16" using assms by (simp add: PROMREG_MAX_def)
  have u: "unat (word_of_nat k :: u32) = k" if "k < 2 ^ 32" for k
    unfolding unsigned_of_nat of_nat_id using that by (intro take_bit_nat_eq_self) simp
  have "(word_of_int (12 * int n) :: u32) = word_of_nat (12 * n)" by simp
  moreover have "word_of_nat (12 * n) div (12 :: u32) = word_of_nat n"
    using n u [of "12 * n"] u [of n] unfolding word_unat_eq_iff by (simp add: unat_div del: of_nat_mult)
  moreover have "sint (word_of_nat n :: u32) = int n"
    unfolding signed_of_nat using n by (simp add: signed_take_bit_int_eq_self)
  ultimately show ?thesis by (simp only: regcount_def)
qed

lemma regcount_missing: "regcount (- 1) = 357913941"
  by (simp add: regcount_def)

lemma obio_first:
  assumes "ranges_ok R" "has_regs R path"
  obtains n regs cs where "get_regs R path = (12 * int n, cs)" "1 \<le> n" "n \<le> PROMREG_MAX" "regcount (12 * int n) = int n"
    "obio_regs R (12 * int n, cs) = Some regs" "length regs = PROMREG_MAX" "regs ! 0 = first_range R path"
proof -
  obtain n cs where g: "get_regs R path = (12 * int n, cs)" "1 \<le> n" "n \<le> PROMREG_MAX"
    using assms(2) by (cases "get_regs R path") (auto simp: has_regs_def)
  note c = regcount_eq [OF g(3)]
  have "length (promregs cs) = PROMREG_MAX" by (simp add: promregs_def)
  then obtain regs where "obio_regs R (12 * int n, cs) = Some regs" "length regs = PROMREG_MAX"
    using assms(1) [unfolded ranges_ok_def, rule_format, of "int n" "promregs cs"] g(3) by (auto simp: obio_regs_def c)
  moreover from this have "regs ! 0 = first_range R path" by (simp add: first_range_def g(1))
  ultimately show ?thesis using that g c by blast
qed

lemma obio_some:
  assumes "ranges_ok R" "has_regs R path"
  obtains sz regs cs where "get_regs R path = (sz, cs)" "sz \<noteq> -1" "obio_regs R (sz, cs) = Some regs" "regs ! 0 = first_range R path"
  using obio_first [OF assms] by (metis of_nat_0_le_iff mult_nonneg_nonneg zero_le_numeral neg_0_le_iff_le not_one_le_zero)

lemma dance_first: "1 \<le> n \<Longrightarrow> n \<le> int (length regs) \<Longrightarrow> \<exists>regs'. reg_dance n regs = Some regs' \<and> regs' ! 0 = regs ! 0"
  by (simp add: reg_dance_def Let_def)

lemma percpu_first:
  assumes "ranges_ok R" "has_regs R path"
  shows "map_percpu_regs R path =
    Some (alloc_io R (r_phys_addr (first_range R path)) (PAGE_SIZE * of_nat SUN4M_NCPUS) (r_which_io (first_range R path)))"
proof -
  obtain n regs cs where f: "get_regs R path = (12 * int n, cs)" "1 \<le> n" "n \<le> PROMREG_MAX" "regcount (12 * int n) = int n"
    "obio_regs R (12 * int n, cs) = Some regs" "length regs = PROMREG_MAX" "regs ! 0 = first_range R path"
    using obio_first [OF assms] .
  obtain regs' where "reg_dance (int n) regs = Some regs'" "regs' ! 0 = regs ! 0"
    using dance_first [of "int n" regs] f(2,3,6) by auto
  with f show ?thesis by (simp add: map_percpu_regs_def)
qed

text \<open>
  When the PROM has between one and sixteen ranges for each device, every driver maps the first of them after translation, whatever the
  PROM lists after it and whatever stood in the buffer: the CAN chip and the lights one page, the interrupt controllers and the timers four. The
  rewriting of the list by the last two changes nothing of that.
\<close>

theorem first_range_mapped:
  assumes "ranges_ok R" "\<forall>path \<in> {OBP_CAN_REG, OBP_LEDS_REG, OBP_CAN_ELAN_REG, OBP_INTERRUPT_REG, OBP_TIMER_REG}. has_regs R path"
  shows "can_map_82c200 R = Some (alloc_io R (r_phys_addr (first_range R OBP_CAN_REG)) PAGE_SIZE (r_which_io (first_range R OBP_CAN_REG)))
    \<and> bg_map_regs R s = Some (bg_map (uint (r_which_io (first_range R OBP_LEDS_REG))) (r_phys_addr (first_range R OBP_LEDS_REG))
        (alloc_io R (r_phys_addr (first_range R OBP_LEDS_REG) AND PAGE_MASK) PAGE_SIZE (r_which_io (first_range R OBP_LEDS_REG)) \<noteq> 0) s)
    \<and> elan_getphys_regs R d = Some (0, d\<lparr>reg_which_io := uint (r_which_io (first_range R OBP_CAN_ELAN_REG)),
        reg_phys_addr := r_phys_addr (first_range R OBP_CAN_ELAN_REG) AND PAGE_MASK\<rparr>)
    \<and> map_irq_regs R = Some (alloc_io R (r_phys_addr (first_range R OBP_INTERRUPT_REG)) 0x4000 (r_which_io (first_range R OBP_INTERRUPT_REG)))
    \<and> map_timer_regs R = Some (alloc_io R (r_phys_addr (first_range R OBP_TIMER_REG)) 0x4000 (r_which_io (first_range R OBP_TIMER_REG)))"
proof -
  have pages: "PAGE_SIZE * of_nat SUN4M_NCPUS = 0x4000" by (simp add: PAGE_SIZE_def SUN4M_NCPUS_def)
  have p: "has_regs R OBP_CAN_REG" "has_regs R OBP_LEDS_REG" "has_regs R OBP_CAN_ELAN_REG" "has_regs R OBP_INTERRUPT_REG"
    "has_regs R OBP_TIMER_REG" using assms(2) by simp_all
  obtain z1 r1 c1 where 1: "get_regs R OBP_CAN_REG = (z1, c1)" "obio_regs R (z1, c1) = Some r1" "r1 ! 0 = first_range R OBP_CAN_REG"
    using obio_some [OF assms(1) p(1)] by metis
  obtain z2 r2 c2 where 2: "get_regs R OBP_LEDS_REG = (z2, c2)" "obio_regs R (z2, c2) = Some r2" "r2 ! 0 = first_range R OBP_LEDS_REG"
    using obio_some [OF assms(1) p(2)] by metis
  obtain z3 r3 c3 where 3: "get_regs R OBP_CAN_ELAN_REG = (z3, c3)" "z3 \<noteq> -1" "obio_regs R (z3, c3) = Some r3"
      "r3 ! 0 = first_range R OBP_CAN_ELAN_REG"
    using obio_some [OF assms(1) p(3)] by metis
  show ?thesis
    using percpu_first [OF assms(1) p(4)] percpu_first [OF assms(1) p(5)] 1 2 3
    by (simp add: can_map_82c200_def bg_map_regs_def elan_getphys_regs_def elan_getphys_def map_irq_regs_def map_timer_regs_def Let_def pages)
qed

text \<open>The registers' property cannot be read: there is no such path, or reading it fails.\<close>

definition no_regs :: "'p reg_env \<Rightarrow> string \<Rightarrow> bool" where
  "no_regs R path \<longleftrightarrow> fst (get_regs R path) = -1"

text \<open>
  C39 (missing_registers): what each driver does when the PROM property of its own registers cannot be read, whatever the PROM has of the others. The Elan driver fails and the
  kernel's mapping of the Elan clock stops at an assertion; the start of the interrupt controllers panics, and so does that of the timers. The CAN driver and that of the lights do
  not look at the result: they have \<^verbatim>\<open>prom_apply_obio_ranges\<close> translate 357913941 ranges in a buffer of sixteen that was not filled, and map whatever the first of them is
  after that.
\<close>

theorem missing_registers:
  "(no_regs R OBP_CAN_ELAN_REG \<longrightarrow> elan_getphys_regs R d = Some (-1, d) \<and> arch_elan_init R = Some (Inl StopAssert))
   \<and> (no_regs R OBP_INTERRUPT_REG \<longrightarrow> start_IRQ R ncpus m = Some (Inl StopPanic))
   \<and> (no_regs R OBP_TIMER_REG \<longrightarrow> start_timers R request ncpus cpu k m = Some (Inl StopPanic))
   \<and> (no_regs R OBP_CAN_REG \<longrightarrow> can_map_82c200 R =
        map_option (\<lambda>regs. alloc_io R (r_phys_addr (regs ! 0)) PAGE_SIZE (r_which_io (regs ! 0)))
          (apply_ranges R 357913941 (promregs (snd (get_regs R OBP_CAN_REG)))))
   \<and> (no_regs R OBP_LEDS_REG \<longrightarrow> bg_map_regs R s =
        map_option (\<lambda>regs. bg_map (uint (r_which_io (regs ! 0))) (r_phys_addr (regs ! 0))
            (alloc_io R (r_phys_addr (regs ! 0) AND PAGE_MASK) PAGE_SIZE (r_which_io (regs ! 0)) \<noteq> 0) s)
          (apply_ranges R 357913941 (promregs (snd (get_regs R OBP_LEDS_REG)))))
   \<and> (\<forall>path. length (promregs (snd (get_regs R path))) = 16)
   \<and> (obp_lookup (rg_prom R) (rg_data R) path = -1 \<longrightarrow> no_regs R path \<and> snd (get_regs R path) = rg_stack R)"
proof -
  have g: "get_regs R path = (-1, snd (get_regs R path))" if "no_regs R path" for path
    using that by (simp add: no_regs_def prod_eq_iff)
  have "elan_getphys_regs R d = Some (-1, d) \<and> arch_elan_init R = Some (Inl StopAssert)" if "no_regs R OBP_CAN_ELAN_REG"
    by (simp add: elan_getphys_regs_def arch_elan_init_def, subst (1 2) g [OF that], simp add: elan_getphys_def)
  moreover have "map_percpu_regs R path = Some 0" if "no_regs R path" for path
    by (simp add: map_percpu_regs_def, subst g [OF that], simp)
  moreover have "obio_regs R (get_regs R path) = apply_ranges R 357913941 (promregs (snd (get_regs R path)))" if "no_regs R path" for path
    by (subst g [OF that], simp add: obio_regs_def regcount_missing)
  ultimately show ?thesis
    by (simp add: start_IRQ_def start_timers_def map_irq_regs_def map_timer_regs_def dino1_init_IRQ_def can_map_82c200_def bg_map_regs_def
        promregs_def PROMREG_MAX_def no_regs_def get_regs_def obp_getprop_def Let_def split: option.split)
qed

definition reg_chars :: string where
  "reg_chars = [CHR 0x00, CHR 0x00, CHR 0x00, CHR 0x02, CHR 0x00, CHR 0x05, CHR 0x00, CHR 0x00, CHR 0x00, CHR 0x00, CHR 0x00, CHR 0x09]"

definition reg_prom :: "bool \<Rightarrow> unit prom_ops" where
  "reg_prom there =
     \<lparr>prom_root_node = 1, prom_getchild = (\<lambda>p nd. if there then 2 else -1), prom_searchsiblings = (\<lambda>p nd name. 3),
      prom_node_has_property = (\<lambda>p nd name. there), prom_getproperty = (\<lambda>p nd name sz. (12, reg_chars)),
      prom_setprop = (\<lambda>p nd name cs. (-1, p))\<rparr>"

definition reg_machine :: "bool \<Rightarrow> unit reg_env" where
  "reg_machine there =
     \<lparr>rg_prom = reg_prom there, rg_data = (), rg_stack = replicate 192 CHR ''x'',
      apply_ranges = (\<lambda>n regs. if n \<le> int (length regs) then Some regs else None), alloc_io = (\<lambda>phys len io. phys + 0xfd000000)\<rparr>"

text \<open>A PROM in which the nodes of the devices are numbered, and those of a set have no registers.\<close>

definition tree_prom :: "int set \<Rightarrow> unit prom_ops" where
  "tree_prom lost =
     \<lparr>prom_root_node = 1, prom_getchild = (\<lambda>p nd. nd),
      prom_searchsiblings = (\<lambda>p nd name.
        if name = ''obio'' then 2 else if name = ''can'' then 3 else if name = ''elan'' then 4 else if name = ''leds'' then 5
        else if name = ''counter'' then 6 else if name = ''interrupt'' then 7 else 0),
      prom_node_has_property = (\<lambda>p nd name. nd \<notin> lost), prom_getproperty = (\<lambda>p nd name sz. (12, reg_chars)),
      prom_setprop = (\<lambda>p nd name cs. (-1, p))\<rparr>"

definition tree_machine :: "int set \<Rightarrow> unit reg_env" where
  "tree_machine lost = (reg_machine True)\<lparr>rg_prom := tree_prom lost\<rparr>"

lemma tree_lookup:
  "obp_lookup (tree_prom L) p OBP_CAN_REG = (if 3 \<in> L then -1 else 3)" "obp_lookup (tree_prom L) p OBP_CAN_ELAN_REG = (if 4 \<in> L then -1 else 4)"
  "obp_lookup (tree_prom L) p OBP_LEDS_REG = (if 5 \<in> L then -1 else 5)" "obp_lookup (tree_prom L) p OBP_TIMER_REG = (if 6 \<in> L then -1 else 6)"
  "obp_lookup (tree_prom L) p OBP_INTERRUPT_REG = (if 7 \<in> L then -1 else 7)"
  by (simp_all add: obp_lookup_def OBP_CAN_REG_def OBP_CAN_ELAN_REG_def OBP_LEDS_REG_def OBP_TIMER_REG_def OBP_INTERRUPT_REG_def OBP_MAX_PATHLEN_def
      lookup_from_step lookup_from_last strchr_slash_def tree_prom_def)

lemma tree_no_regs:
  "no_regs (tree_machine L) OBP_CAN_REG \<longleftrightarrow> 3 \<in> L" "no_regs (tree_machine L) OBP_CAN_ELAN_REG \<longleftrightarrow> 4 \<in> L"
  "no_regs (tree_machine L) OBP_LEDS_REG \<longleftrightarrow> 5 \<in> L" "no_regs (tree_machine L) OBP_TIMER_REG \<longleftrightarrow> 6 \<in> L"
  "no_regs (tree_machine L) OBP_INTERRUPT_REG \<longleftrightarrow> 7 \<in> L"
  by (simp_all add: no_regs_def get_regs_def obp_getprop_def tree_machine_def tree_lookup Let_def) (simp_all add: tree_prom_def)

theorem missing_registers_witness:
  "no_regs (tree_machine {6}) OBP_TIMER_REG \<and> \<not> no_regs (tree_machine {6}) OBP_INTERRUPT_REG
   \<and> (\<forall>k m. start_timers (tree_machine {6}) (Pair True) 1 0 k m = Some (Inl StopPanic))
   \<and> (\<forall>m. start_IRQ (tree_machine {7}) 1 m = Some (Inl StopPanic)) \<and> arch_elan_init (tree_machine {4}) = Some (Inl StopAssert)
   \<and> can_map_82c200 (tree_machine {3}) = None \<and> (\<forall>s. bg_map_regs (tree_machine {5}) s = None)"
proof -
  have n: "apply_ranges (tree_machine L) 357913941 regs = None" if "length regs = 16" for L regs
    using that by (simp add: tree_machine_def reg_machine_def)
  have "start_timers (tree_machine {6}) (Pair True) 1 0 k m = Some (Inl StopPanic)" for k m
    using missing_registers [of "tree_machine {6}" _ 1 m "Pair True" 0 k] by (simp add: tree_no_regs)
  moreover have "start_IRQ (tree_machine {7}) 1 m = Some (Inl StopPanic)" for m
    using missing_registers [of "tree_machine {7}" _ 1 m] by (simp add: tree_no_regs)
  moreover have "arch_elan_init (tree_machine {4}) = Some (Inl StopAssert)" "can_map_82c200 (tree_machine {3}) = None"
    using n missing_registers [of "tree_machine {4}"] missing_registers [of "tree_machine {3}"] by (simp_all add: tree_no_regs)
  moreover have "bg_map_regs (tree_machine {5}) s = None" for s
    using n missing_registers [of "tree_machine {5}" _ _ _ _ _ _ s] by (simp add: tree_no_regs)
  ultimately show ?thesis by (simp add: tree_no_regs)
qed

lemma lookup_something: "nd \<noteq> -1 \<Longrightarrow> obp_lookup_from (reg_prom True) p nd path \<noteq> -1"
proof (induction "length path" arbitrary: nd path rule: less_induct)
  case less
  show ?case
  proof (cases "strchr_slash path")
    case True
    from less(1) [OF length_after_slash [OF True], of 3] True show ?thesis by (simp add: lookup_from_step reg_prom_def)
  next
    case False
    then show ?thesis using less(2) by (simp add: lookup_from_last reg_prom_def)
  qed
qed

lemma reg_machine_regs: "\<exists>cs. get_regs (reg_machine True) path = (12, reg_chars @ cs)"
proof -
  have "obp_lookup (reg_prom True) () path \<noteq> -1"
    unfolding obp_lookup_def Let_def by (rule lookup_something) (simp add: reg_prom_def)
  then show ?thesis by (simp add: get_regs_def obp_getprop_def reg_machine_def Let_def) (simp add: reg_prom_def reg_chars_def)
qed

theorem first_range_mapped_witness:
  "can_map_82c200 (reg_machine True) = Some 0xfd050000 \<and> map_irq_regs (reg_machine True) = Some 0xfd050000"
proof -
  have h: "has_regs (reg_machine True) path" for path
  proof -
    obtain cs where "get_regs (reg_machine True) path = (12, cs)" using reg_machine_regs by blast
    then show ?thesis unfolding has_regs_def by (intro bexI [of _ 1]) (simp_all add: PROMREG_MAX_def)
  qed
  have "ranges_ok (reg_machine True)" by (simp add: ranges_ok_def reg_machine_def)
  moreover have f: "r_phys_addr (first_range (reg_machine True) path) = 0x50000" for path
  proof -
    obtain cs where g: "get_regs (reg_machine True) path = (12, reg_chars @ cs)"
      using reg_machine_regs by blast
    have "obio_regs (reg_machine True) (get_regs (reg_machine True) path)
        = Some (promregs (reg_chars @ cs))"
      using regcount_eq [of 1] unfolding g by (simp add: obio_regs_def reg_machine_def promregs_def PROMREG_MAX_def)
    then show ?thesis
      by (simp add: first_range_def promregs_def PROMREG_MAX_def reg_at_def u32_of_chars_def of_bytes_def reg_chars_def)
  qed
  ultimately show ?thesis
    using first_range_mapped [of "reg_machine True"] h by (simp add: f) (simp add: reg_machine_def)
qed

end
