(* ===== verification/CrossCall.thy ===== *)
theory CrossCall
  imports Irq
begin

text \<open>
  Cross calls (\<^verbatim>\<open>smp4m_cross_call\<close> and \<^verbatim>\<open>smp4m_cross_call_irq\<close> of \<^verbatim>\<open>arch/sparc/meiko/smp.c\<close>): one CPU has a function run by all
  of them and waits until they have done so. The state has the shared structure \<^verbatim>\<open>ccall_info\<close>, the position of
  the caller, that of the interrupt handler on each CPU, and the record of the calls that
  were made; a step is a memory access or a call of one of the CPUs, so that a run of the
  relation is an interleaving of them. A waiting loop has a step only when its test ends it.

  The interrupt controller is a parameter, as in the code, where \<^verbatim>\<open>set_cpu_int\<close> is patched at boot
  time: \<open>set_int\<close> posts the interrupt of the CPU with a number on the bus or stops the kernel, \<open>clr_int\<close> takes it back
  when the CPU enters its handler, and \<open>pend\<close> are the numbers on the bus for which one waits; \<open>mid_of\<close>, the table \<^verbatim>\<open>mid_xlate\<close>, translates the
  number of a CPU to its number on the bus. The lock that
  serialises cross calls is not modelled: the relation describes one call.
\<close>

section \<open>State\<close>

datatype caller = Begin | Fire nat | Send nat | Local | WaitIn nat | WaitOut nat | Returned | Stopped

datatype handler = Outside | Trapped | Entered | Called

record ('j, 'm) xcall =
  ccall_job :: "'j option"
  processors_in :: "nat \<Rightarrow> bool"
  processors_out :: "nat \<Rightarrow> bool"
  caller_at :: caller
  handler_at :: "nat \<Rightarrow> handler"
  machine :: 'm
  calls :: "(nat \<times> 'j option) list"

record xenv =
  me :: nat
  ncpus :: nat
  present :: "nat set"
  processors_ready :: bool
  mid_of :: "nat \<Rightarrow> u8"

definition IRQ_CROSS_CALL :: int where "IRQ_CROSS_CALL = 15"

definition xmask :: "xenv \<Rightarrow> nat set" where
  "xmask X = present X - {me X}"

text \<open>The CPUs for which an interrupt waits.\<close>

definition waits :: "xenv \<Rightarrow> ('m \<Rightarrow> int set) \<Rightarrow> 'm \<Rightarrow> nat set" where
  "waits X pend m = {j \<in> present X. uint (mid_of X j) \<in> pend m}"

section \<open>Steps\<close>

inductive xstep ::
    "xenv \<Rightarrow> (int \<Rightarrow> 'm \<Rightarrow> stop + 'm) \<Rightarrow> (int \<Rightarrow> 'm \<Rightarrow> 'm) \<Rightarrow> ('m \<Rightarrow> int set) \<Rightarrow> 'j
     \<Rightarrow> ('j, 'm) xcall \<Rightarrow> ('j, 'm) xcall \<Rightarrow> bool"
  for X set_int clr_int pend job where
  Alone: "caller_at s = Begin \<Longrightarrow> \<not> processors_ready X \<Longrightarrow>
    xstep X set_int clr_int pend job s (s\<lparr>calls := calls s @ [(me X, Some job)], caller_at := Returned\<rparr>)"
| Begin: "caller_at s = Begin \<Longrightarrow> processors_ready X \<Longrightarrow>
    xstep X set_int clr_int pend job s (s\<lparr>ccall_job := Some job, caller_at := Fire 0\<rparr>)"
| Clear: "caller_at s = Fire i \<Longrightarrow> i < ncpus X \<Longrightarrow> i \<in> xmask X \<Longrightarrow>
    xstep X set_int clr_int pend job s
      (s\<lparr>processors_in := (processors_in s)(i := False), processors_out := (processors_out s)(i := False), caller_at := Send i\<rparr>)"
| Send: "caller_at s = Send i \<Longrightarrow> set_int (uint (mid_of X i)) (machine s) = Inr m \<Longrightarrow>
    xstep X set_int clr_int pend job s (s\<lparr>machine := m, caller_at := Fire (Suc i)\<rparr>)"
| Send_stops: "caller_at s = Send i \<Longrightarrow> set_int (uint (mid_of X i)) (machine s) = Inl e \<Longrightarrow>
    xstep X set_int clr_int pend job s (s\<lparr>caller_at := Stopped\<rparr>)"
| Skip: "caller_at s = Fire i \<Longrightarrow> i < ncpus X \<Longrightarrow> i \<notin> xmask X \<Longrightarrow>
    xstep X set_int clr_int pend job s
      (s\<lparr>processors_in := (processors_in s)(i := True), processors_out := (processors_out s)(i := True), caller_at := Fire (Suc i)\<rparr>)"
| Fired: "caller_at s = Fire i \<Longrightarrow> \<not> i < ncpus X \<Longrightarrow>
    xstep X set_int clr_int pend job s (s\<lparr>caller_at := Local\<rparr>)"
| Local: "caller_at s = Local \<Longrightarrow>
    xstep X set_int clr_int pend job s (s\<lparr>calls := calls s @ [(me X, Some job)], caller_at := WaitIn 0\<rparr>)"
| In: "caller_at s = WaitIn i \<Longrightarrow> processors_in s i \<Longrightarrow>
    xstep X set_int clr_int pend job s (s\<lparr>caller_at := if Suc i < ncpus X then WaitIn (Suc i) else WaitOut 0\<rparr>)"
| Out: "caller_at s = WaitOut i \<Longrightarrow> processors_out s i \<Longrightarrow>
    xstep X set_int clr_int pend job s (s\<lparr>caller_at := if Suc i < ncpus X then WaitOut (Suc i) else Returned\<rparr>)"
| Trap: "j \<in> waits X pend (machine s) \<Longrightarrow> j \<noteq> me X \<Longrightarrow> handler_at s j = Outside \<Longrightarrow>
    xstep X set_int clr_int pend job s (s\<lparr>machine := clr_int (uint (mid_of X j)) (machine s), handler_at := (handler_at s)(j := Trapped)\<rparr>)"
| Enter: "handler_at s j = Trapped \<Longrightarrow>
    xstep X set_int clr_int pend job s
      (s\<lparr>processors_in := (processors_in s)(j := True), handler_at := (handler_at s)(j := Entered)\<rparr>)"
| Call: "handler_at s j = Entered \<Longrightarrow>
    xstep X set_int clr_int pend job s
      (s\<lparr>calls := calls s @ [(j, ccall_job s)], handler_at := (handler_at s)(j := Called)\<rparr>)"
| Leave: "handler_at s j = Called \<Longrightarrow>
    xstep X set_int clr_int pend job s
      (s\<lparr>processors_out := (processors_out s)(j := True), handler_at := (handler_at s)(j := Outside)\<rparr>)"

text \<open>Before the call: no handler runs and no interrupt waits; the flags are arbitrary.\<close>

definition xstart :: "('m \<Rightarrow> int set) \<Rightarrow> ('j, 'm) xcall \<Rightarrow> bool" where
  "xstart pend s \<longleftrightarrow> caller_at s = Begin \<and> (\<forall>j. handler_at s j = Outside) \<and> pend (machine s) = {} \<and> calls s = []"

definition xreach ::
    "xenv \<Rightarrow> (int \<Rightarrow> 'm \<Rightarrow> stop + 'm) \<Rightarrow> (int \<Rightarrow> 'm \<Rightarrow> 'm) \<Rightarrow> ('m \<Rightarrow> int set) \<Rightarrow> 'j
     \<Rightarrow> ('j, 'm) xcall \<Rightarrow> ('j, 'm) xcall \<Rightarrow> bool" where
  "xreach X set_int clr_int pend job = (xstep X set_int clr_int pend job)\<^sup>*\<^sup>*"

section \<open>Invariant\<close>

text \<open>The calls CPU \<open>j\<close> has made.\<close>

definition done_by :: "nat \<Rightarrow> ('j, 'm) xcall \<Rightarrow> 'j option list" where
  "done_by j s = map snd (filter (\<lambda>c. fst c = j) (calls s))"

text \<open>The stages a CPU goes through once its interrupt was posted.\<close>

definition posted :: "('m \<Rightarrow> nat set) \<Rightarrow> 'j \<Rightarrow> ('j, 'm) xcall \<Rightarrow> nat \<Rightarrow> bool" where
  "posted pend job s j \<longleftrightarrow>
     (case handler_at s j of
        Outside \<Rightarrow>
          (if j \<in> pend (machine s) then \<not> processors_in s j \<and> \<not> processors_out s j \<and> done_by j s = []
           else processors_in s j \<and> processors_out s j \<and> done_by j s = [Some job])
      | Trapped \<Rightarrow> j \<notin> pend (machine s) \<and> \<not> processors_in s j \<and> \<not> processors_out s j \<and> done_by j s = []
      | Entered \<Rightarrow> j \<notin> pend (machine s) \<and> processors_in s j \<and> \<not> processors_out s j \<and> done_by j s = []
      | Called \<Rightarrow> j \<notin> pend (machine s) \<and> processors_in s j \<and> \<not> processors_out s j \<and> done_by j s = [Some job])"

definition untouched :: "('m \<Rightarrow> nat set) \<Rightarrow> ('j, 'm) xcall \<Rightarrow> nat \<Rightarrow> bool" where
  "untouched pend s j \<longleftrightarrow> handler_at s j = Outside \<and> j \<notin> pend (machine s) \<and> done_by j s = []"

text \<open>How far the posting has come: \<open>fired c j\<close> when the caller has dealt with CPU \<open>j\<close>.\<close>

fun fired :: "caller \<Rightarrow> nat \<Rightarrow> bool" where
  "fired Begin j \<longleftrightarrow> False"
| "fired (Fire i) j \<longleftrightarrow> j < i"
| "fired (Send i) j \<longleftrightarrow> j < i"
| "fired c j \<longleftrightarrow> True"

definition local_done :: "caller \<Rightarrow> bool" where
  "local_done c \<longleftrightarrow> (case c of WaitIn i \<Rightarrow> True | WaitOut i \<Rightarrow> True | Returned \<Rightarrow> True | _ \<Rightarrow> False)"

definition caller_inv :: "xenv \<Rightarrow> ('j, 'm) xcall \<Rightarrow> bool" where
  "caller_inv X s \<longleftrightarrow>
     (case caller_at s of
        Fire i \<Rightarrow> i \<le> ncpus X
      | Send i \<Rightarrow> i < ncpus X \<and> i \<in> xmask X \<and> \<not> processors_in s i \<and> \<not> processors_out s i
      | WaitIn i \<Rightarrow> i < ncpus X
      | WaitOut i \<Rightarrow> i < ncpus X \<and> (\<forall>k<i. processors_out s k)
      | Returned \<Rightarrow> (\<forall>k<ncpus X. processors_out s k)
      | Stopped \<Rightarrow> False
      | _ \<Rightarrow> True)"

definition xinv :: "xenv \<Rightarrow> ('m \<Rightarrow> nat set) \<Rightarrow> ('m \<Rightarrow> bool) \<Rightarrow> 'j \<Rightarrow> ('j, 'm) xcall \<Rightarrow> bool" where
  "xinv X pend ok job s \<longleftrightarrow>
     ok (machine s) \<and> caller_inv X s
     \<and> (caller_at s \<noteq> Begin \<longrightarrow> ccall_job s = Some job)
     \<and> handler_at s (me X) = Outside \<and> me X \<notin> pend (machine s)
     \<and> done_by (me X) s = (if local_done (caller_at s) then [Some job] else [])
     \<and> (\<forall>j. j \<in> xmask X \<longrightarrow> (if fired (caller_at s) j then posted pend job s j else untouched pend s j))
     \<and> (\<forall>j. j \<notin> xmask X \<and> j \<noteq> me X \<longrightarrow> untouched pend s j)
     \<and> (\<forall>j<ncpus X. j \<notin> xmask X \<and> fired (caller_at s) j \<longrightarrow> processors_in s j \<and> processors_out s j)"

text \<open>
  The machines the call is for: the numbers of the present CPUs are below the count, and they have different numbers on the bus, which the controller knows.
\<close>

definition cpus_ok :: "int set \<Rightarrow> xenv \<Rightarrow> bool" where
  "cpus_ok ids X \<longleftrightarrow> me X \<in> present X \<and> present X \<subseteq> {..<ncpus X} \<and> inj_on (mid_of X) (present X)
     \<and> (\<forall>j \<in> present X. uint (mid_of X j) \<in> ids)"

definition fits :: "int set \<Rightarrow> xenv \<Rightarrow> bool" where
  "fits ids X \<longleftrightarrow> processors_ready X \<and> cpus_ok ids X"

lemma posted_cong:
  "handler_at t j = handler_at s j \<Longrightarrow> (j \<in> pend (machine t) \<longleftrightarrow> j \<in> pend (machine s)) \<Longrightarrow>
   processors_in t j = processors_in s j \<Longrightarrow> processors_out t j = processors_out s j \<Longrightarrow> done_by j t = done_by j s \<Longrightarrow>
   posted pend job t j = posted pend job s j"
  by (simp add: posted_def split: handler.split)

lemma untouched_cong:
  "handler_at t j = handler_at s j \<Longrightarrow> (j \<in> pend (machine t) \<longleftrightarrow> j \<in> pend (machine s)) \<Longrightarrow>
   done_by j t = done_by j s \<Longrightarrow> untouched pend t j = untouched pend s j"
  by (simp add: untouched_def)

text \<open>
  A measure of the steps that remain: the caller's position, with five steps set aside for every
  CPU that it has not dealt with, and the handlers that have to run.
\<close>

fun caller_rank :: "nat \<Rightarrow> caller \<Rightarrow> nat" where
  "caller_rank n Begin = 9 * n + 4"
| "caller_rank n (Fire i) = 2 * n + 3 + 7 * (n - i)"
| "caller_rank n (Send i) = 2 * n + 2 + 7 * (n - i)"
| "caller_rank n Local = 2 * n + 2"
| "caller_rank n (WaitIn i) = 2 * n + 1 - i"
| "caller_rank n (WaitOut i) = n - i"
| "caller_rank n Returned = 0"
| "caller_rank n Stopped = 0"

definition handler_rank :: "('m \<Rightarrow> nat set) \<Rightarrow> ('j, 'm) xcall \<Rightarrow> nat \<Rightarrow> nat" where
  "handler_rank pend s j =
     (case handler_at s j of Outside \<Rightarrow> 0 | Trapped \<Rightarrow> 3 | Entered \<Rightarrow> 2 | Called \<Rightarrow> 1)
     + (if j \<in> pend (machine s) then 4 else 0)"

definition xrank :: "xenv \<Rightarrow> ('m \<Rightarrow> nat set) \<Rightarrow> ('j, 'm) xcall \<Rightarrow> nat" where
  "xrank X pend s = caller_rank (ncpus X) (caller_at s) + (\<Sum>j<ncpus X. handler_rank pend s j)"

lemma rank_move:
  assumes "j < ncpus X" "caller_at t = caller_at s" "handler_rank pend t j < handler_rank pend s j"
    "\<forall>k. k \<noteq> j \<longrightarrow> handler_rank pend t k = handler_rank pend s k"
  shows "xrank X pend t < xrank X pend s"
proof -
  have "(\<Sum>k<ncpus X. handler_rank pend t k) < (\<Sum>k<ncpus X. handler_rank pend s k)"
    using assms by (intro sum_strict_mono_ex1) (auto simp: order_le_less)
  then show ?thesis by (simp add: xrank_def assms(2))
qed

lemma rank_caller:
  assumes "caller_rank (ncpus X) (caller_at t) < caller_rank (ncpus X) (caller_at s)"
    "\<forall>k. handler_rank pend t k = handler_rank pend s k"
  shows "xrank X pend t < xrank X pend s"
  using assms by (simp add: xrank_def)

section \<open>The controller as an interface\<close>

text \<open>
  What cross calls need of the controller: posting an interrupt for a CPU of the
  machine succeeds and makes exactly this one wait, and a CPU that takes its interrupt removes
  exactly this one.
\<close>

locale ipi_machine =
  fixes set_int :: "int \<Rightarrow> 'm \<Rightarrow> stop + 'm" and clr_int :: "int \<Rightarrow> 'm \<Rightarrow> 'm" and pend :: "'m \<Rightarrow> int set"
    and ok :: "'m \<Rightarrow> bool" and ids :: "int set"
  assumes post: "ok m \<Longrightarrow> i \<in> ids \<Longrightarrow> \<exists>m'. set_int i m = Inr m' \<and> ok m' \<and> pend m' = insert i (pend m)"
    and take: "ok m \<Longrightarrow> i \<in> ids \<Longrightarrow> ok (clr_int i m) \<and> pend (clr_int i m) = pend m - {i}"

context ipi_machine
begin

lemma post_cpu:
  assumes "fits ids X" "ok m" "i \<in> present X"
  shows "\<exists>m'. set_int (uint (mid_of X i)) m = Inr m' \<and> ok m' \<and> waits X pend m' = insert i (waits X pend m)"
proof -
  have "uint (mid_of X i) \<in> ids" "uint (mid_of X j) = uint (mid_of X i) \<longleftrightarrow> j = i" if "j \<in> present X" for j
    using assms(1,3) that by (auto simp: fits_def cpus_ok_def inj_on_def dest: word_uint_eqI)
  with post [OF assms(2), of "uint (mid_of X i)"] assms(3) show ?thesis by (fastforce simp: waits_def)
qed

lemma take_cpu:
  assumes "fits ids X" "ok m" "i \<in> present X"
  shows "ok (clr_int (uint (mid_of X i)) m) \<and> waits X pend (clr_int (uint (mid_of X i)) m) = waits X pend m - {i}"
proof -
  have "uint (mid_of X i) \<in> ids" "uint (mid_of X j) = uint (mid_of X i) \<longleftrightarrow> j = i" if "j \<in> present X" for j
    using assms(1,3) that by (auto simp: fits_def cpus_ok_def inj_on_def dest: word_uint_eqI)
  with take [OF assms(2), of "uint (mid_of X i)"] assms(3) show ?thesis by (auto simp: waits_def)
qed

lemma xinv_caller:
  assumes "xinv X (waits X pend) ok job s" "handler_at t = handler_at s" "machine t = machine s" "caller_inv X t"
    "caller_at t \<noteq> Begin \<longrightarrow> ccall_job t = Some job"
    "done_by (me X) t = (if local_done (caller_at t) then [Some job] else [])"
    "\<forall>k. k \<noteq> me X \<longrightarrow> done_by k t = done_by k s"
    "\<forall>k\<in>xmask X. fired (caller_at t) k = fired (caller_at s) k"
    "\<forall>k\<in>xmask X. fired (caller_at s) k \<longrightarrow> processors_in t k = processors_in s k \<and> processors_out t k = processors_out s k"
    "\<forall>k<ncpus X. k \<notin> xmask X \<and> fired (caller_at t) k \<longrightarrow> processors_in t k \<and> processors_out t k"
  shows "xinv X (waits X pend) ok job t"
proof -
  have "if fired (caller_at t) k then posted (waits X pend) job t k else untouched (waits X pend) t k" if k: "k \<in> xmask X" for k
  proof -
    have e: "done_by k t = done_by k s" using assms(7) k by (simp add: xmask_def)
    have "if fired (caller_at s) k then posted (waits X pend) job s k else untouched (waits X pend) s k"
      using assms(1) k by (simp add: xinv_def)
    moreover have "posted (waits X pend) job t k = posted (waits X pend) job s k" if "fired (caller_at s) k"
      using assms(2,3,9) e k that by (intro posted_cong) simp_all
    moreover have "untouched (waits X pend) t k = untouched (waits X pend) s k"
      using assms(2,3) e by (intro untouched_cong) simp_all
    ultimately show ?thesis using assms(8) k by (simp split: if_splits)
  qed
  moreover have "untouched (waits X pend) t k" if "k \<notin> xmask X \<and> k \<noteq> me X" for k
  proof -
    have "untouched (waits X pend) t k = untouched (waits X pend) s k" using assms(2,3,7) that by (intro untouched_cong) simp_all
    then show ?thesis using assms(1) that by (simp add: xinv_def)
  qed
  ultimately show ?thesis using assms(1-6,10) by (simp add: xinv_def)
qed

lemma xinv_step_caller:
  assumes "xinv X (waits X pend) ok job s" "fits ids X" "xstep X set_int clr_int pend job s t"
    "handler_at t = handler_at s"
  shows "xinv X (waits X pend) ok job t"
  using assms(3)
proof cases
  case Alone
  then show ?thesis using assms(2) by (simp add: fits_def cpus_ok_def)
next
  case Begin
  with assms(1) show ?thesis by (simp add: xinv_def caller_inv_def local_done_def untouched_def done_by_def)
next
  case (Clear i)
  with assms(1) show ?thesis
    by (intro xinv_caller [OF assms(1)]) (auto simp: xinv_def caller_inv_def local_done_def done_by_def)
next
  case (Send i m)
  then have "i \<in> present X" using assms(1) by (auto simp: xinv_def caller_inv_def xmask_def)
  with Send post_cpu [OF assms(2), of "machine s" i] have m: "ok m" "waits X pend m = insert i (waits X pend (machine s))"
    using assms(1) by (auto simp: xinv_def)
  have inv: "i \<in> xmask X" "\<not> processors_in s i" "\<not> processors_out s i" "i < ncpus X" "untouched (waits X pend) s i"
    using Send assms(1) by (simp_all add: xinv_def caller_inv_def)
  have "posted (waits X pend) job t i" using Send inv m(2) by (simp add: posted_def untouched_def done_by_def)
  moreover have "posted (waits X pend) job t j = posted (waits X pend) job s j" if "j \<noteq> i" for j
    using Send m(2) that by (intro posted_cong) (simp_all add: done_by_def)
  moreover have U: "untouched (waits X pend) t j = untouched (waits X pend) s j" if "j \<noteq> i" for j
    using Send m(2) that by (intro untouched_cong) (simp_all add: done_by_def)
  moreover have "untouched (waits X pend) t j" if "j \<notin> xmask X" "j \<noteq> me X" for j
    using that U [of j] inv(1) assms(1) by (auto simp: xinv_def)
  moreover have "caller_at t = Fire (Suc i)" "caller_inv X t" "machine t = m" "ccall_job t = ccall_job s"
    "processors_in t = processors_in s" "processors_out t = processors_out s" "done_by (me X) t = done_by (me X) s"
    using Send inv by (simp_all add: caller_inv_def done_by_def)
  moreover have "me X \<noteq> i" using inv by (auto simp: xmask_def)
  ultimately show ?thesis
    using Send(2) assms(1,4) m inv unfolding xinv_def by (auto simp: local_done_def less_Suc_eq)
next
  case (Send_stops i e)
  then have "i \<in> present X" using assms(1) by (auto simp: xinv_def caller_inv_def xmask_def)
  with Send_stops post_cpu [OF assms(2), of "machine s" i] assms(1) show ?thesis by (auto simp: xinv_def)
next
  case (Skip i)
  with assms(1) show ?thesis
    by (intro xinv_caller [OF assms(1)]) (auto simp: xinv_def caller_inv_def local_done_def done_by_def less_Suc_eq)
next
  case (Fired i)
  have "k < i" if "k \<in> xmask X" for k
    using that Fired assms(2) by (auto simp: fits_def cpus_ok_def xmask_def)
  with Fired assms(1) show ?thesis
    by (intro xinv_caller [OF assms(1)]) (auto simp: xinv_def caller_inv_def local_done_def done_by_def)
next
  case Local
  have "0 < ncpus X" using assms(2) by (auto simp: fits_def cpus_ok_def)
  with Local assms(1) show ?thesis
    by (intro xinv_caller [OF assms(1)]) (auto simp: xinv_def caller_inv_def local_done_def done_by_def)
next
  case (In i)
  with assms(1) show ?thesis
    by (intro xinv_caller [OF assms(1)]) (auto simp: xinv_def caller_inv_def local_done_def done_by_def)
next
  case (Out i)
  have "k < i \<or> k = i" if "\<not> Suc i < ncpus X" "k < ncpus X" for k using that by linarith
  with Out assms(1) show ?thesis
    by (intro xinv_caller [OF assms(1)]) (auto simp: xinv_def caller_inv_def local_done_def done_by_def less_Suc_eq)
qed (use assms(4) in \<open>auto simp: fun_eq_iff split: if_splits\<close>)

lemma xinv_handler:
  assumes "xinv X (waits X pend) ok job s" "j \<in> xmask X" "fired (caller_at s) j" "posted (waits X pend) job t j"
    "ok (machine t)" "caller_at t = caller_at s" "ccall_job t = ccall_job s"
    "\<forall>k. k \<noteq> j \<longrightarrow> handler_at t k = handler_at s k \<and> (k \<in> waits X pend (machine t) \<longleftrightarrow> k \<in> waits X pend (machine s))
       \<and> processors_in t k = processors_in s k \<and> processors_out t k = processors_out s k \<and> done_by k t = done_by k s"
    "processors_out s j \<longrightarrow> processors_out t j"
  shows "xinv X (waits X pend) ok job t"
proof -
  have P: "posted (waits X pend) job t k = posted (waits X pend) job s k" if "k \<noteq> j" for k
    using assms(8) that by (intro posted_cong) auto
  have U: "untouched (waits X pend) t k = untouched (waits X pend) s k" if "k \<noteq> j" for k
    using assms(8) that by (intro untouched_cong) auto
  have me: "me X \<noteq> j" using assms(2) by (auto simp: xmask_def)
  have "caller_inv X s" using assms(1) by (simp add: xinv_def)
  then have C: "caller_inv X t"
    using assms(3,6,8,9) unfolding caller_inv_def
    by (cases "caller_at s") (simp_all, (metis less_irrefl)+)
  have "done_by (me X) t = done_by (me X) s" "handler_at t (me X) = handler_at s (me X)"
    "me X \<in> waits X pend (machine t) \<longleftrightarrow> me X \<in> waits X pend (machine s)" using assms(8) me by auto
  moreover have "if fired (caller_at t) k then posted (waits X pend) job t k else untouched (waits X pend) t k" if "k \<in> xmask X" for k
  proof (cases "k = j")
    case False
    with that P U assms(1,6) show ?thesis by (simp add: xinv_def)
  qed (use assms(3,4,6) in simp)
  moreover have "untouched (waits X pend) t k" if "k \<notin> xmask X \<and> k \<noteq> me X" for k
    using that assms(1,2) U [of k] by (auto simp: xinv_def)
  moreover have "processors_in t k \<and> processors_out t k"
    if "k < ncpus X" "k \<notin> xmask X \<and> fired (caller_at t) k" for k
  proof -
    have "k \<noteq> j" using that(2) assms(2) by auto
    with that assms(1,6,8) show ?thesis by (simp add: xinv_def)
  qed
  ultimately show ?thesis using C assms(1,5,6,7) by (simp add: xinv_def)
qed

lemma handler_posted:
  assumes "xinv X (waits X pend) ok job s" "j \<noteq> me X" "handler_at s j \<noteq> Outside \<or> j \<in> waits X pend (machine s)"
  shows "j \<in> xmask X" "fired (caller_at s) j" "posted (waits X pend) job s j" "ccall_job s = Some job"
proof -
  have n: "\<not> untouched (waits X pend) s j" using assms(3) by (auto simp: untouched_def)
  then show m: "j \<in> xmask X" using assms(1,2) by (auto simp: xinv_def)
  then show f: "fired (caller_at s) j" and "posted (waits X pend) job s j" using n assms(1) unfolding xinv_def by metis+
  then have "caller_at s \<noteq> Begin" by auto
  then show "ccall_job s = Some job" using assms(1) by (simp add: xinv_def)
qed

lemma xinv_step:
  assumes "xinv X (waits X pend) ok job s" "fits ids X" "xstep X set_int clr_int pend job s t"
  shows "xinv X (waits X pend) ok job t"
proof (cases "handler_at t = handler_at s")
  case True
  with assms show ?thesis by (rule xinv_step_caller)
next
  case False
  have me: "handler_at s (me X) = Outside" "ok (machine s)" using assms(1) by (simp_all add: xinv_def)
  from assms(3) show ?thesis
  proof cases
    case (Trap j)
    note p = handler_posted [OF assms(1) Trap(3) disjI2 [OF Trap(2)]]
    have "j \<in> present X" using p(1) by (simp add: xmask_def)
    note c = take_cpu [OF assms(2) me(2) this]
    show ?thesis
      by (rule xinv_handler [OF assms(1) p(1,2)]) (use Trap p c in \<open>auto simp: posted_def done_by_def\<close>)
  next
    case (Enter j)
    then have "j \<noteq> me X" using me(1) by auto
    note p = handler_posted [OF assms(1) this disjI1]
    show ?thesis
      by (rule xinv_handler [OF assms(1) p(1,2)]) (use Enter p me in \<open>auto simp: posted_def done_by_def\<close>)
  next
    case (Call j)
    then have "j \<noteq> me X" using me(1) by auto
    note p = handler_posted [OF assms(1) this disjI1]
    show ?thesis
      by (rule xinv_handler [OF assms(1) p(1,2)]) (use Call p me in \<open>auto simp: posted_def done_by_def\<close>)
  next
    case (Leave j)
    then have "j \<noteq> me X" using me(1) by auto
    note p = handler_posted [OF assms(1) this disjI1]
    show ?thesis
      by (rule xinv_handler [OF assms(1) p(1,2)]) (use Leave p me in \<open>auto simp: posted_def done_by_def\<close>)
  qed (use False in simp_all)
qed

lemma xinv_start:
  assumes "xstart pend s" "ok (machine s)"
  shows "xinv X (waits X pend) ok job s"
  using assms by (simp add: xstart_def waits_def xinv_def caller_inv_def local_done_def untouched_def done_by_def)

lemma xinv_reach:
  assumes "xreach X set_int clr_int pend job s t" "xstart pend s" "ok (machine s)" "fits ids X"
  shows "xinv X (waits X pend) ok job t"
  using assms(1) unfolding xreach_def
proof induction
  case base
  show ?case using assms(2,3) by (rule xinv_start)
next
  case (step y z)
  show ?case by (rule xinv_step [OF step.IH assms(4) step.hyps(2)])
qed

lemma xrank_step:
  assumes "xinv X (waits X pend) ok job s" "fits ids X" "xstep X set_int clr_int pend job s t"
  shows "xrank X (waits X pend) t < xrank X (waits X pend) s"
  using assms(3)
proof cases
  case (Send i m)
  then have i: "i \<in> present X" "i < ncpus X" "untouched (waits X pend) s i"
    using assms(1) by (auto simp: xinv_def caller_inv_def xmask_def)
  with Send post_cpu [OF assms(2), of "machine s" i] have m: "waits X pend m = insert i (waits X pend (machine s))"
    using assms(1) by (auto simp: xinv_def)
  have r: "handler_rank (waits X pend) t k = handler_rank (waits X pend) s k" if "k \<noteq> i" for k
    using Send m that by (simp add: handler_rank_def)
  have "(\<Sum>k<ncpus X. handler_rank (waits X pend) t k) = handler_rank (waits X pend) t i + (\<Sum>k\<in>{..<ncpus X} - {i}. handler_rank (waits X pend) t k)"
    "(\<Sum>k<ncpus X. handler_rank (waits X pend) s k) = handler_rank (waits X pend) s i + (\<Sum>k\<in>{..<ncpus X} - {i}. handler_rank (waits X pend) s k)"
    using i(2) by (simp_all add: sum.remove)
  moreover have "(\<Sum>k\<in>{..<ncpus X} - {i}. handler_rank (waits X pend) t k) = (\<Sum>k\<in>{..<ncpus X} - {i}. handler_rank (waits X pend) s k)"
    by (rule sum.cong) (use r in auto)
  moreover have "handler_rank (waits X pend) t i \<le> 4" using Send m i(3) by (simp add: handler_rank_def untouched_def)
  ultimately show ?thesis using Send i(2) by (simp add: xrank_def)
next
  case (Trap j)
  have "j \<in> xmask X" using handler_posted [OF assms(1) Trap(3)] Trap(2) by simp
  then have j: "j \<in> present X" "j < ncpus X" using assms(2) by (auto simp: fits_def cpus_ok_def xmask_def)
  have "ok (machine s)" using assms(1) by (simp add: xinv_def)
  from take_cpu [OF assms(2) this j(1)] show ?thesis
    by (intro rank_move [OF j(2)]) (use Trap in \<open>auto simp: handler_rank_def\<close>)
next
  case (Enter j)
  then have "j \<noteq> me X" using assms(1) by (auto simp: xinv_def)
  with Enter handler_posted [OF assms(1)] have "j \<in> xmask X" by auto
  then have j: "j < ncpus X" using assms(2) by (auto simp: fits_def cpus_ok_def xmask_def)
  show ?thesis by (intro rank_move [OF j]) (use Enter in \<open>auto simp: handler_rank_def\<close>)
next
  case (Call j)
  then have "j \<noteq> me X" using assms(1) by (auto simp: xinv_def)
  with Call handler_posted [OF assms(1)] have "j \<in> xmask X" by auto
  then have j: "j < ncpus X" using assms(2) by (auto simp: fits_def cpus_ok_def xmask_def)
  show ?thesis by (intro rank_move [OF j]) (use Call in \<open>auto simp: handler_rank_def\<close>)
next
  case (Leave j)
  then have "j \<noteq> me X" using assms(1) by (auto simp: xinv_def)
  with Leave handler_posted [OF assms(1)] have "j \<in> xmask X" by auto
  then have j: "j < ncpus X" using assms(2) by (auto simp: fits_def cpus_ok_def xmask_def)
  show ?thesis by (intro rank_move [OF j]) (use Leave in \<open>auto simp: handler_rank_def\<close>)
next
  case (In i)
  have "i < ncpus X" using In assms(1) by (simp add: xinv_def caller_inv_def)
  then show ?thesis by (intro rank_caller) (use In in \<open>auto simp: handler_rank_def\<close>)
next
  case (Out i)
  have "i < ncpus X" using Out assms(1) by (simp add: xinv_def caller_inv_def)
  then show ?thesis by (intro rank_caller) (use Out in \<open>auto simp: handler_rank_def\<close>)
qed (intro rank_caller; simp add: handler_rank_def)+

lemma xprogress:
  assumes "xinv X (waits X pend) ok job s" "fits ids X" "caller_at s \<noteq> Returned"
  shows "\<exists>t. xstep X set_int clr_int pend job s t"
proof -
  have blocked: "\<exists>t. xstep X set_int clr_int pend job s t"
    if "i < ncpus X" "fired (caller_at s) i" "\<not> processors_in s i \<or> \<not> processors_out s i" for i
  proof -
    have m: "i \<in> xmask X" using that assms(1) by (auto simp: xinv_def)
    then have "posted (waits X pend) job s i" using that(2) assms(1) by (simp add: xinv_def)
    moreover have "i \<noteq> me X" using m by (auto simp: xmask_def)
    ultimately show ?thesis
      using that(3) xstep.Trap xstep.Enter xstep.Call xstep.Leave
      by (cases "handler_at s i") (fastforce simp: posted_def split: if_splits)+
  qed
  show ?thesis
  proof (cases "caller_at s")
    case Begin
    then show ?thesis using assms(2) xstep.Begin by (fastforce simp: fits_def cpus_ok_def)
  next
    case (Fire i)
    then show ?thesis using xstep.Clear xstep.Skip xstep.Fired by (metis (no_types))
  next
    case (Send i)
    then show ?thesis using xstep.Send xstep.Send_stops by (metis (no_types) sum.exhaust)
  next
    case Local
    then show ?thesis by (intro exI) (rule xstep.Local)
  next
    case (WaitIn i)
    then have "i < ncpus X" using assms(1) by (simp add: xinv_def caller_inv_def)
    with WaitIn show ?thesis using blocked [of i] xstep.In by fastforce
  next
    case (WaitOut i)
    then have "i < ncpus X" using assms(1) by (simp add: xinv_def caller_inv_def)
    with WaitOut show ?thesis using blocked [of i] xstep.Out by fastforce
  qed (use assms in \<open>simp_all add: xinv_def caller_inv_def\<close>)
qed

lemma xreturned:
  assumes "xinv X (waits X pend) ok job s" "fits ids X" "caller_at s = Returned"
  shows "(j \<in> present X \<longrightarrow> done_by j s = [Some job]) \<and> (j \<notin> present X \<longrightarrow> done_by j s = [])
    \<and> handler_at s j = Outside \<and> waits X pend (machine s) = {}"
proof -
  have all: "\<forall>k<ncpus X. processors_out s k" using assms(1,3) by (simp add: xinv_def caller_inv_def)
  have idle: "handler_at s k = Outside \<and> k \<notin> waits X pend (machine s)
      \<and> done_by k s = (if k \<in> present X then [Some job] else [])" for k
  proof (cases "k \<in> xmask X")
    case True
    then have "k < ncpus X" "k \<in> present X" using assms(2) by (auto simp: fits_def cpus_ok_def xmask_def)
    moreover have "posted (waits X pend) job s k" using True assms(1,3) by (simp add: xinv_def)
    ultimately show ?thesis using all by (auto simp: posted_def split: handler.splits if_splits)
  next
    case False
    then show ?thesis
      using assms by (cases "k = me X") (auto simp: xinv_def local_done_def untouched_def fits_def cpus_ok_def xmask_def)
  qed
  then show ?thesis by auto
qed

lemma xreturns:
  assumes "xinv X (waits X pend) ok job s" "fits ids X"
  shows "\<exists>u. xreach X set_int clr_int pend job s u \<and> caller_at u = Returned"
  using assms(1)
proof (induction "xrank X (waits X pend) s" arbitrary: s rule: less_induct)
  case less
  show ?case
  proof (cases "caller_at s = Returned")
    case True
    then show ?thesis by (auto simp: xreach_def)
  next
    case False
    from xprogress [OF less.prems assms(2) this] obtain t where t: "xstep X set_int clr_int pend job s t" by blast
    have "xrank X (waits X pend) t < xrank X (waits X pend) s" "xinv X (waits X pend) ok job t"
      using xrank_step [OF less.prems assms(2) t] xinv_step [OF less.prems assms(2) t] by simp_all
    from less.hyps [OF this] obtain u where "xreach X set_int clr_int pend job t u" "caller_at u = Returned"
      by blast
    with t show ?thesis unfolding xreach_def by (meson converse_rtranclp_into_rtranclp)
  qed
qed

text \<open>No interrupt waits for a number on the bus that is not that of a present CPU.\<close>

lemma pend_within:
  assumes "xreach X set_int clr_int pend job s t" "xstart pend s" "ok (machine s)" "fits ids X"
  shows "pend (machine t) \<subseteq> (\<lambda>j. uint (mid_of X j)) ` present X"
  using assms(1) unfolding xreach_def
proof induction
  case base
  show ?case using assms(2) by (simp add: xstart_def)
next
  case (step y z)
  have inv: "xinv X (waits X pend) ok job y" using step.hyps(1) by (intro xinv_reach [OF _ assms(2-4)]) (simp add: xreach_def)
  then have ok: "ok (machine y)" by (simp add: xinv_def)
  have id: "uint (mid_of X i) \<in> ids" if "i \<in> present X" for i using that assms(4) by (simp add: fits_def cpus_ok_def)
  from step.hyps(2) show ?case
  proof cases
    case (Send i m)
    then have "i \<in> present X" using inv by (auto simp: xinv_def caller_inv_def xmask_def)
    with Send post [OF ok id [OF this]] step.IH show ?thesis by auto
  next
    case (Trap j)
    then have "j \<in> present X" by (simp add: waits_def)
    with Trap take [OF ok id [OF this]] step.IH show ?thesis by auto
  qed (use step.IH in simp_all)
qed

end

section \<open>On the interrupt controllers of the node\<close>

definition pal_post :: "int \<Rightarrow> platform \<Rightarrow> stop + platform" where
  "pal_post i m = dino1_send_ipi i IRQ_CROSS_CALL m"

definition pal_take :: "int \<Rightarrow> platform \<Rightarrow> platform" where
  "pal_take i m = (case dino1_clear_ipi i IRQ_CROSS_CALL m of Inl e \<Rightarrow> m | Inr m \<Rightarrow> m)"

definition pal_waiting :: "platform \<Rightarrow> int set" where
  "pal_waiting m = {i. (i = 0 \<or> i = 1) \<and> IRQ_CROSS_CALL \<in> waiting m i}"

interpretation pal_ipi: ipi_machine pal_post pal_take pal_waiting plat_ok "{0, 1}"
proof
  fix m and i :: int
  assume m: "plat_ok m" and i: "i \<in> {0, 1}"
  then have c: "cpu_ok i" "cpu_ok 0" "cpu_ok 1" "ipi_ok 15" by (auto simp: cpu_ok_def ipi_ok_def)
  note l = ipi_levels [OF m c(1) _ c(4)]
  obtain e where e: "dino1_send_ipi i 15 m = Inr e" using l(1) [OF c(2)] by auto
  from l(1) [OF c(2)] l(1) [OF c(3)] e have "plat_ok e" "pal_waiting e = insert i (pal_waiting m)"
    using i by (auto simp: pal_waiting_def IRQ_CROSS_CALL_def)
  with e show "\<exists>m'. pal_post i m = Inr m' \<and> plat_ok m' \<and> pal_waiting m' = insert i (pal_waiting m)"
    by (auto simp: pal_post_def IRQ_CROSS_CALL_def)
  obtain f where f: "dino1_clear_ipi i 15 m = Inr f" using l(2) [OF c(2)] by auto
  from l(2) [OF c(2)] l(2) [OF c(3)] f have "plat_ok f" "pal_waiting f = pal_waiting m - {i}"
    using i by (auto simp: pal_waiting_def IRQ_CROSS_CALL_def)
  with f show "plat_ok (pal_take i m) \<and> pal_waiting (pal_take i m) = pal_waiting m - {i}"
    by (simp add: pal_take_def IRQ_CROSS_CALL_def)
qed

text \<open>Before the other CPUs are ready a call is one step of the caller.\<close>

lemma alone_reach:
  assumes "xreach X set_int clr_int pend job s t" "xstart pend s" "\<not> processors_ready X"
  shows "t = s \<or> t = s\<lparr>calls := [(me X, Some job)], caller_at := Returned\<rparr>"
  using assms(1) unfolding xreach_def
proof induction
  case (step y z)
  have y: "\<And>j. handler_at y j = Outside" "waits X pend (machine y) = {}" "caller_at y = Begin \<or> caller_at y = Returned"
    "caller_at y = Begin \<Longrightarrow> y = s"
    using step.IH assms(2) by (auto simp: xstart_def waits_def)
  from step.hyps(2) show ?case
  proof cases
    case Alone
    then show ?thesis using y(4) assms(2) by (simp add: xstart_def)
  qed (use y assms(3) in auto)
qed simp

text \<open>
  C4 (cross_call_everywhere): a cross call on a node whose present CPUs, the caller among them, have numbers below \<^verbatim>\<open>smp_num_cpus\<close> and different numbers on the bus
  (\<^verbatim>\<open>mid_xlate\<close>), 0 or 1, started when no handler runs and no interrupt waits, in every interleaving of the caller with the
  interrupt handlers. Once the CPUs are ready (\<^verbatim>\<open>smp_processors_ready\<close>), the caller, which posts to these numbers, never stops the kernel; it returns only when each CPU that is
  present has run the function exactly once, with the arguments of this call, the handlers have
  been left and no interrupt waits; it can always go on to return; and it does so whatever
  the order, since every step of a CPU brings the end closer. Before that the caller alone runs the function, once, and returns.
\<close>

theorem cross_call_everywhere:
  assumes "xreach X pal_post pal_take pal_waiting job s t" "xstart pal_waiting s" "plat_ok (machine s)" "cpus_ok {0, 1} X"
  shows "caller_at t \<noteq> Stopped
    \<and> (processors_ready X \<longrightarrow> caller_at t = Returned \<longrightarrow> (\<forall>j. done_by j t = (if j \<in> present X then [Some job] else [])
          \<and> handler_at t j = Outside) \<and> pal_waiting (machine t) = {})
    \<and> (\<not> processors_ready X \<longrightarrow> t = s \<or> t = s\<lparr>calls := [(me X, Some job)], caller_at := Returned\<rparr>)
    \<and> (\<exists>u. xreach X pal_post pal_take pal_waiting job t u \<and> caller_at u = Returned)
    \<and> (processors_ready X \<longrightarrow> (\<forall>u. xstep X pal_post pal_take pal_waiting job t u
          \<longrightarrow> xrank X (waits X pal_waiting) u < xrank X (waits X pal_waiting) t))"
proof (cases "processors_ready X")
  case True
  then have fit: "fits {0, 1} X" using assms(4) by (simp add: fits_def)
  have inv: "xinv X (waits X pal_waiting) plat_ok job t" by (rule pal_ipi.xinv_reach [OF assms(1-3) fit])
  then have "caller_at t \<noteq> Stopped" by (auto simp: xinv_def caller_inv_def)
  moreover have "pal_waiting (machine t) = {}" if "waits X pal_waiting (machine t) = {}"
    using that pal_ipi.pend_within [OF assms(1-3) fit] by (auto simp: waits_def)
  ultimately show ?thesis
    using True pal_ipi.xreturned [OF inv fit] pal_ipi.xreturns [OF inv fit] pal_ipi.xrank_step [OF inv fit]
    by simp
next
  case False
  have "\<exists>u. xreach X pal_post pal_take pal_waiting job s u \<and> caller_at u = Returned"
    using xstep.Alone [of s X] assms(2) False unfolding xreach_def xstart_def by (intro exI conjI, intro r_into_rtranclp) auto
  moreover have "xreach X pal_post pal_take pal_waiting job t t" by (simp add: xreach_def)
  ultimately show ?thesis using alone_reach [OF assms(1,2) False] assms(2) False by (auto simp: xstart_def)
qed

theorem cross_call_everywhere_witness:
  "\<exists>u. xreach \<lparr>me = 1, ncpus = 2, present = {0, 1}, processors_ready = True, mid_of = \<lambda>i. 1 - of_nat i\<rparr> pal_post pal_take pal_waiting (7 :: int)
      \<lparr>ccall_job = None, processors_in = \<lambda>i. True, processors_out = \<lambda>i. True, caller_at = Begin, handler_at = \<lambda>i. Outside,
       machine = \<lparr>pals = replicate 4 \<lparr>pal_mask = 0, pal_pend = 0, pal_latch = 0\<rparr>, timer_writes = [], lvl14_resolution = 0\<rparr>,
       calls = []\<rparr> u \<and> caller_at u = Returned \<and> done_by 0 u = [Some 7] \<and> done_by 1 u = [Some 7]"
proof -
  let ?X = "\<lparr>me = 1, ncpus = 2, present = {0, 1}, processors_ready = True, mid_of = \<lambda>i. 1 - of_nat i\<rparr>"
  let ?s = "\<lparr>ccall_job = None, processors_in = \<lambda>i. True, processors_out = \<lambda>i. True, caller_at = Begin,
    handler_at = \<lambda>i. Outside,
    machine = \<lparr>pals = replicate 4 \<lparr>pal_mask = 0, pal_pend = 0, pal_latch = 0\<rparr>, timer_writes = [], lvl14_resolution = 0\<rparr>,
    calls = []\<rparr> :: (int, platform) xcall"
  have w: "waiting (machine ?s) 0 = {}" "waiting (machine ?s) 1 = {}" by (simp_all add: waiting_def)
  have "i \<notin> pal_waiting (machine ?s)" for i using w by (cases "i = 0") (auto simp: pal_waiting_def)
  then have "pal_waiting (machine ?s) = {}" by blast
  then have s: "xstart pal_waiting ?s" "plat_ok (machine ?s)" "cpus_ok {0, 1} ?X"
    by (auto simp: xstart_def plat_ok_def SUN4M_NCPUS_def cpus_ok_def)
  have "xreach ?X pal_post pal_take pal_waiting 7 ?s ?s" by (simp add: xreach_def)
  from cross_call_everywhere [OF this s] obtain u where
    u: "xreach ?X pal_post pal_take pal_waiting 7 ?s u" "caller_at u = Returned" by blast
  with cross_call_everywhere [OF u(1) s] show ?thesis by auto
qed

end
