(* ===== verification/Smp.thy ===== *)
theory Smp
  imports Irq
begin

text \<open>
  The CPUs of the node (\<^verbatim>\<open>arch/sparc/meiko/smp.c\<close>): starting the secondary CPUs, the ring for the
  distribution of interrupts, messages between CPUs and the timers of the CPUs.

  Tables with one entry for each CPU are functions from CPU numbers. The PROM and the other CPUs
  are parameters: the number of CPUs, their identifiers on the bus, which of them call in
  before the boot CPU gives up (\<^verbatim>\<open>cpu_callin_map\<close>), and which only between that and the boot CPU's next look, while it prints that they are stuck. The tick with its
  profiling counters is in \<open>SmpTick\<close>; cache and TLB flushes are not modelled.
\<close>

section \<open>State\<close>

definition NR_CPUS :: nat where "NR_CPUS = 32"

definition IRQ_RESCHEDULE :: int where "IRQ_RESCHEDULE = 13"
definition IRQ_STOP_CPU :: int where "IRQ_STOP_CPU = 14"

datatype smp_event = StartCpu nat int | Stuck nat | OnlyOne | Activated int | FreeTraps nat

record smp =
  cpu_present_map :: u32
  cpu_number_map :: "nat \<Rightarrow> int"
  cpu_logical_map :: "nat \<Rightarrow> int"
  mid_xlate :: "nat \<Rightarrow> u8"
  cpu_next :: "nat \<Rightarrow> int"
  cpu_mid :: "nat \<Rightarrow> u8"
  smp_activated :: bool
  smp_num_cpus :: int
  smp_processors_ready :: bool
  smp_cpu_in_msg :: "nat \<Rightarrow> u32"
  smp_events :: "smp_event list"

record smp_env =
  linux_num_cpus :: nat
  boot_cpu_id :: nat
  cpu_bus_mid :: "nat \<Rightarrow> u8"
  cpu_callin :: "nat \<Rightarrow> bool"
  cpu_late :: "nat \<Rightarrow> bool"

text \<open>The profiling counters, which the tick goes on with.\<close>

record prof =
  prof_multiplier :: "nat \<Rightarrow> u32"
  prof_counter :: "nat \<Rightarrow> u32"

definition smp_event :: "smp_event \<Rightarrow> smp \<Rightarrow> smp" where
  "smp_event e s = s\<lparr>smp_events := smp_events s @ [e]\<rparr>"

section \<open>Booting\<close>

definition smp_setup_percpu_timer ::
    "smp_env \<Rightarrow> nat \<Rightarrow> smp \<Rightarrow> 'z prof_scheme \<times> platform \<Rightarrow> stop + 'z prof_scheme \<times> platform" where
  "smp_setup_percpu_timer V cpu s a = (case a of (t, m) \<Rightarrow>
     (let t = t\<lparr>prof_multiplier := (prof_multiplier t)(cpu := 1), prof_counter := (prof_counter t)(cpu := 1)\<rparr>
      in case dino1_load_profile_irq (uint (mid_xlate s cpu)) (lvl14_resolution m) of
           None \<Rightarrow> Inl StopAssert
         | Some ws \<Rightarrow>
             (let m = add_writes ws m
              in if cpu = boot_cpu_id V
                 then (case dino1_enable_pil_irq (int cpu) 14 m of Inl e \<Rightarrow> Inl e | Inr m \<Rightarrow> Inr (t, m))
                 else Inr (t, m))))"

text \<open>The second look at \<^verbatim>\<open>cpu_callin_map\<close>, whose entries are never cleared.\<close>

definition cpu_seen :: "smp_env \<Rightarrow> nat \<Rightarrow> bool" where
  "cpu_seen V i \<longleftrightarrow> cpu_callin V i \<or> cpu_late V i"

text \<open>One round of the loop that starts the CPUs; \<open>n\<close> is \<^verbatim>\<open>cpucount\<close>.\<close>

definition start_cpu :: "smp_env \<Rightarrow> nat \<Rightarrow> int \<times> smp \<Rightarrow> int \<times> smp" where
  "start_cpu V i a = (case a of (n, s) \<Rightarrow>
     if i = boot_cpu_id V then (n, s)
     else
       (let (n, s) =
          (if bit (cpu_present_map s) i
           then
             (let n = n + 1;
                  s = smp_event (StartCpu i n) s;
                  s = s\<lparr>mid_xlate := (mid_xlate s)(i := cpu_bus_mid V i AND NOT 8)\<rparr>
              in if cpu_callin V i
                 then (n, s\<lparr>cpu_number_map := (cpu_number_map s)(i := int i),
                            cpu_logical_map := (cpu_logical_map s)(i := int i)\<rparr>)
                 else (n - 1, smp_event (Stuck i) s))
           else (n, s))
        in if \<not> cpu_seen V i
           then (n, s\<lparr>cpu_present_map := cpu_present_map s AND NOT (push_bit i 1),
                      cpu_number_map := (cpu_number_map s)(i := -1)\<rparr>)
           else (n, s)))"

text \<open>
  The ring of the present CPUs: \<open>first\<close> and \<open>prev\<close> are the local variables of that name, -1 when
  unset.
\<close>

definition link_cpu :: "nat \<Rightarrow> int \<times> int \<times> smp \<Rightarrow> int \<times> int \<times> smp" where
  "link_cpu i a = (case a of (first, prev, s) \<Rightarrow>
     if bit (cpu_present_map s) i
     then
       (let first = (if first = -1 then int i else first);
            s = (if prev \<noteq> -1 then s\<lparr>cpu_next := (cpu_next s)(nat prev := int i)\<rparr> else s);
            s = s\<lparr>cpu_mid := (cpu_mid s)(i := mid_xlate s i)\<rparr>
        in (first, int i, s))
     else a)"

definition link_cpus :: "smp \<Rightarrow> smp" where
  "link_cpus s =
     (case fold link_cpu [0..<NR_CPUS] (-1, -1, s) of
        (first, prev, s) \<Rightarrow> s\<lparr>cpu_next := (cpu_next s)(nat prev := first)\<rparr>)"

definition free_traps :: "nat \<Rightarrow> smp \<Rightarrow> smp" where
  "free_traps i s = (if \<not> bit (cpu_present_map s) i then smp_event (FreeTraps i) s else s)"

definition boot_maps :: "smp_env \<Rightarrow> smp \<Rightarrow> smp" where
  "boot_maps V s =
     (let b = boot_cpu_id V;
          s = s\<lparr>cpu_present_map := fold (\<lambda>i w. w OR push_bit i 1) [0..<linux_num_cpus V] 0\<rparr>;
          s = s\<lparr>cpu_number_map := \<lambda>i. -1, cpu_logical_map := \<lambda>i. -1\<rparr>
      in s\<lparr>mid_xlate := (mid_xlate s)(b := cpu_bus_mid V b AND NOT 8),
           cpu_number_map := (cpu_number_map s)(b := 0),
           cpu_logical_map := (cpu_logical_map s)(0 := int b)\<rparr>)"

definition smp4m_boot_cpus ::
    "smp_env \<Rightarrow> smp \<Rightarrow> 'z prof_scheme \<times> platform \<Rightarrow> stop + smp \<times> 'z prof_scheme \<times> platform" where
  "smp4m_boot_cpus V s a =
     (let s = boot_maps V s;
          (t, m) = a
      in (case smp_setup_percpu_timer V (boot_cpu_id V) s (t, dino1_set_udt (uint (mid_xlate s (boot_cpu_id V))) m) of
            Inl e \<Rightarrow> Inl e
          | Inr a \<Rightarrow>
              if linux_num_cpus V = 1 then Inr (s, a)
              else
                (let (n, s) = fold (start_cpu V) [0..<NR_CPUS] (0, s);
                     s = (if n = 0
                          then smp_event OnlyOne (s\<lparr>cpu_present_map := push_bit (boot_cpu_id V) 1\<rparr>)
                          else (smp_event (Activated (n + 1)) s)\<lparr>smp_activated := True, smp_num_cpus := n + 1\<rparr>);
                     s = link_cpus s;
                     s = free_traps 3 (free_traps 2 (free_traps 1 s))
                 in Inr (s\<lparr>smp_processors_ready := True\<rparr>, a))))"

definition smp4m_irq_rotate :: "nat \<Rightarrow> smp \<Rightarrow> platform \<Rightarrow> platform" where
  "smp4m_irq_rotate cpu s m =
     (if smp_processors_ready s then dino1_set_udt (uint (cpu_mid s (nat (cpu_next s cpu)))) m else m)"

section \<open>Messages\<close>

datatype msg_target = MSG_ALL_BUT_SELF | MSG_ALL | MsgCpu nat

datatype smp_msg = MSG_RESCHEDULE | MSG_STOP_CPU | MsgOther int

fun send_each :: "smp \<Rightarrow> u32 \<Rightarrow> int \<Rightarrow> nat list \<Rightarrow> platform \<Rightarrow> stop + platform" where
  "send_each s msk irq [] m = Inr m"
| "send_each s msk irq (i # js) m =
     (if bit msk i
      then (case dino1_send_ipi (uint (mid_xlate s i)) irq m of Inl e \<Rightarrow> Inl e | Inr m \<Rightarrow> send_each s msk irq js m)
      else send_each s msk irq js m)"

definition send_msg :: "nat \<Rightarrow> msg_target \<Rightarrow> int \<Rightarrow> smp \<Rightarrow> platform \<Rightarrow> stop + smp \<times> platform" where
  "send_msg self target irq s m =
     (let s = s\<lparr>smp_cpu_in_msg := (smp_cpu_in_msg s)(self := smp_cpu_in_msg s self + 1)\<rparr>;
          r = (case target of
                 MSG_ALL_BUT_SELF \<Rightarrow> send_each s (cpu_present_map s AND NOT (push_bit self 1)) irq [0, 1, 2, 3] m
               | MSG_ALL \<Rightarrow> send_each s (cpu_present_map s) irq [0, 1, 2, 3] m
               | MsgCpu t \<Rightarrow> dino1_send_ipi (uint (mid_xlate s t)) irq m)
      in (case r of
            Inl e \<Rightarrow> Inl e
          | Inr m \<Rightarrow> Inr (s\<lparr>smp_cpu_in_msg := (smp_cpu_in_msg s)(self := smp_cpu_in_msg s self - 1)\<rparr>, m)))"

definition smp4m_message_pass ::
    "nat \<Rightarrow> msg_target \<Rightarrow> smp_msg \<Rightarrow> smp \<Rightarrow> platform \<Rightarrow> stop + smp \<times> platform" where
  "smp4m_message_pass self target msg s m =
     (case msg of
        MSG_RESCHEDULE \<Rightarrow>
          if smp_cpu_in_msg s self \<noteq> 0 then Inr (s, m) else send_msg self target IRQ_RESCHEDULE s m
      | MSG_STOP_CPU \<Rightarrow> send_msg self target IRQ_STOP_CPU s m
      | MsgOther n \<Rightarrow> Inl StopPanic)"

section \<open>Messages reach their CPUs\<close>

text \<open>The CPUs of the node: 0 and 1 with their own numbers on the bus.\<close>

definition two_cpus :: "smp \<Rightarrow> bool" where
  "two_cpus s \<longleftrightarrow> (\<forall>i. bit (cpu_present_map s) i \<longrightarrow> i < 2) \<and> (\<forall>i<2. uint (mid_xlate s i) = int i)"

definition msg_targets :: "smp \<Rightarrow> nat \<Rightarrow> msg_target \<Rightarrow> nat set" where
  "msg_targets s self target =
     (case target of
        MSG_ALL_BUT_SELF \<Rightarrow> {i. bit (cpu_present_map s) i \<and> i \<noteq> self}
      | MSG_ALL \<Rightarrow> {i. bit (cpu_present_map s) i}
      | MsgCpu t \<Rightarrow> {t})"

lemma send_each_waiting:
  assumes "ipi_ok irq" "\<forall>i\<in>set js. bit msk i \<longrightarrow> i < 2 \<and> uint (mid_xlate s i) = int i" "plat_ok m"
  shows "\<exists>e. send_each s msk irq js m = Inr e \<and> plat_ok e
    \<and> (\<forall>d<2. waiting e (int d) = waiting m (int d) \<union> (if d \<in> set js \<and> bit msk d then {irq} else {}))"
  using assms(2,3)
proof (induction js arbitrary: m)
  case (Cons i js)
  show ?case
  proof (cases "bit msk i")
    case True
    then have i: "i < 2" "uint (mid_xlate s i) = int i" using Cons.prems by auto
    have c: "cpu_ok (int d)" if "d < 2" for d using that by (auto simp: cpu_ok_def)
    obtain e where e: "dino1_send_ipi (int i) irq m = Inr e" "plat_ok e"
      using ipi_levels(1) [OF Cons.prems(2) c [OF i(1)] c [OF i(1)] assms(1)] by blast
    have w: "waiting e (int d) = (if d = i then insert irq (waiting m (int d)) else waiting m (int d))" if "d < 2" for d
      using ipi_levels(1) [OF Cons.prems(2) c [OF i(1)] c [OF that] assms(1)] e(1) by auto
    obtain r where "send_each s msk irq js e = Inr r" "plat_ok r"
        "\<forall>d<2. waiting r (int d) = waiting e (int d) \<union> (if d \<in> set js \<and> bit msk d then {irq} else {})"
      using Cons.IH [of e] Cons.prems(1) e(2) by auto
    then show ?thesis using e(1) i True w by auto
  next
    case False
    then show ?thesis using Cons.IH [OF _ Cons.prems(2)] Cons.prems(1) by auto
  qed
qed simp

lemma send_each_stops:
  "\<not> ipi_ok irq \<Longrightarrow> \<exists>i\<in>set js. bit msk i \<Longrightarrow> send_each s msk irq js m = Inl StopAssert"
  by (induction js) (auto simp: dino1_send_ipi_def)

text \<open>
  A reschedule message makes level 13 wait on exactly the CPUs it is for and leaves everything
  else as it was, unless the sender is sending one already, in which case it does nothing.
  The message that stops a CPU never gets out: its level, 14, is not one the controller can
  post, so that the assertion in \<^verbatim>\<open>dino1_send_ipi\<close> stops the sender as soon as there is a CPU to
  send it to.
\<close>

theorem message_pass_result:
  assumes "two_cpus s" "plat_ok m" "self < 2" "\<forall>t. target = MsgCpu t \<longrightarrow> t < 2"
  shows "(smp_cpu_in_msg s self \<noteq> 0 \<longrightarrow> smp4m_message_pass self target MSG_RESCHEDULE s m = Inr (s, m))
    \<and> (smp_cpu_in_msg s self = 0 \<longrightarrow>
        (\<exists>e. smp4m_message_pass self target MSG_RESCHEDULE s m = Inr (s, e)
          \<and> (\<forall>d<2. waiting e (int d) = waiting m (int d) \<union> (if d \<in> msg_targets s self target then {13} else {}))))
    \<and> (msg_targets s self target \<noteq> {} \<longrightarrow> smp4m_message_pass self target MSG_STOP_CPU s m = Inl StopAssert)"
proof -
  let ?s = "s\<lparr>smp_cpu_in_msg := (smp_cpu_in_msg s)(self := smp_cpu_in_msg s self + 1)\<rparr>"
  define M :: u32 where "M = (case target of
      MSG_ALL_BUT_SELF \<Rightarrow> cpu_present_map s AND NOT (push_bit self 1) | MSG_ALL \<Rightarrow> cpu_present_map s | MsgCpu t \<Rightarrow> push_bit t 1)"
  define L where "L = (case target of MsgCpu t \<Rightarrow> [t] | _ \<Rightarrow> [0, 1, 2, 3])"
  have p: "bit (cpu_present_map s) i \<Longrightarrow> i < 2" and mid: "i < 2 \<Longrightarrow> uint (mid_xlate s i) = int i" for i
    using assms(1) by (auto simp: two_cpus_def)
  have p4: "d = 0 \<or> d = 1 \<or> d = 2 \<or> d = 3" if "bit (cpu_present_map s) d" for d
    using p [OF that] by linarith
  have tgt: "d \<in> set L \<and> bit M d \<longleftrightarrow> d \<in> msg_targets s self target" for d
    using p4 [of d] assms(4) by (cases target) (auto simp: M_def L_def msg_targets_def bit_simps bit_1_iff)
  have two: "d < 2" if "d \<in> msg_targets s self target" for d
    using that assms(4) p by (cases target) (auto simp: msg_targets_def)
  have send: "send_msg self target irq s m = (case send_each ?s M irq L m of Inl e \<Rightarrow> Inl e | Inr m \<Rightarrow> Inr (s, m))" for irq
  proof -
    have upd: "?s\<lparr>smp_cpu_in_msg := (smp_cpu_in_msg ?s)(self := smp_cpu_in_msg ?s self - 1)\<rparr> = s" by simp
    have one: "dino1_send_ipi (uint (mid_xlate ?s t)) irq m = send_each ?s (push_bit t 1) irq [t] m" if "t < 2" for t
      using that by (auto simp: bit_simps split: sum.split)
    show ?thesis unfolding send_msg_def M_def L_def Let_def upd
      using assms(4) one by (cases target) (simp_all del: send_each.simps)
  qed
  have "\<forall>i\<in>set L. bit M i \<longrightarrow> i < 2 \<and> uint (mid_xlate ?s i) = int i" using tgt two mid by auto
  from send_each_waiting [OF _ this assms(2), of 13] obtain e where e: "send_each ?s M 13 L m = Inr e"
      "\<forall>d<2. waiting e (int d) = waiting m (int d) \<union> (if d \<in> msg_targets s self target then {13} else {})"
    unfolding tgt by (auto simp: ipi_ok_def)
  moreover have "send_each ?s M 14 L m = Inl StopAssert" if "msg_targets s self target \<noteq> {}"
  proof (rule send_each_stops)
    show "\<exists>i\<in>set L. bit M i" using that tgt by blast
  qed (simp add: ipi_ok_def)
  ultimately show ?thesis
    by (auto simp: smp4m_message_pass_def send IRQ_RESCHEDULE_def IRQ_STOP_CPU_def)
qed

theorem message_pass_result_witness:
  "smp4m_message_pass 0 MSG_ALL_BUT_SELF MSG_STOP_CPU
     \<lparr>cpu_present_map = mask 2, cpu_number_map = int, cpu_logical_map = int, mid_xlate = of_nat, cpu_next = \<lambda>i. 0,
      cpu_mid = \<lambda>i. 0, smp_activated = True, smp_num_cpus = 2, smp_processors_ready = True, smp_cpu_in_msg = \<lambda>i. 0,
      smp_events = []\<rparr>
     \<lparr>pals = replicate 4 \<lparr>pal_mask = 0, pal_pend = 0, pal_latch = 0\<rparr>, timer_writes = [], lvl14_resolution = 0\<rparr> = Inl StopAssert"
proof -
  let ?s = "\<lparr>cpu_present_map = mask 2, cpu_number_map = int, cpu_logical_map = int, mid_xlate = of_nat, cpu_next = \<lambda>i. 0,
      cpu_mid = \<lambda>i. 0, smp_activated = True, smp_num_cpus = 2, smp_processors_ready = True, smp_cpu_in_msg = \<lambda>i. 0,
      smp_events = []\<rparr>"
  let ?m = "\<lparr>pals = replicate 4 \<lparr>pal_mask = 0, pal_pend = 0, pal_latch = 0\<rparr>, timer_writes = [], lvl14_resolution = 0\<rparr>"
  have "two_cpus ?s" by (auto simp: two_cpus_def bit_mask_iff less_2_cases_iff)
  moreover have "msg_targets ?s 0 MSG_ALL_BUT_SELF \<noteq> {}" by (auto simp: msg_targets_def bit_mask_iff intro!: exI [of _ 1])
  moreover have "plat_ok ?m" by (simp add: plat_ok_def SUN4M_NCPUS_def)
  ultimately show ?thesis using message_pass_result [of ?s ?m 0 MSG_ALL_BUT_SELF] by simp
qed

section \<open>The ring of CPUs\<close>

lemma link_frame:
  "cpu_present_map (snd (snd (fold link_cpu xs a))) = cpu_present_map (snd (snd a))
   \<and> mid_xlate (snd (snd (fold link_cpu xs a))) = mid_xlate (snd (snd a))
   \<and> smp_num_cpus (snd (snd (fold link_cpu xs a))) = smp_num_cpus (snd (snd a))"
proof (induction xs arbitrary: a)
  case (Cons i xs)
  have "cpu_present_map (snd (snd (link_cpu i a))) = cpu_present_map (snd (snd a))
   \<and> mid_xlate (snd (snd (link_cpu i a))) = mid_xlate (snd (snd a))
   \<and> smp_num_cpus (snd (snd (link_cpu i a))) = smp_num_cpus (snd (snd a))"
    by (simp add: link_cpu_def Let_def split: prod.split)
  with Cons show ?case by simp
qed simp

lemma link_filter:
  "fold link_cpu xs a = fold link_cpu (filter (bit (cpu_present_map (snd (snd a)))) xs) a"
proof (induction xs arbitrary: a)
  case (Cons i xs)
  have "cpu_present_map (snd (snd (link_cpu i a))) = cpu_present_map (snd (snd a))"
    by (simp add: link_cpu_def Let_def split: prod.split)
  then have IH: "fold link_cpu xs (link_cpu i a) = fold link_cpu (filter (bit (cpu_present_map (snd (snd a)))) xs) (link_cpu i a)"
    using Cons [of "link_cpu i a"] by simp
  show ?case
  proof (cases "bit (cpu_present_map (snd (snd a))) i")
    case True
    with IH show ?thesis by simp
  next
    case False
    then have "link_cpu i a = a" by (cases a) (simp add: link_cpu_def)
    with False Cons [of a] show ?thesis by simp
  qed
qed simp

lemma link_chain:
  assumes "distinct (p # cs)" "\<forall>c\<in>set cs. bit (cpu_present_map s) c" "f \<noteq> -1"
  shows "\<exists>t. fold link_cpu cs (f, int p, s) = (f, int (last (p # cs)), t)
    \<and> (\<forall>k<length cs. cpu_next t ((p # cs) ! k) = int (cs ! k))
    \<and> (\<forall>c. c \<notin> set (butlast (p # cs)) \<longrightarrow> cpu_next t c = cpu_next s c)
    \<and> (\<forall>c. cpu_mid t c = (if c \<in> set cs then mid_xlate s c else cpu_mid s c))"
  using assms(1,2)
proof (induction cs arbitrary: p s)
  case (Cons c cs)
  define s1 where "s1 = s\<lparr>cpu_next := (cpu_next s)(p := int c), cpu_mid := (cpu_mid s)(c := mid_xlate s c)\<rparr>"
  have l: "link_cpu c (f, int p, s) = (f, int c, s1)"
    using Cons.prems(2) assms(3) by (simp add: link_cpu_def s1_def)
  obtain t where t: "fold link_cpu cs (f, int c, s1) = (f, int (last (c # cs)), t)"
      "\<forall>k<length cs. cpu_next t ((c # cs) ! k) = int (cs ! k)"
      "\<forall>d. d \<notin> set (butlast (c # cs)) \<longrightarrow> cpu_next t d = cpu_next s1 d"
      "\<forall>d. cpu_mid t d = (if d \<in> set cs then mid_xlate s1 d else cpu_mid s1 d)"
    using Cons.IH [of c s1] Cons.prems by (auto simp: s1_def)
  have "p \<notin> set (butlast (c # cs))" using Cons.prems(1) by (meson distinct.simps(2) in_set_butlastD)
  then have "cpu_next t p = int c" using t(3) by (simp add: s1_def)
  then have "cpu_next t ((p # c # cs) ! k) = int ((c # cs) ! k)" if "k < length (c # cs)" for k
    using that t(2) by (cases k) auto
  moreover have "cpu_next t d = cpu_next s d" if "d \<notin> set (butlast (p # c # cs))" for d
    using that t(3) by (auto simp: s1_def split: if_splits)
  ultimately show ?case using l t(1,4) by (auto simp: s1_def)
qed (simp add: assms)

lemma link_cpus_ring:
  assumes "filter (bit (cpu_present_map s)) [0..<NR_CPUS] = cs" "cs \<noteq> []"
  shows "(\<forall>k<length cs. cpu_next (link_cpus s) (cs ! k) = int (cs ! (Suc k mod length cs)))
    \<and> (\<forall>c\<in>set cs. cpu_mid (link_cpus s) c = mid_xlate s c)
    \<and> cpu_present_map (link_cpus s) = cpu_present_map s \<and> smp_num_cpus (link_cpus s) = smp_num_cpus s"
proof -
  obtain c ds where cs: "cs = c # ds" using assms(2) by (cases cs) auto
  have d: "distinct cs" and P: "\<forall>c\<in>set cs. bit (cpu_present_map s) c" using assms(1) by auto
  define s1 where "s1 = s\<lparr>cpu_mid := (cpu_mid s)(c := mid_xlate s c)\<rparr>"
  have "link_cpu c (-1, -1, s) = (int c, int c, s1)" using P by (simp add: link_cpu_def cs s1_def)
  moreover obtain t where t: "fold link_cpu ds (int c, int c, s1) = (int c, int (last cs), t)"
      "\<forall>k<length ds. cpu_next t (cs ! k) = int (ds ! k)"
      "\<forall>x. cpu_mid t x = (if x \<in> set ds then mid_xlate s1 x else cpu_mid s1 x)"
    using link_chain [of c ds s1 "int c"] d P by (auto simp: cs s1_def)
  ultimately have f: "fold link_cpu [0..<NR_CPUS] (-1, -1, s) = (int c, int (last cs), t)"
    by (subst link_filter) (simp add: assms(1) cs)
  then have L: "link_cpus s = t\<lparr>cpu_next := (cpu_next t)(last cs := int c)\<rparr>" by (simp add: link_cpus_def)
  have "cpu_next (link_cpus s) (cs ! k) = int (cs ! (Suc k mod length cs))" if k: "k < length cs" for k
  proof (cases "Suc k = length cs")
    case True
    then have "last cs = cs ! k" by (metis assms(2) diff_Suc_1 last_conv_nth)
    with True show ?thesis by (simp add: L cs)
  next
    case False
    have "cs ! k \<noteq> last cs"
      using k d False assms(2) by (simp add: last_conv_nth nth_eq_iff_index_eq)
    moreover have "k < length ds" using k False by (simp add: cs)
    ultimately show ?thesis using t(2) False k by (simp add: L cs)
  qed
  moreover have "cpu_mid (link_cpus s) x = mid_xlate s x" if "x \<in> set cs" for x
    using t(3) that by (auto simp: L cs s1_def)
  ultimately show ?thesis
    using link_frame [of "[0..<NR_CPUS]" "(-1, -1, s)"] by (simp add: f L)
qed

lemma boot_present:
  "n \<le> 32 \<Longrightarrow> bit (fold (\<lambda>i w. w OR push_bit i 1) [0..<n] (0 :: u32)) i \<longleftrightarrow> i < n"
  by (induction n) (auto simp: bit_simps bit_1_iff less_Suc_eq)

text \<open>
  The CPUs that are counted: the boot CPU and those that call in. The CPUs that take part: also those that call in late, unless the boot CPU takes itself for the only one.
\<close>

definition counted_cpus :: "smp_env \<Rightarrow> nat list" where
  "counted_cpus V = filter (\<lambda>i. i = boot_cpu_id V \<or> cpu_callin V i) [0..<linux_num_cpus V]"

definition up_cpus :: "smp_env \<Rightarrow> nat list" where
  "up_cpus V = (if counted_cpus V = [boot_cpu_id V] then [boot_cpu_id V]
     else filter (\<lambda>i. i = boot_cpu_id V \<or> cpu_seen V i) [0..<linux_num_cpus V])"

lemma up_cpus_in_time: "boot_cpu_id V < linux_num_cpus V \<Longrightarrow> \<forall>i. \<not> cpu_late V i \<Longrightarrow> up_cpus V = counted_cpus V"
  by (simp add: up_cpus_def counted_cpus_def cpu_seen_def)

lemma start_cpus_inv:
  assumes "\<forall>i. cpu_seen V i \<longrightarrow> i < linux_num_cpus V" "boot_cpu_id V < linux_num_cpus V"
    "\<forall>i. bit (cpu_present_map s) i \<longleftrightarrow> i < linux_num_cpus V"
    "mid_xlate s (boot_cpu_id V) = cpu_bus_mid V (boot_cpu_id V) AND NOT 8"
  shows "case fold (start_cpu V) [0..<k] (0, s) of (n, t) \<Rightarrow>
    (\<forall>i. bit (cpu_present_map t) i \<longleftrightarrow> i < linux_num_cpus V \<and> (i < k \<longrightarrow> i = boot_cpu_id V \<or> cpu_seen V i))
    \<and> n = int (length (filter (\<lambda>i. i \<noteq> boot_cpu_id V \<and> cpu_callin V i) [0..<k]))
    \<and> (\<forall>i<k. bit (cpu_present_map t) i \<longrightarrow> mid_xlate t i = cpu_bus_mid V i AND NOT 8)
    \<and> mid_xlate t (boot_cpu_id V) = cpu_bus_mid V (boot_cpu_id V) AND NOT 8
    \<and> smp_num_cpus t = smp_num_cpus s"
proof (induction k)
  case 0
  then show ?case using assms(3,4) by simp
next
  case (Suc k)
  obtain n t where nt: "fold (start_cpu V) [0..<k] (0, s) = (n, t)" by fastforce
  have IH: "\<forall>i. bit (cpu_present_map t) i \<longleftrightarrow> i < linux_num_cpus V \<and> (i < k \<longrightarrow> i = boot_cpu_id V \<or> cpu_seen V i)"
    "n = int (length (filter (\<lambda>i. i \<noteq> boot_cpu_id V \<and> cpu_callin V i) [0..<k]))"
    "\<forall>i<k. bit (cpu_present_map t) i \<longrightarrow> mid_xlate t i = cpu_bus_mid V i AND NOT 8"
    "mid_xlate t (boot_cpu_id V) = cpu_bus_mid V (boot_cpu_id V) AND NOT 8" "smp_num_cpus t = smp_num_cpus s"
    using Suc nt by auto
  have f: "fold (start_cpu V) [0..<Suc k] (0, s) = start_cpu V k (n, t)" using nt by simp
  have lt: "i < 32" if "bit (cpu_present_map t) i" for i using that bit_imp_le_length [of "cpu_present_map t" i] by simp
  consider (boot) "k = boot_cpu_id V" | (up) "k \<noteq> boot_cpu_id V" "cpu_seen V k" | (down) "k \<noteq> boot_cpu_id V" "\<not> cpu_seen V k"
    by blast
  then show ?case
  proof cases
    case boot
    then show ?thesis unfolding f using IH assms(1,2) by (auto simp: start_cpu_def less_Suc_eq)
  next
    case up
    then have "bit (cpu_present_map t) k" using IH(1) assms(1) by auto
    with up show ?thesis unfolding f using IH assms(1)
      by (auto simp: start_cpu_def Let_def smp_event_def less_Suc_eq)
  next
    case down
    then have "\<not> cpu_callin V k" by (simp add: cpu_seen_def)
    with down show ?thesis unfolding f using IH lt
      by (auto simp: start_cpu_def Let_def smp_event_def less_Suc_eq bit_simps bit_1_iff)
  qed
qed

text \<open>
  C28 (boot_cpus_ring): booting a machine with between two and 32 CPUs, of which one is counted so far (\<^verbatim>\<open>smp_num_cpus\<close> is 1), when the boot CPU's timer can be set up, leaves as present exactly the boot CPU and the CPUs that
  called in, counts them, and links them into one ring in the order of their numbers; the identifiers in the ring are those of the
  bus, without their bit 3. This holds also when no other CPU answers. A CPU that calls in only while the boot CPU reports it as stuck becomes present and a member of the ring, if any other
  CPU called in, but is not counted.
\<close>

theorem boot_cpus_ring:
  assumes "2 \<le> linux_num_cpus V" "linux_num_cpus V \<le> 32" "boot_cpu_id V < linux_num_cpus V"
    "\<forall>i. cpu_seen V i \<longrightarrow> i < linux_num_cpus V" "smp_num_cpus s = 1"
    "smp_setup_percpu_timer V (boot_cpu_id V) (boot_maps V s) a = Inr a'"
  shows "\<exists>t. smp4m_boot_cpus V s a = Inr (t, a') \<and> smp_processors_ready t
    \<and> (\<forall>i. bit (cpu_present_map t) i \<longleftrightarrow> i \<in> set (up_cpus V)) \<and> smp_num_cpus t = int (length (counted_cpus V))
    \<and> ((\<forall>i. \<not> cpu_late V i) \<longrightarrow> up_cpus V = counted_cpus V)
    \<and> (\<forall>k<length (up_cpus V). cpu_next t (up_cpus V ! k) = int (up_cpus V ! (Suc k mod length (up_cpus V)))
        \<and> cpu_mid t (up_cpus V ! k) = cpu_bus_mid V (up_cpus V ! k) AND NOT 8)"
proof -
  let ?b = "boot_cpu_id V" and ?n = "linux_num_cpus V" and ?u = "up_cpus V" and ?c = "counted_cpus V"
  obtain n t where nt: "fold (start_cpu V) [0..<NR_CPUS] (0, boot_maps V s) = (n, t)" by fastforce
  have B: "\<forall>i. bit (cpu_present_map (boot_maps V s)) i \<longleftrightarrow> i < ?n" "mid_xlate (boot_maps V s) ?b = cpu_bus_mid V ?b AND NOT 8"
    "smp_num_cpus (boot_maps V s) = 1"
    using boot_present [OF assms(2)] assms(5) by (simp_all add: boot_maps_def Let_def)
  have in_n: "cpu_callin V i \<Longrightarrow> i < ?n" for i using assms(4) by (auto simp: cpu_seen_def)
  have cs: "set ?c = {i. i < ?n \<and> (i = ?b \<or> cpu_callin V i)}" by (auto simp: counted_cpus_def)
  have T: "bit (cpu_present_map t) i \<longleftrightarrow> i < ?n \<and> (i = ?b \<or> cpu_seen V i)"
    "bit (cpu_present_map t) i \<Longrightarrow> mid_xlate t i = cpu_bus_mid V i AND NOT 8"
    "n = int (length (filter (\<lambda>i. i \<noteq> ?b \<and> cpu_callin V i) [0..<NR_CPUS]))" "smp_num_cpus t = 1" for i
    using start_cpus_inv [OF assms(4,3) B(1,2), of NR_CPUS] nt B(3) assms(2) by (auto simp: NR_CPUS_def)
  have card: "length ?c = Suc (nat n)"
  proof -
    have "set ?c = insert ?b (set (filter (\<lambda>i. i \<noteq> ?b \<and> cpu_callin V i) [0..<NR_CPUS]))"
      using assms(2,3) in_n by (fastforce simp: cs NR_CPUS_def)
    then have "card (set ?c) = Suc (card (set (filter (\<lambda>i. i \<noteq> ?b \<and> cpu_callin V i) [0..<NR_CPUS])))" by simp
    moreover have "card (set (filter (\<lambda>i. i \<noteq> ?b \<and> cpu_callin V i) [0..<NR_CPUS])) = nat n"
      unfolding T(3) by (subst distinct_card) simp_all
    moreover have "distinct ?c" by (simp add: counted_cpus_def)
    ultimately show ?thesis using distinct_card [of ?c] by simp
  qed
  have "?b \<in> set ?c" using assms(3) by (simp add: cs)
  moreover have "n \<ge> 0" using T(3) by simp
  ultimately have only: "?c = [?b] \<longleftrightarrow> n = 0" using card by (cases ?c) auto
  define t1 where "t1 = (if n = 0 then smp_event OnlyOne (t\<lparr>cpu_present_map := push_bit ?b 1\<rparr>)
    else (smp_event (Activated (n + 1)) t)\<lparr>smp_activated := True, smp_num_cpus := n + 1\<rparr>)"
  have P1: "bit (cpu_present_map t1) i \<longleftrightarrow> i \<in> set ?u" for i
  proof (cases "n = 0")
    case True
    then show ?thesis using assms(2,3) only by (auto simp: t1_def smp_event_def bit_simps bit_1_iff up_cpus_def)
  next
    case False
    then show ?thesis using T(1) only by (simp add: t1_def smp_event_def up_cpus_def)
  qed
  have M1: "mid_xlate t1 = mid_xlate t" "smp_num_cpus t1 = int (length ?c)"
    using T(3,4) card by (auto simp: t1_def smp_event_def)
  have sub: "bit (cpu_present_map t) i" if "i \<in> set ?u" for i
    using that T(1) assms(3) by (auto simp: up_cpus_def split: if_splits)
  have small: "i < NR_CPUS" if "i \<in> set ?u" for i using sub [OF that] T(1) assms(2) by (simp add: NR_CPUS_def)
  have F: "filter (bit (cpu_present_map t1)) [0..<NR_CPUS] = ?u"
  proof (rule sorted_distinct_set_unique)
    show "set (filter (bit (cpu_present_map t1)) [0..<NR_CPUS]) = set ?u"
      unfolding set_filter P1 using small by auto
  qed (simp_all add: up_cpus_def sorted_wrt_filter)
  have "?b \<in> set ?u" using assms(3) by (simp add: up_cpus_def)
  then have "?u \<noteq> []" by auto
  note ring = link_cpus_ring [OF F this]
  let ?t = "free_traps 3 (free_traps 2 (free_traps 1 (link_cpus t1)))\<lparr>smp_processors_ready := True\<rparr>"
  have "cpu_next ?t = cpu_next (link_cpus t1)" "cpu_mid ?t = cpu_mid (link_cpus t1)"
    "cpu_present_map ?t = cpu_present_map (link_cpus t1)" "smp_num_cpus ?t = smp_num_cpus (link_cpus t1)" "smp_processors_ready ?t"
    by (simp_all add: free_traps_def smp_event_def)
  moreover have "smp4m_boot_cpus V s a = Inr (?t, a')"
    using assms(1,6) nt by (simp add: smp4m_boot_cpus_def dino1_set_udt_def t1_def Let_def split_beta)
  moreover have "cpu_mid (link_cpus t1) (?u ! k) = cpu_bus_mid V (?u ! k) AND NOT 8" if "k < length ?u" for k
    using ring M1(1) T(2) [OF sub] nth_mem [OF that] by simp
  ultimately show ?thesis using ring P1 M1(2) up_cpus_in_time [OF assms(3)] by (intro exI [of _ ?t]) simp
qed

theorem boot_cpus_ring_witness:
  "\<exists>t a'. smp4m_boot_cpus \<lparr>linux_num_cpus = 3, boot_cpu_id = 0, cpu_bus_mid = \<lambda>i. 8 + of_nat i, cpu_callin = \<lambda>i. i = 1, cpu_late = \<lambda>i. i = 2\<rparr>
      \<lparr>cpu_present_map = 0, cpu_number_map = int, cpu_logical_map = int, mid_xlate = \<lambda>i. 0, cpu_next = \<lambda>i. 0,
       cpu_mid = \<lambda>i. 0, smp_activated = False, smp_num_cpus = 1, smp_processors_ready = False, smp_cpu_in_msg = \<lambda>i. 0,
       smp_events = []\<rparr>
      (\<lparr>prof_multiplier = \<lambda>i. 0, prof_counter = \<lambda>i. 0\<rparr>,
       \<lparr>pals = replicate 4 \<lparr>pal_mask = 0, pal_pend = 0, pal_latch = 0\<rparr>, timer_writes = [], lvl14_resolution = 12500\<rparr>)
    = Inr (t, a') \<and> cpu_next t 0 = 1 \<and> cpu_next t 1 = 2 \<and> cpu_next t 2 = 0 \<and> smp_num_cpus t = 2"
proof -
  let ?V = "\<lparr>linux_num_cpus = 3, boot_cpu_id = 0, cpu_bus_mid = \<lambda>i. 8 + of_nat i, cpu_callin = \<lambda>i. i = 1, cpu_late = \<lambda>i. i = 2\<rparr>"
  let ?s = "\<lparr>cpu_present_map = 0, cpu_number_map = int, cpu_logical_map = int, mid_xlate = \<lambda>i. 0, cpu_next = \<lambda>i. 0,
       cpu_mid = \<lambda>i. 0, smp_activated = False, smp_num_cpus = 1, smp_processors_ready = False, smp_cpu_in_msg = \<lambda>i. 0,
       smp_events = []\<rparr>"
  let ?a = "(\<lparr>prof_multiplier = \<lambda>i. 0, prof_counter = \<lambda>i. 0\<rparr>,
    \<lparr>pals = replicate 4 \<lparr>pal_mask = 0, pal_pend = 0, pal_latch = 0\<rparr>, timer_writes = [], lvl14_resolution = 12500\<rparr>)"
  have u: "counted_cpus ?V = [0, 1]" "up_cpus ?V = [0, 1, 2]" by (simp_all add: counted_cpus_def up_cpus_def cpu_seen_def upt_rec)
  obtain a' where a: "smp_setup_percpu_timer ?V 0 (boot_maps ?V ?s) ?a = Inr a'"
    by (simp add: smp_setup_percpu_timer_def boot_maps_def dino1_load_profile_irq_def dino1_load_l14_def
        dino1_enable_pil_irq_def cpu_ok_def irq_ok_def Let_def)
  obtain t where t: "smp4m_boot_cpus ?V ?s ?a = Inr (t, a')" "smp_num_cpus t = 2"
      "\<forall>k<3. cpu_next t ([0, 1, 2] ! k) = int ([0, 1, 2] ! (Suc k mod 3))"
    using boot_cpus_ring [of ?V ?s ?a a'] a u by (auto simp: cpu_seen_def)
  have "cpu_next t 0 = 1" "cpu_next t 1 = 2" "cpu_next t 2 = 0"
    using t(3) [rule_format, of 0] t(3) [rule_format, of 1] t(3) [rule_format, of 2] by (simp_all add: numeral_2_eq_2)
  with t show ?thesis by blast
qed

end
