(* ===== verification/SmpTick.thy ===== *)
theory SmpTick
  imports Smp
begin

text \<open>
  The clock tick of a CPU (\<^verbatim>\<open>smp4m_percpu_timer_interrupt\<close> and \<^verbatim>\<open>sparc_do_profile\<close> of \<^verbatim>\<open>arch/sparc/meiko/smp.c\<close>): profiling,
  the time slice of the current process, and the accounting of processor time. \<^verbatim>\<open>update_one_process\<close>, which belongs to the rest of
  the kernel, is an entry in a list. Locks are not modelled.
\<close>

section \<open>State\<close>

record task =
  pid :: int
  time_slice :: int
  priority :: int
  need_resched :: bool

record tick = prof +
  prof_buffer :: "u32 list option"
  prof_shift :: nat
  prof_len :: u32
  stext :: u32
  current :: "nat \<Rightarrow> task"
  cpu_nice :: u32
  cpu_user :: u32
  cpu_system :: u32
  per_cpu_nice :: "nat \<Rightarrow> u32"
  per_cpu_user :: "nat \<Rightarrow> u32"
  per_cpu_system :: "nat \<Rightarrow> u32"
  process_updates :: "(int \<times> bool \<times> nat) list"

definition DEF_PRIORITY :: int where "DEF_PRIORITY = 20"

section \<open>The tick\<close>

text \<open>\<open>None\<close> is a write outside the buffer.\<close>

definition sparc_do_profile :: "u32 \<Rightarrow> nat \<Rightarrow> tick \<Rightarrow> tick option" where
  "sparc_do_profile pc cpu t =
     (case prof_buffer t of
        None \<Rightarrow> Some t
      | Some bs \<Rightarrow>
          if pid (current t cpu) = 0 then Some t
          else
            (let pc = drop_bit (prof_shift t) (pc - stext t);
                 i = unat (if pc < prof_len t then pc else prof_len t - 1)
             in if i < length bs then Some (t\<lparr>prof_buffer := Some (bs[i := bs ! i + 1])\<rparr>) else None))"

definition upd_current :: "nat \<Rightarrow> (task \<Rightarrow> task) \<Rightarrow> tick \<Rightarrow> tick" where
  "upd_current cpu f t = t\<lparr>current := (current t)(cpu := f (current t cpu))\<rparr>"

definition count_nice :: "nat \<Rightarrow> tick \<Rightarrow> tick" where
  "count_nice cpu t = t\<lparr>cpu_nice := cpu_nice t + 1, per_cpu_nice := (per_cpu_nice t)(cpu := per_cpu_nice t cpu + 1)\<rparr>"

definition count_user :: "nat \<Rightarrow> tick \<Rightarrow> tick" where
  "count_user cpu t = t\<lparr>cpu_user := cpu_user t + 1, per_cpu_user := (per_cpu_user t)(cpu := per_cpu_user t cpu + 1)\<rparr>"

definition count_system :: "nat \<Rightarrow> tick \<Rightarrow> tick" where
  "count_system cpu t =
     t\<lparr>cpu_system := cpu_system t + 1, per_cpu_system := (per_cpu_system t)(cpu := per_cpu_system t cpu + 1)\<rparr>"

definition account :: "nat \<Rightarrow> bool \<Rightarrow> tick \<Rightarrow> tick" where
  "account cpu user t =
     (if pid (current t cpu) = 0 then t
      else
        (let t = t\<lparr>process_updates := process_updates t @ [(pid (current t cpu), user, cpu)]\<rparr>;
             t = upd_current cpu (\<lambda>p. p\<lparr>time_slice := time_slice p - 1\<rparr>) t;
             t = (if time_slice (current t cpu) < 0
                  then upd_current cpu (\<lambda>p. p\<lparr>time_slice := 0, need_resched := True\<rparr>) t else t)
         in if user
            then if priority (current t cpu) < DEF_PRIORITY then count_nice cpu t else count_user cpu t
            else count_system cpu t))"

definition smp4m_percpu_timer_interrupt ::
    "smp \<Rightarrow> nat \<Rightarrow> bool \<Rightarrow> u32 \<Rightarrow> tick \<Rightarrow> platform \<Rightarrow> (stop + tick \<times> platform) option" where
  "smp4m_percpu_timer_interrupt s cpu user pc t m =
     (case dino1_clear_profile_irq (uint (mid_xlate s cpu)) m of
        Inl e \<Rightarrow> Some (Inl e)
      | Inr m \<Rightarrow>
          (case (if \<not> user then sparc_do_profile pc cpu t else Some t) of
             None \<Rightarrow> None
           | Some t \<Rightarrow>
               (let t = t\<lparr>prof_counter := (prof_counter t)(cpu := prof_counter t cpu - 1)\<rparr>
                in if prof_counter t cpu = 0
                   then (let t = account cpu user t
                         in Some (Inr (t\<lparr>prof_counter := (prof_counter t)(cpu := prof_multiplier t cpu)\<rparr>, m)))
                   else Some (Inr (t, m)))))"

section \<open>The books are kept\<close>

definition books_ok :: "tick \<Rightarrow> bool" where
  "books_ok t \<longleftrightarrow> cpu_nice t = (\<Sum>i<NR_CPUS. per_cpu_nice t i) \<and> cpu_user t = (\<Sum>i<NR_CPUS. per_cpu_user t i)
     \<and> cpu_system t = (\<Sum>i<NR_CPUS. per_cpu_system t i)"

definition tick_ok :: "tick \<Rightarrow> bool" where
  "tick_ok t \<longleftrightarrow> books_ok t \<and> (\<forall>cpu. 0 \<le> time_slice (current t cpu))
     \<and> (\<forall>bs. prof_buffer t = Some bs \<longrightarrow> bs \<noteq> [] \<and> prof_len t = of_nat (length bs) \<and> length bs < 2 ^ 32)"

definition total :: "tick \<Rightarrow> u32" where
  "total t = cpu_nice t + cpu_user t + cpu_system t"

definition profile_hits :: "tick \<Rightarrow> u32" where
  "profile_hits t = (case prof_buffer t of None \<Rightarrow> 0 | Some bs \<Rightarrow> sum_list bs)"

lemma sum_upd: "cpu < (n :: nat) \<Longrightarrow> (\<Sum>i<n. (f(cpu := f cpu + 1)) i) = (\<Sum>i<n. f i) + (1 :: u32)"
  by (induction n) (auto simp: less_Suc_eq add.assoc add.left_commute add.commute intro: sum.cong)

lemma sum_list_upd: "i < length bs \<Longrightarrow> sum_list (bs[i := bs ! i + 1]) = sum_list bs + (1 :: u32)"
  by (induction bs arbitrary: i) (auto simp: add.assoc add.commute split: nat.split)

lemma profile_ok:
  assumes "tick_ok t"
  shows "\<exists>b. sparc_do_profile pc cpu t = Some (t\<lparr>prof_buffer := b\<rparr>) \<and> tick_ok (t\<lparr>prof_buffer := b\<rparr>)
    \<and> profile_hits (t\<lparr>prof_buffer := b\<rparr>) =
        profile_hits t + (if prof_buffer t \<noteq> None \<and> pid (current t cpu) \<noteq> 0 then 1 else 0)"
proof (cases "prof_buffer t = None \<or> pid (current t cpu) = 0")
  case True
  then show ?thesis
    using assms by (intro exI [of _ "prof_buffer t"]) (auto simp: sparc_do_profile_def split: option.split)
next
  case False
  then obtain bs where bs: "prof_buffer t = Some bs" by auto
  have l: "0 < length bs" "prof_len t = of_nat (length bs)" "length bs < 2 ^ 32" using assms bs by (auto simp: tick_ok_def)
  have u: "unat (prof_len t) = length bs" using l(2,3) by (simp add: unsigned_of_nat take_bit_nat_eq_self)
  define i where "i = unat (if drop_bit (prof_shift t) (pc - stext t) < prof_len t then drop_bit (prof_shift t) (pc - stext t) else prof_len t - 1)"
  have "unat (prof_len t - 1) < length bs" using u l(1) by (metis One_nat_def diff_less unat_minus_one unat_eq_zero neq0_conv zero_less_one)
  then have i: "i < length bs" using u by (auto simp: i_def word_less_nat_alt)
  have "sparc_do_profile pc cpu t = Some (t\<lparr>prof_buffer := Some (bs[i := bs ! i + 1])\<rparr>)"
    using False bs i by (simp add: sparc_do_profile_def i_def [symmetric] Let_def)
  moreover have "tick_ok (t\<lparr>prof_buffer := Some (bs[i := bs ! i + 1])\<rparr>)"
    using assms bs by (auto simp: tick_ok_def books_ok_def)
  ultimately show ?thesis using False bs i by (auto simp: profile_hits_def sum_list_upd)
qed

lemma count_ok:
  assumes "cpu < NR_CPUS" "tick_ok t"
  shows "tick_ok (count_nice cpu t)" "tick_ok (count_user cpu t)" "tick_ok (count_system cpu t)"
    "total (count_nice cpu t) = total t + 1" "total (count_user cpu t) = total t + 1" "total (count_system cpu t) = total t + 1"
  using assms sum_upd [OF assms(1)]
  by (simp_all add: tick_ok_def books_ok_def count_nice_def count_user_def count_system_def total_def)

definition charged :: "bool \<Rightarrow> int \<Rightarrow> tick \<Rightarrow> tick \<Rightarrow> bool" where
  "charged user prio t u \<longleftrightarrow> cpu_system u = cpu_system t + of_bool (\<not> user) \<and> cpu_nice u = cpu_nice t + of_bool (user \<and> prio < DEF_PRIORITY)
     \<and> cpu_user u = cpu_user t + of_bool (user \<and> \<not> prio < DEF_PRIORITY)"

lemma account_ok:
  assumes "cpu < NR_CPUS" "tick_ok t" "pid (current t cpu) \<noteq> 0"
  shows "tick_ok (account cpu user t) \<and> total (account cpu user t) = total t + 1 \<and> charged user (priority (current t cpu)) t (account cpu user t)
    \<and> prof_buffer (account cpu user t) = prof_buffer t
    \<and> time_slice (current (account cpu user t) cpu) = max 0 (time_slice (current t cpu) - 1)
    \<and> need_resched (current (account cpu user t) cpu) = (need_resched (current t cpu) \<or> time_slice (current t cpu) = 0)"
proof -
  let ?p = "current t cpu"
  define u where "u = t\<lparr>process_updates := process_updates t @ [(pid ?p, user, cpu)],
      current := (current t)(cpu := ?p\<lparr>time_slice := max 0 (time_slice ?p - 1),
        need_resched := need_resched ?p \<or> time_slice ?p = 0\<rparr>)\<rparr>"
  have s: "0 \<le> time_slice ?p" using assms(2) by (simp add: tick_ok_def)
  have acc: "account cpu user t = (if user then if priority ?p < DEF_PRIORITY then count_nice cpu u else count_user cpu u
      else count_system cpu u)"
    using assms(3) s by (auto simp: account_def upd_current_def u_def Let_def max_def)
  have "tick_ok u" using assms(2) by (auto simp: tick_ok_def books_ok_def u_def)
  then show ?thesis
    using count_ok [OF assms(1), of u] unfolding acc
    by (auto simp: count_nice_def count_user_def count_system_def u_def total_def charged_def)
qed

text \<open>
  C30 (tick_keeps_books): a tick on one of the two CPUs returns, writes inside the profiling buffer, and keeps for each kind of time that the total is the sum over
  the CPUs. A tick at which the CPU's counter runs out adds one to exactly one of the three kinds, unless the CPU is idle (to the system's time for a tick in the kernel, otherwise to the
  user's or, when the process has less than the default priority, to the nice time), takes one from the
  time slice of the process, never below zero, and asks for the scheduler when it was used up; any other tick only profiles. A tick in the kernel adds one to
  the profile, unless the CPU is idle or there is no profile.
\<close>

theorem tick_keeps_books:
  assumes "tick_ok t" "cpu < NR_CPUS" "cpu_ok (uint (mid_xlate s cpu))"
  shows "\<exists>u m'. smp4m_percpu_timer_interrupt s cpu user pc t m = Some (Inr (u, m')) \<and> tick_ok u
    \<and> profile_hits u = profile_hits t + (if \<not> user \<and> prof_buffer t \<noteq> None \<and> pid (current t cpu) \<noteq> 0 then 1 else 0)
    \<and> (if prof_counter t cpu = 1
       then prof_counter u cpu = prof_multiplier t cpu
         \<and> (if pid (current t cpu) = 0 then total u = total t \<and> current u = current t
            else total u = total t + 1 \<and> charged user (priority (current t cpu)) t u \<and> time_slice (current u cpu) = max 0 (time_slice (current t cpu) - 1)
              \<and> need_resched (current u cpu) = (need_resched (current t cpu) \<or> time_slice (current t cpu) = 0))
       else prof_counter u cpu = prof_counter t cpu - 1 \<and> total u = total t \<and> current u = current t)"
proof -
  obtain m' where m': "dino1_clear_profile_irq (uint (mid_xlate s cpu)) m = Inr m'"
    using assms(3) by (simp add: dino1_clear_profile_irq_def)
  define b where "b = (if user then prof_buffer t else prof_buffer (the (sparc_do_profile pc cpu t)))"
  let ?t = "t\<lparr>prof_buffer := b\<rparr>"
  have p: "(if \<not> user then sparc_do_profile pc cpu t else Some t) = Some ?t" "tick_ok ?t"
      "profile_hits ?t = profile_hits t + (if \<not> user \<and> prof_buffer t \<noteq> None \<and> pid (current t cpu) \<noteq> 0 then 1 else 0)"
    using profile_ok [OF assms(1), of pc cpu] assms(1) by (auto simp: b_def profile_hits_def)
  let ?u = "?t\<lparr>prof_counter := (prof_counter t)(cpu := prof_counter t cpu - 1)\<rparr>"
  have u: "tick_ok ?u" "total ?u = total t" "profile_hits ?u = profile_hits ?t"
    using p(2) by (simp_all add: tick_ok_def books_ok_def total_def profile_hits_def)
  show ?thesis
  proof (cases "prof_counter t cpu = 1")
    case False
    then have "prof_counter t cpu - 1 \<noteq> 0" by (simp add: diff_eq_eq)
    with False m' p u show ?thesis by (simp add: smp4m_percpu_timer_interrupt_def Let_def)
  next
    case True
    let ?v = "account cpu user ?u"
    let ?w = "?v\<lparr>prof_counter := (prof_counter ?v)(cpu := prof_multiplier ?v cpu)\<rparr>"
    have w: "smp4m_percpu_timer_interrupt s cpu user pc t m = Some (Inr (?w, m'))"
      using True m' p(1) by (simp add: smp4m_percpu_timer_interrupt_def Let_def)
    have "charged user (priority (current t cpu)) ?u ?v = charged user (priority (current t cpu)) t ?w" by (simp add: charged_def)
    moreover have "tick_ok ?w \<longleftrightarrow> tick_ok ?v" "total ?w = total ?v" "profile_hits ?w = profile_hits ?v" "current ?w = current ?v"
      by (simp_all add: tick_ok_def books_ok_def total_def profile_hits_def)
    moreover have "prof_multiplier ?v = prof_multiplier t"
      by (simp add: account_def count_nice_def count_user_def count_system_def upd_current_def Let_def)
    ultimately show ?thesis
      unfolding w using True u p(3) account_ok [OF assms(2) u(1), of user]
      by (cases "pid (current t cpu) = 0") (auto simp: account_def profile_hits_def)
  qed
qed

definition fresh_tick :: tick where
  "fresh_tick =
     \<lparr>prof_multiplier = (\<lambda>_. 1), prof_counter = (\<lambda>_. 1), prof_buffer = Some [0, 0], prof_shift = 2, prof_len = 2, stext = 0xf0004000,
      current = (\<lambda>_. \<lparr>pid = 7, time_slice = 0, priority = 20, need_resched = False\<rparr>), cpu_nice = 0, cpu_user = 0, cpu_system = 0,
      per_cpu_nice = (\<lambda>_. 0), per_cpu_user = (\<lambda>_. 0), per_cpu_system = (\<lambda>_. 0), process_updates = []\<rparr>"

theorem tick_keeps_books_witness:
  "\<forall>m. \<exists>u m'. smp4m_percpu_timer_interrupt
      \<lparr>cpu_present_map = 3, cpu_number_map = int, cpu_logical_map = int, mid_xlate = of_nat, cpu_next = \<lambda>i. 0,
       cpu_mid = \<lambda>i. 0, smp_activated = True, smp_num_cpus = 2, smp_processors_ready = True, smp_cpu_in_msg = \<lambda>i. 0, smp_events = []\<rparr>
      1 False 0xf0004008 fresh_tick m = Some (Inr (u, m')) \<and> profile_hits u = 1 \<and> total u = 1 \<and> need_resched (current u 1)"
proof
  fix m
  let ?s = "\<lparr>cpu_present_map = 3, cpu_number_map = int, cpu_logical_map = int, mid_xlate = of_nat, cpu_next = \<lambda>i. 0,
       cpu_mid = \<lambda>i. 0, smp_activated = True, smp_num_cpus = 2, smp_processors_ready = True, smp_cpu_in_msg = \<lambda>i. 0, smp_events = []\<rparr>"
  have "tick_ok fresh_tick" "1 < NR_CPUS" "cpu_ok (uint (mid_xlate ?s 1))"
    by (simp_all add: tick_ok_def books_ok_def fresh_tick_def NR_CPUS_def cpu_ok_def)
  from tick_keeps_books [OF this, of False "0xf0004008" m]
  show "\<exists>u m'. smp4m_percpu_timer_interrupt ?s 1 False 0xf0004008 fresh_tick m = Some (Inr (u, m'))
      \<and> profile_hits u = 1 \<and> total u = 1 \<and> need_resched (current u 1)"
    by (auto simp: fresh_tick_def profile_hits_def total_def)
qed

section \<open>A secondary CPU calls in\<close>

text \<open>
  \<^verbatim>\<open>smp4m_callin\<close> up to the point where the boot CPU goes on: the CPU asks for the undirected interrupts to go to the boot CPU, starts its
  timer and marks itself in \<open>callin\<close>, the \<^verbatim>\<open>cpu_callin_map\<close>. What follows, the wait for the scheduler, is in \<open>SmpIdle\<close>.
\<close>

definition smp4m_callin :: "smp_env \<Rightarrow> nat \<Rightarrow> smp \<Rightarrow> tick \<Rightarrow> (nat \<Rightarrow> u32) \<Rightarrow> platform \<Rightarrow> stop + tick \<times> (nat \<Rightarrow> u32) \<times> platform" where
  "smp4m_callin V cpuid s t callin m =
     (let m = dino1_set_udt (uint (mid_xlate s (boot_cpu_id V))) m
      in case smp_setup_percpu_timer V cpuid s (t, m) of
           Inl e \<Rightarrow> Inl e
         | Inr (t, m) \<Rightarrow> Inr (t, callin(cpuid := 1), m))"

text \<open>
  A CPU whose number on the bus is 0 or 1 has its timer loaded before it is marked, and then ticks at every interrupt; any other CPU is stopped by the assertion in
  \<^verbatim>\<open>dino1_load_l14\<close> and never marked, so that the boot CPU takes it for stuck.
\<close>

lemma callin_result:
  assumes "cpuid \<noteq> boot_cpu_id V"
  shows "if cpu_ok (uint (mid_xlate s cpuid))
    then \<exists>t' m' ws. smp4m_callin V cpuid s t callin m = Inr (t', callin(cpuid := 1), m')
      \<and> dino1_load_profile_irq (uint (mid_xlate s cpuid)) (lvl14_resolution m) = Some ws
      \<and> timer_writes m' = timer_writes m @ ws \<and> prof_counter t' cpuid = 1
    else smp4m_callin V cpuid s t callin m = Inl StopAssert"
  using assms
  by (auto simp: smp4m_callin_def smp_setup_percpu_timer_def dino1_load_profile_irq_def dino1_load_l14_def cpu_ok_def
      dino1_set_udt_def add_writes_def Let_def)

end
