(* ===== verification/SmpIdle.thy ===== *)
theory SmpIdle
  imports SmpTick
begin

text \<open>
  The idle threads of the secondary CPUs (\<^verbatim>\<open>arch/sparc/meiko/smp.c\<close>): what \<^verbatim>\<open>smp4m_boot_cpus\<close> prepares for each CPU, and the end of \<^verbatim>\<open>smp4m_callin\<close>, in which the CPU waits
  for its thread and for the scheduler.
\<close>

section \<open>Threads\<close>

text \<open>
  The table of tasks and the current task of each CPU hold the numbers of tasks, 0 for NULL. \<^verbatim>\<open>kernel_thread\<close> is the kernel's: it puts a new
  task into the first free of the \<open>N\<close> slots of the table.
\<close>

record idlers =
  task :: "nat \<Rightarrow> nat"
  current_set :: "nat \<Rightarrow> nat"
  smp_commenced :: bool

definition spawns :: "nat \<Rightarrow> ((nat \<Rightarrow> nat) \<Rightarrow> nat \<Rightarrow> nat) \<Rightarrow> bool" where
  "spawns N kernel_thread \<longleftrightarrow> (\<forall>T. (\<exists>k. 0 < k \<and> k < N \<and> T k = 0) \<longrightarrow>
     (\<exists>k x. kernel_thread T = T(k := x) \<and> 0 < k \<and> k < N \<and> T k = 0 \<and> (\<forall>j. 0 < j \<and> j < k \<longrightarrow> T j \<noteq> 0) \<and> x \<noteq> 0 \<and> (\<forall>j<N. T j \<noteq> x)))"

text \<open>One round of the loop that starts the CPUs, with the thread it makes: \<open>n\<close> is \<^verbatim>\<open>cpucount\<close>.\<close>

definition start_idler ::
    "smp_env \<Rightarrow> ((nat \<Rightarrow> nat) \<Rightarrow> nat \<Rightarrow> nat) \<Rightarrow> nat \<Rightarrow> int \<times> smp \<times> idlers \<Rightarrow> int \<times> smp \<times> idlers" where
  "start_idler V kernel_thread i a = (case a of (n, s, d) \<Rightarrow>
     (let d = (if i \<noteq> boot_cpu_id V \<and> bit (cpu_present_map s) i
               then (let T = kernel_thread (task d) in d\<lparr>task := T, current_set := (current_set d)(i := T (nat (n + 1)))\<rparr>)
               else d);
          (n, s) = start_cpu V i (n, s)
      in (n, s, d)))"

section \<open>The end of the call-in\<close>

text \<open>One look of a CPU at the memory in each of the two loops of \<^verbatim>\<open>smp4m_callin\<close>, and a sequence of looks; \<open>Released\<close> is the CPU with interrupts enabled.\<close>

datatype callin_pc = WaitTask | WaitCommence | Released

definition callin_look :: "nat \<Rightarrow> idlers \<Rightarrow> callin_pc \<Rightarrow> callin_pc" where
  "callin_look cpuid d pc =
     (case pc of
        WaitTask \<Rightarrow> if task d cpuid = 0 \<or> current_set d cpuid \<noteq> task d cpuid then WaitTask else WaitCommence
      | WaitCommence \<Rightarrow> if \<not> smp_commenced d then WaitCommence else Released
      | Released \<Rightarrow> Released)"

definition callin_end :: "nat \<Rightarrow> idlers list \<Rightarrow> callin_pc" where
  "callin_end cpuid ds = fold (callin_look cpuid) ds WaitTask"

lemma wait_commence: "fold (callin_look i) ds WaitCommence = (if \<exists>d \<in> set ds. smp_commenced d then Released else WaitCommence)"
proof -
  have "fold (callin_look i) xs Released = Released" for xs by (induction xs) (simp_all add: callin_look_def)
  then show ?thesis by (induction ds) (auto simp: callin_look_def)
qed

lemma callin_end_iff:
  assumes "\<forall>d \<in> set ds. task d i = t \<and> current_set d i = c"
  shows "callin_end i ds = Released \<longleftrightarrow> t \<noteq> 0 \<and> c = t \<and> (\<exists>d \<in> set (tl ds). smp_commenced d)"
proof (cases "t \<noteq> 0 \<and> c = t")
  case True
  then show ?thesis using assms by (cases ds) (auto simp: callin_end_def callin_look_def wait_commence)
next
  case False
  have "fold (callin_look i) xs WaitTask = WaitTask" if "set xs \<subseteq> set ds" for xs
    using that assms False by (induction xs) (auto simp: callin_look_def)
  with False show ?thesis by (auto simp: callin_end_def)
qed

section \<open>Which CPUs are released\<close>

text \<open>How many CPUs before CPU \<open>i\<close> have answered, and how many threads have been made.\<close>

definition answered :: "smp_env \<Rightarrow> nat \<Rightarrow> nat" where
  "answered V i = length (filter (\<lambda>k. k \<noteq> boot_cpu_id V \<and> cpu_callin V k) [0..<i])"

lemma answered_card: "answered V i = card {k. k < i \<and> k \<noteq> boot_cpu_id V \<and> cpu_callin V k}"
proof -
  have "answered V i = card (set (filter (\<lambda>k. k \<noteq> boot_cpu_id V \<and> cpu_callin V k) [0..<i]))"
    unfolding answered_def by (rule distinct_card [symmetric]) simp
  also have "set (filter (\<lambda>k. k \<noteq> boot_cpu_id V \<and> cpu_callin V k) [0..<i]) = {k. k < i \<and> k \<noteq> boot_cpu_id V \<and> cpu_callin V k}" by auto
  finally show ?thesis .
qed

definition made :: "smp_env \<Rightarrow> nat \<Rightarrow> nat" where
  "made V i = length (filter (\<lambda>k. k \<noteq> boot_cpu_id V \<and> k < linux_num_cpus V) [0..<i])"

definition threads_ok :: "smp_env \<Rightarrow> nat \<Rightarrow> nat \<Rightarrow> idlers \<Rightarrow> bool" where
  "threads_ok V t0 m e \<longleftrightarrow> task e 0 = t0 \<and> (\<forall>j>0. task e j \<noteq> 0 \<longleftrightarrow> j \<le> made V m) \<and> inj_on (task e) {..made V m}
     \<and> (\<forall>i<m. i \<noteq> boot_cpu_id V \<and> i < linux_num_cpus V \<longrightarrow> current_set e i = task e (Suc (answered V i)) \<and> Suc (answered V i) \<le> made V m)"

lemma spawn_slot:
  assumes "spawns N kt" "Suc n < N" "\<forall>j>0. T j \<noteq> 0 \<longleftrightarrow> j \<le> n" "inj_on T {..n}"
  shows "\<exists>x. kt T = T(Suc n := x) \<and> x \<noteq> 0 \<and> inj_on (kt T) {..Suc n}"
proof -
  have "T (Suc n) = 0" using assms(3) by (metis Suc_n_not_le_n zero_less_Suc)
  then obtain k x where k: "kt T = T(k := x)" "0 < k" "T k = 0" "\<forall>j. 0 < j \<and> j < k \<longrightarrow> T j \<noteq> 0" "x \<noteq> 0" "\<forall>j<N. T j \<noteq> x"
  proof -
    have "\<exists>k. 0 < k \<and> k < N \<and> T k = 0" using \<open>T (Suc n) = 0\<close> assms(2) by (intro exI [of _ "Suc n"]) simp
    then have "\<exists>k x. kt T = T(k := x) \<and> 0 < k \<and> k < N \<and> T k = 0 \<and> (\<forall>j. 0 < j \<and> j < k \<longrightarrow> T j \<noteq> 0) \<and> x \<noteq> 0 \<and> (\<forall>j<N. T j \<noteq> x)"
      using assms(1) by (simp add: spawns_def)
    then show ?thesis using that by blast
  qed
  have "k = Suc n"
  proof (rule antisym)
    show "Suc n \<le> k" using assms(3) k(2,3) by (metis not_less_eq_eq)
    show "k \<le> Suc n" using assms(3) k(4) by (metis Suc_n_not_le_n linorder_not_less zero_less_Suc)
  qed
  moreover have "\<forall>j\<le>n. T j \<noteq> x" using k(6) assms(2) by simp
  then have "inj_on (T(Suc n := x)) {..Suc n}" using assms(4) by (auto simp: inj_on_def atMost_Suc)
  ultimately show ?thesis using k(1,5) by auto
qed

lemma made_less: "boot_cpu_id V < linux_num_cpus V \<Longrightarrow> made V m < linux_num_cpus V"
proof -
  assume b: "boot_cpu_id V < linux_num_cpus V"
  have "made V m = card (set (filter (\<lambda>k. k \<noteq> boot_cpu_id V \<and> k < linux_num_cpus V) [0..<m]))"
    unfolding made_def by (rule distinct_card [symmetric]) simp
  also have "\<dots> \<le> card ({..<linux_num_cpus V} - {boot_cpu_id V})" by (rule card_mono) auto
  also have "\<dots> < linux_num_cpus V" using b by simp
  finally show ?thesis .
qed

lemma answered_made: "\<forall>i. cpu_seen V i \<longrightarrow> i < linux_num_cpus V \<Longrightarrow> answered V i \<le> made V i"
  unfolding answered_def made_def by (induction i) (auto simp: cpu_seen_def)

lemma start_idlers_inv:
  assumes kt: "spawns N kt" "linux_num_cpus V < N" and V: "\<forall>i. cpu_seen V i \<longrightarrow> i < linux_num_cpus V" "boot_cpu_id V < linux_num_cpus V"
    and s: "\<forall>i. bit (cpu_present_map s) i \<longleftrightarrow> i < linux_num_cpus V" "mid_xlate s (boot_cpu_id V) = cpu_bus_mid V (boot_cpu_id V) AND NOT 8"
    and d: "\<forall>j>0. task d j = 0"
  shows "\<exists>n t e. fold (start_idler V kt) [0..<m] (0, s, d) = (n, t, e) \<and> fold (start_cpu V) [0..<m] (0, s) = (n, t)
    \<and> threads_ok V (task d 0) m e"
proof (induction m)
  case 0
  then show ?case using d by (auto simp: threads_ok_def made_def inj_on_def)
next
  case (Suc m)
  then obtain n t e where f: "fold (start_idler V kt) [0..<m] (0, s, d) = (n, t, e)" "fold (start_cpu V) [0..<m] (0, s) = (n, t)"
    "threads_ok V (task d 0) m e" by blast
  have nt: "bit (cpu_present_map t) m \<longleftrightarrow> m < linux_num_cpus V" "n = int (answered V m)"
    using start_cpus_inv [OF V s, of m] by (auto simp: f(2) answered_def)
  obtain n' t' where c: "start_cpu V m (n, t) = (n', t')" by fastforce
  define e' where "e' = (if m \<noteq> boot_cpu_id V \<and> m < linux_num_cpus V
    then e\<lparr>task := kt (task e), current_set := (current_set e)(m := kt (task e) (Suc (answered V m)))\<rparr> else e)"
  have "fold (start_idler V kt) [0..<Suc m] (0, s, d) = (n', t', e')"
    using f(1) c nt by (simp add: start_idler_def Let_def e'_def nat_add_distrib)
  moreover have "threads_ok V (task d 0) (Suc m) e'"
  proof (cases "m \<noteq> boot_cpu_id V \<and> m < linux_num_cpus V")
    case True
    then have md: "made V (Suc m) = Suc (made V m)" by (simp add: made_def)
    obtain x where x: "kt (task e) = (task e)(Suc (made V m) := x)" "x \<noteq> 0" "inj_on (kt (task e)) {..Suc (made V m)}"
      using spawn_slot [OF kt(1), of "made V m" "task e"] made_less [OF V(2), of m] kt(2) f(3) by (auto simp: threads_ok_def)
    show ?thesis
      using f(3) x True answered_made [OF V(1), of m] unfolding threads_ok_def md e'_def
      by (auto simp: less_Suc_eq le_Suc_eq)
  next
    case False
    then have "made V (Suc m) = made V m" by (simp add: made_def)
    with False f(3) show ?thesis unfolding threads_ok_def e'_def by (auto simp: less_Suc_eq)
  qed
  ultimately show ?case using f(2) c by simp
qed


text \<open>A table of 64 slots; two CPUs of which the second calls in; the scheduler commences between two looks.\<close>

definition thread64 :: "(nat \<Rightarrow> nat) \<Rightarrow> nat \<Rightarrow> nat" where
  "thread64 T = (case find (\<lambda>k. T k = 0) [1..<64] of None \<Rightarrow> T | Some k \<Rightarrow> T(k := Suc (sum_list (map T [0..<64]))))"

lemma thread64_spawns: "spawns 64 thread64"
  unfolding spawns_def
proof (intro allI impI)
  fix T :: "nat \<Rightarrow> nat"
  assume "\<exists>k. 0 < k \<and> k < 64 \<and> T k = 0"
  then obtain k where k: "find (\<lambda>k. T k = 0) [1..<64] = Some k"
    by (cases "find (\<lambda>k. T k = 0) [1..<64]") (auto simp: find_None_iff)
  then obtain i where i: "i < 63" "k = Suc i" "T k = 0" "\<forall>j<i. T (Suc j) \<noteq> 0"
    by (auto simp: find_Some_iff)
  have "\<forall>j. 0 < j \<and> j < k \<longrightarrow> T j \<noteq> 0" using i(2,4) by (metis Suc_less_eq gr0_implies_Suc)
  moreover have "T j \<noteq> Suc (sum_list (map T [0..<64]))" if "j < 64" for j
    using member_le_sum_list [of "T j" "map T [0..<64]"] that by (auto simp: in_set_conv_nth)
  ultimately show "\<exists>k x. thread64 T = T(k := x) \<and> 0 < k \<and> k < 64 \<and> T k = 0 \<and> (\<forall>j. 0 < j \<and> j < k \<longrightarrow> T j \<noteq> 0) \<and> x \<noteq> 0 \<and> (\<forall>j<64. T j \<noteq> x)"
    using k i by (intro exI [of _ k] exI [of _ "Suc (sum_list (map T [0..<64]))"]) (auto simp: thread64_def)
qed

definition pair_env :: smp_env where
  "pair_env = \<lparr>linux_num_cpus = 2, boot_cpu_id = 0, cpu_bus_mid = of_nat, cpu_callin = (\<lambda>i. i = 1), cpu_late = (\<lambda>i. False)\<rparr>"


end
