(* ===== verification/SparcPatch.thy ===== *)
theory SparcPatch
  imports Prelude
begin

unbundle bit_operations_syntax

text \<open>
  The code that the kernel patches into itself so that it can tell on which CPU it runs (\<^verbatim>\<open>smp4m_blackbox_id\<close> and
  \<^verbatim>\<open>smp4m_blackbox_current\<close> of \<^verbatim>\<open>arch/sparc/meiko/smp.c\<close>), and what that code computes. Only the three instructions that
  are written are decoded; every other word is \<open>Other\<close>.
\<close>

section \<open>Writing the instructions\<close>

text \<open>\<open>code\<close> are the words from \<^verbatim>\<open>addr\<close> on. The register is the one the first word names as its destination.\<close>

definition insn_rd :: "u32 \<Rightarrow> u32" where
  "insn_rd w = w AND 0x3e000000"

definition smp4m_blackbox_id :: "u32 list \<Rightarrow> u32 list" where
  "smp4m_blackbox_id code =
     (let rd = insn_rd (code ! 0); rs1 = drop_bit 11 rd
      in code[0 := 0x81580000 OR rd, 1 := 0x8130200c OR rd OR rs1, 2 := 0x80082003 OR rd OR rs1])"

definition smp4m_blackbox_current :: "u32 list \<Rightarrow> u32 list" where
  "smp4m_blackbox_current code =
     (let rd = insn_rd (code ! 0); rs1 = drop_bit 11 rd
      in code[0 := 0x81580000 OR rd, 2 := 0x8130200a OR rd OR rs1, 4 := 0x8008200c OR rd OR rs1])"

section \<open>Executing them\<close>

text \<open>
  A format 3 instruction has its operation in bits 31-30 and 24-19, the destination in 29-25, the first source in
  18-14, and, when bit 13 is set, a constant in the bits below.
\<close>

datatype insn = RdTbr "5 word" | SrlImm "5 word" nat "5 word" | AndImm "5 word" u32 "5 word" | Other u32

definition field :: "nat \<Rightarrow> nat \<Rightarrow> u32 \<Rightarrow> u32" where
  "field pos n w = take_bit n (drop_bit pos w)"

definition decode_insn :: "u32 \<Rightarrow> insn" where
  "decode_insn w =
     (let op = field 30 2 w; op3 = field 19 6 w; rd = ucast (field 25 5 w); rs1 = ucast (field 14 5 w)
      in if op = 2 \<and> op3 = 0x2b then RdTbr rd
         else if op = 2 \<and> op3 = 0x26 \<and> bit w 13 then SrlImm rs1 (unat (field 0 5 w)) rd
         else if op = 2 \<and> op3 = 0x01 \<and> bit w 13 then AndImm rs1 (signed_take_bit 12 (field 0 13 w)) rd
         else Other w)"

text \<open>Register 0 reads as zero and keeps nothing. \<open>oth\<close> is the effect of the instructions that are not decoded.\<close>

type_synonym regs = "5 word \<Rightarrow> u32"

definition rdreg :: "regs \<Rightarrow> 5 word \<Rightarrow> u32" where
  "rdreg R r = (if r = 0 then 0 else R r)"

definition wrreg :: "5 word \<Rightarrow> u32 \<Rightarrow> regs \<Rightarrow> regs" where
  "wrreg r v R = (if r = 0 then R else R(r := v))"

definition exec_insn :: "(u32 \<Rightarrow> regs \<Rightarrow> regs) \<Rightarrow> u32 \<Rightarrow> insn \<Rightarrow> regs \<Rightarrow> regs" where
  "exec_insn oth tbr i R =
     (case i of
        RdTbr rd \<Rightarrow> wrreg rd tbr R
      | SrlImm rs1 n rd \<Rightarrow> wrreg rd (drop_bit n (rdreg R rs1)) R
      | AndImm rs1 c rd \<Rightarrow> wrreg rd (rdreg R rs1 AND c) R
      | Other w \<Rightarrow> oth w R)"

definition exec_code :: "(u32 \<Rightarrow> regs \<Rightarrow> regs) \<Rightarrow> u32 \<Rightarrow> u32 list \<Rightarrow> regs \<Rightarrow> regs" where
  "exec_code oth tbr code R = fold (exec_insn oth tbr \<circ> decode_insn) code R"

section \<open>What they compute\<close>

text \<open>The number of the destination register of a word, and that the words written carry it in both places.\<close>

definition dest_reg :: "u32 \<Rightarrow> 5 word" where
  "dest_reg w = ucast (field 25 5 w)"

lemma insn_rd_eq: "insn_rd w = push_bit 25 (field 25 5 w)" "drop_bit 11 (insn_rd w) = push_bit 14 (field 25 5 w)"
proof -
  have m: "(0x3e000000 :: u32) = push_bit 25 (mask 5)" by (simp add: mask_eq_exp_minus_1 push_bit_eq_mult)
  show e: "insn_rd w = push_bit 25 (field 25 5 w)"
    unfolding insn_rd_def m by (rule bit_word_eqI) (auto simp: field_def bit_simps)
  show "drop_bit 11 (insn_rd w) = push_bit 14 (field 25 5 w)"
    unfolding e by (rule bit_word_eqI) (auto simp: field_def bit_simps add.commute)
qed

lemma field_or: "field p n (a OR b) = field p n a OR field p n b"
  by (simp add: field_def)

lemma field_rd:
  "field 30 2 (push_bit 25 (field 25 5 w)) = 0" "field 19 6 (push_bit 25 (field 25 5 w)) = 0"
  "field 0 13 (push_bit 25 (field 25 5 w)) = 0" "field 0 5 (push_bit 25 (field 25 5 w)) = 0"
  "field 25 5 (push_bit 25 (field 25 5 w)) = field 25 5 w" "field 14 5 (push_bit 25 (field 25 5 w)) = 0"
  by (rule bit_word_eqI; auto simp: field_def bit_simps; fail)+

lemma field_rs1:
  "field 30 2 (push_bit 14 (field 25 5 w)) = 0" "field 19 6 (push_bit 14 (field 25 5 w)) = 0"
  "field 0 13 (push_bit 14 (field 25 5 w)) = 0" "field 0 5 (push_bit 14 (field 25 5 w)) = 0"
  "field 25 5 (push_bit 14 (field 25 5 w)) = 0" "field 14 5 (push_bit 14 (field 25 5 w)) = field 25 5 w"
  by (rule bit_word_eqI; auto simp: field_def bit_simps; fail)+

lemma no_imm: "\<not> bit (push_bit 25 (field 25 5 w)) 13" "\<not> bit (push_bit 14 (field 25 5 w)) 13"
  by (auto simp: bit_simps)

lemma op_fields:
  "field 30 2 0x81580000 = 2" "field 19 6 0x81580000 = 0x2b" "field 25 5 0x81580000 = 0"
  "field 30 2 0x8130200c = 2" "field 19 6 0x8130200c = 0x26" "field 25 5 0x8130200c = 0" "field 14 5 0x8130200c = 0" "field 0 5 0x8130200c = 12"
  "field 30 2 0x8130200a = 2" "field 19 6 0x8130200a = 0x26" "field 25 5 0x8130200a = 0" "field 14 5 0x8130200a = 0" "field 0 5 0x8130200a = 10"
  "field 30 2 0x80082003 = 2" "field 19 6 0x80082003 = 1" "field 25 5 0x80082003 = 0" "field 14 5 0x80082003 = 0" "field 0 13 0x80082003 = 3"
  "field 30 2 0x8008200c = 2" "field 19 6 0x8008200c = 1" "field 25 5 0x8008200c = 0" "field 14 5 0x8008200c = 0" "field 0 13 0x8008200c = 12"
  by (simp_all add: field_def)

lemma op_imm: "bit (0x8130200c :: u32) 13" "bit (0x8130200a :: u32) 13" "bit (0x80082003 :: u32) 13" "bit (0x8008200c :: u32) 13"
  by simp_all

lemmas patch_fields = field_or field_rd field_rs1 op_fields op_imm no_imm dest_reg_def bit_or_iff

lemma decode_patched:
  "decode_insn (0x81580000 OR insn_rd w) = RdTbr (dest_reg w)"
  "decode_insn (0x8130200c OR insn_rd w OR drop_bit 11 (insn_rd w)) = SrlImm (dest_reg w) 12 (dest_reg w)"
  "decode_insn (0x8130200a OR insn_rd w OR drop_bit 11 (insn_rd w)) = SrlImm (dest_reg w) 10 (dest_reg w)"
  "decode_insn (0x80082003 OR insn_rd w OR drop_bit 11 (insn_rd w)) = AndImm (dest_reg w) 3 (dest_reg w)"
  "decode_insn (0x8008200c OR insn_rd w OR drop_bit 11 (insn_rd w)) = AndImm (dest_reg w) 12 (dest_reg w)"
proof -
  have "signed_take_bit 12 (3 :: u32) = 3" "signed_take_bit 12 (12 :: u32) = 12" by simp_all
  then show
    "decode_insn (0x81580000 OR insn_rd w) = RdTbr (dest_reg w)"
    "decode_insn (0x8130200c OR insn_rd w OR drop_bit 11 (insn_rd w)) = SrlImm (dest_reg w) 12 (dest_reg w)"
    "decode_insn (0x8130200a OR insn_rd w OR drop_bit 11 (insn_rd w)) = SrlImm (dest_reg w) 10 (dest_reg w)"
    "decode_insn (0x80082003 OR insn_rd w OR drop_bit 11 (insn_rd w)) = AndImm (dest_reg w) 3 (dest_reg w)"
    "decode_insn (0x8008200c OR insn_rd w OR drop_bit 11 (insn_rd w)) = AndImm (dest_reg w) 12 (dest_reg w)"
    unfolding insn_rd_eq(2) unfolding insn_rd_eq(1) by (simp_all add: decode_insn_def Let_def patch_fields)
qed

text \<open>
  C31 (patched_cpu_number): whatever word stood first, the three instructions that \<^verbatim>\<open>smp4m_blackbox_id\<close> writes put bits 13-12 of the trap base register, the
  number of the CPU, into the register that word was to load, and change no other register. Those of
  \<^verbatim>\<open>smp4m_blackbox_current\<close>, with instructions between them that leave that register alone, put four times that number there: the offset of the CPU's
  entry in a table of pointers. The code patched is at least five words long and its first word loads a register other than \<^verbatim>\<open>%g0\<close>.
\<close>

theorem patched_cpu_number:
  assumes "5 \<le> length code" "d = dest_reg (code ! 0)" "d \<noteq> 0"
    and "\<And>R. exec_insn oth tbr (decode_insn (code ! 1)) R d = R d" "\<And>R. exec_insn oth tbr (decode_insn (code ! 3)) R d = R d"
  shows "exec_code oth tbr (take 3 (smp4m_blackbox_id code)) R = R(d := drop_bit 12 tbr AND 3)
    \<and> drop 3 (smp4m_blackbox_id code) = drop 3 code
    \<and> exec_code oth tbr (take 5 (smp4m_blackbox_current code)) R d = 4 * (drop_bit 12 tbr AND 3)"
proof -
  obtain c0 c1 c2 c3 c4 cs where c: "code = c0 # c1 # c2 # c3 # c4 # cs"
    using assms(1) by (auto simp: Suc_le_length_iff eval_nat_numeral)
  have d: "d = dest_reg c0" using assms(2) by (simp add: c)
  have n: "drop_bit 10 tbr AND 12 = 4 * (drop_bit 12 tbr AND 3)"
  proof -
    have "(12 :: u32) = push_bit 2 (mask 2)" "(3 :: u32) = mask 2" by (simp_all add: mask_eq_exp_minus_1 push_bit_eq_mult)
    moreover have "drop_bit 10 tbr AND push_bit 2 (mask 2) = push_bit 2 (drop_bit 12 tbr AND mask 2)"
      by (rule bit_word_eqI) (auto simp: bit_simps)
    ultimately show ?thesis by (simp add: push_bit_eq_mult mult.commute)
  qed
  show ?thesis
    using assms(3-5) n
    by (simp add: c d smp4m_blackbox_id_def smp4m_blackbox_current_def exec_code_def decode_patched exec_insn_def [of _ _ "RdTbr _"]
        exec_insn_def [of _ _ "SrlImm _ _ _"] exec_insn_def [of _ _ "AndImm _ _ _"] wrreg_def rdreg_def Let_def fun_eq_iff)
qed

theorem patched_cpu_number_witness:
  "exec_code (\<lambda>w R. R) 0xf0042000 (take 3 (smp4m_blackbox_id [0x09000000, 0, 0, 0, 0])) (\<lambda>r. 7) = (\<lambda>r. 7)(4 := 2)"
proof -
  have d: "dest_reg ([0x09000000, 0, 0, 0, 0] ! 0) = 4" by (simp add: dest_reg_def field_def)
  have "decode_insn 0 = Other 0" by (simp add: decode_insn_def field_def)
  then show ?thesis
    using patched_cpu_number [where code = "[0x09000000, 0, 0, 0, 0]" and d = 4 and oth = "\<lambda>w R. R" and tbr = "0xf0042000"
        and R = "\<lambda>r. 7"] d by (simp add: exec_insn_def)
qed

end
