(* ===== verification/Spec2Isabelle.thy ===== *)
theory Spec2Isabelle
  imports RingConc CanFiles CanChip CanTty CanObjects CanSource CanTask BusPeer UserLib CanconNet CanconThreads Options Commands Tools TestProgs
    Iommu IommuTable Bargraph Clock Irq IrqName PromRegs CrossCall Smp SmpTick SmpIdle SparcPatch
begin

text \<open>
  Verification of the Linux port to the Meiko CS/2 (\<^verbatim>\<open>src/kernel\<close>, \<^verbatim>\<open>src/cmd\<close>): the driver of the CAN bus that
  connects the nodes of the machine, the programs that use it, and the support code for the
  node's own hardware.

  \<^bold>\<open>The program.\<close> Every node has a CAN controller. The kernel driver (\<^verbatim>\<open>drivers/meiko/can_main.c\<close>) moves packets
  between the controller, two ring buffers and the open files of \<^verbatim>\<open>/dev/can\<close>; its bottom half gives every
  received packet to the files that want it and to the objects of the node (\<^verbatim>\<open>can_obj.c\<close>), which answer
  requests: connect a console, test, heartbeat, boot options kept in the PROM (\<^verbatim>\<open>obp.h\<close>). The console (\<^verbatim>\<open>can_console.c\<close>)
  is a tty and a printk device that sends characters to whoever is connected, one packet at a
  time, each acknowledged. On the user side the library \<^verbatim>\<open>cmd/can.c\<close> sends requests and waits for answers;
  \<^verbatim>\<open>cancon\<close> is the terminal program at the other end of a console, \<^verbatim>\<open>canctrl\<close> and \<^verbatim>\<open>canping\<close> make single
  transactions, \<^verbatim>\<open>cansnoop\<close> prints the traffic, \<^verbatim>\<open>canhb\<close>, \<^verbatim>\<open>candebug\<close> and \<^verbatim>\<open>canwhack\<close> set the driver through its \<^verbatim>\<open>ioctl\<close>,
  \<^verbatim>\<open>testled\<close> and \<^verbatim>\<open>testclock\<close> exercise the lights and the clock. The rest of the port drives the lights (\<^verbatim>\<open>bargraph.c\<close>), the Elan clock (\<^verbatim>\<open>elan.c\<close>, \<^verbatim>\<open>elan.h\<close>), the timers
  and the time of day (\<^verbatim>\<open>timer.c\<close>), the interrupt controllers (\<^verbatim>\<open>irq.c\<close>), the two CPUs (\<^verbatim>\<open>smp.c\<close>) and the
  IOMMU (\<^verbatim>\<open>iommu.c\<close>).

  \<^bold>\<open>Theories.\<close>

  \<^item> \<open>Prelude\<close>: machine types, error numbers, circular indices, words.
  \<^item> \<open>Packet\<close> (\<^verbatim>\<open>can.h\<close>): headers as records of words of the width of each bit field, the byte views, addresses.
  \<^item> \<open>Ring\<close> (the \<^verbatim>\<open>RING_*\<close> macros and ring functions): arrays with head and tail, as in the code; a locale for
    bounded queues, interpreted for packets and characters; refinement of a list. \<open>RingConc\<close>: the same functions
    as interleaved memory accesses of a producer and a consumer without locks.
  \<^item> \<open>Obp\<close> (\<^verbatim>\<open>obp.h\<close>): PROM paths, properties and option tables over a parameter for the PROM calls.
  \<^item> \<open>CanDev\<close>, \<open>CanConsole\<close>, \<open>CanObj\<close>, \<open>CanMain\<close> (\<^verbatim>\<open>can_main.c\<close>, \<^verbatim>\<open>can_console.c\<close>, \<^verbatim>\<open>can_obj.c\<close>): the driver. The state is one record,
    extended from file to file; every function is a definition on it that returns its result and the new
    state. Registers of the chip are read and written through an environment of functions. Calls into the
    kernel that only have an effect outside (printk, wake-ups, timers) are events in the state.
  \<^item> \<open>CanInv\<close>, \<open>CanStep\<close>, \<open>CanBh\<close>: the invariant of the driver with its preservation by every operation (\<open>CanInv\<close>),
    the operations as a step relation with reachability (\<open>CanStep\<close>), and the measure that ends the bottom half
    (\<open>CanBh\<close>). \<open>Example\<close>: concrete states for the witnesses.
  \<^item> \<open>CanFiles\<close>, \<open>CanChip\<close>, \<open>CanTty\<close>, \<open>CanObjects\<close>: the properties of files, of the chip, of the console, of the objects.
    \<open>CanSource\<close>: a contract for properties of the whole driver that do not depend on its files, interpreted for the source addresses
    of packets and, in \<open>CanTask\<close>, for the requests for the bottom half, with the task structure and the kernel's queue of tasks.
  \<^item> \<open>Network\<close>: several nodes, each a driver with its chip, which buffers two received packets, on one bus; what a program reads when another node answers. \<open>BusPeer\<close>: whole
    sessions of requests across the bus, which refine the node that answers at once, as \<open>CanconNet\<close> and \<open>Commands\<close> use it.
  \<^item> \<open>UserLib\<close> (\<^verbatim>\<open>cmd/can.c\<close>): system calls are a parameter over any world; a failed assertion, an exit, and an access
    outside a buffer are errors.
  \<^item> \<open>Cancon\<close> (\<^verbatim>\<open>cmd/cancon.c\<close>): each function and one round of each thread; what the other threads do while
    one waits is the environment's. \<open>CanconNet\<close>: the program against a node, through a locale for the laws of
    the console objects, interpreted by the driver. \<open>CanconThreads\<close>: \<^verbatim>\<open>main\<close>, the terminal modes and the process with its
    two threads and its signals as a step relation.
  \<^item> \<open>Options\<close>: \<^verbatim>\<open>getopt\<close>, \<^verbatim>\<open>atoi\<close> and \<^verbatim>\<open>sscanf\<close> as the commands use them. \<open>Commands\<close> (\<^verbatim>\<open>canctrl.c\<close>, \<^verbatim>\<open>canping.c\<close>): the two commands
    against the test object. \<open>Tools\<close> (\<^verbatim>\<open>canhb.c\<close>, \<^verbatim>\<open>candebug.c\<close>, \<^verbatim>\<open>canwhack.c\<close>, \<^verbatim>\<open>cansnoop.c\<close>): the commands over locales for what
    they rely on of \<^verbatim>\<open>/dev/can\<close>, interpreted by the driver's own file operations. \<open>TestProgs\<close> (\<^verbatim>\<open>testled.c\<close>, \<^verbatim>\<open>testclock.c\<close>).
  \<^item> \<open>Iommu\<close> (\<^verbatim>\<open>iommu.c\<close>, \<^verbatim>\<open>iommu.h\<close>): the page table as a list of 32-bit entries, the allocator, scatter lists, DMA areas.
    \<open>IommuTable\<close>: the kinds of page table entries, kept by every operation.
  \<^item> \<open>Bargraph\<close> (\<^verbatim>\<open>bargraph.c\<close>), \<open>Clock\<close> (\<^verbatim>\<open>elan.h\<close>, \<^verbatim>\<open>elan.c\<close>, \<^verbatim>\<open>timer.c\<close>), \<open>Irq\<close> (\<^verbatim>\<open>irq.c\<close>, start of the timers).
    \<open>IrqName\<close>: the name of an interrupt, which reads back as its number.
    \<open>PromRegs\<close>: the PROM's registers and ranges, the mapping of the devices, the trap table, and the start of
    interrupts and timers on them.
  \<^item> \<open>CrossCall\<close>, \<open>Smp\<close> (\<^verbatim>\<open>smp.c\<close>): cross calls as interleavings over a locale for the interrupt controller, which
    \<open>Irq\<close> interprets; the start of the CPUs, the ring for interrupts, messages.
    \<open>SmpTick\<close>: the tick of each CPU with its accounting and profiling, and the start of a CPU until it answers.
    \<open>SmpIdle\<close>: the threads made for the CPUs, and the wait of a CPU for its thread and for the scheduler.
    \<open>SparcPatch\<close>: the instructions that replace the reading of the CPU's number, and what they compute.

  \<^bold>\<open>What is shown.\<close> Driver: the invariant in every reachable state; the rings refine lists; the bottom half ends, and is queued whenever a packet waits for it; packets on the bus
  have the address of the node that sent them; sequences of requests written on one node are answered by the objects of another across the bus as by a node that answers at once; packets
  written by one file reach the files of the same node and the chip, in order and once; the chip's filter accepts
  what the driver means to accept; console object numbers have one owner; connections change only as the objects
  say and survive a reboot; the console refines a stop-and-wait sender that keeps order. User side: requests get
  their own answers; the console program connects, steals and disconnects as intended against the real
  driver, and what is typed arrives as far as the node's buffer has room; a send gives up after its retries; in every
  interleaving of its threads a console session can end, but only by a signal, which finds the
  terminal in raw mode while its thread runs; \<^verbatim>\<open>cansnoop\<close> prints the packets of its queue in order; \<^verbatim>\<open>canhb\<close> shows what it set. Node: the IOMMU allocator refines a
  set of pages, devices reach the memory they were given, scatter lists and DMA areas are mapped and released
  exactly, and every entry of the table stays of one of three kinds; every driver maps the first range of registers that the PROM
  lists for its device, and missing ones stop the start of interrupts and timers but are not noticed by the drivers of the CAN bus and of the lights; the interrupt controllers refine sets of levels; a cross call runs once on each CPU and
  returns in every interleaving; the CPUs that answer, be it late, form one ring, and which of them leave their start is decided exactly; the books of the ticks
  add up; the patched instructions yield the number of the CPU; the time of day is exact
  between ticks; the lights have one owner. Several theorems record where the code does
  something else than its authors say: the lock-free use of the rings with two producers, the
  test for a connected console, the fifth try of a theft, the data of \<^verbatim>\<open>canctrl\<close>, an area across
  a page boundary, the message that stops a CPU, the CPU that waits for a thread in another slot.

  \<^bold>\<open>Bounds and fuel.\<close> Loops that the code bounds are structural recursions or have a measure. Fuel is used in
  five places. The bottom half (\<open>can_bh\<close>) runs with 4093 rounds, one more than four for each of the 1023
  packets a ring can hold; \<open>CanBh\<close> shows that the weight of the queued packets, at most that, falls
  with each round. The transmit and receive loops of the chip are bounded by the ring. The waits of the user
  programs (\<open>can_recv_ack\<close>, \<open>waitfor_acknak\<close>) take a bound on the packets they look at; the theorems say which
  bound is enough. The search of the IOMMU looks at 8192 pages, all there are, and once past them.
  The commands that run until a signal (\<^verbatim>\<open>cansnoop\<close>, \<^verbatim>\<open>testled\<close>) take the number of rounds that are looked at, and
  the theorems hold for every number.
  Integers are words where the code can wrap around, unbounded where a bound is part of the invariant. The counts of users and of
  requests for promiscuous mode in \<^verbatim>\<open>can_main.c\<close> are unbounded here and of type \<^verbatim>\<open>int\<close> in the code; the latter has no bound of its own, and no property depends on its size.

  \<^bold>\<open>Hardware.\<close> What a property relies on of a device is a named predicate with an instance: \<open>mode_regs\<close> (the control and acceptance registers of the CAN chip, of which the latter can be
  written only in reset), \<open>rx_fifo\<close> (its receive side), \<open>data_regs\<close> (its data registers), \<open>bus_laws\<close> (chip and bus: transmission, the filter, two packets of receive buffer). In \<open>CrossCall\<close> the interrupt is posted to the
  number that \<^verbatim>\<open>mid_xlate\<close> gives, and a number the controller does not have stops the kernel; in \<open>Smp\<close> a CPU may call in between the two looks of the boot CPU.

  \<^bold>\<open>Not modelled.\<close> What remains is not operations of the program. The tables in which \<^verbatim>\<open>irq.c\<close>, \<^verbatim>\<open>timer.c\<close> and \<^verbatim>\<open>smp.c\<close> name
  their routines for the kernel (\<^verbatim>\<open>BTFIXUPSET_CALL\<close>), and the structures \<^verbatim>\<open>file_operations\<close>, \<^verbatim>\<open>miscdevice\<close> and \<^verbatim>\<open>console\<close>, only name functions that
  are modelled; the two sequences of instructions among them are in \<open>SparcPatch\<close>. Cache and TLB flushes and the memory map of an idle thread have no effect on
  the modelled state. Spin locks are disabled in the sources where they would matter, which \<open>RingConc\<close> takes up. The
  call of the console by \<^verbatim>\<open>printk\<close> while the driver itself prints is a step of its own. The printing of
  floating point numbers is modelled to the integers they are computed from. The page tables of the CPU, the
  PROM's calls, \<^verbatim>\<open>sparc_alloc_io\<close>, \<^verbatim>\<open>kernel_thread\<close>, the queue of tasks, the bus and the terminal are not in the repository and are
  parameters.
\<close>

end
